(* ===== verification/Prelude.thy ===== *)
theory Prelude
  imports Main "HOL-Library.List_Lexorder" "HOL-Library.Sublist"
begin

text \<open>
  Shared vocabulary of the development: the unsigned 64-bit integers of the sources with their
  saturating and checked operations, Rust strings as lists of Unicode scalar values, the two
  dictionaries the sources use (the ordered \<open>BTreeMap\<close> and the insertion-ordered \<open>IndexMap\<close>) as
  association lists behind one interface, and the generic facts the component theories share.
\<close>

named_theorems sat_simps \<open>unfolding of the saturating and checked integer operations\<close>
named_theorems map_simps \<open>lookup equations of the dictionary operations\<close>

section \<open>Results\<close>

type_synonym ('e, 'a) result = "'e + 'a"

fun is_ok :: "('e, 'a) result \<Rightarrow> bool" where
  "is_ok (Inl e) = False"
| "is_ok (Inr x) = True"

section \<open>Unsigned 64-bit integers\<close>

text \<open>
  A \<open>u64\<close> or \<open>usize\<close> value (all supported targets are 64-bit) is a natural number below
  \<open>2 ^ 64\<close>; the operations that could leave that range are the ones below.
\<close>

type_synonym u64 = nat

definition u64_max :: u64 where
  "u64_max = 2 ^ 64 - 1"

definition sat_add :: "u64 \<Rightarrow> u64 \<Rightarrow> u64" where
  "sat_add a b = min (a + b) u64_max"

definition sat_sub :: "u64 \<Rightarrow> u64 \<Rightarrow> u64" where
  "sat_sub a b = a - b"

definition checked_add :: "u64 \<Rightarrow> u64 \<Rightarrow> u64 option" where
  "checked_add a b = (if a + b \<le> u64_max then Some (a + b) else None)"

definition checked_mul :: "u64 \<Rightarrow> u64 \<Rightarrow> u64 option" where
  "checked_mul a b = (if a * b \<le> u64_max then Some (a * b) else None)"

lemmas [sat_simps] = sat_add_def sat_sub_def checked_add_def checked_mul_def

lemma Suc_0_le_u64_max [simp]: "Suc 0 \<le> u64_max"
  by (simp add: u64_max_def)

lemma sat_add_le_max [simp, intro]: "sat_add a b \<le> u64_max"
  by (simp add: sat_add_def)

lemma sat_add_exact: "a + b \<le> u64_max \<Longrightarrow> sat_add a b = a + b"
  by (simp add: sat_add_def)

lemma sat_add_mono: "a \<le> a' \<Longrightarrow> b \<le> b' \<Longrightarrow> sat_add a b \<le> sat_add a' b'"
  by (auto simp: sat_add_def)

lemma sat_add_ge: "a \<le> u64_max \<Longrightarrow> a \<le> sat_add a b"
  by (simp add: sat_add_def)

lemma sat_sub_zero_iff: "sat_sub a b = 0 \<longleftrightarrow> a \<le> b"
  by (simp add: sat_sub_def)

lemma sat_add_sub_cancel: "a + b \<le> u64_max \<Longrightarrow> sat_sub (sat_add a b) b = a"
  by (simp add: sat_add_def sat_sub_def)

lemma u64_max_numeral [simp]: "1 \<le> u64_max" "0 < u64_max"
  by (simp_all add: u64_max_def)

section \<open>Strings\<close>

text \<open>
  A Rust \<open>str\<close> is a sequence of Unicode scalar values. The model keeps the scalar values, as
  natural numbers; comparing two such lists lexicographically orders them exactly as the byte
  order of their UTF-8 encodings does, which is the order \<open>BTreeMap\<close> and \<open>sort\<close> use.
  \<open>lit\<close> turns an ASCII literal into a string.
\<close>

type_synonym str = "nat list"

definition lit :: "string \<Rightarrow> str" where
  "lit s = map of_char s"

lemma lit_Nil [simp]: "lit [] = []"
  by (simp add: lit_def)

lemma lit_Cons [simp]: "lit (c # cs) = of_char c # lit cs"
  by (simp add: lit_def)

text \<open>The \<open>White_Space\<close> property of Unicode, which \<open>char::is_whitespace\<close> tests.\<close>

definition is_whitespace :: "nat \<Rightarrow> bool" where
  "is_whitespace c \<longleftrightarrow>
     (9 \<le> c \<and> c \<le> 13) \<or> c = 32 \<or> c = 133 \<or> c = 160 \<or> c = 5760 \<or> (8192 \<le> c \<and> c \<le> 8202) \<or>
     c = 8232 \<or> c = 8233 \<or> c = 8239 \<or> c = 8287 \<or> c = 12288"

definition trim_start :: "str \<Rightarrow> str" where
  "trim_start s = dropWhile is_whitespace s"

definition trim :: "str \<Rightarrow> str" where
  "trim s = rev (dropWhile is_whitespace (rev (dropWhile is_whitespace s)))"

definition to_ascii_lowercase :: "str \<Rightarrow> str" where
  "to_ascii_lowercase s = map (\<lambda>c. if 65 \<le> c \<and> c \<le> 90 then c + 32 else c) s"

definition is_ascii_digit :: "nat \<Rightarrow> bool" where
  "is_ascii_digit c \<longleftrightarrow> 48 \<le> c \<and> c \<le> 57"

definition len_utf8 :: "nat \<Rightarrow> nat" where
  "len_utf8 c = (if c < 128 then 1 else if c < 2048 then 2 else if c < 65536 then 3 else 4)"

definition str_len :: "str \<Rightarrow> nat" where
  "str_len s = sum_list (map len_utf8 s)"

lemma dropWhile_Nil_iff: "dropWhile P xs = [] \<longleftrightarrow> (\<forall>x\<in>set xs. P x)"
  by (induction xs) auto

lemma trim_Nil_iff: "trim s = [] \<longleftrightarrow> (\<forall>c\<in>set s. is_whitespace c)"
proof
  assume "trim s = []"
  then have "\<forall>c\<in>set (dropWhile is_whitespace s). is_whitespace c"
    by (simp add: trim_def dropWhile_Nil_iff)
  moreover have "\<forall>c\<in>set (takeWhile is_whitespace s). is_whitespace c"
    by (auto dest: set_takeWhileD)
  ultimately have "\<forall>c\<in>set (takeWhile is_whitespace s @ dropWhile is_whitespace s). is_whitespace c"
    by (simp only: set_append) blast
  then show "\<forall>c\<in>set s. is_whitespace c"
    by (simp only: takeWhile_dropWhile_id)
next
  assume "\<forall>c\<in>set s. is_whitespace c"
  then show "trim s = []"
    by (auto simp: trim_def dest: set_dropWhileD)
qed

lemma trim_id: "s = [] \<or> (\<not> is_whitespace (hd s) \<and> \<not> is_whitespace (last s)) \<Longrightarrow> trim s = s"
proof (elim disjE conjE)
  assume *: "\<not> is_whitespace (hd s)" "\<not> is_whitespace (last s)"
  show ?thesis
  proof (cases "s = []")
    case False
    with * have "dropWhile is_whitespace s = s" "dropWhile is_whitespace (rev s) = rev s"
      by (auto simp: dropWhile_eq_self_iff hd_rev)
    then show ?thesis by (simp add: trim_def)
  qed (simp add: trim_def)
qed (simp add: trim_def)

section \<open>Dictionaries\<close>

text \<open>
  The contract a keyed store gives its clients: what a lookup returns after an insertion or a
  removal, and that both keep the store's own well-formedness.
\<close>

locale keyed_store =
  fixes empty :: "'m"
    and lookup :: "'m \<Rightarrow> 'k \<Rightarrow> 'v option"
    and insert_kv :: "'k \<Rightarrow> 'v \<Rightarrow> 'm \<Rightarrow> 'm"
    and remove_k :: "'k \<Rightarrow> 'm \<Rightarrow> 'm"
    and wf :: "'m \<Rightarrow> bool"
  assumes lookup_empty: "lookup empty k = None"
    and lookup_insert: "wf m \<Longrightarrow> lookup (insert_kv k v m) k' = (if k' = k then Some v else lookup m k')"
    and lookup_remove: "wf m \<Longrightarrow> lookup (remove_k k m) k' = (if k' = k then None else lookup m k')"
    and wf_empty: "wf empty"
    and wf_insert: "wf m \<Longrightarrow> wf (insert_kv k v m)"
    and wf_remove: "wf m \<Longrightarrow> wf (remove_k k m)"
begin

definition entry_or :: "'v \<Rightarrow> ('v \<Rightarrow> 'v) \<Rightarrow> 'k \<Rightarrow> 'm \<Rightarrow> 'm" where
  "entry_or d f k m = insert_kv k (f (case lookup m k of None \<Rightarrow> d | Some v \<Rightarrow> v)) m"

lemma lookup_entry_same:
  "wf m \<Longrightarrow> lookup (entry_or d f k m) k = Some (f (case lookup m k of None \<Rightarrow> d | Some v \<Rightarrow> v))"
  by (simp add: entry_or_def lookup_insert)

lemma lookup_entry_other: "wf m \<Longrightarrow> k' \<noteq> k \<Longrightarrow> lookup (entry_or d f k m) k' = lookup m k'"
  by (simp add: entry_or_def lookup_insert)

lemma insert_remove: "wf m \<Longrightarrow> lookup (insert_kv k v (remove_k k m)) k' = lookup (insert_kv k v m) k'"
  by (simp add: lookup_insert lookup_remove wf_remove)

end

subsection \<open>The insertion-ordered map (\<open>IndexMap\<close>)\<close>

text \<open>
  \<open>shift_remove\<close> deletes the entry and keeps the order of the rest; \<open>insert\<close> overwrites an
  existing key in place and appends a new key at the end.
\<close>

definition shift_remove :: "'k \<Rightarrow> ('k \<times> 'v) list \<Rightarrow> ('k \<times> 'v) list" where
  "shift_remove k m = filter (\<lambda>p. fst p \<noteq> k) m"

lemma set_shift_remove: "set (shift_remove k m) \<subseteq> set m"
  by (auto simp: shift_remove_def)

fun ix_insert :: "'k \<Rightarrow> 'v \<Rightarrow> ('k \<times> 'v) list \<Rightarrow> ('k \<times> 'v) list" where
  "ix_insert k v [] = [(k, v)]"
| "ix_insert k v ((k', v') # m) = (if k' = k then (k, v) # m else (k', v') # ix_insert k v m)"

definition distinct_keys :: "('k \<times> 'v) list \<Rightarrow> bool" where
  "distinct_keys m \<longleftrightarrow> distinct (map fst m)"

lemma set_keys_ix_insert: "set (map fst (ix_insert k v m)) = insert k (set (map fst m))"
  by (induction k v m rule: ix_insert.induct) auto

lemma map_of_ix_insert: "map_of (ix_insert k v m) k' = (if k' = k then Some v else map_of m k')"
  by (induction k v m rule: ix_insert.induct) auto

lemma map_of_shift_remove: "map_of (shift_remove k m) k' = (if k' = k then None else map_of m k')"
  by (induction m) (auto simp: shift_remove_def)

lemma distinct_keys_ix_insert: "distinct_keys m \<Longrightarrow> distinct_keys (ix_insert k v m)"
  unfolding distinct_keys_def
proof (induction k v m rule: ix_insert.induct)
  case (2 k v k' v' m)
  then show ?case using set_keys_ix_insert [of k v m] by auto
qed simp

lemma distinct_keys_shift_remove: "distinct_keys m \<Longrightarrow> distinct_keys (shift_remove k m)"
  by (simp add: distinct_keys_def shift_remove_def distinct_map_filter)

lemma ix_insert_fresh: "k \<notin> fst ` set m \<Longrightarrow> ix_insert k v m = m @ [(k, v)]"
  by (induction k v m rule: ix_insert.induct) auto

lemma shift_remove_keys: "k \<notin> fst ` set (shift_remove k m)"
  by (auto simp: shift_remove_def)

interpretation index_map: keyed_store "[]" map_of ix_insert shift_remove distinct_keys
  by unfold_locales
    (simp_all add: map_of_ix_insert map_of_shift_remove distinct_keys_ix_insert
      distinct_keys_shift_remove, simp add: distinct_keys_def)

subsection \<open>The ordered map (\<open>BTreeMap\<close>)\<close>

text \<open>Entries in ascending key order; iteration is the list itself, \<open>pop_first\<close> its tail.\<close>

fun bt_insert :: "'k::linorder \<Rightarrow> 'v \<Rightarrow> ('k \<times> 'v) list \<Rightarrow> ('k \<times> 'v) list" where
  "bt_insert k v [] = [(k, v)]"
| "bt_insert k v ((k', v') # m) =
     (if k < k' then (k, v) # (k', v') # m
      else if k = k' then (k, v) # m
      else (k', v') # bt_insert k v m)"

definition sorted_keys :: "('k::linorder \<times> 'v) list \<Rightarrow> bool" where
  "sorted_keys m \<longleftrightarrow> sorted_wrt (<) (map fst m)"

lemma sorted_keys_simps [simp]:
  "sorted_keys []"
  "sorted_keys ((k, v) # m) \<longleftrightarrow> (\<forall>k'\<in>fst ` set m. k < k') \<and> sorted_keys m"
  by (auto simp: sorted_keys_def)

lemma set_bt_insert: "set (bt_insert k v m) \<subseteq> insert (k, v) (set m)"
  by (induction k v m rule: bt_insert.induct) auto

lemma keys_bt_insert: "fst ` set (bt_insert k v m) = insert k (fst ` set m)"
  by (induction k v m rule: bt_insert.induct) auto

lemma sorted_keys_bt_insert: "sorted_keys m \<Longrightarrow> sorted_keys (bt_insert k v m)"
proof (induction k v m rule: bt_insert.induct)
  case (2 k v k' v' m)
  then show ?case
    by (auto simp: keys_bt_insert ball_Un dest: order.strict_trans)
qed simp

lemma map_of_bt_insert:
  "map_of (bt_insert k v m) x = (if x = k then Some v else map_of m x)"
  by (induction k v m rule: bt_insert.induct) auto

lemma length_bt_insert: "sorted_keys m \<Longrightarrow> length (bt_insert k v m) = (if k \<in> fst ` set m then length m else Suc (length m))"
  by (induction k v m rule: bt_insert.induct) force+

lemma sorted_keys_filter: "sorted_keys m \<Longrightarrow> sorted_keys (filter P m)"
  by (induction m) auto

lemma sorted_keys_shift_remove: "sorted_keys m \<Longrightarrow> sorted_keys (shift_remove k m)"
  by (simp add: shift_remove_def sorted_keys_filter)

lemma sorted_keys_distinct: "sorted_keys m \<Longrightarrow> distinct_keys m"
  unfolding sorted_keys_def distinct_keys_def
  by (simp add: strict_sorted_iff)

interpretation btree_map: keyed_store "[]" map_of bt_insert shift_remove sorted_keys
  by unfold_locales
    (simp_all add: map_of_bt_insert map_of_shift_remove sorted_keys_bt_insert
      sorted_keys_shift_remove)

abbreviation bt_entry :: "'v \<Rightarrow> ('v \<Rightarrow> 'v) \<Rightarrow> 'k::linorder \<Rightarrow> ('k \<times> 'v) list \<Rightarrow> ('k \<times> 'v) list" where
  "bt_entry d f k m \<equiv> bt_insert k (f (case map_of m k of None \<Rightarrow> d | Some v \<Rightarrow> v)) m"

text \<open>Dropping from the front of an ordered map drops its least keys.\<close>

lemma sorted_keys_drop: "sorted_keys m \<Longrightarrow> sorted_keys (drop n m)"
  by (simp add: sorted_keys_def drop_map [symmetric] sorted_wrt_drop)

lemma map_of_Some_in_keys: "map_of m k = Some v \<Longrightarrow> k \<in> fst ` set m"
  by (metis domI dom_map_of_conv_image_fst)

lemma append_less_append:
  "length xs = length ys \<Longrightarrow>
   (xs @ us < ys @ (vs :: 'a::order list)) \<longleftrightarrow> xs < ys \<or> (xs = ys \<and> us < vs)"
  by (induction xs ys rule: list_induct2) auto

lemma sum_list_update_nat:
  "p < length xs \<Longrightarrow> sum_list (map f (xs[p := x])) + f (xs ! p) = sum_list (map f xs) + (f x :: nat)"
proof (induction xs arbitrary: p)
  case (Cons a xs)
  then show ?case by (cases p) (auto simp: add.commute add.left_commute)
qed simp

end
