(* ===== verification/Contracts.thy ===== *)
theory Contracts
  imports Prelude
begin

text \<open>
  The value types of \<open>wayfinder-runtime-contracts\<close> and the eligibility filter of the routing core:
  execution boundaries, privacy postures, destination snapshots, and \<open>assess_destination\<close>, which
  collects the reasons that exclude a destination before any scoring. The theory proves that the
  filter accepts exactly the destinations that meet an independent statement of the hard
  requirements, and that loosening the privacy posture only adds destinations.
\<close>

section \<open>Data\<close>

definition RUNTIME_CONTRACT_VERSION :: nat where
  "RUNTIME_CONTRACT_VERSION = 1"

datatype execution_boundary = OnDevice | LocalNetwork | Hosted

datatype privacy_posture = OnDeviceOnly | LocalDevices | HostedAllowed

fun permits :: "privacy_posture \<Rightarrow> execution_boundary \<Rightarrow> bool" where
  "permits OnDeviceOnly b = (b = OnDevice)"
| "permits LocalDevices b = (b = OnDevice \<or> b = LocalNetwork)"
| "permits HostedAllowed b = True"

datatype provider_readiness =
    Checking | SignedOut | Authorizing | Ready | ReauthenticationRequired | UsageLimited
  | ModelUnavailable | NetworkUnavailable | UnsupportedPlatform | Unavailable | Failed

datatype billing_class = BillOnDevice | BillSubscription | BillApiMetered | BillUnknown

datatype inference_surface = SurfaceText | Embeddings | ImageGeneration | Audio | Batch

record modality_capabilities =
  mc_embeddings :: bool
  mc_image_generation :: bool
  mc_audio_input :: bool
  mc_audio_output :: bool
  mc_batch :: bool

record destination_capabilities =
  dc_text :: bool
  dc_streaming :: bool
  dc_image_input :: bool
  dc_tools :: bool
  dc_modalities :: modality_capabilities

record destination_snapshot =
  ds_id :: str
  ds_provider_id :: str
  ds_model_id :: str
  ds_display_name :: str
  ds_route_tier :: str
  ds_execution_boundary :: execution_boundary
  ds_readiness :: provider_readiness
  ds_billing_class :: billing_class
  ds_context_window :: "u64 option"
  ds_capabilities :: destination_capabilities
  ds_automatic_eligible :: bool

record routing_requirements =
  rr_context_tokens :: "u64 option"
  rr_image_input :: bool
  rr_tools :: bool
  rr_streaming :: bool
  rr_surface :: inference_surface

record routing_request =
  rq_schema_version :: nat
  rq_request_id :: str
  rq_prompt :: str
  rq_privacy_posture :: privacy_posture
  rq_requirements :: routing_requirements

datatype exclusion_reason =
    ProviderNotReady | PrivacyBoundaryDenied | TextUnsupported | ContextWindowUnknown
  | ContextWindowTooSmall | ImageInputUnsupported | ToolsUnsupported | StreamingUnsupported
  | EmbeddingsUnsupported | ImageGenerationUnsupported | AudioUnsupported | BatchUnsupported
  | AutomaticNotAllowed

record candidate_assessment =
  ca_destination_id :: str
  ca_exclusions :: "exclusion_reason list"

definition is_eligible :: "candidate_assessment \<Rightarrow> bool" where
  "is_eligible a \<longleftrightarrow> ca_exclusions a = []"

section \<open>The eligibility filter\<close>

text \<open>The source pushes each reason onto one vector, in this order.\<close>

fun surface_exclusions :: "inference_surface \<Rightarrow> destination_capabilities \<Rightarrow> exclusion_reason list" where
  "surface_exclusions SurfaceText c = (if \<not> dc_text c then [TextUnsupported] else [])"
| "surface_exclusions Embeddings c =
     (if \<not> mc_embeddings (dc_modalities c) then [EmbeddingsUnsupported] else [])"
| "surface_exclusions ImageGeneration c =
     (if \<not> mc_image_generation (dc_modalities c) then [ImageGenerationUnsupported] else [])"
| "surface_exclusions Audio c =
     (if \<not> mc_audio_input (dc_modalities c) \<and> \<not> mc_audio_output (dc_modalities c)
      then [AudioUnsupported] else [])"
| "surface_exclusions Batch c = (if \<not> mc_batch (dc_modalities c) then [BatchUnsupported] else [])"

fun context_exclusions :: "u64 option \<Rightarrow> u64 option \<Rightarrow> exclusion_reason list" where
  "context_exclusions None w = []"
| "context_exclusions (Some required) (Some available) =
     (if available < required then [ContextWindowTooSmall] else [])"
| "context_exclusions (Some required) None = [ContextWindowUnknown]"

definition assess_destination ::
  "routing_request \<Rightarrow> destination_snapshot \<Rightarrow> candidate_assessment" where
  "assess_destination r d =
     (let q = rq_requirements r; c = ds_capabilities d in
      \<lparr>ca_destination_id = ds_id d,
       ca_exclusions =
         (if ds_readiness d \<noteq> Ready then [ProviderNotReady] else []) @
         (if \<not> permits (rq_privacy_posture r) (ds_execution_boundary d)
          then [PrivacyBoundaryDenied] else []) @
         surface_exclusions (rr_surface q) c @
         context_exclusions (rr_context_tokens q) (ds_context_window d) @
         (if rr_image_input q \<and> \<not> dc_image_input c then [ImageInputUnsupported] else []) @
         (if rr_tools q \<and> \<not> dc_tools c then [ToolsUnsupported] else []) @
         (if rr_streaming q \<and> \<not> dc_streaming c then [StreamingUnsupported] else []) @
         (if \<not> ds_automatic_eligible d then [AutomaticNotAllowed] else [])\<rparr>)"

section \<open>What eligibility means\<close>

text \<open>
  The requirements stated on their own, without reasons or order: how far content may travel as a
  number, what a surface needs, and the bounds a destination has to meet.
\<close>

fun boundary_level :: "execution_boundary \<Rightarrow> nat" where
  "boundary_level OnDevice = 0"
| "boundary_level LocalNetwork = 1"
| "boundary_level Hosted = 2"

fun posture_level :: "privacy_posture \<Rightarrow> nat" where
  "posture_level OnDeviceOnly = 0"
| "posture_level LocalDevices = 1"
| "posture_level HostedAllowed = 2"

fun serves_surface :: "destination_capabilities \<Rightarrow> inference_surface \<Rightarrow> bool" where
  "serves_surface c SurfaceText = dc_text c"
| "serves_surface c Embeddings = mc_embeddings (dc_modalities c)"
| "serves_surface c ImageGeneration = mc_image_generation (dc_modalities c)"
| "serves_surface c Audio = (mc_audio_input (dc_modalities c) \<or> mc_audio_output (dc_modalities c))"
| "serves_surface c Batch = mc_batch (dc_modalities c)"

definition meets_requirements :: "routing_request \<Rightarrow> destination_snapshot \<Rightarrow> bool" where
  "meets_requirements r d \<longleftrightarrow>
     ds_readiness d = Ready \<and>
     boundary_level (ds_execution_boundary d) \<le> posture_level (rq_privacy_posture r) \<and>
     serves_surface (ds_capabilities d) (rr_surface (rq_requirements r)) \<and>
     (\<forall>need. rr_context_tokens (rq_requirements r) = Some need \<longrightarrow>
        (\<exists>have. ds_context_window d = Some have \<and> need \<le> have)) \<and>
     (rr_image_input (rq_requirements r) \<longrightarrow> dc_image_input (ds_capabilities d)) \<and>
     (rr_tools (rq_requirements r) \<longrightarrow> dc_tools (ds_capabilities d)) \<and>
     (rr_streaming (rq_requirements r) \<longrightarrow> dc_streaming (ds_capabilities d)) \<and>
     ds_automatic_eligible d"

lemma permits_level: "permits p b \<longleftrightarrow> boundary_level b \<le> posture_level p"
  by (cases p; cases b) auto

lemma surface_exclusions_Nil: "surface_exclusions s c = [] \<longleftrightarrow> serves_surface c s"
  by (cases s) auto

lemma context_exclusions_Nil:
  "context_exclusions need w = [] \<longleftrightarrow>
   (\<forall>n. need = Some n \<longrightarrow> (\<exists>h. w = Some h \<and> n \<le> h))"
  by (cases need; cases w) auto

lemma assess_destination_id [simp]: "ca_destination_id (assess_destination r d) = ds_id d"
  by (simp add: assess_destination_def Let_def)

lemma is_eligible_iff: "is_eligible (assess_destination r d) \<longleftrightarrow> meets_requirements r d"
  unfolding is_eligible_def assess_destination_def meets_requirements_def Let_def
  by (simp add: surface_exclusions_Nil context_exclusions_Nil permits_level)

text \<open>
  The eligibility filter reports no exclusion for a destination exactly when the destination is
  ready, lies inside the privacy posture's boundary, serves the requested surface, advertises a
  sufficient context window when one is needed, supports every required capability and is allowed
  for Automatic.
\<close>

theorem eligibility_complete:
  "ca_exclusions (assess_destination r d) = [] \<longleftrightarrow> meets_requirements r d"
  using is_eligible_iff [of r d] by (simp add: is_eligible_def)

lemma posture_monotone:
  assumes "posture_level p \<le> posture_level p'"
    and "meets_requirements (r\<lparr>rq_privacy_posture := p\<rparr>) d"
  shows "meets_requirements (r\<lparr>rq_privacy_posture := p'\<rparr>) d"
  using assms by (auto simp: meets_requirements_def)

end
