(* ===== verification/Text_Features.thy ===== *)
theory Text_Features
  imports Prelude
begin

text \<open>
  Feature extraction of the routing core (\<open>wayfinder-routing-core/src/lib.rs\<close>): frontmatter
  stripping, Python-compatible line and word splitting, the lexicon, and the counting loop over the
  lines of the body. The regular expressions are matched by the \<open>regex\<close> crate, which is not part
  of the repository: the record \<open>patterns\<close> holds what the code asks of each compiled pattern, and
  every definition that needs it takes it as an argument.
\<close>

section \<open>Frontmatter\<close>

definition line_of :: "str \<Rightarrow> str" where
  "line_of s = takeWhile (\<lambda>c. c \<noteq> 10) s"

definition after_line :: "str \<Rightarrow> str option" where
  "after_line s = (case dropWhile (\<lambda>c. c \<noteq> 10) s of [] \<Rightarrow> None | _ # rest \<Rightarrow> Some rest)"

lemma after_line_shorter: "after_line s = Some rest \<Longrightarrow> length rest < length s"
proof -
  assume "after_line s = Some rest"
  then obtain c where c: "dropWhile (\<lambda>c. c \<noteq> 10) s = c # rest"
    by (auto simp: after_line_def split: list.splits)
  have "length (dropWhile (\<lambda>c. c \<noteq> 10) s) \<le> length s" by (rule length_dropWhile_le)
  then show ?thesis by (simp add: c)
qed

definition closes_frontmatter :: "str \<Rightarrow> bool" where
  "closes_frontmatter l \<longleftrightarrow> trim l = lit ''---'' \<or> trim l = lit ''...''"

text \<open>
  The loop over the lines after the opening one: \<open>Some rest\<close> is the text after the closing line,
  \<open>None\<close> means the loop broke at the end of the text without one.
\<close>

function frontmatter_end :: "str \<Rightarrow> str option" where
  "frontmatter_end s =
     (if closes_frontmatter (line_of s) then
        (case after_line s of None \<Rightarrow> Some [] | Some rest \<Rightarrow> Some rest)
      else
        (case after_line s of None \<Rightarrow> None | Some rest \<Rightarrow> frontmatter_end rest))"
  by pat_completeness auto
termination
  by (relation "measure length") (auto dest: after_line_shorter)

declare frontmatter_end.simps [simp del]

definition strip_frontmatter :: "str \<Rightarrow> str" where
  "strip_frontmatter text =
     (if trim (line_of text) \<noteq> lit ''---'' then text
      else case after_line text of
        None \<Rightarrow> text
      | Some rest \<Rightarrow> (case frontmatter_end rest of None \<Rightarrow> text | Some body \<Rightarrow> body))"

section \<open>Python-compatible splitting\<close>

definition python_whitespace :: "nat \<Rightarrow> bool" where
  "python_whitespace c \<longleftrightarrow> is_whitespace c \<or> (28 \<le> c \<and> c \<le> 31)"

definition python_line_separator :: "nat \<Rightarrow> bool" where
  "python_line_separator c \<longleftrightarrow> c \<in> {10, 13, 11, 12, 28, 29, 30, 133, 8232, 8233}"

fun word_count_loop :: "bool \<Rightarrow> u64 \<Rightarrow> str \<Rightarrow> u64" where
  "word_count_loop in_word count [] = count"
| "word_count_loop in_word count (c # cs) =
     (if python_whitespace c then word_count_loop False count cs
      else if \<not> in_word then word_count_loop True (sat_add count 1) cs
      else word_count_loop in_word count cs)"

definition python_word_count :: "str \<Rightarrow> u64" where
  "python_word_count text = word_count_loop False 0 text"

text \<open>
  \<open>cur\<close> is the part of the current line read so far. A carriage return followed by a line feed is one
  separator; a last line is produced only when it is not empty.
\<close>

fun splitlines_loop :: "str \<Rightarrow> str \<Rightarrow> str list" where
  "splitlines_loop cur [] = (if cur = [] then [] else [cur])"
| "splitlines_loop cur (c # cs) =
     (if \<not> python_line_separator c then splitlines_loop (cur @ [c]) cs
      else if c = 13 \<and> cs \<noteq> [] \<and> hd cs = 10 then cur # splitlines_loop [] (tl cs)
      else cur # splitlines_loop [] cs)"

definition python_splitlines :: "str \<Rightarrow> str list" where
  "python_splitlines text = splitlines_loop [] text"

section \<open>Lexicon\<close>

record lexicon =
  lx_reasoning_terms :: "str list"
  lx_constraint_terms :: "str list"

text \<open>Collecting into a \<open>BTreeSet\<close>: ascending and without duplicates.\<close>

definition term_set :: "str list \<Rightarrow> str list" where
  "term_set ts = sort (remdups (map (\<lambda>t. to_ascii_lowercase (trim t)) ts))"

definition lexicon_new :: "str list \<Rightarrow> str list \<Rightarrow> lexicon" where
  "lexicon_new rs cs = \<lparr>lx_reasoning_terms = term_set rs, lx_constraint_terms = term_set cs\<rparr>"

definition is_reasoning_term :: "lexicon \<Rightarrow> str \<Rightarrow> bool" where
  "is_reasoning_term l t \<longleftrightarrow> t \<in> set (lx_reasoning_terms l)"

definition is_constraint_term :: "lexicon \<Rightarrow> str \<Rightarrow> bool" where
  "is_constraint_term l t \<longleftrightarrow> t \<in> set (lx_constraint_terms l)"

definition REASONING_TERMS :: "str list" where
  "REASONING_TERMS = map lit
     [''prove'', ''proof'', ''proofs'', ''proven'', ''derive'', ''derives'', ''derivation'',
      ''theorem'', ''theorems'', ''lemma'', ''lemmas'', ''corollary'', ''axiom'', ''axioms'',
      ''irrational'', ''undecidable'', ''undecidability'', ''decidable'', ''infinitely'',
      ''asymptotic'', ''complexity'', ''invariant'', ''invariants'', ''concurrency'',
      ''concurrent'', ''deadlock'', ''induction'', ''contradiction'', ''optimal'', ''optimality'',
      ''optimize'', ''optimise'', ''minimise'', ''minimize'', ''maximise'', ''maximize'',
      ''recurrence'', ''halting'', ''eigenvalue'', ''eigenvalues'', ''integral'', ''derivative'',
      ''polynomial'', ''prime'', ''primes'', ''modulo'', ''isomorphism'', ''monotonic'',
      ''bijection'', ''injective'', ''surjective'', ''combinatorial'']"

definition CONSTRAINT_TERMS :: "str list" where
  "CONSTRAINT_TERMS = map lit
     [''must'', ''without'', ''only'', ''ensure'', ''exactly'', ''guarantee'', ''constraint'',
      ''constraints'', ''subject'', ''preserving'', ''preserve'']"

definition lexicon_default :: lexicon where
  "lexicon_default = lexicon_new REASONING_TERMS CONSTRAINT_TERMS"

section \<open>Features\<close>

record features =
  word_count :: u64
  heading_count :: u64
  max_heading_depth :: u64
  list_item_count :: u64
  link_count :: u64
  code_block_count :: u64
  table_row_count :: u64
  reasoning_term_count :: u64
  math_symbol_count :: u64
  constraint_term_count :: u64
  question_count :: u64

definition features_zero :: features where
  "features_zero =
     \<lparr>word_count = 0, heading_count = 0, max_heading_depth = 0, list_item_count = 0,
      link_count = 0, code_block_count = 0, table_row_count = 0, reasoning_term_count = 0,
      math_symbol_count = 0, constraint_term_count = 0, question_count = 0\<rparr>"

definition features_list :: "features \<Rightarrow> u64 list" where
  "features_list f =
     [word_count f, heading_count f, max_heading_depth f, list_item_count f, link_count f,
      code_block_count f, table_row_count f, reasoning_term_count f, math_symbol_count f,
      constraint_term_count f, question_count f]"

definition features_get :: "features \<Rightarrow> nat \<Rightarrow> u64 option" where
  "features_get f i = (if i < 11 then Some (features_list f ! i) else None)"

text \<open>
  What the code asks the compiled patterns: whether a line is a fence, the byte length of a heading's
  hash run, whether a line is a list item or a table row, the number of links in a line, the word
  tokens of a text in order, and the number of mathematical symbols in a text.
\<close>

record patterns =
  pat_fence :: "str \<Rightarrow> bool"
  pat_heading :: "str \<Rightarrow> nat option"
  pat_list :: "str \<Rightarrow> bool"
  pat_table_row :: "str \<Rightarrow> bool"
  pat_links :: "str \<Rightarrow> nat"
  pat_words :: "str \<Rightarrow> str list"
  pat_math :: "str \<Rightarrow> nat"

definition to_u64 :: "nat \<Rightarrow> u64" where
  "to_u64 n = min n u64_max"

text \<open>One line of the body; the state is the fence flag and the features counted so far.\<close>

definition line_step :: "patterns \<Rightarrow> str \<Rightarrow> bool \<times> features \<Rightarrow> bool \<times> features" where
  "line_step p line st =
     (case st of (in_fence, f) \<Rightarrow>
        if pat_fence p line then
          (\<not> in_fence,
           if \<not> in_fence then f\<lparr>code_block_count := sat_add (code_block_count f) 1\<rparr> else f)
        else if in_fence then (in_fence, f)
        else
          let f1 =
            (case pat_heading p line of
               Some depth \<Rightarrow>
                 f\<lparr>heading_count := sat_add (heading_count f) 1,
                   max_heading_depth := max (max_heading_depth f) (to_u64 depth)\<rparr>
             | None \<Rightarrow>
                 if pat_list p line then f\<lparr>list_item_count := sat_add (list_item_count f) 1\<rparr>
                 else if pat_table_row p line then
                   f\<lparr>table_row_count := sat_add (table_row_count f) 1\<rparr>
                 else f)
          in (in_fence, f1\<lparr>link_count := sat_add (link_count f1) (to_u64 (pat_links p line))\<rparr>))"

definition token_step :: "lexicon \<Rightarrow> str \<Rightarrow> features \<Rightarrow> features" where
  "token_step l t f =
     (let f1 = (if is_reasoning_term l t
                then f\<lparr>reasoning_term_count := sat_add (reasoning_term_count f) 1\<rparr> else f)
      in if is_constraint_term l t
         then f1\<lparr>constraint_term_count := sat_add (constraint_term_count f1) 1\<rparr> else f1)"

definition count_features :: "patterns \<Rightarrow> str \<Rightarrow> lexicon \<Rightarrow> features" where
  "count_features p text l =
     (let body = strip_frontmatter text;
          f0 = features_zero\<lparr>word_count := python_word_count body\<rparr>;
          f1 = snd (fold (line_step p) (python_splitlines body) (False, f0));
          f2 = fold (token_step l) (pat_words p (to_ascii_lowercase body)) f1
      in f2\<lparr>math_symbol_count := to_u64 (pat_math p body),
            question_count := to_u64 (length (filter (\<lambda>c. c = 63) body))\<rparr>)"

text \<open>
  The errors of the core; where the source formats a message, the constructor keeps the reason and
  the values in it. The patterns are compiled once; \<open>Inl\<close> is the compile error, which every
  extraction reports.
\<close>

datatype classifier_error =
    TooFewModels | EmptyModelName | DuplicateModelName | InterceptCount nat
  | UnknownFeature str | WeightVectorLength str nat | NoPrediction

datatype contract_error =
    UnsupportedSchemaVersion nat | EmptyRequestId | EmptyDestinationIdentity | DuplicateDestinationId str

datatype core_error =
    InvalidPattern str
  | MissingTier
  | InvalidClassifier classifier_error
  | InvalidContract contract_error

type_synonym compiled_patterns = "(str, patterns) result"

definition extract_features_with_lexicon ::
  "compiled_patterns \<Rightarrow> str \<Rightarrow> lexicon \<Rightarrow> (core_error, features) result" where
  "extract_features_with_lexicon pats text l =
     (case pats of Inl e \<Rightarrow> Inl (InvalidPattern e) | Inr p \<Rightarrow> Inr (count_features p text l))"

definition extract_features :: "compiled_patterns \<Rightarrow> str \<Rightarrow> (core_error, features) result" where
  "extract_features pats text = extract_features_with_lexicon pats text lexicon_default"

definition lexical_terms :: "compiled_patterns \<Rightarrow> str \<Rightarrow> (core_error, str list) result" where
  "lexical_terms pats text =
     (case pats of
        Inl e \<Rightarrow> Inl (InvalidPattern e)
      | Inr p \<Rightarrow> Inr (sort (remdups (pat_words p (to_ascii_lowercase (strip_frontmatter text))))))"

section \<open>Frontmatter is stripped exactly\<close>

lemma after_line_suffix: "after_line s = Some rest \<Longrightarrow> suffix rest s"
proof -
  assume "after_line s = Some rest"
  then obtain c where "dropWhile (\<lambda>c. c \<noteq> 10) s = c # rest"
    by (auto simp: after_line_def split: list.splits)
  then have "s = takeWhile (\<lambda>c. c \<noteq> 10) s @ c # rest"
    by (metis takeWhile_dropWhile_id)
  then show ?thesis by (metis suffix_Cons suffix_def suffix_order.order_refl suffix_append)
qed

lemma frontmatter_end_suffix: "frontmatter_end s = Some body \<Longrightarrow> suffix body s"
proof (induction s rule: frontmatter_end.induct)
  case (1 s)
  show ?case
  proof (cases "after_line s")
    case None
    with "1.prems" show ?thesis
      by (auto simp: frontmatter_end.simps [of s] split: if_splits)
  next
    case (Some rest)
    have "suffix rest s" using Some by (rule after_line_suffix)
    moreover have "suffix body rest"
      using "1.prems" "1.IH" Some by (auto simp: frontmatter_end.simps [of s] split: if_splits)
    ultimately show ?thesis by (rule suffix_order.trans [rotated])
  qed
qed

lemma line_of_append_nl: "10 \<notin> set l \<Longrightarrow> line_of (l @ 10 # rest) = l"
  by (induction l) (auto simp: line_of_def)

lemma after_line_append_nl: "10 \<notin> set l \<Longrightarrow> after_line (l @ 10 # rest) = Some rest"
  by (induction l) (auto simp: after_line_def)

lemma frontmatter_end_skip:
  assumes "\<forall>l\<in>set ls. 10 \<notin> set l \<and> \<not> closes_frontmatter l"
  shows "frontmatter_end (concat (map (\<lambda>l. l @ [10]) ls) @ s) = frontmatter_end s"
  using assms
proof (induction ls)
  case (Cons l ls)
  then have "10 \<notin> set l" "\<not> closes_frontmatter l" by auto
  then have "frontmatter_end (l @ 10 # (concat (map (\<lambda>l. l @ [10]) ls) @ s)) =
      frontmatter_end (concat (map (\<lambda>l. l @ [10]) ls) @ s)"
    by (subst frontmatter_end.simps) (simp add: line_of_append_nl after_line_append_nl)
  with Cons show ?case by simp
qed simp

text \<open>
  A document that opens with a \<open>---\<close> line, continues with any lines that do not close the block
  and then has a \<open>---\<close> or \<open>...\<close> line loses exactly that block: what remains is everything after the
  closing line's newline.
\<close>

theorem strip_frontmatter_block:
  assumes "10 \<notin> set opening" and "trim opening = lit ''---''"
    and "\<forall>l\<in>set ls. 10 \<notin> set l \<and> \<not> closes_frontmatter l"
    and "10 \<notin> set closing" and "closes_frontmatter closing"
  shows "strip_frontmatter
      (opening @ 10 # concat (map (\<lambda>l. l @ [10]) ls) @ closing @ 10 # body) = body"
proof -
  have "frontmatter_end (closing @ 10 # body) = Some body"
    using assms(4,5) by (subst frontmatter_end.simps) (simp add: line_of_append_nl after_line_append_nl)
  then show ?thesis
    using assms by (simp add: strip_frontmatter_def line_of_append_nl after_line_append_nl
        frontmatter_end_skip)
qed

theorem strip_frontmatter_block_witness:
  "strip_frontmatter
     (lit ''---'' @ 10 # concat (map (\<lambda>l. l @ [10]) [lit ''a: 1'']) @ lit ''...'' @ 10 # lit ''Hi'')
   = lit ''Hi''"
  by (rule strip_frontmatter_block)
    (simp_all add: closes_frontmatter_def trim_def is_whitespace_def)

lemma strip_frontmatter_suffix: "suffix (strip_frontmatter text) text"
proof (cases "after_line text")
  case (Some rest)
  then have "suffix rest text" by (rule after_line_suffix)
  then show ?thesis
    using Some
    by (auto simp: strip_frontmatter_def split: option.splits
        dest!: frontmatter_end_suffix intro: suffix_order.trans)
qed (simp add: strip_frontmatter_def)

section \<open>Lines and words\<close>

lemma splitlines_loop_no_separator:
  "\<forall>c\<in>set cur. \<not> python_line_separator c \<Longrightarrow>
   \<forall>l\<in>set (splitlines_loop cur s). \<forall>c\<in>set l. \<not> python_line_separator c"
proof (induction cur s rule: splitlines_loop.induct)
  case (2 cur c cs)
  consider "\<not> python_line_separator c" | "python_line_separator c" "c = 13 \<and> cs \<noteq> [] \<and> hd cs = 10"
    | "python_line_separator c" "\<not> (c = 13 \<and> cs \<noteq> [] \<and> hd cs = 10)" by blast
  then show ?case
  proof cases
    case 1
    with "2.IH"(1) "2.prems" show ?thesis by simp
  next
    case 2
    have IH: "\<forall>l\<in>set (splitlines_loop [] (tl cs)). \<forall>c\<in>set l. \<not> python_line_separator c"
      using "2.IH"(2) 2 by simp
    have "splitlines_loop cur (c # cs) = cur # splitlines_loop [] (tl cs)"
      using 2 by simp
    then show ?thesis using IH "2.prems" by simp
  next
    case 3
    have IH: "\<forall>l\<in>set (splitlines_loop [] cs). \<forall>c\<in>set l. \<not> python_line_separator c"
      using "2.IH"(3) 3 by simp
    have "splitlines_loop cur (c # cs) = cur # splitlines_loop [] cs"
      using 3 by auto
    then show ?thesis using IH "2.prems" by simp
  qed
qed simp

lemma splitlines_loop_line:
  assumes "\<forall>c\<in>set l. \<not> python_line_separator c"
  shows "splitlines_loop cur (l @ 10 # rest) = (cur @ l) # splitlines_loop [] rest"
  using assms by (induction l arbitrary: cur) (auto simp: python_line_separator_def)

text \<open>
  Splitting inverts joining: a text made of lines without separators, each ended by a newline,
  is split back into exactly those lines; and no produced line ever contains a separator.
\<close>

theorem splitlines_roundtrip:
  "(\<forall>l\<in>set (python_splitlines t). \<forall>c\<in>set l. \<not> python_line_separator c) \<and>
   ((\<forall>l\<in>set ls. \<forall>c\<in>set l. \<not> python_line_separator c) \<longrightarrow>
    python_splitlines (concat (map (\<lambda>l. l @ [10]) ls)) = ls)"
proof (intro conjI impI)
  show "\<forall>l\<in>set (python_splitlines t). \<forall>c\<in>set l. \<not> python_line_separator c"
    unfolding python_splitlines_def by (rule splitlines_loop_no_separator) simp
  assume "\<forall>l\<in>set ls. \<forall>c\<in>set l. \<not> python_line_separator c"
  then show "python_splitlines (concat (map (\<lambda>l. l @ [10]) ls)) = ls"
    unfolding python_splitlines_def
    by (induction ls) (auto simp: splitlines_loop_line)
qed

theorem splitlines_roundtrip_witness:
  "python_splitlines (concat (map (\<lambda>l. l @ [10]) [lit ''ab'', [], lit ''c''])) =
   [lit ''ab'', [], lit ''c'']"
proof -
  have "\<forall>l\<in>set [lit ''ab'', [], lit ''c'']. \<forall>c\<in>set l. \<not> python_line_separator c"
    by (simp add: python_line_separator_def)
  then show ?thesis
    using splitlines_roundtrip [of "[]" "[lit ''ab'', [], lit ''c'']"] by blast
qed

text \<open>The positions where a word starts.\<close>

definition word_starts :: "bool \<Rightarrow> str \<Rightarrow> nat set" where
  "word_starts in_word t =
     {i. i < length t \<and> \<not> python_whitespace (t ! i) \<and>
         (if i = 0 then \<not> in_word else python_whitespace (t ! (i - 1)))}"

lemma finite_word_starts [simp]: "finite (word_starts b t)"
  by (rule finite_subset [of _ "{..<length t}"]) (auto simp: word_starts_def)

lemma word_starts_Cons:
  "word_starts b (c # cs) =
   (if \<not> python_whitespace c \<and> \<not> b then {0} else {}) \<union>
   Suc ` word_starts (\<not> python_whitespace c) cs"
proof (rule set_eqI)
  fix i
  show "i \<in> word_starts b (c # cs) \<longleftrightarrow>
    i \<in> (if \<not> python_whitespace c \<and> \<not> b then {0} else {}) \<union>
      Suc ` word_starts (\<not> python_whitespace c) cs"
  proof (cases i)
    case (Suc j)
    then show ?thesis
      by (cases j) (auto simp: word_starts_def image_iff)
  qed (auto simp: word_starts_def)
qed

lemma card_word_starts_Cons:
  "card (word_starts b (c # cs)) =
   (if \<not> python_whitespace c \<and> \<not> b then 1 else 0) +
   card (word_starts (\<not> python_whitespace c) cs)"
  unfolding word_starts_Cons by (simp add: card_insert_if card_image)

lemma word_count_loop_eq:
  "n \<le> u64_max \<Longrightarrow> word_count_loop b n t = min (n + card (word_starts b t)) u64_max"
proof (induction b n t rule: word_count_loop.induct)
  case (1 b n)
  then show ?case by (simp add: word_starts_def)
next
  case (2 b n c cs)
  then show ?case
    by (auto simp: card_word_starts_Cons sat_add_def min_def)
qed

text \<open>
  The word count is the number of positions at which a non-blank character follows a blank or
  starts the text, saturated at the 64-bit maximum.
\<close>

theorem python_word_count_eq: "python_word_count t = min (card (word_starts False t)) u64_max"
  unfolding python_word_count_def by (simp add: word_count_loop_eq)

section \<open>Counting\<close>

lemma line_step_in_fence: "\<not> pat_fence p l \<Longrightarrow> line_step p l (True, f) = (True, f)"
  by (simp add: line_step_def)

lemma fold_line_step_in_fence:
  "\<forall>l\<in>set ls. \<not> pat_fence p l \<Longrightarrow> fold (line_step p) ls (True, f) = (True, f)"
  by (induction ls) (auto simp: line_step_in_fence)

text \<open>
  Fenced code is opaque to the structural features: whatever lines stand between an opening and a
  closing fence, the block adds one to the code-block count and nothing to any other feature.
\<close>

theorem fenced_block_opaque:
  assumes "pat_fence p opening" and "\<forall>l\<in>set inner. \<not> pat_fence p l" and "pat_fence p closing"
  shows "fold (line_step p) (opening # inner @ closing # rest) (False, f) =
    fold (line_step p) rest (False, f\<lparr>code_block_count := sat_add (code_block_count f) 1\<rparr>)"
  using assms(1,3) fold_line_step_in_fence [OF assms(2)] by (simp add: line_step_def)

definition fence_only :: patterns where
  "fence_only = \<lparr>pat_fence = (\<lambda>l. l = lit ''~~~''), pat_heading = (\<lambda>l. None), pat_list = (\<lambda>l. False),
     pat_table_row = (\<lambda>l. False), pat_links = (\<lambda>l. 0), pat_words = (\<lambda>t. []), pat_math = (\<lambda>t. 0)\<rparr>"

theorem fenced_block_opaque_witness:
  "fold (line_step fence_only) (lit ''~~~'' # [lit ''# x''] @ lit ''~~~'' # []) (False, features_zero) =
   fold (line_step fence_only) []
     (False, features_zero\<lparr>code_block_count := sat_add (code_block_count features_zero) 1\<rparr>)"
  by (rule fenced_block_opaque) (simp_all add: fence_only_def)

definition features_bounded :: "features \<Rightarrow> bool" where
  "features_bounded f \<longleftrightarrow> (\<forall>n\<in>set (features_list f). n \<le> u64_max)"

lemma features_bounded_simps:
  "features_bounded f \<longleftrightarrow>
   word_count f \<le> u64_max \<and> heading_count f \<le> u64_max \<and> max_heading_depth f \<le> u64_max \<and>
   list_item_count f \<le> u64_max \<and> link_count f \<le> u64_max \<and> code_block_count f \<le> u64_max \<and>
   table_row_count f \<le> u64_max \<and> reasoning_term_count f \<le> u64_max \<and>
   math_symbol_count f \<le> u64_max \<and> constraint_term_count f \<le> u64_max \<and> question_count f \<le> u64_max"
  by (simp add: features_bounded_def features_list_def)

lemma line_step_bounded: "features_bounded (snd st) \<Longrightarrow> features_bounded (snd (line_step p l st))"
  by (cases st)
    (simp add: line_step_def features_bounded_simps Let_def to_u64_def split: option.split)

lemma fold_line_step_bounded:
  "features_bounded (snd st) \<Longrightarrow> features_bounded (snd (fold (line_step p) ls st))"
  by (induction ls arbitrary: st) (simp_all add: line_step_bounded)

lemma token_step_bounded: "features_bounded f \<Longrightarrow> features_bounded (token_step l t f)"
  by (simp add: token_step_def features_bounded_simps Let_def)

lemma fold_token_step_bounded:
  "features_bounded f \<Longrightarrow> features_bounded (fold (token_step l) ts f)"
  by (induction ts arbitrary: f) (simp_all add: token_step_bounded)

lemma count_features_bounded: "features_bounded (count_features p text l)"
proof -
  let ?f0 = "features_zero\<lparr>word_count := python_word_count (strip_frontmatter text)\<rparr>"
  have "features_bounded ?f0"
    by (simp add: features_bounded_simps features_zero_def python_word_count_eq)
  then have "features_bounded (snd (fold (line_step p) ls (False, ?f0)))" for ls
    by (intro fold_line_step_bounded) simp
  then have "features_bounded (fold (token_step l) ts (snd (fold (line_step p) ls (False, ?f0))))" for ls ts
    by (rule fold_token_step_bounded)
  then show ?thesis
    unfolding count_features_def Let_def
    by (simp add: features_bounded_simps to_u64_def)
qed

end
