(* ===== verification/Binary64.thy ===== *)
theory Binary64
  imports Prelude Complex_Main "HOL-Library.Log_Nat"
begin

text \<open>
  Rust's \<open>f64\<close>: the finite values of IEEE 754 binary64 as rationals, a negative zero, the two
  infinities and one NaN (the sources never look at a NaN's sign or payload). Every arithmetic
  operation is the exact rational operation followed by \<open>rnd_f64\<close>, which rounds to nearest with
  ties to even, underflows to a signed zero and overflows to an infinity. The theory proves that
  rounding is monotone, keeps signs, and is exact on the integers below \<open>2 ^ 53\<close>, which is what the
  component theories use.
\<close>

named_theorems f64_simps \<open>unfolding of the binary64 operations on finite arguments\<close>

section \<open>Rounding\<close>

datatype f64 = NaN | PInf | NInf | NZero | Fin rat

text \<open>The exponent of the leading binary digit of a positive rational.\<close>

definition flog2 :: "rat \<Rightarrow> int" where
  "flog2 q =
     (let (a, b) = quotient_of q;
          k = int (floorlog 2 (nat a)) - int (floorlog 2 (nat b))
      in if 2 powi k \<le> q then k else k - 1)"

text \<open>Rounding to an integer, ties to even.\<close>

definition rne :: "rat \<Rightarrow> int" where
  "rne q =
     (let f = \<lfloor>q\<rfloor>; d = q - of_int f
      in if d < 1 / 2 then f else if 1 / 2 < d then f + 1 else if even f then f else f + 1)"

text \<open>The exponent of the last place: 53 significant bits, none below \<open>2 powi -1074\<close>.\<close>

definition ulp_exp :: "rat \<Rightarrow> int" where
  "ulp_exp q = max (flog2 q - 52) (- 1074)"

definition rnd_mag :: "rat \<Rightarrow> rat" where
  "rnd_mag q = of_int (rne (q / 2 powi ulp_exp q)) * 2 powi ulp_exp q"

definition f64_zero :: "bool \<Rightarrow> f64" where
  "f64_zero neg = (if neg then NZero else Fin 0)"

definition f64_inf :: "bool \<Rightarrow> f64" where
  "f64_inf neg = (if neg then NInf else PInf)"

text \<open>\<open>rnd_f64 neg q\<close> rounds \<open>q\<close>; \<open>neg\<close> is the sign of the result when \<open>q\<close> is zero.\<close>

definition rnd_f64 :: "bool \<Rightarrow> rat \<Rightarrow> f64" where
  "rnd_f64 neg q =
     (if q = 0 then f64_zero neg
      else let m = rnd_mag \<bar>q\<bar>; s = q < 0
        in if m = 0 then f64_zero s
           else if 2 ^ 1024 \<le> m then f64_inf s
           else Fin (if s then - m else m))"

abbreviation flit :: "rat \<Rightarrow> f64" where
  "flit q \<equiv> rnd_f64 False q"

subsection \<open>Facts about rounding\<close>

lemma powi2_less_iff [simp]: "(2::rat) powi i < 2 powi j \<longleftrightarrow> i < j"
proof
  assume "(2::rat) powi i < 2 powi j"
  then show "i < j"
    by (metis linorder_not_le order.strict_trans1 order_less_irrefl power_int_increasing
        one_le_numeral)
qed (simp add: power_int_strict_increasing)

lemma powi2_le_iff [simp]: "(2::rat) powi i \<le> 2 powi j \<longleftrightarrow> i \<le> j"
  by (simp add: linorder_not_less [symmetric])

lemma powi2_mult: "(2::rat) powi i * 2 powi j = 2 powi (i + j)"
  by (simp add: power_int_add)

lemma flog2_bounds:
  assumes "0 < q"
  shows "2 powi flog2 q \<le> q" and "q < 2 powi (flog2 q + 1)"
proof -
  obtain a b where ab: "quotient_of q = (a, b)" by force
  have b: "0 < b" using ab by (rule quotient_of_denom_pos)
  have q: "q = of_int a / of_int b" using ab by (rule quotient_of_div)
  have a: "0 < a" using assms q b by (simp add: zero_less_divide_iff)
  define la where "la = floorlog 2 (nat a)"
  define lb where "lb = floorlog 2 (nat b)"
  have la1: "1 \<le> la" and lb1: "1 \<le> lb"
    using a b by (auto simp: la_def lb_def floorlog_eq_zero_iff Suc_le_eq intro!: Nat.gr0I)
  have nla: "2 ^ (la - 1) \<le> nat a" "nat a < 2 ^ la"
    using floorlog_bounds [of "nat a" 2] a by (auto simp: la_def)
  have nlb: "2 ^ (lb - 1) \<le> nat b" "nat b < 2 ^ lb"
    using floorlog_bounds [of "nat b" 2] b by (auto simp: lb_def)
  have ra: "2 powi (int la - 1) \<le> (of_int a :: rat)" "(of_int a :: rat) < 2 powi int la"
  proof -
    have "(2::rat) powi (int la - 1) = of_nat (2 ^ (la - 1))"
      using la1 by (simp add: power_int_def nat_diff_distrib)
    also have "\<dots> \<le> of_nat (nat a)" using nla(1) by (simp only: of_nat_le_iff)
    finally show "2 powi (int la - 1) \<le> (of_int a :: rat)" using a by simp
    have "(of_int a :: rat) = of_nat (nat a)" using a by simp
    also have "\<dots> < of_nat (2 ^ la)" using nla(2) by (simp only: of_nat_less_iff)
    finally show "(of_int a :: rat) < 2 powi int la" by simp
  qed
  have rb: "2 powi (int lb - 1) \<le> (of_int b :: rat)" "(of_int b :: rat) < 2 powi int lb"
  proof -
    have "(2::rat) powi (int lb - 1) = of_nat (2 ^ (lb - 1))"
      using lb1 by (simp add: power_int_def nat_diff_distrib)
    also have "\<dots> \<le> of_nat (nat b)" using nlb(1) by (simp only: of_nat_le_iff)
    finally show "2 powi (int lb - 1) \<le> (of_int b :: rat)" using b by simp
    have "(of_int b :: rat) = of_nat (nat b)" using b by simp
    also have "\<dots> < of_nat (2 ^ lb)" using nlb(2) by (simp only: of_nat_less_iff)
    finally show "(of_int b :: rat) < 2 powi int lb" by simp
  qed
  define k where "k = int la - int lb"
  have bpos: "(0::rat) < of_int b" using b by simp
  have lower: "2 powi (k - 1) \<le> q"
  proof -
    have "2 powi (k - 1) * of_int b \<le> 2 powi (k - 1) * (2::rat) powi int lb"
      using rb(2) by (intro mult_left_mono) (auto intro: less_imp_le)
    also have "\<dots> = 2 powi (int la - 1)"
      by (simp only: k_def powi2_mult) (simp add: algebra_simps)
    also have "\<dots> \<le> of_int a" by (rule ra(1))
    finally show ?thesis using bpos by (simp add: q pos_le_divide_eq)
  qed
  have upper: "q < 2 powi (k + 1)"
  proof -
    have "of_int a < (2::rat) powi int la" by (rule ra(2))
    also have "\<dots> = 2 powi (k + 1) * 2 powi (int lb - 1)"
      by (simp only: k_def powi2_mult) (simp add: algebra_simps)
    also have "\<dots> \<le> 2 powi (k + 1) * of_int b"
      using rb(1) by (intro mult_left_mono) auto
    finally show ?thesis using bpos by (simp add: q pos_divide_less_eq)
  qed
  have fl: "flog2 q = (if 2 powi k \<le> q then k else k - 1)"
    by (simp add: flog2_def ab k_def la_def lb_def)
  show "2 powi flog2 q \<le> q" and "q < 2 powi (flog2 q + 1)"
    using lower upper by (auto simp: fl not_le)
qed


lemma flog2_unique:
  assumes "2 powi k \<le> q" and "q < 2 powi (k + 1)"
  shows "flog2 q = k"
proof -
  have q: "0 < q" using assms(1) by (metis less_le_trans zero_less_numeral zero_less_power_int)
  have "(2::rat) powi k < 2 powi (flog2 q + 1)" "(2::rat) powi flog2 q < 2 powi (k + 1)"
    using flog2_bounds [OF q] assms by linarith+
  then show ?thesis by simp
qed

lemma flog2_mono: "0 < p \<Longrightarrow> p \<le> q \<Longrightarrow> flog2 p \<le> flog2 q"
proof -
  assume "0 < p" "p \<le> q"
  then have "(2::rat) powi flog2 p < 2 powi (flog2 q + 1)"
    using flog2_bounds [of p] flog2_bounds [of q] by linarith
  then show ?thesis by simp
qed

lemma rne_mono: "p \<le> q \<Longrightarrow> rne p \<le> rne q"
proof -
  assume pq: "p \<le> q"
  have fl: "\<lfloor>p\<rfloor> \<le> \<lfloor>q\<rfloor>" using pq by (rule floor_mono)
  show ?thesis
  proof (cases "\<lfloor>p\<rfloor> = \<lfloor>q\<rfloor>")
    case True
    with pq show ?thesis by (auto simp: rne_def Let_def)
  next
    case False
    with fl have "\<lfloor>p\<rfloor> + 1 \<le> \<lfloor>q\<rfloor>" by simp
    then show ?thesis by (auto simp: rne_def Let_def)
  qed
qed

lemma rne_of_int [simp]: "rne (of_int n) = n"
  by (simp add: rne_def)

lemma rne_le: "q \<le> of_int n \<Longrightarrow> rne q \<le> n"
  using rne_mono [of q "of_int n"] by simp

lemma rne_ge: "of_int n \<le> q \<Longrightarrow> n \<le> rne q"
  using rne_mono [of "of_int n" q] by simp

lemma rne_nearest: "\<bar>of_int (rne q) - q\<bar> \<le> 1 / 2"
proof -
  define f :: rat where "f = of_int \<lfloor>q\<rfloor>"
  have "f \<le> q" "q < f + 1" unfolding f_def by linarith+
  then show ?thesis
    unfolding rne_def Let_def of_int_add of_int_1 if_distrib [of of_int] f_def [symmetric]
    by (auto simp: abs_if)
qed

lemma ulp_exp_mono: "0 < p \<Longrightarrow> p \<le> q \<Longrightarrow> ulp_exp p \<le> ulp_exp q"
  using flog2_mono [of p q] by (simp add: ulp_exp_def)

lemma powi2_int: "0 \<le> i \<Longrightarrow> (2::rat) powi i = of_int (2 ^ nat i)"
  by (simp add: power_int_def)

text \<open>A power of two that is a multiple of the last place of \<open>q\<close> bounds its rounding.\<close>

lemma rnd_mag_le_powi:
  assumes "0 < q" and "q \<le> 2 powi k" and "ulp_exp q \<le> k"
  shows "rnd_mag q \<le> 2 powi k"
proof -
  let ?e = "ulp_exp q"
  have "q / 2 powi ?e \<le> 2 powi k / 2 powi ?e"
    using assms(2) by (simp add: divide_right_mono)
  also have "\<dots> = 2 powi (k - ?e)"
    by (simp add: power_int_diff)
  also have "\<dots> = of_int (2 ^ nat (k - ?e))"
    using assms(3) by (intro powi2_int) simp
  finally have "rne (q / 2 powi ?e) \<le> 2 ^ nat (k - ?e)"
    by (rule rne_le)
  then have "of_int (rne (q / 2 powi ?e)) \<le> (2::rat) powi (k - ?e)"
    using assms(3) powi2_int [of "k - ?e"] by (metis diff_ge_0_iff_ge of_int_le_iff)
  then have "rnd_mag q \<le> 2 powi (k - ?e) * 2 powi ?e"
    unfolding rnd_mag_def by (intro mult_right_mono) auto
  then show ?thesis by (simp add: power_int_add [symmetric])
qed

lemma rnd_mag_ge_powi:
  assumes "2 powi k \<le> q" and "ulp_exp q \<le> k"
  shows "2 powi k \<le> rnd_mag q"
proof -
  let ?e = "ulp_exp q"
  have "of_int (2 ^ nat (k - ?e)) = (2::rat) powi (k - ?e)"
    using assms(2) by (intro powi2_int [symmetric]) simp
  also have "\<dots> = 2 powi k / 2 powi ?e"
    by (simp add: power_int_diff)
  also have "\<dots> \<le> q / 2 powi ?e"
    using assms(1) by (simp add: divide_right_mono)
  finally have "2 ^ nat (k - ?e) \<le> rne (q / 2 powi ?e)"
    by (rule rne_ge)
  then have "(2::rat) powi (k - ?e) \<le> of_int (rne (q / 2 powi ?e))"
    using assms(2) powi2_int [of "k - ?e"] by (metis diff_ge_0_iff_ge of_int_le_iff)
  then have "2 powi (k - ?e) * 2 powi ?e \<le> rnd_mag q"
    unfolding rnd_mag_def by (intro mult_right_mono) auto
  then show ?thesis by (simp add: power_int_add [symmetric])
qed

lemma rnd_mag_mono:
  assumes "0 < p" and "p \<le> q"
  shows "rnd_mag p \<le> rnd_mag q"
proof (cases "ulp_exp p = ulp_exp q")
  case True
  have "p / 2 powi ulp_exp q \<le> q / 2 powi ulp_exp q"
    using assms by (simp add: divide_right_mono)
  then have "rne (p / 2 powi ulp_exp q) \<le> rne (q / 2 powi ulp_exp q)"
    by (rule rne_mono)
  then show ?thesis
    unfolding rnd_mag_def True by (intro mult_right_mono) auto
next
  case False
  with assms have lt: "ulp_exp p < ulp_exp q"
    using ulp_exp_mono [of p q] by simp
  then have uq: "ulp_exp q = flog2 q - 52" and fl: "flog2 p < flog2 q"
    by (auto simp: ulp_exp_def)
  have "p < 2 powi (flog2 p + 1)" using assms(1) by (rule flog2_bounds)
  also have "\<dots> \<le> 2 powi flog2 q" using fl by (intro power_int_increasing) auto
  finally have "rnd_mag p \<le> 2 powi flog2 q"
    using assms(1) lt uq by (intro rnd_mag_le_powi) auto
  also have "\<dots> \<le> rnd_mag q"
    using assms uq by (intro rnd_mag_ge_powi flog2_bounds) auto
  finally show ?thesis .
qed

lemma rnd_mag_nonneg: "0 \<le> q \<Longrightarrow> 0 \<le> rnd_mag q"
proof -
  assume "0 \<le> q"
  then have "0 \<le> rne (q / 2 powi ulp_exp q)" by (intro rne_ge) simp
  then show ?thesis by (simp add: rnd_mag_def)
qed

text \<open>A multiple of its own last place is left alone.\<close>

lemma rnd_mag_exact:
  assumes "q = of_int n * 2 powi ulp_exp q"
  shows "rnd_mag q = q"
proof -
  have "q / 2 powi ulp_exp q = of_int n"
    using assms by (metis nonzero_mult_div_cancel_right power_int_eq_0_iff zero_neq_numeral)
  then show ?thesis
    unfolding rnd_mag_def by (simp add: assms [symmetric])
qed

text \<open>Integers of at most 53 bits are representable.\<close>

lemma rnd_mag_int:
  assumes "0 < n" and "n \<le> 2 ^ 53"
  shows "rnd_mag (of_int n) = of_int n"
proof -
  let ?q = "of_int n :: rat"
  have q: "0 < ?q" using assms by simp
  have "1 \<le> ?q" using assms(1) by simp
  have "flog2 ?q \<le> 53"
  proof -
    have "?q \<le> of_int (2 ^ 53)" using assms(2) by (simp only: of_int_le_iff)
    then have "(2::rat) powi flog2 ?q \<le> 2 powi 53"
      using flog2_bounds(1) [OF q] by (simp add: power_int_def)
    then show ?thesis by (simp only: powi2_le_iff)
  qed
  show ?thesis
  proof (cases "n = 2 ^ 53")
    case True
    have "rnd_mag ?q \<le> 2 powi 53"
      using q True \<open>flog2 ?q \<le> 53\<close> by (intro rnd_mag_le_powi) (auto simp: ulp_exp_def power_int_def)
    moreover have "2 powi 53 \<le> rnd_mag ?q"
      using True \<open>flog2 ?q \<le> 53\<close> by (intro rnd_mag_ge_powi) (auto simp: ulp_exp_def power_int_def)
    ultimately show ?thesis using True by (simp add: power_int_def)
  next
    case False
    with assms(2) have "n < 2 ^ 53" by simp
    then have "?q < of_int (2 ^ 53)" by (simp only: of_int_less_iff)
    then have "(2::rat) powi flog2 ?q < 2 powi 53"
      using flog2_bounds(1) [OF q] by (simp add: power_int_def)
    then have "flog2 ?q < 53" by (simp only: powi2_less_iff)
    then have "ulp_exp ?q \<le> 0" by (simp add: ulp_exp_def)
    then have "?q = of_int (n * 2 ^ nat (- ulp_exp ?q)) * 2 powi ulp_exp ?q"
      by (simp add: power_int_def power_one_over)
    then show ?thesis by (rule rnd_mag_exact)
  qed
qed

lemma rnd_mag_powi: "- 1074 \<le> k \<Longrightarrow> rnd_mag (2 powi k) = 2 powi k"
proof -
  assume k: "- 1074 \<le> k"
  have "flog2 (2 powi k) = k" by (rule flog2_unique) auto
  with k have "ulp_exp (2 powi k) \<le> k" by (simp add: ulp_exp_def)
  then show ?thesis
    by (intro antisym rnd_mag_le_powi rnd_mag_ge_powi) auto
qed

lemma rnd_mag_upper: "0 < q \<Longrightarrow> - 1074 \<le> flog2 q + 1 \<Longrightarrow> rnd_mag q \<le> 2 powi (flog2 q + 1)"
  using flog2_bounds(2) [of q] by (intro rnd_mag_le_powi) (auto simp: ulp_exp_def)

text \<open>Rounding twice is rounding once: a rounded magnitude is representable.\<close>

lemma rnd_mag_idem:
  assumes "0 < q"
  shows "rnd_mag (rnd_mag q) = rnd_mag q"
proof -
  let ?m = "rnd_mag q" and ?e = "ulp_exp q"
  have m: "?m = of_int (rne (q / 2 powi ?e)) * 2 powi ?e" by (rule rnd_mag_def)
  show ?thesis
  proof (cases "- 1022 \<le> flog2 q")
    case True
    then have e: "?e = flog2 q - 52" by (simp add: ulp_exp_def)
    have lo: "2 powi flog2 q \<le> ?m"
      using assms e by (intro rnd_mag_ge_powi flog2_bounds) auto
    have hi: "?m \<le> 2 powi (flog2 q + 1)"
      using True by (intro rnd_mag_upper assms) simp
    show ?thesis
    proof (cases "?m = 2 powi (flog2 q + 1)")
      case True
      then show ?thesis using \<open>- 1022 \<le> flog2 q\<close> by (simp only: rnd_mag_powi)
    next
      case False
      with hi lo have "flog2 ?m = flog2 q" by (intro flog2_unique) auto
      then have "ulp_exp ?m = ?e" by (simp add: ulp_exp_def)
      then show ?thesis using m by (intro rnd_mag_exact) simp
    qed
  next
    case False
    then have e: "?e = - 1074" by (simp add: ulp_exp_def)
    have "q \<le> 2 powi (- 1022)"
    proof -
      have "q < 2 powi (flog2 q + 1)" using assms by (rule flog2_bounds)
      also have "\<dots> \<le> 2 powi (- 1022)" using False by (simp only: powi2_le_iff)
      finally show ?thesis by simp
    qed
    then have hi: "?m \<le> 2 powi (- 1022)"
      using assms e by (intro rnd_mag_le_powi) simp_all
    show ?thesis
    proof (cases "?m = 0")
      case True
      then show ?thesis using rne_of_int [of 0] by (simp add: rnd_mag_def)
    next
      case False
      then have "0 < ?m" using rnd_mag_nonneg [of q] assms by simp
      then have "(2::rat) powi flog2 ?m \<le> 2 powi (- 1022)"
        using flog2_bounds(1) [of ?m] hi by linarith
      then have "flog2 ?m \<le> - 1022" by (simp only: powi2_le_iff)
      then have "ulp_exp ?m = ?e" using e by (simp add: ulp_exp_def)
      then show ?thesis using m by (intro rnd_mag_exact) simp
    qed
  qed
qed

section \<open>Classification and order\<close>

definition representable :: "rat \<Rightarrow> bool" where
  "representable q \<longleftrightarrow> q = 0 \<or> (rnd_mag \<bar>q\<bar> = \<bar>q\<bar> \<and> \<bar>q\<bar> < 2 ^ 1024)"

fun wf_f64 :: "f64 \<Rightarrow> bool" where
  "wf_f64 (Fin q) = representable q"
| "wf_f64 _ = True"

fun is_finite :: "f64 \<Rightarrow> bool" where
  "is_finite (Fin q) = True"
| "is_finite NZero = True"
| "is_finite _ = False"

fun is_nan :: "f64 \<Rightarrow> bool" where
  "is_nan NaN = True"
| "is_nan _ = False"

fun val :: "f64 \<Rightarrow> rat" where
  "val (Fin q) = q"
| "val _ = 0"

fun rank :: "f64 \<Rightarrow> int" where
  "rank NInf = - 1"
| "rank PInf = 1"
| "rank _ = 0"

fun is_sign_negative :: "f64 \<Rightarrow> bool" where
  "is_sign_negative (Fin q) = (q < 0)"
| "is_sign_negative NZero = True"
| "is_sign_negative NInf = True"
| "is_sign_negative _ = False"

text \<open>The IEEE comparisons: every comparison with a NaN is false and the zeros are equal.\<close>

instantiation f64 :: ord
begin

definition less_f64 :: "f64 \<Rightarrow> f64 \<Rightarrow> bool" where
  "x < y \<longleftrightarrow> \<not> is_nan x \<and> \<not> is_nan y \<and> (rank x < rank y \<or> (rank x = rank y \<and> val x < val y))"

definition less_eq_f64 :: "f64 \<Rightarrow> f64 \<Rightarrow> bool" where
  "x \<le> y \<longleftrightarrow> \<not> is_nan x \<and> \<not> is_nan y \<and> (rank x < rank y \<or> (rank x = rank y \<and> val x \<le> val y))"

instance ..

end

definition feq :: "f64 \<Rightarrow> f64 \<Rightarrow> bool" where
  "feq x y \<longleftrightarrow> \<not> is_nan x \<and> \<not> is_nan y \<and> rank x = rank y \<and> val x = val y"

lemma f64_le_refl: "\<not> is_nan x \<Longrightarrow> x \<le> (x::f64)"
  by (simp add: less_eq_f64_def)

lemma f64_le_trans [trans]: "x \<le> y \<Longrightarrow> y \<le> z \<Longrightarrow> x \<le> (z::f64)"
  by (auto simp: less_eq_f64_def)

lemma f64_less_le_trans [trans]: "x < y \<Longrightarrow> y \<le> z \<Longrightarrow> x < (z::f64)"
  by (auto simp: less_eq_f64_def less_f64_def)

lemma f64_le_less_trans [trans]: "x \<le> y \<Longrightarrow> y < z \<Longrightarrow> x < (z::f64)"
  by (auto simp: less_eq_f64_def less_f64_def)

lemma f64_less_imp_le: "x < y \<Longrightarrow> x \<le> (y::f64)"
  by (auto simp: less_eq_f64_def less_f64_def)

lemma f64_not_less: "\<not> is_nan x \<Longrightarrow> \<not> is_nan y \<Longrightarrow> \<not> x < y \<longleftrightarrow> y \<le> (x::f64)"
  by (auto simp: less_eq_f64_def less_f64_def)

lemma f64_less_asym: "x < y \<Longrightarrow> \<not> y \<le> (x::f64)"
  by (auto simp: less_eq_f64_def less_f64_def)

lemma is_finite_not_nan: "is_finite x \<Longrightarrow> \<not> is_nan x"
  by (cases x) auto

lemma is_finite_rank: "is_finite x \<Longrightarrow> rank x = 0"
  by (cases x) auto

lemma f64_le_finite: "is_finite x \<Longrightarrow> is_finite y \<Longrightarrow> x \<le> y \<longleftrightarrow> val x \<le> val y"
  by (simp add: less_eq_f64_def is_finite_not_nan is_finite_rank)

lemma f64_less_finite: "is_finite x \<Longrightarrow> is_finite y \<Longrightarrow> x < y \<longleftrightarrow> val x < val y"
  by (simp add: less_f64_def is_finite_not_nan is_finite_rank)

lemma f64_nonneg_finite: "is_finite x \<Longrightarrow> \<not> x < Fin 0 \<longleftrightarrow> 0 \<le> val x"
  by (auto simp: f64_less_finite)

lemma Fin_le_iff [simp]: "Fin p \<le> Fin q \<longleftrightarrow> p \<le> q"
  by (simp add: f64_le_finite)

lemma Fin_less_iff [simp]: "Fin p < Fin q \<longleftrightarrow> p < q"
  by (simp add: f64_less_finite)

lemma le_PInf [simp]: "x \<le> PInf \<longleftrightarrow> \<not> is_nan x"
  by (cases x) (auto simp: less_eq_f64_def)

lemma NInf_le [simp]: "NInf \<le> x \<longleftrightarrow> \<not> is_nan x"
  by (cases x) (auto simp: less_eq_f64_def)

text \<open>\<open>f64::total_cmp\<close>, as a Boolean comparison; the one NaN of the model is the positive one.\<close>

definition total_key :: "f64 \<Rightarrow> int \<times> rat \<times> int" where
  "total_key x =
     (case x of NInf \<Rightarrow> (- 1, 0, 0) | NZero \<Rightarrow> (0, 0, - 1) | Fin q \<Rightarrow> (0, q, 0)
      | PInf \<Rightarrow> (1, 0, 0) | NaN \<Rightarrow> (2, 0, 0))"

definition total_le :: "f64 \<Rightarrow> f64 \<Rightarrow> bool" where
  "total_le x y \<longleftrightarrow>
     (case (total_key x, total_key y) of ((a, b, c), (a', b', c')) \<Rightarrow>
        a < a' \<or> (a = a' \<and> (b < b' \<or> (b = b' \<and> c \<le> c'))))"

lemma total_le_linear: "total_le x y \<or> total_le y x"
  by (auto simp: total_le_def split: prod.splits)

lemma total_le_trans: "total_le x y \<Longrightarrow> total_le y z \<Longrightarrow> total_le x z"
  by (auto simp: total_le_def split: prod.splits)

lemma total_le_antisym: "total_le x y \<Longrightarrow> total_le y x \<Longrightarrow> x = y"
  by (cases x; cases y) (auto simp: total_le_def total_key_def)

lemma total_le_refl [simp]: "total_le x x"
  using total_le_linear by blast

lemma total_le_imp_le: "\<not> is_nan x \<Longrightarrow> \<not> is_nan y \<Longrightarrow> total_le x y \<Longrightarrow> x \<le> y"
  by (cases x; cases y) (auto simp: total_le_def total_key_def less_eq_f64_def)

section \<open>Arithmetic\<close>

fun f_neg :: "f64 \<Rightarrow> f64" where
  "f_neg NaN = NaN"
| "f_neg PInf = NInf"
| "f_neg NInf = PInf"
| "f_neg NZero = Fin 0"
| "f_neg (Fin q) = (if q = 0 then NZero else Fin (- q))"

definition f_abs :: "f64 \<Rightarrow> f64" where
  "f_abs x = (if is_sign_negative x then f_neg x else x)"

instantiation f64 :: "{plus, minus, times, divide}"
begin

definition plus_f64 :: "f64 \<Rightarrow> f64 \<Rightarrow> f64" where
  "x + y =
     (if is_nan x \<or> is_nan y then NaN
      else if \<not> is_finite x then (if \<not> is_finite y \<and> x \<noteq> y then NaN else x)
      else if \<not> is_finite y then y
      else rnd_f64 (x = NZero \<and> y = NZero) (val x + val y))"

definition minus_f64 :: "f64 \<Rightarrow> f64 \<Rightarrow> f64" where
  "x - y = x + f_neg y"

definition times_f64 :: "f64 \<Rightarrow> f64 \<Rightarrow> f64" where
  "x * y =
     (let s = is_sign_negative x \<noteq> is_sign_negative y in
      if is_nan x \<or> is_nan y then NaN
      else if \<not> is_finite x then (if is_finite y \<and> val y = 0 then NaN else f64_inf s)
      else if \<not> is_finite y then (if val x = 0 then NaN else f64_inf s)
      else rnd_f64 s (val x * val y))"

definition divide_f64 :: "f64 \<Rightarrow> f64 \<Rightarrow> f64" where
  "x div y =
     (let s = is_sign_negative x \<noteq> is_sign_negative y in
      if is_nan x \<or> is_nan y then NaN
      else if \<not> is_finite x then (if \<not> is_finite y then NaN else f64_inf s)
      else if \<not> is_finite y then f64_zero s
      else if val y = 0 then (if val x = 0 then NaN else f64_inf s)
      else rnd_f64 s (val x / val y))"

instance ..

end

text \<open>Rust's \<open>%\<close>: the remainder of truncated division, exact, with the sign of the dividend.\<close>

definition trunc_rat :: "rat \<Rightarrow> int" where
  "trunc_rat q = (if q < 0 then \<lceil>q\<rceil> else \<lfloor>q\<rfloor>)"

definition f_rem :: "f64 \<Rightarrow> f64 \<Rightarrow> f64" where
  "f_rem x y =
     (if is_nan x \<or> is_nan y \<or> \<not> is_finite x \<or> (is_finite y \<and> val y = 0) then NaN
      else if \<not> is_finite y then x
      else rnd_f64 (is_sign_negative x) (val x - of_int (trunc_rat (val x / val y)) * val y))"

definition f_floor :: "f64 \<Rightarrow> f64" where
  "f_floor x = (if is_finite x then rnd_f64 (is_sign_negative x) (of_int \<lfloor>val x\<rfloor>) else x)"

definition f_ceil :: "f64 \<Rightarrow> f64" where
  "f_ceil x = (if is_finite x then rnd_f64 (is_sign_negative x) (of_int \<lceil>val x\<rceil>) else x)"

text \<open>\<open>f64::min\<close> and \<open>f64::max\<close> ignore a NaN argument.\<close>

definition f_min :: "f64 \<Rightarrow> f64 \<Rightarrow> f64" where
  "f_min x y = (if is_nan x then y else if is_nan y then x else if y < x then y else x)"

definition f_max :: "f64 \<Rightarrow> f64 \<Rightarrow> f64" where
  "f_max x y = (if is_nan x then y else if is_nan y then x else if x < y then y else x)"

text \<open>\<open>f64::clamp\<close> for bounds that are in order (it panics otherwise; every call passes such bounds).\<close>

definition f_clamp :: "f64 \<Rightarrow> f64 \<Rightarrow> f64 \<Rightarrow> f64" where
  "f_clamp x lo hi = (let y = (if x < lo then lo else x) in if hi < y then hi else y)"

definition f64_of_nat :: "nat \<Rightarrow> f64" where
  "f64_of_nat n = rnd_f64 False (of_nat n)"

text \<open>The saturating cast \<open>as u64\<close>.\<close>

fun f64_to_u64 :: "f64 \<Rightarrow> u64" where
  "f64_to_u64 NaN = 0"
| "f64_to_u64 NInf = 0"
| "f64_to_u64 NZero = 0"
| "f64_to_u64 PInf = u64_max"
| "f64_to_u64 (Fin q) = min (nat \<lfloor>q\<rfloor>) u64_max"

fun f_sum :: "f64 \<Rightarrow> f64 list \<Rightarrow> f64" where
  "f_sum acc [] = acc"
| "f_sum acc (x # xs) = f_sum (acc + x) xs"

section \<open>Facts about the operations\<close>

lemma rnd_f64_not_nan [simp]: "\<not> is_nan (rnd_f64 s q)"
  by (simp add: rnd_f64_def f64_zero_def f64_inf_def Let_def)

lemma rnd_f64_zero: "rnd_f64 s 0 = f64_zero s"
  by (simp add: rnd_f64_def)

lemma f64_zero_simps [simp]:
  "is_finite (f64_zero s)" "val (f64_zero s) = 0" "rank (f64_zero s) = 0" "\<not> is_nan (f64_zero s)"
  by (simp_all add: f64_zero_def)

lemma rnd_f64_pos: "0 < q \<Longrightarrow> rnd_f64 s q =
    (if rnd_mag q = 0 then Fin 0 else if 2 ^ 1024 \<le> rnd_mag q then PInf else Fin (rnd_mag q))"
  by (simp add: rnd_f64_def Let_def f64_zero_def f64_inf_def)

lemma rnd_f64_neg: "q < 0 \<Longrightarrow> rnd_f64 s q =
    (if rnd_mag (- q) = 0 then NZero else if 2 ^ 1024 \<le> rnd_mag (- q) then NInf
     else Fin (- rnd_mag (- q)))"
  by (simp add: rnd_f64_def Let_def f64_zero_def f64_inf_def)

lemma rnd_f64_nonneg: "0 \<le> q \<Longrightarrow> Fin 0 \<le> rnd_f64 s q"
proof (cases "q = 0")
  case True
  then show ?thesis by (simp add: rnd_f64_zero less_eq_f64_def)
next
  case False
  assume "0 \<le> q"
  with False have "0 < q" by simp
  then show ?thesis using rnd_mag_nonneg [of q] by (auto simp: rnd_f64_pos less_eq_f64_def)
qed

lemma rnd_f64_nonpos: "q \<le> 0 \<Longrightarrow> rnd_f64 s q \<le> Fin 0"
proof (cases "q = 0")
  case True
  then show ?thesis by (simp add: rnd_f64_zero less_eq_f64_def)
next
  case False
  assume "q \<le> 0"
  with False have "q < 0" by simp
  then show ?thesis using rnd_mag_nonneg [of "- q"] by (auto simp: rnd_f64_neg less_eq_f64_def)
qed

theorem rnd_f64_mono: "p \<le> q \<Longrightarrow> rnd_f64 s p \<le> rnd_f64 t q"
proof -
  assume pq: "p \<le> q"
  consider "p \<le> 0" "0 \<le> q" | "0 < p" | "q < 0" by linarith
  then show ?thesis
  proof cases
    case 1
    then show ?thesis using f64_le_trans [OF rnd_f64_nonpos rnd_f64_nonneg] by blast
  next
    case 2
    with pq have "0 < q" "rnd_mag p \<le> rnd_mag q" "0 \<le> rnd_mag p"
      by (auto intro: rnd_mag_mono rnd_mag_nonneg)
    then show ?thesis using 2 by (auto simp: rnd_f64_pos less_eq_f64_def)
  next
    case 3
    with pq have "p < 0" "rnd_mag (- q) \<le> rnd_mag (- p)" "0 \<le> rnd_mag (- q)"
      by (auto intro: rnd_mag_mono rnd_mag_nonneg)
    then show ?thesis using 3 by (auto simp: rnd_f64_neg less_eq_f64_def)
  qed
qed

lemma rnd_f64_representable:
  assumes "representable q" and "q \<noteq> 0"
  shows "rnd_f64 s q = Fin q"
  using assms by (cases "q < 0") (auto simp: representable_def rnd_f64_pos rnd_f64_neg)

lemma representable_rnd_mag: "0 < q \<Longrightarrow> rnd_mag q < 2 ^ 1024 \<Longrightarrow> representable (rnd_mag q)"
  by (simp add: representable_def rnd_mag_nonneg rnd_mag_idem)

lemma representable_uminus [simp]: "representable (- q) \<longleftrightarrow> representable q"
  by (simp add: representable_def)

lemma wf_rnd_f64 [simp]: "wf_f64 (rnd_f64 s q)"
proof -
  consider "q = 0" | "0 < q" | "q < 0" by linarith
  then show ?thesis
    by cases (auto simp: rnd_f64_zero f64_zero_def rnd_f64_pos rnd_f64_neg representable_rnd_mag
        representable_def [of 0])
qed

lemma representable_int: "\<bar>n\<bar> \<le> 2 ^ 53 \<Longrightarrow> representable (of_int n)"
proof -
  assume n: "\<bar>n\<bar> \<le> 2 ^ 53"
  have "\<bar>n\<bar> < 2 ^ 1024"
    using n by (rule order.strict_trans1) simp
  then have "of_int \<bar>n\<bar> < (of_int (2 ^ 1024) :: rat)" by (simp only: of_int_less_iff)
  then have "\<bar>of_int n\<bar> < (2 ^ 1024 :: rat)" by simp
  moreover have "n \<noteq> 0 \<Longrightarrow> rnd_mag (of_int \<bar>n\<bar>) = of_int \<bar>n\<bar>"
    using n by (intro rnd_mag_int) auto
  ultimately show ?thesis by (auto simp: representable_def)
qed

lemma rnd_f64_int: "\<bar>n\<bar> \<le> 2 ^ 53 \<Longrightarrow> n \<noteq> 0 \<Longrightarrow> rnd_f64 s (of_int n) = Fin (of_int n)"
  by (simp add: rnd_f64_representable representable_int)

lemma rnd_f64_numeral [f64_simps]:
  "(numeral n :: int) \<le> 2 ^ 53 \<Longrightarrow> rnd_f64 s (numeral n) = Fin (numeral n)"
  "(numeral n :: int) \<le> 2 ^ 53 \<Longrightarrow> rnd_f64 s (- numeral n) = Fin (- numeral n)"
  "rnd_f64 s 1 = Fin 1"
  "rnd_f64 False 0 = Fin 0"
  using rnd_f64_int [of "numeral n" s] rnd_f64_int [of "- numeral n" s] rnd_f64_int [of 1 s]
  by (simp_all add: rnd_f64_zero f64_zero_def)

lemma f_neg_simps [simp]:
  "is_nan (f_neg x) = is_nan x" "is_finite (f_neg x) = is_finite x" "val (f_neg x) = - val x"
  by (cases x; simp)+

lemma wf_f_neg [simp]: "wf_f64 (f_neg x) = wf_f64 x"
  by (cases x) (auto simp: representable_def [of 0])

lemma plus_finite [f64_simps]:
  "is_finite x \<Longrightarrow> is_finite y \<Longrightarrow> x + y = rnd_f64 (x = NZero \<and> y = NZero) (val x + val y)"
  by (simp add: plus_f64_def is_finite_not_nan)

lemma minus_finite [f64_simps]:
  "is_finite x \<Longrightarrow> is_finite y \<Longrightarrow> x - y = rnd_f64 (x = NZero \<and> y = Fin 0) (val x - val y)"
  by (cases y) (auto simp: minus_f64_def plus_finite)

lemma times_finite [f64_simps]:
  "is_finite x \<Longrightarrow> is_finite y \<Longrightarrow>
   x * y = rnd_f64 (is_sign_negative x \<noteq> is_sign_negative y) (val x * val y)"
  by (simp add: times_f64_def is_finite_not_nan)

lemma divide_finite [f64_simps]:
  "is_finite x \<Longrightarrow> is_finite y \<Longrightarrow> val y \<noteq> 0 \<Longrightarrow>
   x div y = rnd_f64 (is_sign_negative x \<noteq> is_sign_negative y) (val x / val y)"
  by (simp add: divide_f64_def is_finite_not_nan)

lemma wf_ops [simp]:
  "wf_f64 (x + y)" if "wf_f64 x" "wf_f64 y" for x y
  using that by (simp add: plus_f64_def)

text \<open>Subtraction of finite numbers is monotone in its first argument: ages grow with the clock.\<close>

lemma minus_mono_left:
  assumes "is_finite x" "is_finite x'" "is_finite y" "x \<le> x'"
  shows "x - y \<le> x' - y"
  using assms by (simp add: minus_finite f64_le_finite rnd_f64_mono)

lemma minus_self_le: "is_finite x \<Longrightarrow> is_finite y \<Longrightarrow> x \<le> y \<Longrightarrow> x - y \<le> Fin 0"
  by (simp add: minus_finite f64_le_finite rnd_f64_nonpos)

lemma minus_nonneg: "is_finite x \<Longrightarrow> is_finite y \<Longrightarrow> y \<le> x \<Longrightarrow> Fin 0 \<le> x - y"
  by (simp add: minus_finite f64_le_finite rnd_f64_nonneg)

lemma f64_of_nat_nonneg: "Fin 0 \<le> f64_of_nat n"
  by (simp add: f64_of_nat_def rnd_f64_nonneg)

lemma f64_of_nat_exact: "n \<le> 2 ^ 53 \<Longrightarrow> f64_of_nat n = Fin (of_nat n)"
  using rnd_f64_int [of "int n" False]
  by (cases "n = 0") (auto simp: f64_of_nat_def rnd_f64_zero f64_zero_def)

lemma times_nonneg:
  assumes "is_finite x" "Fin 0 < x" "Fin 0 \<le> y"
  shows "Fin 0 \<le> x * y"
proof (cases "is_finite y")
  case True
  have "0 \<le> val x * val y" using assms True by (cases x; cases y) (auto simp: less_f64_def less_eq_f64_def)
  then show ?thesis using assms True by (simp add: times_finite rnd_f64_nonneg)
next
  case False
  then have "y = PInf" using assms(3) by (cases y) (auto simp: less_eq_f64_def)
  then show ?thesis
    using assms(1,2) by (cases x) (auto simp: times_f64_def less_f64_def less_eq_f64_def f64_inf_def)
qed

lemma f_clamp_bounds:
  assumes "\<not> is_nan x" "lo \<le> hi"
  shows "lo \<le> f_clamp x lo hi" "f_clamp x lo hi \<le> hi"
proof -
  have n: "\<not> is_nan lo" "\<not> is_nan hi" using assms(2) by (auto simp: less_eq_f64_def)
  show "lo \<le> f_clamp x lo hi" "f_clamp x lo hi \<le> hi"
    using assms n by (auto simp: f_clamp_def Let_def f64_not_less f64_le_refl dest: f64_not_less [THEN iffD1, rotated 2])
qed

lemma f_max_ge: "\<not> is_nan y \<Longrightarrow> y \<le> f_max x y"
  by (auto simp: f_max_def f64_le_refl f64_not_less)

lemma f_min_le: "\<not> is_nan y \<Longrightarrow> f_min x y \<le> y"
  by (auto simp: f_min_def f64_le_refl f64_not_less)

lemma f64_to_u64_le [simp]: "f64_to_u64 x \<le> u64_max"
  by (cases x) auto

lemma f64_to_u64_mono: "x \<le> y \<Longrightarrow> f64_to_u64 x \<le> f64_to_u64 y"
  by (cases x; cases y) (auto simp: less_eq_f64_def floor_mono nat_mono min.coboundedI1)

subsection \<open>Remainder and floor are exact\<close>

text \<open>A positive multiple of a power of two no finer than its last place is left alone.\<close>

lemma rnd_mag_coarse:
  assumes "r = of_int n * 2 powi e" and "ulp_exp r \<le> e"
  shows "rnd_mag r = r"
proof (rule rnd_mag_exact)
  have "(2::rat) powi e = 2 powi (e - ulp_exp r) * 2 powi ulp_exp r" by (simp add: powi2_mult)
  also have "(2::rat) powi (e - ulp_exp r) = of_int (2 ^ nat (e - ulp_exp r))"
    using assms(2) by (simp add: powi2_int)
  finally show "r = of_int (n * 2 ^ nat (e - ulp_exp r)) * 2 powi ulp_exp r"
    using assms(1) by (simp add: mult.assoc)
qed

lemma representable_grid:
  assumes "representable q" "0 < q"
  obtains n where "q = of_int n * 2 powi ulp_exp q"
proof -
  have "rnd_mag q = q" using assms by (auto simp: representable_def)
  then have "q = of_int (rne (q / 2 powi ulp_exp q)) * 2 powi ulp_exp q" by (simp add: rnd_mag_def)
  then show thesis by (rule that)
qed

lemma powi2_split:
  assumes "i \<le> j" obtains n where "(2::rat) powi j = of_int n * 2 powi i"
proof
  show "(2::rat) powi j = of_int (2 ^ nat (j - i)) * 2 powi i"
    using powi2_int [of "j - i"] powi2_mult [of "j - i" i] assms by simp
qed

lemma remainder_exact:
  assumes "representable x" "representable y" "0 < x" "0 < y"
    and r: "r = x - of_int k * y" "0 < r" "r \<le> x" "r < y"
  shows "rnd_mag r = r"
proof -
  let ?e = "min (ulp_exp x) (ulp_exp y)"
  obtain m n where mn: "x = of_int m * 2 powi ulp_exp x" "y = of_int n * 2 powi ulp_exp y"
    using assms by (meson representable_grid)
  obtain i j where ij: "(2::rat) powi ulp_exp x = of_int i * 2 powi ?e"
    "(2::rat) powi ulp_exp y = of_int j * 2 powi ?e"
    by (meson min.cobounded1 min.cobounded2 powi2_split)
  have "x = of_int (m * i) * 2 powi ?e" "y = of_int (n * j) * 2 powi ?e"
    using mn ij by (simp_all add: mult.assoc)
  then have "r = of_int (m * i - k * (n * j)) * 2 powi ?e"
    unfolding r(1) by (metis (no_types, lifting) left_diff_distrib mult.assoc of_int_diff of_int_mult)
  moreover have "ulp_exp r \<le> ?e"
    using ulp_exp_mono [of r x] ulp_exp_mono [of r y] r by simp
  ultimately show ?thesis by (rule rnd_mag_coarse)
qed

lemma floor_representable:
  assumes "representable q" "0 \<le> q"
  shows "representable (of_int \<lfloor>q\<rfloor>)"
proof (cases "q = 0")
  case False
  then have q: "0 < q" using assms(2) by simp
  show ?thesis
  proof (cases "0 \<le> ulp_exp q")
    case True
    obtain n where "q = of_int n * 2 powi ulp_exp q" using assms(1) q by (rule representable_grid)
    then have "q = of_int (n * 2 ^ nat (ulp_exp q))" using True by (simp add: powi2_int)
    then have "of_int \<lfloor>q\<rfloor> = q" by (metis floor_of_int)
    then show ?thesis using assms(1) by (simp only:)
  next
    case False
    then have "flog2 q + 1 \<le> 53" by (simp add: ulp_exp_def)
    then have "(2::rat) powi (flog2 q + 1) \<le> 2 powi 53" by (simp only: powi2_le_iff)
    with flog2_bounds(2) [OF q] have "q < 2 ^ 53" by (simp add: power_int_def)
    then have "\<lfloor>q\<rfloor> \<le> 2 ^ 53" by (simp add: floor_le_iff)
    then show ?thesis using q by (intro representable_int) simp
  qed
qed (simp add: representable_def)

lemma rnd_f64_wf_val:
  assumes "wf_f64 x" "is_finite x"
  shows "is_finite (rnd_f64 s (val x))" "val (rnd_f64 s (val x)) = val x"
  using assms by (cases x; cases "val x = 0"; auto simp: rnd_f64_zero rnd_f64_representable)+

lemma rnd_f64_half: "rnd_f64 s (1 / 2) = Fin (1 / 2)"
  using rnd_mag_powi [of "- 1"] by (simp add: rnd_f64_pos power_int_minus)
end
