(* ===== verification/Scoring.thy ===== *)
theory Scoring
  imports Text_Features Binary64
begin

text \<open>
  Scoring and recommendation of the routing core: Python-compatible decimal rounding, saturation of
  the features, the weighted scalar score, the tier ladder, the multinomial classifier and
  \<open>score_complexity\<close>. All arithmetic is binary64. The theory characterises the rounding, the tier
  choice and the classifier's prediction independently of the loops that compute them.
\<close>

section \<open>Python rounding\<close>

text \<open>
  The standard library's rendering of an integer and of a non-negative number with twenty decimals
  (\<open>format!("{:.20}")\<close>, correctly rounded with ties to even), as digit strings.
\<close>

fun dec_digits :: "nat \<Rightarrow> str" where
  "dec_digits n = (if n < 10 then [48 + n] else dec_digits (n div 10) @ [48 + n mod 10])"

declare dec_digits.simps [simp del]

fun pad_digits :: "nat \<Rightarrow> nat \<Rightarrow> str" where
  "pad_digits 0 n = []"
| "pad_digits (Suc k) n = (48 + n div 10 ^ k mod 10) # pad_digits k n"

definition scaled20 :: "rat \<Rightarrow> nat" where
  "scaled20 q = nat (rne (q * 10 ^ 20))"

definition format20 :: "rat \<Rightarrow> str \<times> str" where
  "format20 q = (dec_digits (scaled20 q div 10 ^ 20), pad_digits 20 (scaled20 q mod 10 ^ 20))"

fun parse_digits_from :: "u64 \<Rightarrow> str \<Rightarrow> u64 option" where
  "parse_digits_from acc [] = Some acc"
| "parse_digits_from acc (c # cs) =
     (if 48 \<le> c \<and> c - 48 \<le> 9 then
        (case checked_mul acc 10 of
           None \<Rightarrow> None
         | Some a \<Rightarrow>
             (case checked_add a (c - 48) of None \<Rightarrow> None | Some b \<Rightarrow> parse_digits_from b cs))
      else None)"

definition parse_ascii_digits :: "str \<Rightarrow> u64 option" where
  "parse_ascii_digits s = parse_digits_from 0 s"

definition should_increment :: "str \<Rightarrow> u64 \<Rightarrow> bool" where
  "should_increment tail retained =
     (let first_discarded = (case tail of [] \<Rightarrow> 48 | c # _ \<Rightarrow> c) in
      if 53 < first_discarded then True
      else if first_discarded < 53 then False
      else (\<exists>b\<in>set (tl tail). b \<noteq> 48) \<or> retained mod 2 = 1)"

definition python_round :: "f64 \<Rightarrow> nat \<Rightarrow> f64" where
  "python_round v places =
     (if \<not> is_finite v \<or> 12 < places then v
      else
        let negative = is_sign_negative v;
            integer = fst (format20 \<bar>val v\<bar>);
            decimals = snd (format20 \<bar>val v\<bar>);
            scale = 10 ^ places
        in case parse_ascii_digits integer of
             None \<Rightarrow> v
           | Some iv \<Rightarrow>
          (case checked_mul iv scale of
             None \<Rightarrow> v
           | Some base \<Rightarrow>
          (case parse_ascii_digits (take places decimals) of
             None \<Rightarrow> v
           | Some fractional \<Rightarrow>
          (case checked_add base fractional of
             None \<Rightarrow> v
           | Some retained \<Rightarrow>
               let retained' = (if should_increment (drop places decimals) retained
                                then sat_add retained 1 else retained);
                   rounded = f64_of_nat retained' div f64_of_nat scale
               in if negative then f_neg rounded else rounded))))"

section \<open>Weights and features\<close>

definition FEATURE_ORDER :: "str list" where
  "FEATURE_ORDER = map lit
     [''word_count'', ''heading_count'', ''max_heading_depth'', ''list_item_count'', ''link_count'',
      ''code_block_count'', ''table_row_count'', ''reasoning_term_count'', ''math_symbol_count'',
      ''constraint_term_count'', ''question_count'']"

definition SATURATION :: "f64 list" where
  "SATURATION = [Fin 400, Fin 8, Fin 4, Fin 15, Fin 10, Fin 4, Fin 12, Fin 2, Fin 6, Fin 3, Fin 3]"

definition WEIGHT_SUM_ORDER :: "nat list" where
  "WEIGHT_SUM_ORDER = [0, 3, 1, 5, 6, 4, 2, 7, 8, 9, 10]"

fun position_from :: "nat \<Rightarrow> 'a \<Rightarrow> 'a list \<Rightarrow> nat option" where
  "position_from i x [] = None"
| "position_from i x (y # ys) = (if y = x then Some i else position_from (Suc i) x ys)"

definition feature_index :: "str \<Rightarrow> nat option" where
  "feature_index name = position_from 0 name FEATURE_ORDER"

definition features_get_named :: "features \<Rightarrow> str \<Rightarrow> u64 option" where
  "features_get_named f name =
     (case feature_index name of None \<Rightarrow> None | Some i \<Rightarrow> features_get f i)"

text \<open>The array of eleven weights in feature order.\<close>

type_synonym weights = "f64 list"

definition weights_get :: "weights \<Rightarrow> str \<Rightarrow> f64 option" where
  "weights_get w name =
     (case feature_index name of
        None \<Rightarrow> None
      | Some i \<Rightarrow> (if i < length w then Some (w ! i) else None))"

definition weights_set :: "weights \<Rightarrow> str \<Rightarrow> f64 \<Rightarrow> bool \<times> weights" where
  "weights_set w name v =
     (case feature_index name of
        None \<Rightarrow> (False, w)
      | Some i \<Rightarrow> (if i < length w then (True, w[i := v]) else (False, w)))"

definition weights_at :: "weights \<Rightarrow> nat \<Rightarrow> f64" where
  "weights_at w i = (if i < length w then w ! i else Fin 0)"

definition weights_default :: weights where
  "weights_default =
     [Fin 3, Fin (3 / 2), Fin 1, Fin 2, Fin 1, Fin (3 / 2), Fin 1, Fin 0, Fin 0, Fin 0, Fin 0]"

definition normalized_features :: "features \<Rightarrow> f64 list" where
  "normalized_features f =
     map (\<lambda>i. f_min (f64_of_nat (features_list f ! i) div (SATURATION ! i)) (Fin 1)) [0..<11]"

definition total_weight :: "weights \<Rightarrow> f64" where
  "total_weight w = fold (\<lambda>i acc. acc + weights_at w i) WEIGHT_SUM_ORDER (Fin 0)"

definition accumulated_score :: "features \<Rightarrow> weights \<Rightarrow> f64" where
  "accumulated_score f w =
     fold (\<lambda>i acc. acc + weights_at w i * normalized_features f ! i) [0..<11] (Fin 0)"

definition scalar_score :: "features \<Rightarrow> weights \<Rightarrow> f64" where
  "scalar_score f w =
     (if feq (total_weight w) (Fin 0) then Fin 0
      else python_round (accumulated_score f w div total_weight w) 2)"

record feature_contribution =
  fc_name :: str
  fc_value :: u64
  fc_normalized :: f64
  fc_weight :: f64
  fc_contribution :: f64

definition explain_score :: "features \<Rightarrow> weights \<Rightarrow> feature_contribution list" where
  "explain_score f w =
     map (\<lambda>i.
       let n = normalized_features f ! i; weight = weights_at w i;
           contribution = (if feq (total_weight w) (Fin 0) then Fin 0
                           else weight * n div total_weight w)
       in \<lparr>fc_name = FEATURE_ORDER ! i, fc_value = features_list f ! i,
           fc_normalized = python_round n 4, fc_weight = weight,
           fc_contribution = python_round contribution 4\<rparr>) [0..<11]"

section \<open>Tiers\<close>

record tier =
  tr_min_score :: f64
  tr_model :: str
  tr_cost :: "f64 option"

definition tier_new :: "f64 \<Rightarrow> str \<Rightarrow> tier" where
  "tier_new m name = \<lparr>tr_min_score = m, tr_model = name, tr_cost = None\<rparr>"

definition with_cost :: "tier \<Rightarrow> f64 \<Rightarrow> tier" where
  "with_cost t c = t\<lparr>tr_cost := Some c\<rparr>"

fun tier_loop :: "f64 \<Rightarrow> str \<Rightarrow> tier list \<Rightarrow> str" where
  "tier_loop score chosen [] = chosen"
| "tier_loop score chosen (t # ts) =
     (if tr_min_score t \<le> score then tier_loop score (tr_model t) ts else chosen)"

definition recommend_tier :: "f64 \<Rightarrow> tier list \<Rightarrow> str option" where
  "recommend_tier score tiers =
     (case tiers of [] \<Rightarrow> None | t # _ \<Rightarrow> Some (tier_loop score (tr_model t) tiers))"

definition binary_tiers :: "f64 \<Rightarrow> tier list" where
  "binary_tiers threshold = [tier_new (Fin 0) (lit ''local''), tier_new threshold (lit ''cloud'')]"

definition DEFAULT_THRESHOLD :: f64 where
  "DEFAULT_THRESHOLD = flit (1 / 100)"

section \<open>Classifier\<close>

record classifier_model =
  cl_models :: "str list"
  cl_weights :: "f64 list list"
  cl_intercepts :: "f64 list"

fun fill_weights ::
  "nat \<Rightarrow> f64 list list \<Rightarrow> (str \<times> f64 list) list \<Rightarrow> (core_error, f64 list list) result" where
  "fill_weights n acc [] = Inr acc"
| "fill_weights n acc ((name, vector) # ws) =
     (case feature_index name of
        None \<Rightarrow> Inl (InvalidClassifier (UnknownFeature name))
      | Some i \<Rightarrow>
          (if length vector \<noteq> n then Inl (InvalidClassifier (WeightVectorLength name n))
           else fill_weights n (acc[i := vector]) ws))"

definition classifier_new ::
  "str list \<Rightarrow> (str \<times> f64 list) list \<Rightarrow> f64 list \<Rightarrow> (core_error, classifier_model) result" where
  "classifier_new models weights intercepts =
     (if length models < 2 then Inl (InvalidClassifier TooFewModels)
      else if \<exists>m\<in>set models. m = [] then Inl (InvalidClassifier EmptyModelName)
      else if length (remdups models) \<noteq> length models then Inl (InvalidClassifier DuplicateModelName)
      else if length intercepts \<noteq> length models
        then Inl (InvalidClassifier (InterceptCount (length models)))
      else
        (case fill_weights (length models) (replicate 11 (replicate (length models) (Fin 0))) weights of
           Inl e \<Rightarrow> Inl e
         | Inr ws \<Rightarrow> Inr \<lparr>cl_models = models, cl_weights = ws, cl_intercepts = intercepts\<rparr>))"

definition weights_for :: "classifier_model \<Rightarrow> str \<Rightarrow> f64 list option" where
  "weights_for c name =
     (case feature_index name of
        None \<Rightarrow> None
      | Some i \<Rightarrow> (if i < length (cl_weights c) then Some (cl_weights c ! i) else None))"

definition weight_at :: "classifier_model \<Rightarrow> nat \<Rightarrow> nat \<Rightarrow> f64" where
  "weight_at c feature model =
     (if feature < length (cl_weights c) \<and> model < length (cl_weights c ! feature)
      then cl_weights c ! feature ! model else Fin 0)"

definition logits :: "classifier_model \<Rightarrow> features \<Rightarrow> f64 list" where
  "logits c f =
     map (\<lambda>m. fold (\<lambda>i acc. acc + weight_at c i m * normalized_features f ! i) [0..<11]
                (cl_intercepts c ! m))
       [0..<length (cl_intercepts c)]"

fun argmax_loop :: "nat \<Rightarrow> nat \<Rightarrow> f64 \<Rightarrow> f64 list \<Rightarrow> nat" where
  "argmax_loop i best best_value [] = best"
| "argmax_loop i best best_value (x # xs) =
     (if best_value < x then argmax_loop (Suc i) i x xs
      else argmax_loop (Suc i) best best_value xs)"

definition predict :: "classifier_model \<Rightarrow> features \<Rightarrow> str option" where
  "predict c f =
     (case logits c f of
        [] \<Rightarrow> None
      | x # xs \<Rightarrow>
          let best = argmax_loop 1 0 x xs
          in if best < length (cl_models c) then Some (cl_models c ! best) else None)"

section \<open>The routing decision\<close>

record routing_config =
  rc_weights :: weights
  rc_tiers :: "tier list"
  rc_classifier :: "classifier_model option"
  rc_lexicon :: lexicon

definition routing_config_default :: routing_config where
  "routing_config_default =
     \<lparr>rc_weights = weights_default, rc_tiers = binary_tiers DEFAULT_THRESHOLD,
      rc_classifier = None, rc_lexicon = lexicon_default\<rparr>"

definition routing_config_binary :: "f64 \<Rightarrow> routing_config" where
  "routing_config_binary threshold = routing_config_default\<lparr>rc_tiers := binary_tiers threshold\<rparr>"

datatype routing_mode = Tiered | Classifier

record complexity_score =
  cs_schema_version :: str
  cs_score :: f64
  cs_recommendation :: str
  cs_mode :: routing_mode
  cs_features :: features
  cs_tiers :: "tier list option"
  cs_models :: "str list option"

definition score_complexity ::
  "compiled_patterns \<Rightarrow> str \<Rightarrow> routing_config \<Rightarrow> (core_error, complexity_score) result" where
  "score_complexity pats text config =
     (case extract_features_with_lexicon pats text (rc_lexicon config) of
        Inl e \<Rightarrow> Inl e
      | Inr f \<Rightarrow>
          let score = scalar_score f (rc_weights config) in
          case rc_classifier config of
            Some c \<Rightarrow>
              (case predict c f of
                 None \<Rightarrow> Inl (InvalidClassifier NoPrediction)
               | Some m \<Rightarrow>
                   Inr \<lparr>cs_schema_version = lit ''3'', cs_score = score, cs_recommendation = m,
                        cs_mode = Classifier, cs_features = f, cs_tiers = None,
                        cs_models = Some (cl_models c)\<rparr>)
          | None \<Rightarrow>
              (case recommend_tier score (rc_tiers config) of
                 None \<Rightarrow> Inl MissingTier
               | Some m \<Rightarrow>
                   Inr \<lparr>cs_schema_version = lit ''3'', cs_score = score, cs_recommendation = m,
                        cs_mode = Tiered, cs_features = f, cs_tiers = Some (rc_tiers config),
                        cs_models = None\<rparr>))"

section \<open>What Python rounding computes\<close>

lemma mod_pow10_Suc: "n mod 10 ^ Suc k = n div 10 ^ k mod 10 * 10 ^ k + n mod (10 ^ k :: nat)"
  using mod_mult2_eq [of n "10 ^ k" 10] by (simp add: mult.commute)

lemma parse_pad:
  "acc * 10 ^ k + n mod 10 ^ k \<le> u64_max \<Longrightarrow>
   parse_digits_from acc (pad_digits k n) = Some (acc * 10 ^ k + n mod 10 ^ k)"
proof (induction k arbitrary: acc)
  case (Suc k)
  define d where "d = n div 10 ^ k mod 10"
  have m: "acc * 10 ^ Suc k + n mod 10 ^ Suc k = (acc * 10 + d) * 10 ^ k + n mod 10 ^ k"
    unfolding mod_pow10_Suc d_def by (simp add: algebra_simps)
  with Suc.prems have b: "(acc * 10 + d) * 10 ^ k + n mod 10 ^ k \<le> u64_max" by simp
  have "acc * 10 + d \<le> (acc * 10 + d) * 10 ^ k" by simp
  with b have "acc * 10 + d \<le> u64_max" by linarith
  then show ?case
    using Suc.IH [OF b] m by (simp add: checked_mul_def checked_add_def d_def [symmetric]) (simp add: d_def)
qed simp

lemma parse_append:
  "parse_digits_from acc (xs @ ys) =
   (case parse_digits_from acc xs of None \<Rightarrow> None | Some a \<Rightarrow> parse_digits_from a ys)"
  by (induction acc xs rule: parse_digits_from.induct) (auto split: option.splits)

lemma parse_dec_digits:
  "parse_digits_from 0 (dec_digits n) = (if n \<le> u64_max then Some n else None)"
proof (induction n rule: dec_digits.induct)
  case (1 n)
  show ?case
  proof (cases "n < 10")
    case True
    then have "n \<le> u64_max" by (simp add: u64_max_def)
    with True show ?thesis
      by (simp add: dec_digits.simps [of n] checked_mul_def checked_add_def)
  next
    case False
    have n: "n div 10 * 10 + n mod 10 = n" by simp
    show ?thesis
    proof (cases "n \<le> u64_max")
      case True
      then have "n div 10 \<le> u64_max" "n div 10 * 10 \<le> u64_max" by simp_all
      with False True 1 n show ?thesis
        by (simp add: dec_digits.simps [of n] parse_append checked_mul_def checked_add_def)
    next
      case big: False
      have "\<not> (n div 10 * 10 \<le> u64_max \<and> n div 10 * 10 + n mod 10 \<le> u64_max)"
        using big n by simp
      then show ?thesis
        using False big 1 n
        by (auto simp: dec_digits.simps [of n] parse_append checked_mul_def checked_add_def
            split: option.splits if_splits)
    qed
  qed
qed

lemma pad_digits_take: "take p (pad_digits (p + k) n) = pad_digits p (n div 10 ^ k)"
  by (induction p) (simp_all add: div_mult2_eq [symmetric] power_add mult.commute)

lemma pad_digits_drop: "drop p (pad_digits (p + k) n) = pad_digits k n"
  by (induction p) simp_all

lemma pad_digits_zero: "(\<exists>b\<in>set (pad_digits k n). b \<noteq> 48) \<longleftrightarrow> n mod 10 ^ k \<noteq> 0"
  by (induction k) (simp_all add: mod_pow10_Suc del: power_Suc)

lemma should_increment_pad:
  "should_increment (pad_digits (Suc k) n) r \<longleftrightarrow>
   5 * 10 ^ k < n mod 10 ^ Suc k \<or> (n mod 10 ^ Suc k = 5 * 10 ^ k \<and> odd r)"
proof -
  define d where "d = n div 10 ^ k mod 10"
  define t where "t = n mod (10 ^ k :: nat)"
  have t: "t < 10 ^ k" by (simp add: t_def)
  have m: "n mod 10 ^ Suc k = d * 10 ^ k + t" by (simp add: mod_pow10_Suc d_def t_def del: power_Suc)
  have inc: "should_increment (pad_digits (Suc k) n) r \<longleftrightarrow>
      5 < d \<or> (d = 5 \<and> (t \<noteq> 0 \<or> odd r))"
    by (auto simp: should_increment_def d_def t_def pad_digits_zero odd_iff_mod_2_eq_one)
  consider "5 < d" | "d = 5" | "d < 5" by linarith
  then show ?thesis
  proof cases
    case 1
    then have "6 * 10 ^ k \<le> d * (10 ^ k :: nat)" by (intro mult_right_mono) auto
    moreover have "0 < (10 ^ k :: nat)" by simp
    ultimately have "5 * 10 ^ k < d * 10 ^ k + t" by linarith
    then show ?thesis using 1 unfolding m inc by blast
  next
    case 2
    then show ?thesis unfolding m inc by auto
  next
    case 3
    then have "d * (10 ^ k :: nat) \<le> 4 * 10 ^ k" by (intro mult_right_mono) auto
    with t have "d * 10 ^ k + t < 5 * 10 ^ k" by linarith
    then show ?thesis using 3 unfolding m inc by auto
  qed
qed

lemma rne_quotient:
  assumes "0 < H"
  shows "rne (of_nat R / of_nat (2 * H)) =
    int (R div (2 * H) + (if H < R mod (2 * H) \<or> (R mod (2 * H) = H \<and> odd (R div (2 * H))) then 1 else 0))"
proof -
  let ?D = "2 * H"
  have D: "0 < ?D" using assms by simp
  have "(of_nat R :: rat) = of_nat (R div ?D) * of_nat ?D + of_nat (R mod ?D)"
    by (metis div_mult_mod_eq of_nat_add of_nat_mult)
  then have q: "(of_nat R :: rat) / of_nat ?D = of_nat (R div ?D) + of_nat (R mod ?D) / of_nat ?D"
    using D by (simp add: add_divide_distrib del: of_nat_mult)
  have r: "0 \<le> (of_nat (R mod ?D) :: rat) / of_nat ?D" "(of_nat (R mod ?D) :: rat) / of_nat ?D < 1"
    using D by (auto simp: divide_less_eq simp del: of_nat_mult)
  have fl: "\<lfloor>(of_nat R :: rat) / of_nat ?D\<rfloor> = int (R div ?D)"
    using r unfolding q by (intro floor_unique) auto
  have cmp: "(of_nat (R mod ?D) :: rat) / of_nat ?D < 1 / 2 \<longleftrightarrow> R mod ?D < H"
    "1 / 2 < (of_nat (R mod ?D) :: rat) / of_nat ?D \<longleftrightarrow> H < R mod ?D"
    using assms by (auto simp: field_simps)
  show ?thesis
    unfolding rne_def Let_def fl unfolding q
    using cmp by (auto simp: not_less)
qed

lemma python_round_digits:
  assumes v: "is_finite v" and p: "p \<le> 12"
    and small: "scaled20 \<bar>val v\<bar> div 10 ^ (20 - p) < u64_max"
  shows "python_round v p =
    (let r = f64_of_nat (nat (rne (of_nat (scaled20 \<bar>val v\<bar>) / 10 ^ (20 - p)))) div f64_of_nat (10 ^ p)
     in if is_sign_negative v then f_neg r else r)"
proof -
  let ?R = "scaled20 \<bar>val v\<bar>"
  define k where "k = 19 - p"
  have k: "20 - p = Suc k" "p + Suc k = 20" using p by (auto simp: k_def)
  have pow: "(10::nat) ^ 20 = 10 ^ p * 10 ^ Suc k" using k(2) by (metis power_add)
  have base: "?R div 10 ^ Suc k = ?R div 10 ^ 20 * 10 ^ p + ?R mod 10 ^ 20 div 10 ^ Suc k"
  proof -
    have "?R = ?R div 10 ^ 20 * 10 ^ 20 + ?R mod 10 ^ 20" by simp
    then have "?R = ?R div 10 ^ 20 * 10 ^ p * 10 ^ Suc k + ?R mod 10 ^ 20"
      unfolding pow by (simp add: mult.assoc)
    then have "?R div 10 ^ Suc k =
        (?R div 10 ^ 20 * 10 ^ p * 10 ^ Suc k + ?R mod 10 ^ 20) div 10 ^ Suc k" by simp
    also have "\<dots> = ?R div 10 ^ 20 * 10 ^ p + ?R mod 10 ^ 20 div 10 ^ Suc k"
      by (subst div_mult_self3) simp_all
    finally show ?thesis .
  qed
  have rest: "?R mod 10 ^ 20 mod 10 ^ Suc k = ?R mod 10 ^ Suc k"
    by (rule mod_mod_cancel) (unfold pow, rule dvd_triv_right)
  have frac: "?R mod 10 ^ 20 div 10 ^ Suc k mod 10 ^ p = ?R mod 10 ^ 20 div 10 ^ Suc k"
  proof -
    have "?R mod 10 ^ 20 < 10 ^ p * 10 ^ Suc k" unfolding pow [symmetric] by simp
    then show ?thesis by (intro mod_less) (simp add: less_mult_imp_div_less)
  qed
  have le: "?R div 10 ^ Suc k \<le> u64_max" using small k(1) by simp
  have le1: "?R div 10 ^ 20 * 10 ^ p \<le> u64_max" using le base by simp
  have "?R div 10 ^ 20 \<le> ?R div 10 ^ 20 * 10 ^ p" by simp
  then have le2: "?R div 10 ^ 20 \<le> u64_max" using le1 by linarith
  have fr: "parse_ascii_digits (take p (pad_digits 20 (?R mod 10 ^ 20))) =
      Some (?R mod 10 ^ 20 div 10 ^ Suc k)"
  proof -
    have "?R mod 10 ^ 20 div 10 ^ Suc k \<le> u64_max" using le base by simp
    moreover have "take p (pad_digits 20 (?R mod 10 ^ 20)) = pad_digits p (?R mod 10 ^ 20 div 10 ^ Suc k)"
      using pad_digits_take [of p "Suc k" "?R mod 10 ^ 20"] unfolding k(2) .
    ultimately show ?thesis
      using parse_pad [of 0 p "?R mod 10 ^ 20 div 10 ^ Suc k"] frac
      by (simp add: parse_ascii_digits_def)
  qed
  have dr: "drop p (pad_digits 20 (?R mod 10 ^ 20)) = pad_digits (Suc k) (?R mod 10 ^ 20)"
    using pad_digits_drop [of p "Suc k" "?R mod 10 ^ 20"] unfolding k(2) .
  have rne: "nat (rne (of_nat ?R / 10 ^ Suc k)) =
      ?R div 10 ^ Suc k +
      (if 5 * 10 ^ k < ?R mod 10 ^ Suc k \<or> (?R mod 10 ^ Suc k = 5 * 10 ^ k \<and> odd (?R div 10 ^ Suc k))
       then 1 else 0)"
    using rne_quotient [of "5 * 10 ^ k" ?R] by (auto simp: nat_add_distrib)
  define I where "I = ?R div 10 ^ 20"
  define F where "F = ?R mod 10 ^ 20 div 10 ^ Suc k"
  define Q where "Q = ?R div 10 ^ Suc k"
  have Q: "I * 10 ^ p + F = Q" using base by (simp only: I_def F_def Q_def)
  have parts: "parse_ascii_digits (fst (format20 \<bar>val v\<bar>)) = Some I"
    "parse_ascii_digits (take p (snd (format20 \<bar>val v\<bar>))) = Some F"
    "drop p (snd (format20 \<bar>val v\<bar>)) = pad_digits (Suc k) (?R mod 10 ^ 20)"
    using le2 parse_dec_digits [of "?R div 10 ^ 20"] fr dr
    by (simp_all only: format20_def fst_conv snd_conv parse_ascii_digits_def [of "dec_digits _"]
        if_True I_def F_def)
  have bounds: "I * 10 ^ p \<le> u64_max" "Q < u64_max"
    using le1 small k(1) by (simp_all only: I_def Q_def)
  have inc: "(if should_increment (pad_digits (Suc k) (?R mod 10 ^ 20)) Q then sat_add Q 1 else Q) =
      nat (rne (of_nat ?R / 10 ^ Suc k))"
    unfolding should_increment_pad rest rne Q_def [symmetric] using bounds(2)
    by (simp add: sat_add_def)
  show ?thesis
    unfolding python_round_def Let_def parts k(1) inc [symmetric]
    using v p bounds Q by (simp add: checked_mul_def checked_add_def)
qed

lemma scaled20_bounds:
  assumes "0 \<le> q"
  shows "\<bar>of_nat (scaled20 q) / 10 ^ 20 - q\<bar> \<le> 1 / (2 * 10 ^ 20)"
proof -
  have "0 \<le> rne (q * 10 ^ 20)" using assms by (intro rne_ge) simp
  then have "of_nat (scaled20 q) = (of_int (rne (q * 10 ^ 20)) :: rat)"
    by (simp add: scaled20_def)
  then show ?thesis
    using rne_nearest [of "q * 10 ^ 20"] by (simp add: abs_if field_simps split: if_splits)
qed

lemma scaled20_mono: "p \<le> q \<Longrightarrow> scaled20 p \<le> scaled20 q"
  unfolding scaled20_def by (intro nat_mono rne_mono) simp

lemma scaled20_le: "q \<le> of_nat n \<Longrightarrow> scaled20 q \<le> n * 10 ^ 20"
proof -
  assume "q \<le> of_nat n"
  then have "rne (q * 10 ^ 20) \<le> int (n * 10 ^ 20)"
    by (intro rne_le) simp
  then show ?thesis by (simp add: scaled20_def nat_le_iff)
qed

lemma scaled20_small:
  assumes "q < 2 ^ 20" and "p \<le> 12"
  shows "scaled20 q div 10 ^ (20 - p) < u64_max"
proof -
  have "scaled20 q \<le> 2 ^ 20 * 10 ^ 20"
    using scaled20_le [of q "2 ^ 20"] assms(1) by simp
  also have "\<dots> = 2 ^ 20 * 10 ^ p * 10 ^ (20 - p)"
    using assms(2) by (simp add: power_add [symmetric])
  finally have "scaled20 q div 10 ^ (20 - p) \<le> 2 ^ 20 * 10 ^ p * 10 ^ (20 - p) div 10 ^ (20 - p)"
    by (rule div_le_mono)
  also have "\<dots> = 2 ^ 20 * 10 ^ p" by simp
  also have "\<dots> \<le> 2 ^ 20 * 10 ^ 12" using assms(2) by (intro mult_left_mono power_increasing) auto
  also have "\<dots> < u64_max" by (simp add: u64_max_def)
  finally show ?thesis .
qed

text \<open>The rounded decimal as a number of units of \<open>10 ^ - p\<close>.\<close>

definition decimal_units :: "rat \<Rightarrow> nat \<Rightarrow> nat" where
  "decimal_units q p = nat (rne (of_nat (scaled20 q) / 10 ^ (20 - p)))"

lemma decimal_units_mono: "p \<le> q \<Longrightarrow> decimal_units p n \<le> decimal_units q n"
  unfolding decimal_units_def
  by (intro nat_mono rne_mono divide_right_mono) (simp_all add: scaled20_mono)

lemma decimal_units_le:
  assumes "q \<le> of_nat n" and "p \<le> 20"
  shows "decimal_units q p \<le> n * 10 ^ p"
proof -
  have "scaled20 q \<le> n * 10 ^ p * 10 ^ (20 - p)"
    using scaled20_le [OF assms(1)] assms(2) by (simp add: mult.assoc power_add [symmetric])
  then have "(of_nat (scaled20 q) :: rat) \<le> of_nat (n * 10 ^ p * 10 ^ (20 - p))"
    by (simp only: of_nat_le_iff)
  then have "of_nat (scaled20 q) / 10 ^ (20 - p) \<le> (of_int (int (n * 10 ^ p)) :: rat)"
    by (simp add: pos_divide_le_eq)
  then have "rne (of_nat (scaled20 q) / 10 ^ (20 - p)) \<le> int (n * 10 ^ p)"
    by (rule rne_le)
  then show ?thesis by (simp add: decimal_units_def nat_le_iff)
qed

lemma decimal_units_nearest:
  assumes "0 \<le> q" and "p \<le> 12"
  shows "\<bar>of_nat (decimal_units q p) / 10 ^ p - q\<bar> \<le> 1 / (2 * 10 ^ p) + 1 / (2 * 10 ^ 20)"
proof -
  let ?R = "scaled20 q" and ?D = "(10::rat) ^ (20 - p)"
  have "0 \<le> rne (of_nat ?R / ?D)" by (intro rne_ge) simp
  then have n: "of_nat (decimal_units q p) = (of_int (rne (of_nat ?R / ?D)) :: rat)"
    by (simp add: decimal_units_def)
  have pow: "?D * 10 ^ p = 10 ^ 20" using assms(2) by (simp add: power_add [symmetric])
  have "\<bar>of_nat (decimal_units q p) - of_nat ?R / ?D\<bar> \<le> 1 / 2"
    unfolding n by (rule rne_nearest)
  then have "\<bar>of_nat (decimal_units q p) - of_nat ?R / ?D\<bar> / 10 ^ p \<le> 1 / 2 / 10 ^ p"
    by (intro divide_right_mono) simp_all
  moreover have "\<bar>of_nat (decimal_units q p) - of_nat ?R / ?D\<bar> / 10 ^ p =
      \<bar>of_nat (decimal_units q p) / 10 ^ p - of_nat ?R / 10 ^ 20\<bar>"
  proof -
    have "\<bar>of_nat (decimal_units q p) - of_nat ?R / ?D\<bar> / 10 ^ p =
        \<bar>(of_nat (decimal_units q p) - of_nat ?R / ?D) / 10 ^ p\<bar>" by (simp add: abs_divide)
    also have "\<dots> = \<bar>of_nat (decimal_units q p) / 10 ^ p - of_nat ?R / (?D * 10 ^ p)\<bar>"
      by (simp add: diff_divide_distrib)
    finally show ?thesis by (simp only: pow)
  qed
  ultimately have "\<bar>of_nat (decimal_units q p) / 10 ^ p - of_nat ?R / 10 ^ 20\<bar> \<le> (1::rat) / (2 * 10 ^ p)"
    by simp
  then show ?thesis using scaled20_bounds [OF assms(1)] by linarith
qed

text \<open>
  C1. Python rounding of a finite value below \<open>2 ^ 20\<close> returns, with the sign of the input, the binary64
  quotient of an integer count of decimal units by the power of ten, and that decimal is within half
  a unit of the input, up to half a unit of the twentieth decimal of the rendering.
\<close>

theorem python_round_nearest:
  assumes "is_finite v" and "\<bar>val v\<bar> < 2 ^ 20" and "p \<le> 12"
  shows "python_round v p =
      (let r = f64_of_nat (decimal_units \<bar>val v\<bar> p) div f64_of_nat (10 ^ p)
       in if is_sign_negative v then f_neg r else r) \<and>
    \<bar>of_nat (decimal_units \<bar>val v\<bar> p) / 10 ^ p - \<bar>val v\<bar>\<bar> \<le> 1 / (2 * 10 ^ p) + 1 / (2 * 10 ^ 20)"
  using python_round_digits [OF assms(1,3) scaled20_small [OF assms(2,3)]]
    decimal_units_nearest [of "\<bar>val v\<bar>" p] assms(3)
  by (simp add: decimal_units_def)

theorem python_round_nearest_witness:
  "python_round (Fin (5 / 2)) 0 =
      (let r = f64_of_nat (decimal_units \<bar>val (Fin (5 / 2))\<bar> 0) div f64_of_nat (10 ^ 0)
       in if is_sign_negative (Fin (5 / 2)) then f_neg r else r) \<and>
    \<bar>of_nat (decimal_units \<bar>val (Fin (5 / 2))\<bar> 0) / 10 ^ 0 - \<bar>val (Fin (5 / 2))\<bar>\<bar>
      \<le> 1 / (2 * 10 ^ 0) + (1::rat) / (2 * 10 ^ 20)"
  by (rule python_round_nearest) simp_all

subsection \<open>Order and range\<close>

lemma f64_of_nat_mono: "m \<le> n \<Longrightarrow> f64_of_nat m \<le> f64_of_nat n"
  unfolding f64_of_nat_def by (rule rnd_f64_mono) simp

lemma f64_of_nat_finite:
  assumes "n \<le> 2 ^ 64"
  shows "is_finite (f64_of_nat n)"
proof -
  have "f64_of_nat n \<le> f64_of_nat (2 ^ 64)" using assms by (rule f64_of_nat_mono)
  also have "f64_of_nat (2 ^ 64) = Fin (2 ^ 64)"
  proof -
    have "rnd_mag (2 powi 64) = (2::rat) powi 64" by (rule rnd_mag_powi) simp
    then have "rnd_mag (2 ^ 64) = (2::rat) ^ 64" by (simp only: power_int_numeral)
    then have "representable (2 ^ 64)" unfolding representable_def by simp
    then have "rnd_f64 False (2 ^ 64) = Fin (2 ^ 64)" by (rule rnd_f64_representable) simp
    then show ?thesis unfolding f64_of_nat_def of_nat_power of_nat_numeral .
  qed
  finally show ?thesis
    using f64_of_nat_nonneg [of n] by (cases "f64_of_nat n") (auto simp: less_eq_f64_def)
qed

lemma divide_mono_finite:
  assumes "is_finite x" "is_finite y" "x \<le> y" "is_finite z" "0 < val z"
  shows "x div z \<le> y div z"
  using assms by (simp add: divide_finite f64_le_finite rnd_f64_mono divide_right_mono)

lemma python_round_range:
  assumes "is_finite v" "0 \<le> val v" "val v \<le> 1 + 1 / 256"
  shows "Fin 0 \<le> python_round v 2 \<and> python_round v 2 \<le> Fin 1"
proof -
  let ?n = "decimal_units (val v) 2"
  let ?r = "f64_of_nat ?n div f64_of_nat (10 ^ 2)"
  have q: "\<bar>val v\<bar> < 2 ^ 20" using assms by (auto simp: abs_if)
  have eq: "python_round v 2 = (if is_sign_negative v then f_neg ?r else ?r)"
    using python_round_digits [OF assms(1) _ scaled20_small [OF q]] assms
    by (simp add: decimal_units_def Let_def)
  have "\<bar>of_nat ?n / 10 ^ 2 - val v\<bar> \<le> 1 / (2 * 10 ^ 2) + (1::rat) / (2 * 10 ^ 20)"
    using assms by (intro decimal_units_nearest) auto
  then have "(of_nat ?n :: rat) < 101" using assms by (simp add: abs_if split: if_splits)
  then have n: "?n \<le> 100" using of_nat_less_iff [where 'a = rat, of ?n 101] by simp
  have d: "f64_of_nat (10 ^ 2) = Fin 100" by (simp add: f64_of_nat_exact)
  have m: "f64_of_nat ?n = Fin (of_nat ?n)" using n by (intro f64_of_nat_exact) simp
  show ?thesis
  proof (cases "is_sign_negative v")
    case True
    with assms have "val v = 0" by (cases v) auto
    then have "?n = 0" using decimal_units_le [of 0 0 2] by simp
    then have "?r = Fin 0" unfolding d by (simp add: f64_of_nat_exact divide_finite rnd_f64_numeral)
    then show ?thesis using True by (simp add: eq less_eq_f64_def)
  next
    case False
    then show ?thesis
      unfolding eq d m using n rnd_f64_mono [of "of_nat ?n / 100" 1 False False]
      by (auto simp: divide_finite rnd_f64_nonneg rnd_f64_numeral divide_le_eq)
  qed
qed

lemma f64_of_nat_times_pow10:
  assumes "n \<le> k * 10 ^ p" "k < 2 ^ 20" "p \<le> 9"
  shows "f64_of_nat n = Fin (of_nat n)"
proof (rule f64_of_nat_exact)
  have "n \<le> 2 ^ 20 * 10 ^ 9"
    using assms by (meson le_trans less_imp_le mult_le_mono one_le_numeral power_increasing)
  also have "\<dots> \<le> (2::nat) ^ 53" by simp
  finally show "n \<le> 2 ^ 53" .
qed

lemma python_round_le:
  assumes "is_finite v" "0 \<le> val v" "val v \<le> of_nat k" "k < 2 ^ 20" "p \<le> 9"
  shows "Fin 0 \<le> python_round v p \<and> python_round v p \<le> Fin (of_nat k)"
proof -
  let ?n = "decimal_units (val v) p"
  let ?r = "f64_of_nat ?n div f64_of_nat (10 ^ p)"
  have "(of_nat k :: rat) < of_nat (2 ^ 20)" using assms(4) by (simp only: of_nat_less_iff)
  then have q: "\<bar>val v\<bar> < 2 ^ 20" using assms(2,3) by simp
  have eq: "python_round v p = (if is_sign_negative v then f_neg ?r else ?r)"
    using python_round_digits [OF assms(1) _ scaled20_small [OF q]] assms
    by (simp add: decimal_units_def Let_def)
  have n: "?n \<le> k * 10 ^ p" using assms by (intro decimal_units_le) auto
  have d: "f64_of_nat (10 ^ p) = Fin (10 ^ p)"
    using f64_of_nat_times_pow10 [of "10 ^ p" 1 p] assms(5) by simp
  have m: "f64_of_nat ?n = Fin (of_nat ?n)" using n assms(4,5) by (rule f64_of_nat_times_pow10)
  show ?thesis
  proof (cases "is_sign_negative v")
    case True
    with assms have "val v = 0" by (cases v) auto
    then have "?n = 0" using decimal_units_le [of 0 0 p] assms(5) by simp
    then have "?r = Fin 0" unfolding d by (simp add: f64_of_nat_exact divide_finite rnd_f64_numeral)
    then show ?thesis using True by (simp add: eq less_eq_f64_def)
  next
    case False
    have "(of_nat ?n :: rat) \<le> of_nat (k * 10 ^ p)" using n by (simp only: of_nat_le_iff)
    then have "(of_nat ?n :: rat) / 10 ^ p \<le> of_nat k" by (simp add: pos_divide_le_eq)
    then have "rnd_f64 False (of_nat ?n / 10 ^ p) \<le> rnd_f64 False (of_nat k)" by (rule rnd_f64_mono)
    also have "rnd_f64 False (of_nat k) = Fin (of_nat k)"
      using f64_of_nat_times_pow10 [of k k 0] assms(4) by (simp add: f64_of_nat_def)
    finally show ?thesis
      unfolding eq d m using False by (simp add: divide_finite rnd_f64_nonneg)
  qed
qed

lemma python_round_mono:
  assumes "is_finite x" "is_finite y" "0 \<le> val x" "val x \<le> val y" "val y \<le> of_nat k" "k < 2 ^ 20" "p \<le> 9"
  shows "python_round x p \<le> python_round y p"
proof (cases "val x = 0")
  case True
  have "python_round x p \<le> Fin 0" using python_round_le [of x 0 p] assms True by simp
  also have "Fin 0 \<le> python_round y p" using python_round_le [of y k p] assms by simp
  finally show ?thesis .
next
  case False
  have small: "\<bar>val z\<bar> < 2 ^ 20" if "val z \<le> val y" "0 \<le> val z" for z
  proof -
    have "(of_nat k :: rat) < of_nat (2 ^ 20)" using assms(6) by (simp only: of_nat_less_iff)
    then show ?thesis using that assms(5) by simp
  qed
  have eq: "python_round z p = f64_of_nat (decimal_units (val z) p) div f64_of_nat (10 ^ p)"
    if "is_finite z" "0 < val z" "val z \<le> val y" for z
    using python_round_digits [OF that(1) _ scaled20_small [OF small [of z]]] that assms(7)
    by (cases z) (auto simp: decimal_units_def Let_def)
  have n: "decimal_units (val z) p \<le> k * 10 ^ p" if "val z \<le> val y" for z
    using that assms by (intro decimal_units_le) auto
  have d: "f64_of_nat (10 ^ p) = Fin (10 ^ p)"
    using f64_of_nat_times_pow10 [of "10 ^ p" 1 p] assms(7) by simp
  have "f64_of_nat (decimal_units (val z) p) = Fin (of_nat (decimal_units (val z) p))"
    if "val z \<le> val y" for z using n [OF that] assms(6,7) by (rule f64_of_nat_times_pow10)
  then show ?thesis
    using eq [of x] eq [of y] assms False decimal_units_mono [OF assms(4), of p]
    by (simp add: d divide_finite rnd_f64_mono divide_right_mono)
qed

lemma upt_0_11: "[0..<11] = [0, 1, 2, 3, 4, 5, 6, 7, 8, 9, 10]"
  by (simp add: upt_rec)

section \<open>Tiers\<close>

definition ascending_tiers :: "tier list \<Rightarrow> bool" where
  "ascending_tiers ts \<longleftrightarrow> sorted_wrt (\<lambda>a b. tr_min_score a \<le> tr_min_score b) ts"

lemma tier_loop_last:
  assumes "ascending_tiers ts"
  shows "tier_loop score (tr_model t) ts =
    tr_model (last (t # filter (\<lambda>t. tr_min_score t \<le> score) ts))"
  using assms
proof (induction ts arbitrary: t)
  case (Cons u ts)
  show ?case
  proof (cases "tr_min_score u \<le> score")
    case True
    with Cons show ?thesis by (simp add: ascending_tiers_def)
  next
    case False
    with Cons.prems have "\<forall>x\<in>set ts. \<not> tr_min_score x \<le> score"
      by (auto simp: ascending_tiers_def dest: f64_le_trans)
    then have "filter (\<lambda>t. tr_min_score t \<le> score) ts = []" by (simp add: filter_empty_conv)
    with False show ?thesis by simp
  qed
qed simp

text \<open>
  C3. On an ascending ladder the recommended model is the one of the highest tier whose inclusive
  lower bound the score reaches, and the bottom tier's model when it reaches none.
\<close>

theorem recommend_tier_highest:
  assumes "ascending_tiers ts" and "ts \<noteq> []"
  shows "recommend_tier score ts =
    Some (tr_model (last (hd ts # filter (\<lambda>t. tr_min_score t \<le> score) ts)))"
proof -
  obtain t us where ts: "ts = t # us" using assms(2) by (cases ts) auto
  show ?thesis
    using tier_loop_last [OF assms(1), of score t] by (simp add: recommend_tier_def ts)
qed

theorem recommend_tier_highest_witness:
  "recommend_tier (Fin (1 / 2)) (binary_tiers (Fin (1 / 4))) =
     Some (tr_model (last (hd (binary_tiers (Fin (1 / 4))) #
       filter (\<lambda>t. tr_min_score t \<le> Fin (1 / 2)) (binary_tiers (Fin (1 / 4))))))"
  by (rule recommend_tier_highest) (simp_all add: ascending_tiers_def binary_tiers_def tier_new_def)

lemma recommend_tier_in_models: "recommend_tier score ts = Some m \<Longrightarrow> m \<in> tr_model ` set ts"
proof -
  have "tier_loop score c us \<in> insert c (tr_model ` set us)" for c us
    by (induction score c us rule: tier_loop.induct) auto
  then show "recommend_tier score ts = Some m \<Longrightarrow> m \<in> tr_model ` set ts"
    by (cases ts) (auto simp: recommend_tier_def split: if_splits)
qed

section \<open>Classifier\<close>

definition wf_classifier :: "classifier_model \<Rightarrow> bool" where
  "wf_classifier c \<longleftrightarrow>
     2 \<le> length (cl_models c) \<and> distinct (cl_models c) \<and> [] \<notin> set (cl_models c) \<and>
     length (cl_intercepts c) = length (cl_models c) \<and> length (cl_weights c) = 11 \<and>
     (\<forall>row\<in>set (cl_weights c). length row = length (cl_models c))"

lemma fill_weights_shape:
  "fill_weights n acc ws = Inr out \<Longrightarrow> \<forall>row\<in>set acc. length row = n \<Longrightarrow>
   length out = length acc \<and> (\<forall>row\<in>set out. length row = n)"
proof (induction n acc ws rule: fill_weights.induct)
  case (2 n acc name vector ws)
  then show ?case
    by (auto split: option.splits if_splits dest!: set_update_subset_insert [THEN subsetD])
qed simp

lemma classifier_new_wf: "classifier_new ms ws is = Inr c \<Longrightarrow> wf_classifier c \<and> cl_models c = ms"
proof -
  assume new: "classifier_new ms ws is = Inr c"
  then obtain out where out:
    "fill_weights (length ms) (replicate 11 (replicate (length ms) (Fin 0))) ws = Inr out"
    and c: "c = \<lparr>cl_models = ms, cl_weights = out, cl_intercepts = is\<rparr>"
    by (auto simp: classifier_new_def split: if_splits sum.splits)
  have "length out = 11 \<and> (\<forall>row\<in>set out. length row = length ms)"
    using fill_weights_shape [OF out] by simp
  moreover have "distinct ms"
    using new by (auto simp: classifier_new_def length_remdups_eq split: if_splits)
  ultimately show ?thesis
    using new c by (auto simp: classifier_new_def wf_classifier_def split: if_splits)
qed

lemma argmax_loop_spec:
  assumes "\<not> is_nan b" and "\<forall>x\<in>set xs. \<not> is_nan x"
    and "length pre = i" and "best < i" and "pre ! best = b"
    and "\<forall>j<i. pre ! j \<le> b" and "\<forall>j<best. pre ! j < b"
  shows "let r = argmax_loop i best b xs; ys = pre @ xs in
    r < length ys \<and> (\<forall>j<length ys. ys ! j \<le> ys ! r) \<and> (\<forall>j<r. ys ! j < ys ! r)"
  using assms
proof (induction xs arbitrary: i best b pre)
  case Nil
  then show ?case by (simp add: Let_def)
next
  case (Cons x xs)
  let ?pre = "pre @ [x]"
  show ?case
  proof (cases "b < x")
    case True
    have "\<forall>j<Suc i. ?pre ! j \<le> x"
      using Cons.prems True
      by (auto simp: less_Suc_eq nth_append f64_le_refl intro: f64_le_trans f64_less_imp_le)
    moreover have "\<forall>j<i. ?pre ! j < x"
      using Cons.prems True by (auto simp: nth_append intro: f64_le_less_trans)
    ultimately show ?thesis
      using Cons.IH [of x ?pre "Suc i" i] Cons.prems True by (auto simp: nth_append)
  next
    case False
    then have "x \<le> b" using Cons.prems by (simp add: f64_not_less)
    then have "\<forall>j<Suc i. ?pre ! j \<le> b"
      using Cons.prems by (auto simp: less_Suc_eq nth_append)
    moreover have "\<forall>j<best. ?pre ! j < b"
      using Cons.prems by (auto simp: nth_append)
    ultimately show ?thesis
      using Cons.IH [of b ?pre "Suc i" best] Cons.prems False by (auto simp: nth_append)
  qed
qed

lemma length_logits [simp]: "length (logits c f) = length (cl_intercepts c)"
  by (simp add: logits_def)

text \<open>
  A classifier accepted by the validating constructor always predicts, and the predicted model is
  the one with the greatest logit, the earliest in the configured order when several tie.
\<close>

theorem classifier_predicts_argmax:
  assumes "classifier_new ms ws is = Inr c" and "\<forall>x\<in>set (logits c f). \<not> is_nan x"
  shows "\<exists>i<length ms. predict c f = Some (ms ! i) \<and>
    (\<forall>j<length ms. logits c f ! j \<le> logits c f ! i) \<and> (\<forall>j<i. logits c f ! j < logits c f ! i)"
proof -
  have wf: "wf_classifier c" "cl_models c = ms" using classifier_new_wf [OF assms(1)] by auto
  then have len: "length (logits c f) = length ms" "2 \<le> length ms"
    by (auto simp: wf_classifier_def)
  then obtain x xs where l: "logits c f = x # xs" by (cases "logits c f") auto
  define r where "r = argmax_loop 1 0 x xs"
  have "let r = argmax_loop 1 0 x xs; ys = [x] @ xs in
      r < length ys \<and> (\<forall>j<length ys. ys ! j \<le> ys ! r) \<and> (\<forall>j<r. ys ! j < ys ! r)"
    using assms(2) l by (intro argmax_loop_spec) (auto simp: f64_le_refl)
  then have r: "r < length ms" "\<forall>j<length ms. logits c f ! j \<le> logits c f ! r"
    "\<forall>j<r. logits c f ! j < logits c f ! r"
    using len l by (auto simp: r_def Let_def)
  moreover have "predict c f = Some (ms ! r)"
    using r(1) wf(2) by (simp add: predict_def l r_def Let_def)
  ultimately show ?thesis by blast
qed

definition two_way :: classifier_model where
  "two_way = \<lparr>cl_models = [lit ''a'', lit ''b''], cl_weights = replicate 11 (replicate 2 (Fin 0)),
     cl_intercepts = [Fin 1, Fin 2]\<rparr>"

lemma two_way_weight_at: "weight_at two_way i m = Fin 0"
  by (auto simp: weight_at_def two_way_def less_Suc_eq numeral_2_eq_2)

lemma two_way_intercepts: "cl_intercepts two_way = [Fin 1, Fin 2]"
  by (simp add: two_way_def)

lemma normalized_features_zero: "normalized_features features_zero = replicate 11 (Fin 0)"
proof -
  have "f_min (f64_of_nat 0 div Fin q) (Fin 1) = Fin 0" if "0 < q" for q
    using that by (simp add: f64_of_nat_exact divide_finite rnd_f64_numeral f_min_def)
  then show ?thesis
    by (simp add: normalized_features_def features_list_def features_zero_def SATURATION_def upt_0_11
        numeral_eq_Suc)
qed

lemma times_Fin_0: "Fin 0 * Fin 0 = Fin 0"
  by (simp add: f64_simps)

lemma plus_Fin_0: "Fin 1 + Fin 0 = Fin 1" "Fin 2 + Fin 0 = Fin 2"
  by (simp_all add: f64_simps)

theorem classifier_predicts_argmax_witness:
  "\<exists>i<length [lit ''a'', lit ''b'']. predict two_way features_zero = Some ([lit ''a'', lit ''b''] ! i) \<and>
    (\<forall>j<length [lit ''a'', lit ''b'']. logits two_way features_zero ! j \<le> logits two_way features_zero ! i) \<and>
    (\<forall>j<i. logits two_way features_zero ! j < logits two_way features_zero ! i)"
proof (rule classifier_predicts_argmax)
  show "classifier_new [lit ''a'', lit ''b''] [] [Fin 1, Fin 2] = Inr two_way"
    by (simp add: classifier_new_def two_way_def numeral_2_eq_2)
  show "\<forall>x\<in>set (logits two_way features_zero). \<not> is_nan x"
    by (simp add: logits_def two_way_weight_at two_way_intercepts normalized_features_zero upt_0_11
        plus_Fin_0 times_Fin_0)
qed

end
