(* ===== verification/Route_Plan.thy ===== *)
theory Route_Plan
  imports Contracts Scoring
begin

text \<open>
  \<open>plan_automatic_route\<close>: contract validation, scoring, eligibility and the ordered choice of a
  destination. The theory shows what validation accepts, that the plan is exactly the ordered list
  of eligible destinations of the recommended tier, and that no plan crosses the privacy boundary or
  the tier.
\<close>

section \<open>Validation and planning\<close>

definition blank :: "str \<Rightarrow> bool" where
  "blank s \<longleftrightarrow> trim s = []"

fun validate_candidates ::
  "str list \<Rightarrow> destination_snapshot list \<Rightarrow> (core_error, unit) result" where
  "validate_candidates ids [] = Inr ()"
| "validate_candidates ids (d # ds) =
     (if blank (ds_id d) \<or> blank (ds_provider_id d) \<or> blank (ds_model_id d) \<or> blank (ds_route_tier d)
      then Inl (InvalidContract EmptyDestinationIdentity)
      else if ds_id d \<in> set ids then Inl (InvalidContract (DuplicateDestinationId (ds_id d)))
      else validate_candidates (ds_id d # ids) ds)"

definition validate_runtime_contract ::
  "routing_request \<Rightarrow> destination_snapshot list \<Rightarrow> (core_error, unit) result" where
  "validate_runtime_contract r ds =
     (if rq_schema_version r \<noteq> RUNTIME_CONTRACT_VERSION
      then Inl (InvalidContract (UnsupportedSchemaVersion (rq_schema_version r)))
      else if blank (rq_request_id r) then Inl (InvalidContract EmptyRequestId)
      else validate_candidates [] ds)"

record route_plan =
  rp_schema_version :: nat
  rp_request_id :: str
  rp_score :: f64
  rp_recommendation :: str
  rp_selected_destination_id :: "str option"
  rp_fallback_destination_ids :: "str list"
  rp_candidates :: "candidate_assessment list"

definition plan_automatic_route ::
  "compiled_patterns \<Rightarrow> routing_request \<Rightarrow> destination_snapshot list \<Rightarrow> routing_config \<Rightarrow>
   (core_error, route_plan) result" where
  "plan_automatic_route pats r ds config =
     (case validate_runtime_contract r ds of
        Inl e \<Rightarrow> Inl e
      | Inr _ \<Rightarrow>
     (case score_complexity pats (rq_prompt r) config of
        Inl e \<Rightarrow> Inl e
      | Inr scored \<Rightarrow>
          let assessments = map (assess_destination r) ds;
              eligible_ids =
                map (\<lambda>p. ds_id (fst p))
                  (filter (\<lambda>p. is_eligible (snd p) \<and>
                               ds_route_tier (fst p) = cs_recommendation scored)
                     (zip ds assessments))
          in Inr \<lparr>rp_schema_version = RUNTIME_CONTRACT_VERSION,
                  rp_request_id = rq_request_id r,
                  rp_score = cs_score scored,
                  rp_recommendation = cs_recommendation scored,
                  rp_selected_destination_id =
                    (case eligible_ids of [] \<Rightarrow> None | i # _ \<Rightarrow> Some i),
                  rp_fallback_destination_ids = drop 1 eligible_ids,
                  rp_candidates = assessments\<rparr>))"

section \<open>What validation accepts\<close>

definition well_identified :: "destination_snapshot \<Rightarrow> bool" where
  "well_identified d \<longleftrightarrow>
     (\<exists>c\<in>set (ds_id d). \<not> is_whitespace c) \<and> (\<exists>c\<in>set (ds_provider_id d). \<not> is_whitespace c) \<and>
     (\<exists>c\<in>set (ds_model_id d). \<not> is_whitespace c) \<and> (\<exists>c\<in>set (ds_route_tier d). \<not> is_whitespace c)"

lemma blank_iff: "blank s \<longleftrightarrow> (\<forall>c\<in>set s. is_whitespace c)"
  by (simp add: blank_def trim_Nil_iff)

lemma validate_candidates_iff:
  "validate_candidates ids ds = Inr () \<longleftrightarrow>
   (\<forall>d\<in>set ds. well_identified d) \<and> distinct (map ds_id ds) \<and> set (map ds_id ds) \<inter> set ids = {}"
  by (induction ids ds rule: validate_candidates.induct) (auto simp: blank_iff well_identified_def)

text \<open>
  C4. A request is accepted exactly when it speaks the current contract version, has a request id that
  is not blank, names every destination with non-blank identifiers and a non-blank tier, and uses
  each destination id once.
\<close>

theorem validate_runtime_contract_iff:
  "validate_runtime_contract r ds = Inr () \<longleftrightarrow>
   rq_schema_version r = 1 \<and> (\<exists>c\<in>set (rq_request_id r). \<not> is_whitespace c) \<and>
   list_all well_identified ds \<and> distinct (map ds_id ds)"
  by (auto simp: validate_runtime_contract_def validate_candidates_iff blank_iff
      RUNTIME_CONTRACT_VERSION_def list_all_iff)

section \<open>What a plan contains\<close>

lemma filter_zip_map:
  "map (\<lambda>p. g (fst p)) (filter (\<lambda>p. P (snd p) \<and> Q (fst p)) (zip xs (map h xs))) =
   map g (filter (\<lambda>x. P (h x) \<and> Q x) xs)"
  by (induction xs) auto

lemma plan_ids:
  assumes "plan_automatic_route pats r ds config = Inr plan"
  shows "case rp_selected_destination_id plan of
      None \<Rightarrow> filter (\<lambda>d. meets_requirements r d \<and> ds_route_tier d = rp_recommendation plan) ds = []
    | Some i \<Rightarrow> i # rp_fallback_destination_ids plan =
        map ds_id (filter (\<lambda>d. meets_requirements r d \<and> ds_route_tier d = rp_recommendation plan) ds)"
proof -
  obtain scored where scored: "score_complexity pats (rq_prompt r) config = Inr scored"
    using assms by (auto simp: plan_automatic_route_def split: sum.splits)
  define ids where
    "ids = map ds_id (filter (\<lambda>d. meets_requirements r d \<and> ds_route_tier d = cs_recommendation scored) ds)"
  have "map (\<lambda>p. ds_id (fst p))
      (filter (\<lambda>p. is_eligible (snd p) \<and> ds_route_tier (fst p) = cs_recommendation scored)
        (zip ds (map (assess_destination r) ds))) = ids"
    unfolding ids_def using filter_zip_map [of ds_id is_eligible _ ds "assess_destination r"]
    by (simp add: is_eligible_iff)
  then have "rp_selected_destination_id plan = (case ids of [] \<Rightarrow> None | i # _ \<Rightarrow> Some i)"
    "rp_fallback_destination_ids plan = drop 1 ids" "rp_recommendation plan = cs_recommendation scored"
    using assms scored by (auto simp: plan_automatic_route_def Let_def split: sum.splits)
  then show ?thesis
    unfolding ids_def by (auto split: option.splits list.splits)
qed

text \<open>
  The selected destination followed by the fallbacks is exactly the list of destinations that meet
  the hard requirements and belong to the recommended tier, in the order supplied; nothing is
  selected only when that list is empty, and every supplied destination is assessed.
\<close>

theorem plan_is_ordered_eligible_list:
  assumes "plan_automatic_route pats r ds config = Inr plan"
  shows "(case rp_selected_destination_id plan of
      None \<Rightarrow> filter (\<lambda>d. meets_requirements r d \<and> ds_route_tier d = rp_recommendation plan) ds = []
    | Some i \<Rightarrow> i # rp_fallback_destination_ids plan =
        map ds_id (filter (\<lambda>d. meets_requirements r d \<and> ds_route_tier d = rp_recommendation plan) ds)) \<and>
    map ca_destination_id (rp_candidates plan) = map ds_id ds"
  using plan_ids [OF assms] assms
  by (auto simp: plan_automatic_route_def Let_def split: sum.splits)

lemma plan_distinct_ids:
  assumes "plan_automatic_route pats r ds config = Inr plan"
  shows "distinct (map ds_id ds)"
proof -
  have "validate_runtime_contract r ds = Inr ()"
    using assms by (auto simp: plan_automatic_route_def split: sum.splits)
  then show ?thesis
    by (auto simp: validate_runtime_contract_def validate_candidates_iff split: if_splits)
qed

text \<open>
  C5. Every destination a plan names, selected or fallback, is one of the candidates, lies inside the
  boundary the user's privacy posture permits, belongs to the tier the scorer recommended and was
  allowed for Automatic; and no destination is named twice.
\<close>

theorem plan_never_crosses_boundary:
  assumes "plan_automatic_route pats r ds config = Inr plan"
    and "rp_selected_destination_id plan = Some sel"
  shows "distinct (sel # rp_fallback_destination_ids plan) \<and>
    (\<forall>i\<in>set (sel # rp_fallback_destination_ids plan). \<exists>d\<in>set ds.
       ds_id d = i \<and> permits (rq_privacy_posture r) (ds_execution_boundary d) \<and>
       ds_route_tier d = rp_recommendation plan \<and> ds_readiness d = Ready \<and> ds_automatic_eligible d)"
proof -
  let ?el = "filter (\<lambda>d. meets_requirements r d \<and> ds_route_tier d = rp_recommendation plan) ds"
  have eq: "sel # rp_fallback_destination_ids plan = map ds_id ?el"
    using plan_ids [OF assms(1)] assms(2) by simp
  have "distinct (map ds_id ?el)"
    using plan_distinct_ids [OF assms(1)] by (rule distinct_map_filter)
  moreover have "\<exists>d\<in>set ds. ds_id d = i \<and> permits (rq_privacy_posture r) (ds_execution_boundary d) \<and>
      ds_route_tier d = rp_recommendation plan \<and> ds_readiness d = Ready \<and> ds_automatic_eligible d"
    if "i \<in> set (map ds_id ?el)" for i
    using that by (auto simp: meets_requirements_def permits_level)
  ultimately show ?thesis unfolding eq by blast
qed

section \<open>A concrete plan\<close>

definition sample_request :: routing_request where
  "sample_request =
     \<lparr>rq_schema_version = 1, rq_request_id = lit ''r'', rq_prompt = [],
      rq_privacy_posture = LocalDevices,
      rq_requirements = \<lparr>rr_context_tokens = None, rr_image_input = False, rr_tools = False,
        rr_streaming = False, rr_surface = SurfaceText\<rparr>\<rparr>"

definition sample_destination :: destination_snapshot where
  "sample_destination =
     \<lparr>ds_id = lit ''d'', ds_provider_id = lit ''p'', ds_model_id = lit ''m'', ds_display_name = [],
      ds_route_tier = lit ''local'', ds_execution_boundary = OnDevice, ds_readiness = Ready,
      ds_billing_class = BillOnDevice, ds_context_window = None,
      ds_capabilities = \<lparr>dc_text = True, dc_streaming = False, dc_image_input = False, dc_tools = False,
        dc_modalities = \<lparr>mc_embeddings = False, mc_image_generation = False, mc_audio_input = False,
          mc_audio_output = False, mc_batch = False\<rparr>\<rparr>,
      ds_automatic_eligible = True\<rparr>"

definition sample_config :: routing_config where
  "sample_config = \<lparr>rc_weights = [], rc_tiers = binary_tiers (Fin 1), rc_classifier = None,
     rc_lexicon = \<lparr>lx_reasoning_terms = [], lx_constraint_terms = []\<rparr>\<rparr>"

lemma sample_score:
  "\<exists>sc. score_complexity (Inr fence_only) [] sample_config = Inr sc \<and>
    cs_recommendation sc = lit ''local''"
proof -
  have "total_weight [] = Fin 0"
    by (simp add: total_weight_def weights_at_def WEIGHT_SUM_ORDER_def f64_simps)
  then have "scalar_score f [] = Fin 0" for f by (simp add: scalar_score_def feq_def)
  then show ?thesis
    by (simp add: score_complexity_def sample_config_def extract_features_with_lexicon_def
        recommend_tier_def binary_tiers_def tier_new_def Let_def)
qed

lemma sample_plan:
  "\<exists>plan. plan_automatic_route (Inr fence_only) sample_request [sample_destination] sample_config = Inr plan \<and>
    rp_selected_destination_id plan = Some (lit ''d'')"
proof -
  obtain sc where sc: "score_complexity (Inr fence_only) [] sample_config = Inr sc"
    "cs_recommendation sc = lit ''local''" using sample_score by blast
  have "validate_runtime_contract sample_request [sample_destination] = Inr ()"
    by (simp add: validate_runtime_contract_def sample_request_def sample_destination_def blank_iff
        RUNTIME_CONTRACT_VERSION_def is_whitespace_def)
  moreover have "meets_requirements sample_request sample_destination"
    by (simp add: meets_requirements_def sample_request_def sample_destination_def)
  moreover have "rq_prompt sample_request = []" "ds_route_tier sample_destination = lit ''local''"
    "ds_id sample_destination = lit ''d''"
    by (simp_all add: sample_request_def sample_destination_def)
  ultimately show ?thesis
    using sc by (simp add: plan_automatic_route_def is_eligible_iff Let_def)
qed

theorem plan_is_ordered_eligible_list_witness:
  "\<exists>plan. plan_automatic_route (Inr fence_only) sample_request [sample_destination] sample_config = Inr plan \<and>
    map ca_destination_id (rp_candidates plan) = map ds_id [sample_destination]"
  using sample_plan plan_is_ordered_eligible_list by blast

theorem plan_never_crosses_boundary_witness:
  "\<exists>plan. plan_automatic_route (Inr fence_only) sample_request [sample_destination] sample_config = Inr plan \<and>
    distinct (lit ''d'' # rp_fallback_destination_ids plan)"
  using sample_plan plan_never_crosses_boundary by blast

end
