(* ===== verification/Json.thy ===== *)
theory Json
  imports Binary64
begin

text \<open>
  JSON values as the gateway handles them, hexadecimal digests, and the canonical form used for cache
  keys. The JSON library keeps the order of object members and the text of numbers; a number carries
  that text and the readings the library's accessors give for it.
\<close>

record number =
  num_text :: str
  num_f64 :: "f64 option"
  num_u64 :: "u64 option"
  num_i64 :: "int option"

datatype json =
    JNull
  | JBool bool
  | JNumber number
  | JString str
  | JArray "json list"
  | JObject "(str \<times> json) list"

fun as_object :: "json \<Rightarrow> (str \<times> json) list option" where
  "as_object (JObject m) = Some m"
| "as_object _ = None"

fun as_array :: "json \<Rightarrow> json list option" where
  "as_array (JArray xs) = Some xs"
| "as_array _ = None"

fun as_str :: "json \<Rightarrow> str option" where
  "as_str (JString s) = Some s"
| "as_str _ = None"

fun as_bool :: "json \<Rightarrow> bool option" where
  "as_bool (JBool b) = Some b"
| "as_bool _ = None"

fun as_u64 :: "json \<Rightarrow> u64 option" where
  "as_u64 (JNumber n) = num_u64 n"
| "as_u64 _ = None"

fun as_i64 :: "json \<Rightarrow> int option" where
  "as_i64 (JNumber n) = num_i64 n"
| "as_i64 _ = None"

fun as_f64 :: "json \<Rightarrow> f64 option" where
  "as_f64 (JNumber n) = num_f64 n"
| "as_f64 _ = None"

text \<open>\<open>Value::get\<close> with a name: a member of an object, nothing on any other value.\<close>

definition jget :: "json \<Rightarrow> str \<Rightarrow> json option" where
  "jget v name = Option.bind (as_object v) (\<lambda>m. map_of m name)"

text \<open>Whether a text occurs in another.\<close>

definition contains_str :: "str \<Rightarrow> str \<Rightarrow> bool" where
  "contains_str s t = list_ex (\<lambda>i. take (length t) (drop i s) = t) [0..<Suc (length s)]"

section \<open>Canonical form\<close>

text \<open>Members inserted into an ordered map one by one, the last value of a name winning.\<close>

definition sort_members :: "(str \<times> json) list \<Rightarrow> (str \<times> json) list" where
  "sort_members m = fold (\<lambda>(k, v). bt_insert k v) m []"

lemma sort_members_set: "set (fold (\<lambda>(k, v). bt_insert k v) m acc) \<subseteq> set m \<union> set acc"
proof (induction m arbitrary: acc)
  case (Cons p m)
  have "set (bt_insert k v acc) \<subseteq> insert (k, v) (set acc)" for k v
    by (induction k v acc rule: bt_insert.induct) auto
  with Cons [of "bt_insert (fst p) (snd p) acc"] show ?case by (fastforce split: prod.splits)
qed simp

function canonical_json :: "json \<Rightarrow> json" where
  "canonical_json (JArray xs) = JArray (map canonical_json xs)"
| "canonical_json (JObject m) = JObject (map (\<lambda>(k, v). (k, canonical_json v)) (sort_members m))"
| "canonical_json JNull = JNull"
| "canonical_json (JBool b) = JBool b"
| "canonical_json (JNumber n) = JNumber n"
| "canonical_json (JString s) = JString s"
  by pat_completeness auto

lemma json_size_member: "(k, v) \<in> set m \<Longrightarrow> size v < size (JObject m)"
proof -
  assume "(k, v) \<in> set m"
  then have "size v \<le> size_list (size_prod (\<lambda>_. 0) size) m" by (induction m) auto
  then show ?thesis by simp
qed

termination canonical_json
proof (relation "measure size", goal_cases)
  case (2 xs x)
  then show ?case by (induction xs) auto
next
  case (3 m p k v)
  then have "(k, v) \<in> set m" using sort_members_set [of m "[]"] by (auto simp: sort_members_def)
  then show ?case using json_size_member [of k v m] by simp
qed simp

section \<open>Hexadecimal digests\<close>

definition hex_digit :: "nat \<Rightarrow> nat" where
  "hex_digit n = (if n < 10 then 48 + n else 87 + n)"

fun hex_encode :: "nat list \<Rightarrow> str" where
  "hex_encode [] = []"
| "hex_encode (b # bs) = hex_digit (b div 16) # hex_digit (b mod 16) # hex_encode bs"

lemma hex_digit_inject: "m < 16 \<Longrightarrow> n < 16 \<Longrightarrow> hex_digit m = hex_digit n \<Longrightarrow> m = n"
  by (auto simp: hex_digit_def split: if_splits)

lemma hex_encode_inject:
  assumes "list_all (\<lambda>b. b < 256) xs" "list_all (\<lambda>b. b < 256) ys" "hex_encode xs = hex_encode ys"
  shows "xs = ys"
  using assms
proof (induction xs arbitrary: ys)
  case Nil
  then show ?case by (cases ys) auto
next
  case (Cons x xs)
  then obtain y ys' where ys: "ys = y # ys'" by (cases ys) auto
  have "x div 16 = y div 16" "x mod 16 = y mod 16"
    using Cons.prems ys by (auto intro!: hex_digit_inject)
  then have "x = y" by (metis div_mod_decomp)
  then show ?case using Cons ys by simp
qed

end
