(* ===== verification/Response_Cache.thy ===== *)
theory Response_Cache
  imports Json
begin

text \<open>
  The bounded exact-match response cache of \<open>wayfinder-gateway/src/cache.rs\<close>: an insertion-ordered
  map whose front is the least recently used entry. Time is supplied by the caller. The hash function
  and the JSON serialiser are parameters.
\<close>

section \<open>Settings and state\<close>

definition DEFAULT_TTL_SECONDS :: f64 where
  "DEFAULT_TTL_SECONDS = Fin 300"

definition DEFAULT_MAX_ENTRIES :: nat where
  "DEFAULT_MAX_ENTRIES = 1024"

definition DEFAULT_MAX_BYTES :: nat where
  "DEFAULT_MAX_BYTES = 64 * 1024 * 1024"

definition CACHE_KEY_SCHEMA_VERSION :: str where
  "CACHE_KEY_SCHEMA_VERSION = lit ''v2''"

record cached_response =
  cr_status :: nat
  cr_content_type :: str
  cr_body :: "nat list"
  cr_prompt_tokens :: u64
  cr_completion_tokens :: u64
  cr_estimated :: bool

record cache_settings =
  cs_enabled :: bool
  cs_ttl_seconds :: f64
  cs_max_entries :: nat
  cs_max_bytes :: nat

definition cache_settings_default :: cache_settings where
  "cache_settings_default =
     \<lparr>cs_enabled = False, cs_ttl_seconds = DEFAULT_TTL_SECONDS,
      cs_max_entries = DEFAULT_MAX_ENTRIES, cs_max_bytes = DEFAULT_MAX_BYTES\<rparr>"

record cache_stats =
  ct_entries :: nat
  ct_bytes :: nat
  ct_hits :: u64
  ct_misses :: u64

datatype cache_error = InvalidBody | InvalidTtl | CacheInvalidTime | CacheJson str

record stored_response =
  sr_response :: cached_response
  sr_stored_at :: f64

record cache_state =
  ca_settings :: cache_settings
  ca_store :: "(str \<times> stored_response) list"
  ca_bytes :: nat
  ca_hits :: u64
  ca_misses :: u64

definition body_len :: "stored_response \<Rightarrow> nat" where
  "body_len e = length (cr_body (sr_response e))"

section \<open>Operations\<close>

definition validate_settings :: "cache_settings \<Rightarrow> (cache_error, unit) result" where
  "validate_settings s =
     (if \<not> is_finite (cs_ttl_seconds s) \<or> cs_ttl_seconds s < Fin 0 then Inl InvalidTtl else Inr ())"

definition cache_validate_time :: "f64 \<Rightarrow> (cache_error, unit) result" where
  "cache_validate_time now =
     (if \<not> is_finite now \<or> now < Fin 0 then Inl CacheInvalidTime else Inr ())"

text \<open>The eviction loop: drop the front while a bound is exceeded.\<close>

fun evict_loop ::
  "nat \<Rightarrow> nat \<Rightarrow> (str \<times> stored_response) list \<Rightarrow> nat \<Rightarrow> (str \<times> stored_response) list \<times> nat" where
  "evict_loop max_entries max_bytes [] bytes = ([], bytes)"
| "evict_loop max_entries max_bytes ((k, e) # rest) bytes =
     (if max_entries < length ((k, e) # rest) \<or> max_bytes < bytes
      then evict_loop max_entries max_bytes rest (sat_sub bytes (body_len e))
      else ((k, e) # rest, bytes))"

definition evict :: "cache_state \<Rightarrow> cache_state" where
  "evict st =
     (case evict_loop (cs_max_entries (ca_settings st)) (cs_max_bytes (ca_settings st))
             (ca_store st) (ca_bytes st) of
        (store, bytes) \<Rightarrow> st\<lparr>ca_store := store, ca_bytes := bytes\<rparr>)"

definition cache_new :: "cache_settings \<Rightarrow> (cache_error, cache_state) result" where
  "cache_new s =
     (case validate_settings s of
        Inl e \<Rightarrow> Inl e
      | Inr _ \<Rightarrow> Inr \<lparr>ca_settings = s, ca_store = [], ca_bytes = 0, ca_hits = 0, ca_misses = 0\<rparr>)"

definition cache_default :: cache_state where
  "cache_default =
     \<lparr>ca_settings = cache_settings_default, ca_store = [], ca_bytes = 0, ca_hits = 0, ca_misses = 0\<rparr>"

definition miss :: "cache_state \<Rightarrow> cache_state" where
  "miss st = st\<lparr>ca_misses := sat_add (ca_misses st) 1\<rparr>"

definition get_at ::
  "cache_state \<Rightarrow> str \<Rightarrow> f64 \<Rightarrow> (cache_error, cached_response option) result \<times> cache_state" where
  "get_at st key now =
     (case cache_validate_time now of
        Inl e \<Rightarrow> (Inl e, st)
      | Inr _ \<Rightarrow>
        if \<not> cs_enabled (ca_settings st) then (Inr None, st)
        else case map_of (ca_store st) key of
          None \<Rightarrow> (Inr None, miss st)
        | Some entry \<Rightarrow>
            let st1 = st\<lparr>ca_store := shift_remove key (ca_store st),
                         ca_bytes := sat_sub (ca_bytes st) (body_len entry)\<rparr>
            in if Fin 0 < cs_ttl_seconds (ca_settings st) \<and>
                  cs_ttl_seconds (ca_settings st) \<le> now - sr_stored_at entry
               then (Inr None, miss st1)
               else (Inr (Some (sr_response entry)),
                     st1\<lparr>ca_bytes := sat_add (ca_bytes st1) (body_len entry),
                         ca_store := ix_insert key entry (ca_store st1),
                         ca_hits := sat_add (ca_hits st1) 1\<rparr>))"

definition put_at ::
  "cache_state \<Rightarrow> str \<Rightarrow> cached_response \<Rightarrow> f64 \<Rightarrow> (cache_error, unit) result \<times> cache_state" where
  "put_at st key entry now =
     (case cache_validate_time now of
        Inl e \<Rightarrow> (Inl e, st)
      | Inr _ \<Rightarrow>
        if \<not> cs_enabled (ca_settings st) \<or> cs_max_entries (ca_settings st) = 0 \<or>
           cs_max_bytes (ca_settings st) = 0 \<or> cs_max_bytes (ca_settings st) < length (cr_body entry)
        then (Inr (), st)
        else
          let st1 = (case map_of (ca_store st) key of
                       None \<Rightarrow> st
                     | Some previous \<Rightarrow>
                         st\<lparr>ca_store := shift_remove key (ca_store st),
                            ca_bytes := sat_sub (ca_bytes st) (body_len previous)\<rparr>);
              st2 = st1\<lparr>ca_bytes := sat_add (ca_bytes st1) (length (cr_body entry)),
                        ca_store := ix_insert key \<lparr>sr_response = entry, sr_stored_at = now\<rparr> (ca_store st1)\<rparr>
          in (Inr (), evict st2))"

definition cache_clear :: "cache_state \<Rightarrow> cache_state" where
  "cache_clear st = st\<lparr>ca_store := [], ca_bytes := 0\<rparr>"

definition cache_reconfigure ::
  "cache_state \<Rightarrow> cache_settings \<Rightarrow> (cache_error, unit) result \<times> cache_state" where
  "cache_reconfigure st s =
     (case validate_settings s of
        Inl e \<Rightarrow> (Inl e, st)
      | Inr _ \<Rightarrow>
        let st1 = st\<lparr>ca_settings := s\<rparr>
        in if \<not> cs_enabled s then (Inr (), st1\<lparr>ca_store := [], ca_bytes := 0\<rparr>)
           else (Inr (), evict st1))"

definition cache_stats_of :: "cache_state \<Rightarrow> cache_stats" where
  "cache_stats_of st =
     \<lparr>ct_entries = length (ca_store st), ct_bytes = ca_bytes st, ct_hits = ca_hits st,
      ct_misses = ca_misses st\<rparr>"

section \<open>Keys\<close>

definition cache_envelope :: "str \<Rightarrow> str \<Rightarrow> str \<Rightarrow> str \<Rightarrow> (str \<times> json) list \<Rightarrow> json" where
  "cache_envelope version scope route model body =
     canonical_json (JObject
       [(lit ''version'', JString version), (lit ''partition'', JString scope),
        (lit ''route'', JString route), (lit ''model'', JString model),
        (lit ''body'', JObject (filter (\<lambda>p. fst p \<notin> {lit ''model'', lit ''stream''}) body))])"

text \<open>\<open>serialize\<close> is the JSON library's writer (\<open>Inl\<close> its error) and \<open>sha256\<close> the hash function.\<close>

definition cache_key_with_version ::
  "(json \<Rightarrow> (str, nat list) result) \<Rightarrow> (nat list \<Rightarrow> nat list) \<Rightarrow>
   str \<Rightarrow> str \<Rightarrow> str \<Rightarrow> str \<Rightarrow> json \<Rightarrow> (cache_error, str) result" where
  "cache_key_with_version serialize sha256 version scope route model body =
     (case as_object body of
        None \<Rightarrow> Inl InvalidBody
      | Some m \<Rightarrow>
          (case serialize (cache_envelope version scope route model m) of
             Inl e \<Rightarrow> Inl (CacheJson e)
           | Inr bytes \<Rightarrow> Inr (hex_encode (sha256 bytes))))"

definition cache_key ::
  "(json \<Rightarrow> (str, nat list) result) \<Rightarrow> (nat list \<Rightarrow> nat list) \<Rightarrow>
   str \<Rightarrow> str \<Rightarrow> str \<Rightarrow> json \<Rightarrow> (cache_error, str) result" where
  "cache_key serialize sha256 scope route model body =
     cache_key_with_version serialize sha256 CACHE_KEY_SCHEMA_VERSION scope route model body"

section \<open>Eligibility\<close>

fun python_truthy :: "json \<Rightarrow> bool" where
  "python_truthy JNull = False"
| "python_truthy (JBool b) = b"
| "python_truthy (JNumber n) = (case num_f64 n of None \<Rightarrow> True | Some x \<Rightarrow> \<not> feq x (Fin 0))"
| "python_truthy (JString s) = (s \<noteq> [])"
| "python_truthy (JArray xs) = (xs \<noteq> [])"
| "python_truthy (JObject m) = (m \<noteq> [])"

fun python_numeric_equal :: "json \<Rightarrow> f64 \<Rightarrow> bool" where
  "python_numeric_equal (JBool b) expected = feq (if b then Fin 1 else Fin 0) expected"
| "python_numeric_equal (JNumber n) expected =
     (case num_f64 n of None \<Rightarrow> False | Some x \<Rightarrow> feq x expected)"
| "python_numeric_equal _ expected = False"

definition absent_or_default :: "(str \<times> json) list \<Rightarrow> str \<Rightarrow> f64 \<Rightarrow> bool" where
  "absent_or_default body name d =
     (case map_of body name of None \<Rightarrow> True | Some v \<Rightarrow> v = JNull \<or> python_numeric_equal v d)"

definition is_string_json :: "json \<Rightarrow> bool" where
  "is_string_json v = (as_str v \<noteq> None)"

definition text_message :: "json \<Rightarrow> bool" where
  "text_message m =
     (case jget m (lit ''content'') of None \<Rightarrow> False | Some c \<Rightarrow> is_string_json c)"

definition is_cacheable :: "json \<Rightarrow> bool" where
  "is_cacheable v =
     (case as_object v of
        None \<Rightarrow> False
      | Some body \<Rightarrow>
          map_of body (lit ''stream'') \<noteq> Some (JBool True) \<and>
          absent_or_default body (lit ''temperature'') (Fin 0) \<and>
          absent_or_default body (lit ''top_p'') (Fin 1) \<and>
          absent_or_default body (lit ''n'') (Fin 1) \<and>
          (case map_of body (lit ''seed'') of None \<Rightarrow> True | Some s \<Rightarrow> s = JNull) \<and>
          list_all (\<lambda>name. case map_of body name of None \<Rightarrow> True | Some t \<Rightarrow> \<not> python_truthy t)
            [lit ''tools'', lit ''tool_choice'', lit ''logit_bias''] \<and>
          (case Option.bind (map_of body (lit ''messages'')) as_array of
             None \<Rightarrow> False
           | Some messages \<Rightarrow> messages \<noteq> [] \<and> list_all text_message messages))"

definition is_storable :: "nat \<Rightarrow> str \<Rightarrow> json \<Rightarrow> bool" where
  "is_storable status content_type response =
     (status = 200 \<and> contains_str content_type (lit ''json'') \<and>
      (case as_object response of
         None \<Rightarrow> False
       | Some r \<Rightarrow>
           (case map_of r (lit ''error'') of None \<Rightarrow> True | Some e \<Rightarrow> e = JNull) \<and>
           (case Option.bind (map_of r (lit ''choices'')) as_array of
              None \<Rightarrow> False
            | Some choices \<Rightarrow>
                (case choices of
                   [] \<Rightarrow> False
                 | c # _ \<Rightarrow>
                     (case as_object c of
                        None \<Rightarrow> False
                      | Some choice \<Rightarrow>
                          (case Option.bind (map_of choice (lit ''message'')) as_object of
                             None \<Rightarrow> False
                           | Some message \<Rightarrow>
                               (case map_of message (lit ''tool_calls'') of
                                  None \<Rightarrow> True | Some t \<Rightarrow> \<not> python_truthy t) \<and>
                               (case Option.bind (map_of message (lit ''content'')) as_str of
                                  None \<Rightarrow> False | Some content \<Rightarrow> content \<noteq> [])))))))"

section \<open>The cache's invariant\<close>

definition total_len :: "(str \<times> stored_response) list \<Rightarrow> nat" where
  "total_len m = sum_list (map (body_len \<circ> snd) m)"

text \<open>
  Bodies are vectors, so two of them never exceed the address space together; the same bound on the
  byte ceiling keeps the running sum below the point where it would saturate.
\<close>

definition sane_bounds :: "cache_settings \<Rightarrow> bool" where
  "sane_bounds s \<longleftrightarrow> 2 * cs_max_bytes s \<le> u64_max"

definition cache_inv :: "cache_state \<Rightarrow> bool" where
  "cache_inv st \<longleftrightarrow>
     distinct_keys (ca_store st) \<and> ca_bytes st = total_len (ca_store st) \<and>
     length (ca_store st) \<le> cs_max_entries (ca_settings st) \<and>
     ca_bytes st \<le> cs_max_bytes (ca_settings st) \<and>
     (\<not> cs_enabled (ca_settings st) \<longrightarrow> ca_store st = [])"

lemma total_len_simps [simp]:
  "total_len [] = 0" "total_len ((k, e) # m) = body_len e + total_len m"
  "total_len (m @ m') = total_len m + total_len m'"
  by (simp_all add: total_len_def)

lemma total_len_shift_remove:
  assumes "distinct_keys m" "map_of m k = Some e"
  shows "total_len m = body_len e + total_len (shift_remove k m)"
    and "length m = Suc (length (shift_remove k m))"
  using assms
proof (induction m)
  case (Cons p m)
  obtain k' e' where p: "p = (k', e')" by fastforce
  have keep: "shift_remove k m = m" if "k \<notin> fst ` set m"
    using that by (auto simp: shift_remove_def filter_id_conv)
  {
    case 1
    then show ?case using Cons.IH(1) keep p
      by (cases "k' = k") (auto simp: shift_remove_def distinct_keys_def)
  next
    case 2
    then show ?case using Cons.IH(2) keep p
      by (cases "k' = k") (auto simp: shift_remove_def distinct_keys_def)
  }
qed simp_all

text \<open>Eviction removes a prefix, the shortest that meets both bounds.\<close>

lemma evict_loop_drop:
  assumes "bytes = total_len m" and "evict_loop me mb m bytes = (m', bytes')"
  shows "\<exists>n. m' = drop n m \<and> bytes' = total_len m' \<and> length m' \<le> me \<and> bytes' \<le> mb \<and>
    (\<forall>i<n. me < length (drop i m) \<or> mb < total_len (drop i m))"
  using assms
proof (induction me mb m bytes arbitrary: rule: evict_loop.induct)
  case (2 me mb k e rest bytes)
  show ?case
  proof (cases "me < length ((k, e) # rest) \<or> mb < bytes")
    case True
    then obtain n where n: "m' = drop n rest" "bytes' = total_len m'" "length m' \<le> me" "bytes' \<le> mb"
      "\<forall>i<n. me < length (drop i rest) \<or> mb < total_len (drop i rest)"
      using 2 by (auto simp: sat_sub_def split: if_splits)
    have "me < length (drop i ((k, e) # rest)) \<or> mb < total_len (drop i ((k, e) # rest))" if "i < Suc n" for i
      using that n(5) True 2(2) by (cases i) auto
    then show ?thesis using n by (intro exI [of _ "Suc n"]) auto
  next
    case False
    then show ?thesis using 2 by (intro exI [of _ 0]) (auto simp: not_less)
  qed
qed (auto intro: exI [of _ 0])

lemma evict_state:
  assumes "ca_bytes st = total_len (ca_store st)"
  obtains n where "evict st = st\<lparr>ca_store := drop n (ca_store st), ca_bytes := total_len (drop n (ca_store st))\<rparr>"
    "length (drop n (ca_store st)) \<le> cs_max_entries (ca_settings st)"
    "total_len (drop n (ca_store st)) \<le> cs_max_bytes (ca_settings st)"
    "\<And>i. i < n \<Longrightarrow> cs_max_entries (ca_settings st) < length (drop i (ca_store st)) \<or>
       cs_max_bytes (ca_settings st) < total_len (drop i (ca_store st))"
proof -
  obtain m b where loop: "evict_loop (cs_max_entries (ca_settings st)) (cs_max_bytes (ca_settings st))
      (ca_store st) (ca_bytes st) = (m, b)" by fastforce
  show thesis
    using evict_loop_drop [OF assms loop] that by (auto simp: evict_def loop)
qed

lemma evict_inv:
  assumes "distinct_keys (ca_store st)" "ca_bytes st = total_len (ca_store st)"
    "cs_enabled (ca_settings st)"
  shows "cache_inv (evict st)"
  by (rule evict_state [OF assms(2)])
    (use assms in \<open>auto simp: cache_inv_def distinct_keys_def drop_map [symmetric]\<close>)

lemma shift_remove_absent: "map_of m k = None \<Longrightarrow> shift_remove k m = m"
  by (auto simp: shift_remove_def filter_id_conv map_of_eq_None_iff)

lemma ix_insert_shift_remove: "ix_insert k v (shift_remove k m) = shift_remove k m @ [(k, v)]"
  by (simp add: ix_insert_fresh shift_remove_keys)

definition accepts :: "cache_settings \<Rightarrow> cached_response \<Rightarrow> bool" where
  "accepts s r \<longleftrightarrow> cs_enabled s \<and> cs_max_entries s \<noteq> 0 \<and> cs_max_bytes s \<noteq> 0 \<and>
     length (cr_body r) \<le> cs_max_bytes s"

definition refreshed :: "cache_state \<Rightarrow> str \<Rightarrow> cached_response \<Rightarrow> f64 \<Rightarrow> cache_state" where
  "refreshed st key r now =
     (let m = shift_remove key (ca_store st) @ [(key, \<lparr>sr_response = r, sr_stored_at = now\<rparr>)]
      in st\<lparr>ca_bytes := total_len m, ca_store := m\<rparr>)"

lemma refreshed_simps [simp]:
  "ca_settings (refreshed st key r now) = ca_settings st"
  "ca_bytes (refreshed st key r now) = total_len (ca_store (refreshed st key r now))"
  "ca_store (refreshed st key r now) =
    shift_remove key (ca_store st) @ [(key, \<lparr>sr_response = r, sr_stored_at = now\<rparr>)]"
  by (simp_all add: refreshed_def Let_def)

lemma put_at_accepted:
  assumes "cache_inv st" "sane_bounds (ca_settings st)" "accepts (ca_settings st) r"
    and "cache_validate_time now = Inr ()"
  shows "put_at st key r now = (Inr (), evict (refreshed st key r now))"
proof -
  have room: "total_len (shift_remove key (ca_store st)) + length (cr_body r) \<le> u64_max"
    using assms total_len_shift_remove(1) [of "ca_store st" key] shift_remove_absent [of "ca_store st" key]
    by (cases "map_of (ca_store st) key") (auto simp: cache_inv_def sane_bounds_def accepts_def)
  show ?thesis
  proof (cases "map_of (ca_store st) key")
    case None
    then show ?thesis
      using assms room shift_remove_absent [OF None] ix_insert_shift_remove [of key _ "ca_store st"]
      by (simp add: put_at_def accepts_def refreshed_def cache_inv_def sat_add_exact body_len_def)
  next
    case (Some e)
    then show ?thesis
      using assms room total_len_shift_remove(1) [OF _ Some]
      by (simp add: put_at_def accepts_def refreshed_def cache_inv_def sat_add_exact sat_sub_def
          ix_insert_shift_remove body_len_def)
  qed
qed

lemma put_at_refused:
  "\<not> accepts (ca_settings st) r \<or> cache_validate_time now \<noteq> Inr () \<Longrightarrow> snd (put_at st key r now) = st"
  by (auto simp: put_at_def accepts_def cache_validate_time_def)

lemma distinct_keys_refreshed:
  "distinct_keys (ca_store st) \<Longrightarrow> distinct_keys (ca_store (refreshed st key r now))"
  using distinct_keys_shift_remove [of "ca_store st" key] shift_remove_keys [of key "ca_store st"]
  by (auto simp: distinct_keys_def)

lemma put_at_inv:
  assumes "cache_inv st" "sane_bounds (ca_settings st)"
  shows "cache_inv (snd (put_at st key r now))" "ca_settings (snd (put_at st key r now)) = ca_settings st"
proof -
  have "ca_settings (evict s) = ca_settings s" for s by (simp add: evict_def split: prod.splits)
  moreover have "cache_inv (evict (refreshed st key r now))" if "accepts (ca_settings st) r"
    using that assms(1) distinct_keys_refreshed [of st key r now]
    by (intro evict_inv) (auto simp: accepts_def cache_inv_def)
  ultimately show "cache_inv (snd (put_at st key r now))"
    "ca_settings (snd (put_at st key r now)) = ca_settings st"
    using put_at_accepted [OF assms, of r now key] put_at_refused [of st r now key] assms(1)
    by (cases "accepts (ca_settings st) r \<and> cache_validate_time now = Inr ()"; auto)+
qed

text \<open>A lookup either leaves the store alone, removes an expired entry, or moves a fresh one to the end.\<close>

lemma get_at_store:
  assumes "cache_inv st" "sane_bounds (ca_settings st)" "get_at st key now = (r, st')"
  shows "(ca_store st' = ca_store st \<or> ca_store st' = shift_remove key (ca_store st) \<or>
      (\<exists>e. map_of (ca_store st) key = Some e \<and>
         ca_store st' = shift_remove key (ca_store st) @ [(key, e)])) \<and>
    ca_bytes st' = total_len (ca_store st') \<and> ca_settings st' = ca_settings st"
proof (cases "map_of (ca_store st) key")
  case None
  then show ?thesis
    using assms by (auto simp: get_at_def cache_inv_def miss_def split: sum.splits if_splits)
next
  case (Some e)
  have "total_len (ca_store st) = body_len e + total_len (shift_remove key (ca_store st))"
    using assms(1) Some by (intro total_len_shift_remove) (auto simp: cache_inv_def)
  moreover have "total_len (ca_store st) \<le> u64_max"
    using assms(1,2) by (auto simp: cache_inv_def sane_bounds_def)
  ultimately show ?thesis
    using assms(1,3) Some
    by (auto simp: get_at_def cache_inv_def miss_def Let_def ix_insert_shift_remove sat_sub_def
        sat_add_def split: sum.splits if_splits)
qed

lemma get_at_inv:
  assumes "cache_inv st" "sane_bounds (ca_settings st)"
  shows "cache_inv (snd (get_at st key now))" "ca_settings (snd (get_at st key now)) = ca_settings st"
proof -
  obtain r st' where g: "get_at st key now = (r, st')" by fastforce
  have d: "distinct_keys (shift_remove key (ca_store st))"
    using assms(1) by (simp add: cache_inv_def distinct_keys_shift_remove)
  show "ca_settings (snd (get_at st key now)) = ca_settings st"
    using get_at_store [OF assms g] g by simp
  show "cache_inv (snd (get_at st key now))"
    using get_at_store [OF assms g] g assms(1) d total_len_shift_remove [of "ca_store st" key]
      shift_remove_keys [of key "ca_store st"] shift_remove_absent [of "ca_store st" key]
    by (cases "map_of (ca_store st) key") (auto simp: cache_inv_def distinct_keys_def)
qed

lemma cache_reconfigure_inv:
  assumes "cache_inv st"
  shows "cache_inv (snd (cache_reconfigure st s))"
proof (cases "validate_settings s = Inr () \<and> cs_enabled s")
  case True
  then have "cache_inv (evict (st\<lparr>ca_settings := s\<rparr>))"
    using assms by (intro evict_inv) (auto simp: cache_inv_def)
  then show ?thesis using True by (simp add: cache_reconfigure_def)
next
  case False
  then show ?thesis
    using assms by (auto simp: cache_reconfigure_def validate_settings_def cache_inv_def distinct_keys_def)
qed

datatype cache_op =
    CGet str f64
  | CPut str cached_response f64
  | CClear
  | CReconfigure cache_settings

fun cache_apply :: "cache_op \<Rightarrow> cache_state \<Rightarrow> cache_state" where
  "cache_apply (CGet k now) st = snd (get_at st k now)"
| "cache_apply (CPut k r now) st = snd (put_at st k r now)"
| "cache_apply CClear st = cache_clear st"
| "cache_apply (CReconfigure s) st = snd (cache_reconfigure st s)"

fun sane_op :: "cache_op \<Rightarrow> bool" where
  "sane_op (CReconfigure s) = sane_bounds s"
| "sane_op _ = True"

lemma evict_settings [simp]: "ca_settings (evict st) = ca_settings st"
  by (simp add: evict_def split: prod.splits)

lemma cache_apply_inv:
  assumes "cache_inv st \<and> sane_bounds (ca_settings st)" "sane_op op"
  shows "cache_inv (cache_apply op st) \<and> sane_bounds (ca_settings (cache_apply op st))"
proof (cases op)
  case (CReconfigure s)
  then show ?thesis
    using assms cache_reconfigure_inv [of st s]
    by (auto simp: cache_reconfigure_def Let_def split: sum.splits)
next
  case CClear
  then show ?thesis using assms by (simp add: cache_clear_def cache_inv_def distinct_keys_def)
qed (use assms in \<open>simp_all add: put_at_inv get_at_inv\<close>)

lemma cache_run_inv:
  "cache_inv st \<and> sane_bounds (ca_settings st) \<Longrightarrow> list_all sane_op ops \<Longrightarrow>
   cache_inv (fold cache_apply ops st) \<and> sane_bounds (ca_settings (fold cache_apply ops st))"
  by (induction ops arbitrary: st) (simp_all add: cache_apply_inv)

lemma cache_new_inv: "cache_new s = Inr st \<Longrightarrow> cache_inv st \<and> ca_settings st = s"
  by (auto simp: cache_new_def cache_inv_def distinct_keys_def split: sum.splits)

lemma cache_new_empty: "cache_new s = Inr st \<Longrightarrow> ca_store st = []"
  by (auto simp: cache_new_def split: sum.splits)

text \<open>
  Whatever lookups, insertions, purges and reconfigurations a cache has seen, its keys are
  distinct, its byte counter is the exact total of the retained bodies, neither the entry nor the byte
  ceiling is exceeded, and nothing is retained while it is disabled.
\<close>

theorem cache_bounds_hold:
  assumes "cache_new s = Inr st" and "sane_bounds s" and "list_all sane_op ops"
  shows "let st' = fold cache_apply ops st in
    distinct_keys (ca_store st') \<and> ca_bytes st' = total_len (ca_store st') \<and>
    length (ca_store st') \<le> cs_max_entries (ca_settings st') \<and>
    ca_bytes st' \<le> cs_max_bytes (ca_settings st') \<and>
    (\<not> cs_enabled (ca_settings st') \<longrightarrow> ca_store st' = [])"
proof -
  have "cache_inv (fold cache_apply ops st)"
    using cache_run_inv [of st ops] cache_new_inv [OF assms(1)] assms(2,3) by simp
  then show ?thesis unfolding cache_inv_def Let_def by blast
qed

definition small_cache :: cache_settings where
  "small_cache = \<lparr>cs_enabled = True, cs_ttl_seconds = Fin 10, cs_max_entries = 2, cs_max_bytes = 8\<rparr>"

definition sample_response :: "nat list \<Rightarrow> cached_response" where
  "sample_response body = \<lparr>cr_status = 200, cr_content_type = lit ''application/json'', cr_body = body,
     cr_prompt_tokens = 1, cr_completion_tokens = 1, cr_estimated = False\<rparr>"

definition small_cache_state :: cache_state where
  "small_cache_state = \<lparr>ca_settings = small_cache, ca_store = [], ca_bytes = 0, ca_hits = 0, ca_misses = 0\<rparr>"

lemma small_cache_new: "cache_new small_cache = Inr small_cache_state"
  by (simp add: cache_new_def validate_settings_def small_cache_def small_cache_state_def less_f64_def)

lemma small_cache_sane: "sane_bounds small_cache"
  by (simp add: sane_bounds_def small_cache_def u64_max_def)

definition sample_ops :: "cache_op list" where
  "sample_ops = [CPut [1] (sample_response [0, 0]) (Fin 0), CPut [2] (sample_response [0]) (Fin 1),
     CPut [3] (sample_response [0]) (Fin 2)]"

theorem cache_bounds_hold_witness:
  "length (ca_store (fold cache_apply sample_ops small_cache_state)) \<le>
   cs_max_entries (ca_settings (fold cache_apply sample_ops small_cache_state))"
proof -
  have "list_all sane_op sample_ops" by (simp add: sample_ops_def)
  from cache_bounds_hold [OF small_cache_new small_cache_sane this] show ?thesis
    unfolding Let_def by blast
qed

section \<open>Storing and replaying\<close>

text \<open>
  A response the cache accepts is the one it replays: it survives its own insertion, what is
  evicted to make room are the least recently used entries and no more of them than needed, and a
  lookup within its lifetime returns exactly it.
\<close>

theorem put_then_get:
  assumes "cache_inv st" "sane_bounds (ca_settings st)" "accepts (ca_settings st) r"
    and "cache_validate_time now = Inr ()" "cache_validate_time later = Inr ()"
    and "\<not> (Fin 0 < cs_ttl_seconds (ca_settings st) \<and> cs_ttl_seconds (ca_settings st) \<le> later - now)"
  shows "\<exists>n st'. put_at st key r now = (Inr (), st') \<and>
    ca_store st' = drop n (shift_remove key (ca_store st)) @ [(key, \<lparr>sr_response = r, sr_stored_at = now\<rparr>)] \<and>
    n \<le> length (shift_remove key (ca_store st)) \<and>
    fst (get_at st' key later) = Inr (Some r)"
proof -
  let ?m = "shift_remove key (ca_store st)" and ?e = "\<lparr>sr_response = r, sr_stored_at = now\<rparr>"
  obtain n where n: "evict (refreshed st key r now) = (refreshed st key r now)
      \<lparr>ca_store := drop n (?m @ [(key, ?e)]), ca_bytes := total_len (drop n (?m @ [(key, ?e)]))\<rparr>"
    "\<And>i. i < n \<Longrightarrow> cs_max_entries (ca_settings st) < length (drop i (?m @ [(key, ?e)])) \<or>
       cs_max_bytes (ca_settings st) < total_len (drop i (?m @ [(key, ?e)]))"
    by (rule evict_state [of "refreshed st key r now"]) (use that in auto)
  have le: "n \<le> length ?m"
    using n(2) [of "length ?m"] assms(3) by (force simp: accepts_def body_len_def)
  let ?st = "evict (refreshed st key r now)"
  have store: "ca_store ?st = drop n ?m @ [(key, ?e)]" "ca_settings ?st = ca_settings st"
    using n(1) le by simp_all
  have "key \<notin> fst ` set (drop n ?m)"
    using shift_remove_keys [of key "ca_store st"] by (meson image_mono in_mono set_drop_subset)
  then have "map_of (ca_store ?st) key = Some ?e"
    unfolding store by (simp add: map_add_Some_iff map_of_eq_None_iff)
  then have "fst (get_at ?st key later) = Inr (Some r)"
    using assms(3,5,6) store(2) by (simp add: get_at_def accepts_def Let_def)
  then show ?thesis using put_at_accepted [OF assms(1-4), of key] store(1) le by auto
qed

theorem put_then_get_witness:
  "\<exists>n st'. put_at small_cache_state [1] (sample_response [0]) (Fin 0) = (Inr (), st') \<and>
    ca_store st' = drop n (shift_remove [1] (ca_store small_cache_state)) @
      [([1], \<lparr>sr_response = sample_response [0], sr_stored_at = Fin 0\<rparr>)] \<and>
    n \<le> length (shift_remove [1] (ca_store small_cache_state)) \<and>
    fst (get_at st' [1] (Fin 3)) = Inr (Some (sample_response [0]))"
proof (rule put_then_get)
  show "cache_inv small_cache_state" using cache_new_inv [OF small_cache_new] by simp
  show "sane_bounds (ca_settings small_cache_state)"
    using small_cache_sane by (simp add: small_cache_state_def)
qed (simp_all add: small_cache_state_def small_cache_def accepts_def sample_response_def
    cache_validate_time_def less_f64_def minus_finite rnd_f64_numeral)

section \<open>The cache against an unbounded dictionary\<close>

text \<open>What an unbounded, never expiring dictionary would hold after the same operations.\<close>

fun dictionary_step ::
  "cache_settings \<Rightarrow> cache_op \<Rightarrow> (str \<rightharpoonup> cached_response \<times> f64) \<Rightarrow> (str \<rightharpoonup> cached_response \<times> f64)" where
  "dictionary_step s (CPut k r now) d =
     (if accepts s r \<and> cache_validate_time now = Inr () then d(k \<mapsto> (r, now)) else d)"
| "dictionary_step s CClear d = Map.empty"
| "dictionary_step s _ d = d"

definition refines :: "cache_state \<Rightarrow> (str \<rightharpoonup> cached_response \<times> f64) \<Rightarrow> bool" where
  "refines st d \<longleftrightarrow>
     (\<forall>k e. (k, e) \<in> set (ca_store st) \<longrightarrow> d k = Some (sr_response e, sr_stored_at e))"

fun keeps_settings :: "cache_op \<Rightarrow> bool" where
  "keeps_settings (CReconfigure s) = False"
| "keeps_settings _ = True"

lemma shift_remove_subset: "set (shift_remove k m) \<subseteq> set m"
  by (auto simp: shift_remove_def)

lemma put_at_refines:
  assumes "cache_inv st" "sane_bounds (ca_settings st)" "refines st d"
  shows "refines (snd (put_at st k r now)) (dictionary_step (ca_settings st) (CPut k r now) d)"
proof (cases "accepts (ca_settings st) r \<and> cache_validate_time now = Inr ()")
  case True
  have "refines (evict (refreshed st k r now)) (d(k \<mapsto> (r, now)))"
  proof (rule evict_state [of "refreshed st k r now"])
    fix n assume n: "evict (refreshed st k r now) = (refreshed st k r now)
        \<lparr>ca_store := drop n (ca_store (refreshed st k r now)),
         ca_bytes := total_len (drop n (ca_store (refreshed st k r now)))\<rparr>"
    have "set (ca_store (evict (refreshed st k r now))) \<subseteq>
        insert (k, \<lparr>sr_response = r, sr_stored_at = now\<rparr>) (set (shift_remove k (ca_store st)))"
      unfolding n using set_drop_subset [of n "ca_store (refreshed st k r now)"] by auto
    moreover have "(k', e) \<in> set (ca_store st) \<and> k' \<noteq> k"
      if "(k', e) \<in> set (shift_remove k (ca_store st))" for k' e
      using that by (simp add: shift_remove_def)
    ultimately have "(k' = k \<and> e = \<lparr>sr_response = r, sr_stored_at = now\<rparr>) \<or>
        ((k', e) \<in> set (ca_store st) \<and> k' \<noteq> k)"
      if "(k', e) \<in> set (ca_store (evict (refreshed st k r now)))" for k' e
      using that by blast
    then show ?thesis using assms(3) unfolding refines_def by fastforce
  qed simp
  then show ?thesis using put_at_accepted [OF assms(1,2), of r now k] True by simp
next
  case False
  then show ?thesis using assms(3) put_at_refused [of st r now k] by auto
qed

lemma get_at_refines:
  assumes "cache_inv st" "sane_bounds (ca_settings st)" "refines st d"
  shows "refines (snd (get_at st k now)) d"
proof -
  obtain r st' where g: "get_at st k now = (r, st')" by fastforce
  have "set (ca_store st') \<subseteq> set (ca_store st)"
    using get_at_store [OF assms(1,2) g] shift_remove_subset [of k "ca_store st"]
    by (auto dest: map_of_SomeD)
  then show ?thesis using assms(3) g by (auto simp: refines_def)
qed

lemma cache_apply_refines:
  assumes "cache_inv st \<and> sane_bounds (ca_settings st)" "refines st d" "keeps_settings op"
  shows "refines (cache_apply op st) (dictionary_step (ca_settings st) op d) \<and>
    cache_inv (cache_apply op st) \<and> ca_settings (cache_apply op st) = ca_settings st"
proof (cases op)
  case CClear
  then show ?thesis
    using assms by (simp add: cache_clear_def refines_def cache_inv_def distinct_keys_def)
next
  case (CPut k r now)
  then show ?thesis using assms put_at_refines [of st d k r now] by (simp add: put_at_inv)
qed (use assms in \<open>simp_all add: get_at_refines get_at_inv\<close>)

lemma cache_run_refines:
  assumes "cache_inv st \<and> sane_bounds (ca_settings st)" "refines st d" "list_all keeps_settings ops"
  shows "refines (fold cache_apply ops st) (fold (dictionary_step (ca_settings st)) ops d) \<and>
    cache_inv (fold cache_apply ops st) \<and> ca_settings (fold cache_apply ops st) = ca_settings st"
  using assms
proof (induction ops arbitrary: st d)
  case (Cons op ops)
  note step = cache_apply_refines [OF Cons.prems(1,2), of op]
  show ?case
    using Cons.IH [of "cache_apply op st" "dictionary_step (ca_settings st) op d"] step Cons.prems
    by simp
qed simp

text \<open>
  C9. The cache is a lossy view of the dictionary of everything it accepted: a hit is always the
  response most recently accepted under that key, stored since the last purge, and younger than the
  configured lifetime.
\<close>

theorem hits_are_current:
  assumes "cache_new s = Inr st" and "sane_bounds s" and "list_all keeps_settings ops"
    and "fst (get_at (fold cache_apply ops st) key now) = Inr (Some r)"
  shows "\<exists>stored. fold (dictionary_step s) ops Map.empty key = Some (r, stored) \<and>
    \<not> (Fin 0 < cs_ttl_seconds s \<and> cs_ttl_seconds s \<le> now - stored)"
proof -
  have st: "cache_inv st \<and> sane_bounds (ca_settings st)" "ca_settings st = s" "refines st Map.empty"
    using cache_new_inv [OF assms(1)] cache_new_empty [OF assms(1)] assms(2)
    by (auto simp: refines_def)
  note run = cache_run_refines [OF st(1,3) assms(3), unfolded st(2)]
  obtain e where "map_of (ca_store (fold cache_apply ops st)) key = Some e" "sr_response e = r"
    "\<not> (Fin 0 < cs_ttl_seconds s \<and> cs_ttl_seconds s \<le> now - sr_stored_at e)"
    using assms(4) run
    by (auto simp: get_at_def Let_def split: sum.splits if_splits option.splits)
  then show ?thesis using run map_of_SomeD [of _ key e] by (auto simp: refines_def)
qed

theorem hits_are_current_witness:
  "\<exists>stored. fold (dictionary_step small_cache) [CPut [1] (sample_response [0]) (Fin 0)] Map.empty [1] =
     Some (sample_response [0], stored) \<and>
   \<not> (Fin 0 < cs_ttl_seconds small_cache \<and> cs_ttl_seconds small_cache \<le> Fin 3 - stored)"
proof (rule hits_are_current [OF small_cache_new small_cache_sane])
  have inv: "cache_inv small_cache_state" using cache_new_inv [OF small_cache_new] by simp
  have "put_at small_cache_state [1] (sample_response [0]) (Fin 0) =
      (Inr (), evict (refreshed small_cache_state [1] (sample_response [0]) (Fin 0)))"
    by (rule put_at_accepted [OF inv])
      (simp_all add: small_cache_state_def small_cache_sane,
       simp_all add: accepts_def small_cache_def sample_response_def cache_validate_time_def less_f64_def)
  then show "fst (get_at (fold cache_apply [CPut [1] (sample_response [0]) (Fin 0)] small_cache_state)
      [1] (Fin 3)) = Inr (Some (sample_response [0]))"
    by (simp add: evict_def refreshed_def small_cache_state_def shift_remove_def small_cache_def get_at_def
        cache_validate_time_def less_f64_def body_len_def sample_response_def minus_finite rnd_f64_numeral)
qed simp

section \<open>Key isolation\<close>

lemma canonical_envelope:
  "canonical_json (JObject [(lit ''version'', JString v), (lit ''partition'', JString p),
     (lit ''route'', JString r), (lit ''model'', JString m), (lit ''body'', b)]) =
   JObject [(lit ''body'', canonical_json b), (lit ''model'', JString m), (lit ''partition'', JString p),
     (lit ''route'', JString r), (lit ''version'', JString v)]"
  by (simp add: sort_members_def lit_def)

text \<open>The part of a request body that enters its key.\<close>

definition key_body :: "json \<Rightarrow> json option" where
  "key_body body = map_option
     (\<lambda>m. canonical_json (JObject (filter (\<lambda>p. fst p \<notin> {lit ''model'', lit ''stream''}) m)))
     (as_object body)"

text \<open>
  C10. Two requests get the same key only when they agree on the caller's partition, the route, the
  served model and the canonical form of everything in the body except \<open>model\<close> and \<open>stream\<close>, provided
  the serialiser and the hash function tell the two envelopes apart. Conversely, requests that agree on
  these share their key.
\<close>

theorem cache_key_isolates:
  assumes "as_object body = Some m" "as_object body' = Some m'"
    and "serialize (cache_envelope CACHE_KEY_SCHEMA_VERSION scope route model m) = Inr bytes"
    and "serialize (cache_envelope CACHE_KEY_SCHEMA_VERSION scope' route' model' m') = Inr bytes'"
    and serializer_faithful: "bytes = bytes' \<longrightarrow>
      cache_envelope CACHE_KEY_SCHEMA_VERSION scope route model m =
      cache_envelope CACHE_KEY_SCHEMA_VERSION scope' route' model' m'"
    and digest_bytes: "\<And>x. list_all (\<lambda>b. b < 256) (sha256 x)"
    and no_collision: "sha256 bytes = sha256 bytes' \<longrightarrow> bytes = bytes'"
  shows "cache_key serialize sha256 scope route model body =
      cache_key serialize sha256 scope' route' model' body' \<longleftrightarrow>
    scope = scope' \<and> route = route' \<and> model = model' \<and> key_body body = key_body body'"
proof -
  have env: "cache_envelope CACHE_KEY_SCHEMA_VERSION scope route model m =
      cache_envelope CACHE_KEY_SCHEMA_VERSION scope' route' model' m' \<longleftrightarrow>
    scope = scope' \<and> route = route' \<and> model = model' \<and> key_body body = key_body body'"
    unfolding cache_envelope_def canonical_envelope
    using assms(1,2) by (auto simp: key_body_def)
  have "hex_encode (sha256 bytes) = hex_encode (sha256 bytes') \<longleftrightarrow> bytes = bytes'"
    using hex_encode_inject [OF digest_bytes digest_bytes] no_collision by metis
  moreover have "bytes = bytes' \<longleftrightarrow> cache_envelope CACHE_KEY_SCHEMA_VERSION scope route model m =
      cache_envelope CACHE_KEY_SCHEMA_VERSION scope' route' model' m'"
    using serializer_faithful assms(3,4) by auto
  ultimately show ?thesis
    using assms(1-4) env by (simp add: cache_key_def cache_key_with_version_def)
qed

definition length_digest :: "nat list \<Rightarrow> nat list" where
  "length_digest x = [length x mod 256]"

definition scope_writer :: "json \<Rightarrow> (str, nat list) result" where
  "scope_writer v = Inr (case Option.bind (jget v (lit ''partition'')) as_str of None \<Rightarrow> [] | Some s \<Rightarrow> s)"

theorem cache_key_isolates_witness:
  "cache_key scope_writer length_digest (lit ''a'') [] [] (JObject []) \<noteq>
   cache_key scope_writer length_digest (lit ''bc'') [] [] (JObject [(lit ''stream'', JBool False)])"
proof -
  have w: "scope_writer (cache_envelope v p [] [] m) = Inr p" for v p m
    unfolding cache_envelope_def canonical_envelope
    by (simp add: scope_writer_def jget_def lit_def)
  have "cache_key scope_writer length_digest (lit ''a'') [] [] (JObject []) =
      cache_key scope_writer length_digest (lit ''bc'') [] [] (JObject [(lit ''stream'', JBool False)])
    \<longleftrightarrow> lit ''a'' = lit ''bc'' \<and> [] = ([] :: str) \<and> [] = ([] :: str) \<and>
      key_body (JObject []) = key_body (JObject [(lit ''stream'', JBool False)])"
    by (rule cache_key_isolates
        [where m = "[]" and m' = "[(lit ''stream'', JBool False)]" and bytes = "lit ''a''" and bytes' = "lit ''bc''"])
      (simp_all add: w, simp_all add: length_digest_def lit_def)
  then show ?thesis by (simp add: lit_def)
qed

end
