(* ===== verification/Pricing.thy ===== *)
theory Pricing
  imports Scoring Json
begin

text \<open>
  Token, price and cost arithmetic and the calendar of \<open>wayfinder-service/src/pricing.rs\<close>. The hash
  function and the JSON writer used for a price table's fingerprint are parameters.
\<close>

section \<open>Tokens and prices\<close>

definition CHARS_PER_TOKEN :: nat where
  "CHARS_PER_TOKEN = 4"

datatype pricing_error = InvalidPrice str | PricingJson str

record price_table =
  pt_costs :: "(str \<times> f64) list"
  pt_priced :: bool

definition estimate_tokens :: "str \<Rightarrow> u64" where
  "estimate_tokens text =
     (if text = [] then 0 else min (max (length text div CHARS_PER_TOKEN) 1) u64_max)"

definition bad_price :: "f64 \<Rightarrow> bool" where
  "bad_price v \<longleftrightarrow> \<not> is_finite v \<or> v < Fin 0"

fun first_bad_price :: "(str \<times> f64 option) list \<Rightarrow> str option" where
  "first_bad_price [] = None"
| "first_bad_price ((m, c) # rest) =
     (if (case c of None \<Rightarrow> False | Some v \<Rightarrow> bad_price v) then Some m else first_bad_price rest)"

fun relative_costs :: "nat \<Rightarrow> f64 \<Rightarrow> str list \<Rightarrow> (str \<times> f64) list \<Rightarrow> (str \<times> f64) list" where
  "relative_costs i step [] costs = costs"
| "relative_costs i step (m # ms) costs =
     relative_costs (Suc i) step ms
       (ix_insert m (python_round (flit (1 / 5) + f64_of_nat i * step) 3) costs)"

definition price_table_of ::
  "(str \<times> f64 option) list \<Rightarrow> str list \<Rightarrow> (pricing_error, price_table) result" where
  "price_table_of model_costs tier_ladder =
     (case first_bad_price model_costs of
        Some m \<Rightarrow> Inl (InvalidPrice m)
      | None \<Rightarrow>
          let real = concat (map (\<lambda>(m, c). case c of None \<Rightarrow> [] | Some v \<Rightarrow> [(m, v)]) model_costs)
          in if real \<noteq> [] then Inr \<lparr>pt_costs = real, pt_priced = True\<rparr>
             else
               let names = (if tier_ladder = [] then map fst model_costs else tier_ladder)
               in if names = [] then Inr \<lparr>pt_costs = [], pt_priced = False\<rparr>
                  else
                    let denominator = f64_of_nat (max (sat_sub (length names) 1) 1);
                        step = (Fin 1 - flit (1 / 5)) div denominator
                    in Inr \<lparr>pt_costs = relative_costs 0 step names [], pt_priced = False\<rparr>)"

text \<open>UTF-16 code units of a scalar value, and the \<open>\uXXXX\<close> escape of one unit.\<close>

definition utf16_units :: "nat \<Rightarrow> nat list" where
  "utf16_units c =
     (if c < 65536 then [c]
      else [55296 + (c - 65536) div 1024, 56320 + (c - 65536) mod 1024])"

definition unicode_escape :: "nat \<Rightarrow> str" where
  "unicode_escape u =
     [92, 117, hex_digit (u div 4096), hex_digit (u div 256 mod 16),
      hex_digit (u div 16 mod 16), hex_digit (u mod 16)]"

definition ascii_json :: "str \<Rightarrow> str" where
  "ascii_json s =
     concat (map (\<lambda>c. if c < 128 then [c] else concat (map unicode_escape (utf16_units c))) s)"

text \<open>\<open>write\<close> is the JSON writer for a sorted table, \<open>sha256\<close> the hash function on bytes.\<close>

definition table_version ::
  "((str \<times> f64) list \<Rightarrow> (str, str) result) \<Rightarrow> (nat list \<Rightarrow> nat list) \<Rightarrow>
   (str \<times> f64) list \<Rightarrow> (pricing_error, str) result" where
  "table_version write sha256 costs =
     (case first_bad_price (map (\<lambda>(m, c). (m, Some c)) costs) of
        Some m \<Rightarrow> Inl (InvalidPrice m)
      | None \<Rightarrow>
          (case write (fold (\<lambda>(m, c). bt_insert m c) costs []) of
             Inl e \<Rightarrow> Inl (PricingJson e)
           | Inr json \<Rightarrow> Inr (hex_encode (take 6 (sha256 (ascii_json json))))))"

record usage_tokens =
  ut_prompt :: int
  ut_completion :: int
  ut_estimated :: bool

definition i64_max :: int where
  "i64_max = 2 ^ 63 - 1"

definition i64_min :: int where
  "i64_min = - (2 ^ 63)"

definition i64_sat :: "int \<Rightarrow> int" where
  "i64_sat x = max i64_min (min x i64_max)"

definition estimated_usage :: "str \<Rightarrow> str \<Rightarrow> usage_tokens" where
  "estimated_usage prompt_text completion_text =
     \<lparr>ut_prompt = min (int (estimate_tokens prompt_text)) i64_max,
      ut_completion = min (int (estimate_tokens completion_text)) i64_max, ut_estimated = True\<rparr>"

definition usage_tokens_of :: "json \<Rightarrow> str \<Rightarrow> str \<Rightarrow> usage_tokens" where
  "usage_tokens_of response prompt_text completion_text =
     (case Option.bind (jget response (lit ''usage'')) as_object of
        None \<Rightarrow> estimated_usage prompt_text completion_text
      | Some usage \<Rightarrow>
          let prompt = Option.bind (map_of usage (lit ''prompt_tokens'')) as_i64;
              completion = Option.bind (map_of usage (lit ''completion_tokens'')) as_i64
          in (case (prompt, completion) of
               (Some p, Some c) \<Rightarrow> \<lparr>ut_prompt = p, ut_completion = c, ut_estimated = False\<rparr>
             | _ \<Rightarrow>
                 (case Option.bind (map_of usage (lit ''total_tokens'')) as_i64 of
                    Some whole \<Rightarrow>
                      let p = (case prompt of None \<Rightarrow> 0 | Some p \<Rightarrow> p)
                      in \<lparr>ut_prompt = p, ut_completion = max (i64_sat (whole - p)) 0,
                          ut_estimated = False\<rparr>
                  | None \<Rightarrow> estimated_usage prompt_text completion_text)))"

record turn_cost =
  tc_route :: str
  tc_realized :: f64
  tc_baseline :: f64
  tc_savings :: f64
  tc_prompt_tokens :: u64
  tc_completion_tokens :: u64
  tc_estimated :: bool

fun dearest_from :: "f64 \<Rightarrow> (str \<times> f64) list \<Rightarrow> (pricing_error, f64) result" where
  "dearest_from acc [] = Inr acc"
| "dearest_from acc ((m, v) # rest) =
     (if bad_price v then Inl (InvalidPrice m) else dearest_from (f_max acc v) rest)"

definition turn_cost_of ::
  "str \<Rightarrow> int \<Rightarrow> int \<Rightarrow> (str \<times> f64) list \<Rightarrow> bool \<Rightarrow> str option \<Rightarrow> (pricing_error, turn_cost) result" where
  "turn_cost_of route prompt_tokens completion_tokens costs estimated baseline_model =
     (case dearest_from (Fin 0) costs of
        Inl e \<Rightarrow> Inl e
      | Inr dearest \<Rightarrow>
          let prompt = nat (max prompt_tokens 0);
              completion = nat (max completion_tokens 0);
              total_tokens = sat_add prompt completion;
              total_thousands = f64_of_nat total_tokens div Fin 1000;
              baseline_rate = (case Option.bind baseline_model (map_of costs) of None \<Rightarrow> dearest | Some r \<Rightarrow> r);
              route_rate = (case map_of costs route of None \<Rightarrow> dearest | Some r \<Rightarrow> r);
              realized = python_round (route_rate * total_thousands) 6;
              baseline = python_round (baseline_rate * total_thousands) 6
          in Inr \<lparr>tc_route = route, tc_realized = realized, tc_baseline = baseline,
                  tc_savings = python_round (baseline - realized) 6, tc_prompt_tokens = prompt,
                  tc_completion_tokens = completion, tc_estimated = estimated\<rparr>)"

section \<open>Calendar dates\<close>

text \<open>
  An out-of-range date keeps its parts where the source renders them into the error's text.
\<close>

datatype ledger_error = InvalidDate str | InvalidDateParts int nat nat | LedgerRoot str

record utc_date =
  dt_year :: int
  dt_month :: nat
  dt_day :: nat

definition leap_year :: "int \<Rightarrow> bool" where
  "leap_year y \<longleftrightarrow> y mod 4 = 0 \<and> (y mod 100 \<noteq> 0 \<or> y mod 400 = 0)"

definition days_in_month :: "int \<Rightarrow> nat \<Rightarrow> nat" where
  "days_in_month year month =
     (if month \<in> {1, 3, 5, 7, 8, 10, 12} then 31
      else if month \<in> {4, 6, 9, 11} then 30
      else if month = 2 then (if leap_year year then 29 else 28)
      else 0)"

definition utc_date_new :: "int \<Rightarrow> nat \<Rightarrow> nat \<Rightarrow> (ledger_error, utc_date) result" where
  "utc_date_new year month day =
     (if 1 \<le> year \<and> year \<le> 9999 \<and> 1 \<le> month \<and> month \<le> 12 \<and> 1 \<le> day \<and> day \<le> days_in_month year month
      then Inr \<lparr>dt_year = year, dt_month = month, dt_day = day\<rparr>
      else Inl (InvalidDateParts year month day))"

text \<open>
  \<open>str::parse\<close> of the integer types: an optional \<open>+\<close> (and \<open>-\<close> for the signed type) and at least one
  decimal digit. The parts have at most four digits, so no value is out of range.
\<close>

fun digits_value :: "nat \<Rightarrow> str \<Rightarrow> nat option" where
  "digits_value acc [] = Some acc"
| "digits_value acc (c # cs) = (if is_ascii_digit c then digits_value (10 * acc + (c - 48)) cs else None)"

definition parse_unsigned :: "str \<Rightarrow> nat option" where
  "parse_unsigned s =
     (let ds = (case s of [] \<Rightarrow> [] | c # cs \<Rightarrow> if c = 43 then cs else s)
      in if ds = [] then None else digits_value 0 ds)"

definition parse_signed :: "str \<Rightarrow> int option" where
  "parse_signed s =
     (case s of
        [] \<Rightarrow> None
      | c # cs \<Rightarrow>
          if c = 45 then (if cs = [] then None else map_option (\<lambda>n. - int n) (digits_value 0 cs))
          else map_option int (parse_unsigned s))"

text \<open>
  Byte positions and scalar positions agree on an ASCII string; a string with any other character
  fails one of the tests of the source, because every byte is a dash or part of a number.
\<close>

definition utc_date_parse :: "str \<Rightarrow> (ledger_error, utc_date) result" where
  "utc_date_parse v =
     (if \<not> list_all (\<lambda>c. c < 128) v \<or> length v \<noteq> 10 \<or> v ! 4 \<noteq> 45 \<or> v ! 7 \<noteq> 45 then Inl (InvalidDate v)
      else
        case parse_signed (take 4 v) of
          None \<Rightarrow> Inl (InvalidDate v)
        | Some year \<Rightarrow>
            (case parse_unsigned (take 2 (drop 5 v)) of
               None \<Rightarrow> Inl (InvalidDate v)
             | Some month \<Rightarrow>
                 (case parse_unsigned (take 2 (drop 8 v)) of
                    None \<Rightarrow> Inl (InvalidDate v)
                  | Some day \<Rightarrow> utc_date_new year month day)))"

definition ordinal :: "utc_date \<Rightarrow> int" where
  "ordinal d =
     (let month = int (dt_month d);
          year = dt_year d - (if month \<le> 2 then 1 else 0);
          era = (if year \<ge> 0 then year else year - 399) div 400;
          year_of_era = year - era * 400;
          shifted_month = month + (if month > 2 then - 3 else 9);
          day_of_year = (153 * shifted_month + 2) div 5 + int (dt_day d) - 1;
          day_of_era = year_of_era * 365 + year_of_era div 4 - year_of_era div 100 + day_of_year
      in era * 146097 + day_of_era)"

definition month_prefix :: "utc_date \<Rightarrow> str" where
  "month_prefix d = pad_digits 4 (nat (dt_year d)) @ 45 # pad_digits 2 (dt_month d)"

definition date_text :: "utc_date \<Rightarrow> str" where
  "date_text d = pad_digits 4 (nat (dt_year d)) @ 45 # pad_digits 2 (dt_month d) @ 45 # pad_digits 2 (dt_day d)"

definition valid_date :: "utc_date \<Rightarrow> bool" where
  "valid_date d \<longleftrightarrow> utc_date_new (dt_year d) (dt_month d) (dt_day d) = Inr d"

text \<open>The following day of the calendar.\<close>

definition next_day :: "utc_date \<Rightarrow> utc_date" where
  "next_day d =
     (if dt_day d < days_in_month (dt_year d) (dt_month d) then d\<lparr>dt_day := dt_day d + 1\<rparr>
      else if dt_month d < 12 then d\<lparr>dt_month := dt_month d + 1, dt_day := 1\<rparr>
      else d\<lparr>dt_year := dt_year d + 1, dt_month := 1, dt_day := 1\<rparr>)"

lemma valid_date_bounds:
  "valid_date d \<longleftrightarrow> 1 \<le> dt_year d \<and> dt_year d \<le> 9999 \<and> 1 \<le> dt_month d \<and> dt_month d \<le> 12 \<and>
     1 \<le> dt_day d \<and> dt_day d \<le> days_in_month (dt_year d) (dt_month d)"
  by (cases d) (auto simp: valid_date_def utc_date_new_def)

lemma month_cases:
  assumes "1 \<le> (m::nat)" "m \<le> 12"
  shows "m = 1 \<or> m = 2 \<or> m = 3 \<or> m = 4 \<or> m = 5 \<or> m = 6 \<or> m = 7 \<or> m = 8 \<or> m = 9 \<or> m = 10 \<or>
    m = 11 \<or> m = 12"
  using assms by presburger

section \<open>The calendar is correct\<close>

text \<open>Days before a year that starts in March, and days before a month of such a year.\<close>

definition march_years :: "int \<Rightarrow> int" where
  "march_years y = 365 * y + y div 4 - y div 100 + y div 400"

lemma era_split:
  fixes y :: int
  shows "y div 400 * 146097 + ((y mod 400) * 365 + (y mod 400) div 4 - (y mod 400) div 100 + x) =
    march_years y + x"
proof -
  have "(y mod 400 + y div 400 * 100 * 4) div 4 = y div 400 * 100 + (y mod 400) div 4"
    "(y mod 400 + y div 400 * 4 * 100) div 100 = y div 400 * 4 + (y mod 400) div 100"
    by (rule div_mult_self1, simp)+
  moreover have "y mod 400 + y div 400 * 100 * 4 = y" "y mod 400 + y div 400 * 4 * 100 = y" by simp_all
  ultimately have "y div 4 = y div 400 * 100 + (y mod 400) div 4"
    "y div 100 = y div 400 * 4 + (y mod 400) div 100" by simp_all
  moreover have "y mod 400 * 365 = 365 * y - 146000 * (y div 400)"
    using mult_div_mod_eq [of 400 y] by linarith
  ultimately show ?thesis unfolding march_years_def by linarith
qed

lemma ordinal_late:
  assumes "1 \<le> y" "2 < m"
  shows "ordinal \<lparr>dt_year = y, dt_month = m, dt_day = d\<rparr> =
    march_years y + ((153 * (int m - 3) + 2) div 5 + int d - 1)"
proof -
  let ?y = "y" and ?x = "(153 * (int m - 3) + 2) div 5 + int d - 1"
  let ?r = "?y - ?y div 400 * 400"
  have "ordinal \<lparr>dt_year = y, dt_month = m, dt_day = d\<rparr> =
      ?y div 400 * 146097 + (?r * 365 + ?r div 4 - ?r div 100 + ?x)"
    using assms by (simp add: ordinal_def Let_def)
  then show ?thesis unfolding minus_div_mult_eq_mod era_split .
qed

lemma ordinal_early:
  assumes "1 \<le> y" "m \<le> 2"
  shows "ordinal \<lparr>dt_year = y, dt_month = m, dt_day = d\<rparr> =
    march_years (y - 1) + ((153 * (int m + 9) + 2) div 5 + int d - 1)"
proof -
  let ?y = "y - 1" and ?x = "(153 * (int m + 9) + 2) div 5 + int d - 1"
  let ?r = "?y - ?y div 400 * 400"
  have "ordinal \<lparr>dt_year = y, dt_month = m, dt_day = d\<rparr> =
      ?y div 400 * 146097 + (?r * 365 + ?r div 4 - ?r div 100 + ?x)"
    using assms by (simp add: ordinal_def Let_def)
  then show ?thesis unfolding minus_div_mult_eq_mod era_split .
qed

lemma div_pred:
  fixes y n :: int
  assumes "0 < n"
  shows "y div n - (y - 1) div n = (if y mod n = 0 then 1 else 0)"
proof -
  have y: "y = n * (y div n) + y mod n" by simp
  show ?thesis
  proof (cases "y mod n = 0")
    case True
    then have "y - 1 = n * (y div n - 1) + (n - 1)" using y by (simp add: algebra_simps)
    then have "(y - 1) div n = y div n - 1"
      using assms by (intro int_div_pos_eq [of _ _ _ "n - 1"]) auto
    then show ?thesis using True by simp
  next
    case False
    then have "0 < y mod n" using assms by (simp add: order_less_le)
    then have "(y - 1) div n = y div n"
      using y assms pos_mod_bound [OF assms, of y]
      by (intro int_div_pos_eq [of _ _ _ "y mod n - 1"]) auto
    then show ?thesis using False by simp
  qed
qed

lemma march_years_step:
  "march_years y = march_years (y - 1) + (if leap_year y then 366 else 365)"
proof -
  have "(100::int) dvd 400" "(4::int) dvd 100" by simp_all
  then have dvds: "y mod 400 = 0 \<longrightarrow> y mod 100 = 0" "y mod 100 = 0 \<longrightarrow> y mod 4 = 0"
    unfolding mod_eq_0_iff_dvd by (blast intro: dvd_trans)+
  have count: "(365::int) + (if A then 1 else 0) - (if B then 1 else 0) + (if C then 1 else 0) =
      (if A \<and> (\<not> B \<or> C) then 366 else 365)" if "C \<longrightarrow> B" "B \<longrightarrow> A" for A B C
    using that by (cases A; cases B; cases C) simp_all
  have regroup: "365 * y + a - b + c - (365 * (y - 1) + a' - b' + c') =
      365 + (a - a') - (b - b') + (c - c')" for a b c a' b' c' :: int by simp
  have "march_years y - march_years (y - 1) = 365 + (y div 4 - (y - 1) div 4) -
      (y div 100 - (y - 1) div 100) + (y div 400 - (y - 1) div 400)"
    unfolding march_years_def by (rule regroup)
  also have "\<dots> = 365 + (if y mod 4 = 0 then 1 else 0) - (if y mod 100 = 0 then 1 else 0) +
      (if y mod 400 = 0 then 1 else 0)"
    by (simp only: div_pred [of 4 y, simplified] div_pred [of 100 y, simplified]
        div_pred [of 400 y, simplified])
  also have "\<dots> = (if leap_year y then 366 else 365)"
    unfolding leap_year_def by (rule count) (fact dvds)+
  finally show ?thesis by linarith
qed

text \<open>
  The day number used to select reporting periods counts days: the day after a date, by the
  Gregorian calendar with its leap years, has the next number.
\<close>

theorem ordinal_next_day:
  assumes "valid_date d"
  shows "ordinal (next_day d) = ordinal d + 1"
proof -
  obtain y m k where d: "d = \<lparr>dt_year = y, dt_month = m, dt_day = k\<rparr>" by (cases d)
  have v: "1 \<le> y" "1 \<le> m" "m \<le> 12" "k \<le> days_in_month y m" "1 \<le> k"
    using assms by (auto simp: valid_date_bounds d)
  show ?thesis
  proof (cases "k < days_in_month y m")
    case True
    then show ?thesis
      using v by (cases "m \<le> 2") (auto simp: d next_day_def ordinal_late ordinal_early)
  next
    case False
    then have k: "k = days_in_month y m" using v by simp
    from month_cases [OF v(2,3)] show ?thesis
      using v(1) march_years_step [of y]
      by (elim disjE) (simp_all add: d k next_day_def days_in_month_def ordinal_late ordinal_early)
  qed
qed

theorem ordinal_next_day_witness:
  "ordinal (next_day \<lparr>dt_year = 2024, dt_month = 2, dt_day = 29\<rparr>) =
   ordinal \<lparr>dt_year = 2024, dt_month = 2, dt_day = 29\<rparr> + 1"
  by (rule ordinal_next_day) (simp add: valid_date_bounds days_in_month_def leap_year_def)

subsection \<open>Bucket keys\<close>

lemma length_pad_digits [simp]: "length (pad_digits k n) = k"
  by (induction k) auto

lemma digits_value_pad: "digits_value acc (pad_digits k n) = Some (acc * 10 ^ k + n mod 10 ^ k)"
proof (induction k arbitrary: acc)
  case (Suc k)
  have "n div 10 ^ k mod 10 < 10" by simp
  then have "is_ascii_digit (48 + n div 10 ^ k mod 10)" by (simp add: is_ascii_digit_def)
  then show ?case
    using Suc mod_pow10_Suc [of n k] by (simp add: algebra_simps)
qed simp

lemma pad_digits_hd: "c \<in> set (pad_digits k n) \<Longrightarrow> 48 \<le> c \<and> c \<le> 57"
proof (induction k)
  case (Suc k)
  have "n div 10 ^ k mod 10 < 10" by simp
  then show ?case using Suc by auto
qed simp

lemma parse_pad_digits:
  assumes "n < 10 ^ Suc k"
  shows "parse_unsigned (pad_digits (Suc k) n) = Some n"
    "parse_signed (pad_digits (Suc k) n) = Some (int n)"
proof -
  obtain c cs where c: "pad_digits (Suc k) n = c # cs" "48 \<le> c" "c \<le> 57"
    using pad_digits_hd [of _ "Suc k" n] by fastforce
  have v: "digits_value 0 (c # cs) = Some n"
    using digits_value_pad [of 0 "Suc k" n] assms unfolding c(1) by simp
  show u: "parse_unsigned (pad_digits (Suc k) n) = Some n"
    unfolding c(1) parse_unsigned_def using v c(2,3) by simp
  show "parse_signed (pad_digits (Suc k) n) = Some (int n)"
    using u c(2,3) unfolding c(1) parse_signed_def by simp
qed

lemma mixed_radix_less:
  assumes "a < p" "b < (p::nat)"
  shows "x * p + a < y * p + b \<longleftrightarrow> x < y \<or> (x = y \<and> a < b)"
proof -
  consider "x < y" | "x = y" | "y < x" by linarith
  then show ?thesis
  proof cases
    case 1
    then have "Suc x * p \<le> y * p" by (intro mult_le_mono1) simp
    then show ?thesis using 1 assms by simp
  next
    case 3
    then have "Suc y * p \<le> x * p" by (intro mult_le_mono1) simp
    then show ?thesis using 3 assms by simp
  qed simp
qed

lemma pad_digits_mod_less: "pad_digits k m < pad_digits k n \<longleftrightarrow> m mod 10 ^ k < n mod 10 ^ k"
  by (induction k) (simp_all only: pad_digits.simps mod_pow10_Suc, simp_all add: mixed_radix_less)

lemma pad_digits_less: "m < 10 ^ k \<Longrightarrow> n < 10 ^ k \<Longrightarrow> pad_digits k m < pad_digits k n \<longleftrightarrow> m < n"
  by (simp add: pad_digits_mod_less)

lemma pad_digits_eq: "m < 10 ^ k \<Longrightarrow> n < 10 ^ k \<Longrightarrow> pad_digits k m = pad_digits k n \<longleftrightarrow> m = n"
  by (metis add_0 digits_value_pad mod_less mult_0 option.inject)

lemma pad_digits_numeral:
  "pad_digits (numeral k) n = (48 + n div 10 ^ pred_numeral k mod 10) # pad_digits (pred_numeral k) n"
  unfolding numeral_eq_Suc [of k] by simp

definition date_before :: "utc_date \<Rightarrow> utc_date \<Rightarrow> bool" where
  "date_before d e \<longleftrightarrow> dt_year d < dt_year e \<or>
     (dt_year d = dt_year e \<and> (dt_month d < dt_month e \<or> (dt_month d = dt_month e \<and> dt_day d < dt_day e)))"

lemma valid_date_digits:
  assumes "valid_date d"
  shows "nat (dt_year d) < 10 ^ 4" "dt_month d < 10 ^ 2" "dt_day d < 10 ^ 2"
proof -
  have "days_in_month y m \<le> 31" for y m by (simp add: days_in_month_def)
  moreover have "dt_day d \<le> days_in_month (dt_year d) (dt_month d)"
    using assms by (simp add: valid_date_bounds)
  ultimately have "dt_day d \<le> 31" by (rule le_trans [rotated])
  then show "nat (dt_year d) < 10 ^ 4" "dt_month d < 10 ^ 2" "dt_day d < 10 ^ 2"
    using assms by (auto simp: valid_date_bounds)
qed

lemma date_text_less:
  assumes "valid_date d" "valid_date e"
  shows "date_text d < date_text e \<longleftrightarrow> date_before d e"
proof -
  note v = valid_date_digits [OF assms(1)] valid_date_digits [OF assms(2)]
  have y: "nat (dt_year d) < nat (dt_year e) \<longleftrightarrow> dt_year d < dt_year e"
    "nat (dt_year d) = nat (dt_year e) \<longleftrightarrow> dt_year d = dt_year e"
    using assms by (auto simp: valid_date_bounds)
  show ?thesis
    unfolding date_text_def date_before_def
    by (simp only: append_less_append length_pad_digits Cons_less_Cons pad_digits_less pad_digits_eq v y
        less_irrefl simp_thms)
qed

lemma date_text_parse:
  assumes "valid_date d"
  shows "utc_date_parse (date_text d) = Inr d"
proof -
  let ?y = "pad_digits 4 (nat (dt_year d))" and ?m = "pad_digits 2 (dt_month d)"
    and ?d = "pad_digits 2 (dt_day d)"
  note v = valid_date_digits [OF assms]
  have ascii: "list_all (\<lambda>c. c < 128) (pad_digits k n)" for k n
    using pad_digits_hd [of _ k n] by (force simp: list_all_iff)
  have parts: "take 4 (date_text d) = ?y" "take 2 (drop 5 (date_text d)) = ?m"
    "take 2 (drop 8 (date_text d)) = ?d" "date_text d ! 4 = 45" "date_text d ! 7 = 45"
    by (simp_all add: date_text_def nth_append)
  have "parse_signed ?y = Some (dt_year d)"
    using parse_pad_digits(2) [of "nat (dt_year d)" 3] v(1) assms by (simp add: valid_date_bounds)
  moreover have "parse_unsigned ?m = Some (dt_month d)" "parse_unsigned ?d = Some (dt_day d)"
    using parse_pad_digits(1) [of _ 1] v(2,3) by (simp_all add: numeral_2_eq_2)
  moreover have "length (date_text d) = 10" "list_all (\<lambda>c. c < 128) (date_text d)"
    using ascii by (simp_all add: date_text_def)
  ultimately show ?thesis
    using parts assms by (simp add: utc_date_parse_def valid_date_def)
qed

text \<open>
  A date survives being written as a bucket key and read back, and the keys sort exactly as the
  dates do, so the first key of the ordered map is the oldest day.
\<close>

theorem bucket_keys_faithful:
  assumes "valid_date d" "valid_date e"
  shows "utc_date_parse (date_text d) = Inr d \<and> (date_text d < date_text e \<longleftrightarrow> date_before d e)"
  using assms by (simp add: date_text_parse date_text_less)

theorem bucket_keys_faithful_witness:
  "utc_date_parse (date_text \<lparr>dt_year = 2024, dt_month = 2, dt_day = 29\<rparr>) =
     Inr \<lparr>dt_year = 2024, dt_month = 2, dt_day = 29\<rparr> \<and>
   date_text \<lparr>dt_year = 2024, dt_month = 2, dt_day = 29\<rparr> < date_text \<lparr>dt_year = 2024, dt_month = 10, dt_day = 1\<rparr>"
  using bucket_keys_faithful [of "\<lparr>dt_year = 2024, dt_month = 2, dt_day = 29\<rparr>"
      "\<lparr>dt_year = 2024, dt_month = 10, dt_day = 1\<rparr>"]
  by (simp add: valid_date_bounds days_in_month_def leap_year_def date_before_def)

text \<open>
  The key reader is laxer than the \<open>YYYY-MM-DD\<close> format: a sign is accepted in place of a leading
  digit of any part, and such a key does not come back when the date it denotes is written.
\<close>

theorem parse_accepts_signs:
  "utc_date_parse (lit ''+024-+2-+9'') = Inr \<lparr>dt_year = 24, dt_month = 2, dt_day = 9\<rparr> \<and>
   date_text \<lparr>dt_year = 24, dt_month = 2, dt_day = 9\<rparr> \<noteq> lit ''+024-+2-+9''"
  by (simp add: utc_date_parse_def lit_def parse_signed_def parse_unsigned_def is_ascii_digit_def
      utc_date_new_def days_in_month_def date_text_def pad_digits_numeral)

section \<open>Savings\<close>

lemma dearest_from_bounds:
  assumes "dearest_from acc costs = Inr d" "is_finite acc"
  shows "is_finite d" "acc \<le> d" "(m, v) \<in> set costs \<Longrightarrow> is_finite v \<and> Fin 0 \<le> v \<and> v \<le> d"
proof -
  have "is_finite d \<and> acc \<le> d \<and> (\<forall>(m, v) \<in> set costs. is_finite v \<and> Fin 0 \<le> v \<and> v \<le> d)"
    using assms
  proof (induction acc costs rule: dearest_from.induct)
    case (2 acc m v rest)
    then have v: "is_finite v" "\<not> v < Fin 0" "dearest_from (f_max acc v) rest = Inr d"
      by (auto simp: bad_price_def split: if_splits)
    have mx: "is_finite (f_max acc v)" "acc \<le> f_max acc v" "v \<le> f_max acc v"
      using v(1) 2(3) by (auto simp: f_max_def f64_le_refl f64_not_less is_finite_not_nan f64_less_imp_le)
    have IH: "is_finite d \<and> f_max acc v \<le> d \<and> (\<forall>(m, v) \<in> set rest. is_finite v \<and> Fin 0 \<le> v \<and> v \<le> d)"
      using 2 v mx by (simp add: bad_price_def)
    then show ?case
      using v mx f64_le_trans [of acc "f_max acc v" d] f64_le_trans [of v "f_max acc v" d]
      by (auto simp: f64_not_less is_finite_not_nan)
  qed (simp add: f64_le_refl is_finite_not_nan)
  then show "is_finite d" "acc \<le> d" "(m, v) \<in> set costs \<Longrightarrow> is_finite v \<and> Fin 0 \<le> v \<and> v \<le> d"
    by auto
qed

lemma times_rate_mono:
  assumes "is_finite r" "Fin 0 \<le> r" "is_finite d" "r \<le> d" "is_finite t" "Fin 0 \<le> t" "d * t \<le> Fin (of_nat k)"
  shows "is_finite (r * t)" "0 \<le> val (r * t)" "is_finite (d * t)" "val (r * t) \<le> val (d * t)"
    "val (d * t) \<le> of_nat k"
proof -
  have v: "0 \<le> val r" "val r \<le> val d" "0 \<le> val t" using assms by (simp_all add: f64_le_finite)
  have lo: "Fin 0 \<le> r * t" and le: "r * t \<le> d * t"
    using assms v by (simp_all add: times_finite rnd_f64_nonneg rnd_f64_mono mult_right_mono)
  have f: "is_finite x \<and> 0 \<le> val x \<and> val x \<le> of_nat k" if "Fin 0 \<le> x" "x \<le> Fin (of_nat k)" for x
    using that by (cases x) (auto simp: less_eq_f64_def)
  note d = f [OF f64_le_trans [OF lo le] assms(7)] and r = f [OF lo f64_le_trans [OF le assms(7)]]
  show "is_finite (r * t)" "0 \<le> val (r * t)" "is_finite (d * t)" "val (d * t) \<le> of_nat k" using d r by auto
  show "val (r * t) \<le> val (d * t)" using le d r by (simp add: f64_le_finite)
qed

lemma thousands_finite:
  assumes "n \<le> u64_max"
  shows "is_finite (f64_of_nat n div Fin 1000)" "Fin 0 \<le> f64_of_nat n div Fin 1000"
proof -
  have fin: "is_finite (f64_of_nat n)" using assms by (intro f64_of_nat_finite) (simp add: u64_max_def)
  have v: "0 \<le> val (f64_of_nat n)" using f64_of_nat_nonneg [of n] fin by (simp add: f64_le_finite)
  have wf: "wf_f64 (f64_of_nat n)" by (simp add: f64_of_nat_def)
  obtain s where s: "f64_of_nat n div Fin 1000 = rnd_f64 s (val (f64_of_nat n) / 1000)"
    using fin by (simp add: divide_finite)
  show lo: "Fin 0 \<le> f64_of_nat n div Fin 1000" unfolding s using v by (intro rnd_f64_nonneg) simp
  have "f64_of_nat n div Fin 1000 \<le> rnd_f64 False (val (f64_of_nat n))"
    unfolding s using v by (intro rnd_f64_mono) simp
  then show "is_finite (f64_of_nat n div Fin 1000)"
    using lo rnd_f64_wf_val(1) [OF wf fin, of False]
    by (cases "f64_of_nat n div Fin 1000"; cases "rnd_f64 False (val (f64_of_nat n))")
      (auto simp: less_eq_f64_def)
qed

lemma minus_in_range:
  assumes "Fin 0 \<le> x" "x \<le> y" "y \<le> Fin (of_nat 1000000)"
  shows "is_finite (y - x) \<and> 0 \<le> val (y - x) \<and> val (y - x) \<le> of_nat 1000000"
proof -
  have f: "is_finite z \<and> 0 \<le> val z \<and> val z \<le> of_nat 1000000"
    if "Fin 0 \<le> z" "z \<le> Fin (of_nat 1000000)" for z
    using that by (cases z) (auto simp: less_eq_f64_def)
  note x = f [OF assms(1) f64_le_trans [OF assms(2,3)]] and y = f [OF f64_le_trans [OF assms(1,2)] assms(3)]
  have "y - x \<le> rnd_f64 False 1000000"
    using x y by (simp add: minus_finite) (rule rnd_f64_mono, simp)
  then have "y - x \<le> Fin (of_nat 1000000)" by (simp add: rnd_f64_numeral)
  moreover have "Fin 0 \<le> y - x" using x y assms(2) by (intro minus_nonneg) auto
  ultimately show ?thesis by (rule f [rotated])
qed

text \<open>
  Measured against the dearest model, a turn never costs more than the baseline and the savings
  are never negative, whatever model served it, for turns of at most a million units.
\<close>

theorem savings_against_dearest:
  assumes "turn_cost_of route prompt completion costs estimated None = Inr t"
    and "dearest_from (Fin 0) costs = Inr dearest"
    and "dearest * (f64_of_nat (sat_add (nat (max prompt 0)) (nat (max completion 0))) div Fin 1000)
      \<le> Fin 1000000"
  shows "Fin 0 \<le> tc_realized t \<and> tc_realized t \<le> tc_baseline t \<and> Fin 0 \<le> tc_savings t"
proof -
  define th where "th = f64_of_nat (sat_add (nat (max prompt 0)) (nat (max completion 0))) div Fin 1000"
  define rate where "rate = (case map_of costs route of None \<Rightarrow> dearest | Some r \<Rightarrow> r)"
  have t: "tc_realized t = python_round (rate * th) 6" "tc_baseline t = python_round (dearest * th) 6"
    "tc_savings t = python_round (tc_baseline t - tc_realized t) 6"
    using assms(1,2) by (auto simp: turn_cost_of_def Let_def th_def rate_def)
  note dear = dearest_from_bounds [OF assms(2), simplified]
  have rate: "is_finite rate \<and> Fin 0 \<le> rate \<and> rate \<le> dearest"
    using dear by (auto simp: rate_def f64_le_refl is_finite_not_nan split: option.splits dest!: map_of_SomeD)
  have th: "is_finite th" "Fin 0 \<le> th"
    unfolding th_def using thousands_finite [OF sat_add_le_max] by auto
  have le: "dearest * th \<le> Fin (of_nat 1000000)" using assms(3) by (simp add: th_def)
  note tm = times_rate_mono [OF _ _ dear(1) _ th le, of rate]
  have fr: "is_finite (rate * th)" "0 \<le> val (rate * th)" "is_finite (dearest * th)"
    "val (rate * th) \<le> val (dearest * th)" "val (dearest * th) \<le> of_nat 1000000"
    using tm rate by auto
  have mono: "tc_realized t \<le> tc_baseline t"
    unfolding t using fr by (intro python_round_mono [of _ _ 1000000]) auto
  have r: "Fin 0 \<le> tc_realized t" "tc_realized t \<le> Fin (of_nat 1000000)"
    unfolding t using python_round_le [of "rate * th" 1000000 6] fr by auto
  have b: "Fin 0 \<le> tc_baseline t" "tc_baseline t \<le> Fin (of_nat 1000000)"
    unfolding t using python_round_le [of "dearest * th" 1000000 6] fr by auto
  have "is_finite (tc_baseline t - tc_realized t) \<and> 0 \<le> val (tc_baseline t - tc_realized t) \<and>
      val (tc_baseline t - tc_realized t) \<le> of_nat 1000000"
    using minus_in_range [OF r(1) mono b(2)] by simp
  then have "Fin 0 \<le> tc_savings t"
    unfolding t(3) using python_round_le [of "tc_baseline t - tc_realized t" 1000000 6] by auto
  then show ?thesis using r mono by simp
qed

theorem savings_against_dearest_witness:
  "\<exists>t. turn_cost_of [1] 500 500 [([1], Fin 1), ([2], Fin 3)] False None = Inr t \<and>
     Fin 0 \<le> tc_realized t \<and> tc_realized t \<le> tc_baseline t \<and> Fin 0 \<le> tc_savings t"
proof -
  have d: "dearest_from (Fin 0) [([1], Fin 1), ([2], Fin 3)] = Inr (Fin 3)"
    by (simp add: bad_price_def f_max_def)
  then obtain t where t: "turn_cost_of [1] 500 500 [([1], Fin 1), ([2], Fin 3)] False None = Inr t"
    by (auto simp: turn_cost_of_def Let_def)
  have "Fin 3 * (f64_of_nat (sat_add (nat (max 500 0)) (nat (max 500 0))) div Fin 1000) \<le> Fin 1000000"
    by (simp add: sat_add_exact u64_max_def f64_of_nat_exact divide_finite rnd_f64_numeral times_finite)
  then show ?thesis using savings_against_dearest [OF t d] t by blast
qed

end
