(* ===== verification/Ledger.thy ===== *)
theory Ledger
  imports Pricing
begin

text \<open>
  The savings ledger of \<open>wayfinder-service/src/pricing.rs\<close>: per-day buckets with breakdowns by route,
  virtual key and workspace, retention of a bounded number of days, reports over trailing periods, the
  realised spend of a window, and the JSON snapshot it is written to and read from. The file system
  around the snapshot is not modelled.
\<close>

section \<open>Buckets\<close>

record ledger_stats =
  ls_n :: u64
  ls_realized :: f64
  ls_baseline :: f64
  ls_savings :: f64
  ls_tokens :: u64

record workspace_bucket =
  wb_n :: u64
  wb_realized :: f64
  wb_baseline :: f64
  wb_savings :: f64
  wb_tokens :: u64
  wb_estimated_n :: u64
  wb_by_route :: "(str \<times> ledger_stats) list"

record day_bucket =
  db_n :: u64
  db_realized :: f64
  db_baseline :: f64
  db_savings :: f64
  db_tokens :: u64
  db_estimated_n :: u64
  db_by_route :: "(str \<times> ledger_stats) list"
  db_by_key :: "(str \<times> ledger_stats) list"
  db_by_workspace :: "(str \<times> workspace_bucket) list"

definition ledger_stats_default :: ledger_stats where
  "ledger_stats_default =
     \<lparr>ls_n = 0, ls_realized = Fin 0, ls_baseline = Fin 0, ls_savings = Fin 0, ls_tokens = 0\<rparr>"

definition workspace_bucket_default :: workspace_bucket where
  "workspace_bucket_default =
     \<lparr>wb_n = 0, wb_realized = Fin 0, wb_baseline = Fin 0, wb_savings = Fin 0, wb_tokens = 0,
      wb_estimated_n = 0, wb_by_route = []\<rparr>"

definition day_bucket_default :: day_bucket where
  "day_bucket_default =
     \<lparr>db_n = 0, db_realized = Fin 0, db_baseline = Fin 0, db_savings = Fin 0, db_tokens = 0,
      db_estimated_n = 0, db_by_route = [], db_by_key = [], db_by_workspace = []\<rparr>"

definition turn_tokens :: "turn_cost \<Rightarrow> u64" where
  "turn_tokens c = sat_add (tc_prompt_tokens c) (tc_completion_tokens c)"

definition stats_add_turn :: "turn_cost \<Rightarrow> ledger_stats \<Rightarrow> ledger_stats" where
  "stats_add_turn c s =
     \<lparr>ls_n = sat_add (ls_n s) 1,
      ls_realized = python_round (ls_realized s + tc_realized c) 6,
      ls_baseline = python_round (ls_baseline s + tc_baseline c) 6,
      ls_savings = python_round (ls_savings s + tc_savings c) 6,
      ls_tokens = sat_add (ls_tokens s) (turn_tokens c)\<rparr>"

definition stats_add_stats :: "ledger_stats \<Rightarrow> ledger_stats \<Rightarrow> ledger_stats" where
  "stats_add_stats other s =
     \<lparr>ls_n = sat_add (ls_n s) (ls_n other),
      ls_realized = python_round (ls_realized s + ls_realized other) 6,
      ls_baseline = python_round (ls_baseline s + ls_baseline other) 6,
      ls_savings = python_round (ls_savings s + ls_savings other) 6,
      ls_tokens = sat_add (ls_tokens s) (ls_tokens other)\<rparr>"

definition merge_stat_maps ::
  "(str \<times> ledger_stats) list \<Rightarrow> (str \<times> ledger_stats) list \<Rightarrow> (str \<times> ledger_stats) list" where
  "merge_stat_maps target source =
     fold (\<lambda>(name, s). bt_entry ledger_stats_default (stats_add_stats s) name) source target"

definition workspace_add_turn :: "turn_cost \<Rightarrow> workspace_bucket \<Rightarrow> workspace_bucket" where
  "workspace_add_turn c b =
     \<lparr>wb_n = sat_add (wb_n b) 1,
      wb_realized = python_round (wb_realized b + tc_realized c) 6,
      wb_baseline = python_round (wb_baseline b + tc_baseline c) 6,
      wb_savings = python_round (wb_savings b + tc_savings c) 6,
      wb_tokens = sat_add (wb_tokens b) (turn_tokens c),
      wb_estimated_n = (if tc_estimated c then sat_add (wb_estimated_n b) 1 else wb_estimated_n b),
      wb_by_route = bt_entry ledger_stats_default (stats_add_turn c) (tc_route c) (wb_by_route b)\<rparr>"

definition workspace_add_bucket :: "workspace_bucket \<Rightarrow> workspace_bucket \<Rightarrow> workspace_bucket" where
  "workspace_add_bucket other b =
     \<lparr>wb_n = sat_add (wb_n b) (wb_n other),
      wb_realized = python_round (wb_realized b + wb_realized other) 6,
      wb_baseline = python_round (wb_baseline b + wb_baseline other) 6,
      wb_savings = python_round (wb_savings b + wb_savings other) 6,
      wb_tokens = sat_add (wb_tokens b) (wb_tokens other),
      wb_estimated_n = sat_add (wb_estimated_n b) (wb_estimated_n other),
      wb_by_route = merge_stat_maps (wb_by_route b) (wb_by_route other)\<rparr>"

definition day_add_turn :: "turn_cost \<Rightarrow> day_bucket \<Rightarrow> day_bucket" where
  "day_add_turn c b =
     b\<lparr>db_n := sat_add (db_n b) 1,
       db_realized := python_round (db_realized b + tc_realized c) 6,
       db_baseline := python_round (db_baseline b + tc_baseline c) 6,
       db_savings := python_round (db_savings b + tc_savings c) 6,
       db_tokens := sat_add (db_tokens b) (turn_tokens c)\<rparr>"

definition day_add_bucket :: "day_bucket \<Rightarrow> day_bucket \<Rightarrow> day_bucket" where
  "day_add_bucket other b =
     \<lparr>db_n = sat_add (db_n b) (db_n other),
      db_realized = python_round (db_realized b + db_realized other) 6,
      db_baseline = python_round (db_baseline b + db_baseline other) 6,
      db_savings = python_round (db_savings b + db_savings other) 6,
      db_tokens = sat_add (db_tokens b) (db_tokens other),
      db_estimated_n = sat_add (db_estimated_n b) (db_estimated_n other),
      db_by_route = merge_stat_maps (db_by_route b) (db_by_route other),
      db_by_key = merge_stat_maps (db_by_key b) (db_by_key other),
      db_by_workspace =
        fold (\<lambda>(w, wb). bt_entry workspace_bucket_default (workspace_add_bucket wb) w)
          (db_by_workspace other) (db_by_workspace b)\<rparr>"

section \<open>The ledger\<close>

record ledger =
  lg_max_days :: nat
  lg_priced :: bool
  lg_days :: "(str \<times> day_bucket) list"

definition ledger_new :: "nat \<Rightarrow> bool \<Rightarrow> ledger" where
  "ledger_new max_days priced = \<lparr>lg_max_days = max_days, lg_priced = priced, lg_days = []\<rparr>"

definition ledger_default :: ledger where
  "ledger_default = ledger_new 400 True"

definition set_priced :: "bool \<Rightarrow> ledger \<Rightarrow> ledger" where
  "set_priced priced l = l\<lparr>lg_priced := priced\<rparr>"

text \<open>The retention loop: drop the first day while there are too many.\<close>

fun retain_days :: "nat \<Rightarrow> (str \<times> 'b) list \<Rightarrow> (str \<times> 'b) list" where
  "retain_days max_days [] = []"
| "retain_days max_days (d # ds) =
     (if max_days < length (d # ds) then retain_days max_days ds else d # ds)"

definition attribute_turn :: "turn_cost \<Rightarrow> str option \<Rightarrow> str option \<Rightarrow> day_bucket \<Rightarrow> day_bucket" where
  "attribute_turn c virtual_key workspace b =
     (let b1 = day_add_turn c b;
          b2 = (if tc_estimated c then b1\<lparr>db_estimated_n := sat_add (db_estimated_n b1) 1\<rparr> else b1);
          b3 = b2\<lparr>db_by_route :=
                 bt_entry ledger_stats_default (stats_add_turn c) (tc_route c) (db_by_route b2)\<rparr>;
          b4 = (case virtual_key of
                  None \<Rightarrow> b3
                | Some k \<Rightarrow>
                    b3\<lparr>db_by_key := bt_entry ledger_stats_default (stats_add_turn c) k (db_by_key b3)\<rparr>)
      in case workspace of
           None \<Rightarrow> b4
         | Some w \<Rightarrow>
             b4\<lparr>db_by_workspace :=
                  bt_entry workspace_bucket_default (workspace_add_turn c) w (db_by_workspace b4)\<rparr>)"

definition record_attributed ::
  "turn_cost \<Rightarrow> utc_date \<Rightarrow> str option \<Rightarrow> str option \<Rightarrow> ledger \<Rightarrow> ledger" where
  "record_attributed c day virtual_key workspace l =
     l\<lparr>lg_days := retain_days (lg_max_days l)
         (bt_entry day_bucket_default (attribute_turn c virtual_key workspace) (date_text day) (lg_days l))\<rparr>"

definition record_turn :: "turn_cost \<Rightarrow> utc_date \<Rightarrow> str option \<Rightarrow> ledger \<Rightarrow> ledger" where
  "record_turn c day virtual_key l = record_attributed c day virtual_key None l"

section \<open>Reports\<close>

record savings_breakdown =
  sb_requests :: u64
  sb_realized :: f64
  sb_baseline :: f64
  sb_saved :: f64
  sb_tokens :: u64

definition breakdown_of :: "ledger_stats \<Rightarrow> savings_breakdown" where
  "breakdown_of s =
     \<lparr>sb_requests = ls_n s, sb_realized = python_round (ls_realized s) 6,
      sb_baseline = python_round (ls_baseline s) 6, sb_saved = python_round (ls_savings s) 6,
      sb_tokens = ls_tokens s\<rparr>"

record savings_report =
  sp_period_days :: "nat option"
  sp_unit :: str
  sp_priced :: bool
  sp_requests :: u64
  sp_estimated_requests :: u64
  sp_tokens :: u64
  sp_realized :: f64
  sp_baseline :: f64
  sp_saved :: f64
  sp_saved_pct :: f64
  sp_by_route :: "(str \<times> savings_breakdown) list"
  sp_by_key :: "(str \<times> savings_breakdown) list"

record workspace_savings_report =
  wr_report :: savings_report
  wr_first_observed_utc :: "str option"
  wr_last_observed_utc :: "str option"

record savings_totals =
  st_realized :: f64
  st_baseline :: f64
  st_saved :: f64

text \<open>Ordinals and periods are far from the \<open>i64\<close> limits, so the source's saturating subtractions are exact.\<close>

definition period_cutoff :: "nat option \<Rightarrow> utc_date \<Rightarrow> int option" where
  "period_cutoff period_days today = map_option (\<lambda>days. ordinal today - (int days - 1)) period_days"

definition in_period :: "int option \<Rightarrow> str \<Rightarrow> bool" where
  "in_period cutoff date =
     (case cutoff of
        None \<Rightarrow> True
      | Some c \<Rightarrow> (case utc_date_parse date of Inl e \<Rightarrow> False | Inr d \<Rightarrow> c \<le> ordinal d))"

definition saved_percentage :: "f64 \<Rightarrow> f64 \<Rightarrow> f64" where
  "saved_percentage saved baseline =
     (if feq baseline (Fin 0) then Fin 0 else python_round (Fin 100 * saved div baseline) 1)"

definition unit_name :: "bool \<Rightarrow> str" where
  "unit_name priced = (if priced then lit ''usd'' else lit ''relative'')"

definition period :: "ledger \<Rightarrow> nat option \<Rightarrow> utc_date \<Rightarrow> savings_report" where
  "period l period_days today =
     (let cutoff = period_cutoff period_days today;
          aggregate = fold (\<lambda>(date, b) acc. if in_period cutoff date then day_add_bucket b acc else acc)
                        (lg_days l) day_bucket_default;
          baseline = python_round (db_baseline aggregate) 6;
          saved = python_round (db_savings aggregate) 6
      in \<lparr>sp_period_days = period_days, sp_unit = unit_name (lg_priced l), sp_priced = lg_priced l,
          sp_requests = db_n aggregate, sp_estimated_requests = db_estimated_n aggregate,
          sp_tokens = db_tokens aggregate, sp_realized = python_round (db_realized aggregate) 6,
          sp_baseline = baseline, sp_saved = saved, sp_saved_pct = saved_percentage saved baseline,
          sp_by_route = map (\<lambda>(name, s). (name, breakdown_of s)) (db_by_route aggregate),
          sp_by_key = map (\<lambda>(name, s). (name, breakdown_of s)) (db_by_key aggregate)\<rparr>)"

definition workspace_day ::
  "int option \<Rightarrow> str \<Rightarrow> str \<times> day_bucket \<Rightarrow>
   workspace_bucket \<times> str option \<times> str option \<Rightarrow> workspace_bucket \<times> str option \<times> str option" where
  "workspace_day cutoff workspace entry acc =
     (case (entry, acc) of ((date, b), (aggregate, earliest, latest)) \<Rightarrow>
        if \<not> in_period cutoff date then acc
        else case map_of (db_by_workspace b) workspace of
          None \<Rightarrow> acc
        | Some wb \<Rightarrow>
            if wb_n wb = 0 then acc
            else (workspace_add_bucket wb aggregate,
                  (case earliest of None \<Rightarrow> Some date | Some f \<Rightarrow> Some f), Some date))"

definition period_for_workspace ::
  "ledger \<Rightarrow> str \<Rightarrow> nat option \<Rightarrow> utc_date \<Rightarrow> workspace_savings_report" where
  "period_for_workspace l workspace period_days today =
     (case fold (workspace_day (period_cutoff period_days today) workspace) (lg_days l)
             (workspace_bucket_default, None, None) of
        (aggregate, earliest, latest) \<Rightarrow>
          let baseline = python_round (wb_baseline aggregate) 6;
              saved = python_round (wb_savings aggregate) 6
          in \<lparr>wr_report =
                \<lparr>sp_period_days = period_days, sp_unit = unit_name (lg_priced l), sp_priced = lg_priced l,
                 sp_requests = wb_n aggregate, sp_estimated_requests = wb_estimated_n aggregate,
                 sp_tokens = wb_tokens aggregate, sp_realized = python_round (wb_realized aggregate) 6,
                 sp_baseline = baseline, sp_saved = saved, sp_saved_pct = saved_percentage saved baseline,
                 sp_by_route = map (\<lambda>(name, s). (name, breakdown_of s)) (wb_by_route aggregate),
                 sp_by_key = []\<rparr>,
              wr_first_observed_utc = earliest, wr_last_observed_utc = latest\<rparr>)"

text \<open>An iterator's sum of binary64 numbers starts at negative zero.\<close>

definition f64_iter_sum :: "f64 list \<Rightarrow> f64" where
  "f64_iter_sum xs = f_sum NZero xs"

definition totals :: "ledger \<Rightarrow> savings_totals" where
  "totals l =
     (let realized = f64_iter_sum (map (db_realized \<circ> snd) (lg_days l));
          baseline = f64_iter_sum (map (db_baseline \<circ> snd) (lg_days l))
      in \<lparr>st_realized = python_round realized 6, st_baseline = python_round baseline 6,
          st_saved = python_round (baseline - realized) 6\<rparr>)"

definition realized_of :: "str option \<Rightarrow> day_bucket \<Rightarrow> f64" where
  "realized_of virtual_key b =
     (case virtual_key of
        None \<Rightarrow> db_realized b
      | Some k \<Rightarrow> (case map_of (db_by_key b) k of None \<Rightarrow> Fin 0 | Some s \<Rightarrow> ls_realized s))"

definition spent :: "ledger \<Rightarrow> str \<Rightarrow> str option \<Rightarrow> utc_date \<Rightarrow> f64" where
  "spent l window virtual_key today =
     (let amount =
        (if window = lit ''day'' then
           (case map_of (lg_days l) (date_text today) of
              None \<Rightarrow> Fin 0 | Some b \<Rightarrow> realized_of virtual_key b)
         else if window = lit ''month'' then
           f64_iter_sum (map (realized_of virtual_key \<circ> snd)
             (filter (\<lambda>p. prefix (month_prefix today) (fst p)) (lg_days l)))
         else f64_iter_sum (map (realized_of virtual_key \<circ> snd) (lg_days l)))
      in python_round amount 6)"

definition day_keys :: "ledger \<Rightarrow> str list" where
  "day_keys l = map fst (lg_days l)"

section \<open>Snapshots\<close>

text \<open>\<open>num_u\<close> and \<open>num_f\<close> are the JSON library's numbers for a \<open>u64\<close> and an \<open>f64\<close>.\<close>

definition stats_value :: "(u64 \<Rightarrow> json) \<Rightarrow> (f64 \<Rightarrow> json) \<Rightarrow> ledger_stats \<Rightarrow> json" where
  "stats_value num_u num_f s =
     JObject [(lit ''n'', num_u (ls_n s)), (lit ''realized'', num_f (ls_realized s)),
              (lit ''baseline'', num_f (ls_baseline s)), (lit ''savings'', num_f (ls_savings s)),
              (lit ''tokens'', num_u (ls_tokens s))]"

definition map_value :: "('a \<Rightarrow> json) \<Rightarrow> (str \<times> 'a) list \<Rightarrow> json" where
  "map_value f m = JObject (map (\<lambda>(k, v). (k, f v)) m)"

definition workspace_value :: "(u64 \<Rightarrow> json) \<Rightarrow> (f64 \<Rightarrow> json) \<Rightarrow> workspace_bucket \<Rightarrow> json" where
  "workspace_value num_u num_f b =
     JObject [(lit ''n'', num_u (wb_n b)), (lit ''realized'', num_f (wb_realized b)),
              (lit ''baseline'', num_f (wb_baseline b)), (lit ''savings'', num_f (wb_savings b)),
              (lit ''tokens'', num_u (wb_tokens b)), (lit ''estimated_n'', num_u (wb_estimated_n b)),
              (lit ''by_route'', map_value (stats_value num_u num_f) (wb_by_route b))]"

definition day_value :: "(u64 \<Rightarrow> json) \<Rightarrow> (f64 \<Rightarrow> json) \<Rightarrow> day_bucket \<Rightarrow> json" where
  "day_value num_u num_f b =
     JObject [(lit ''n'', num_u (db_n b)), (lit ''realized'', num_f (db_realized b)),
              (lit ''baseline'', num_f (db_baseline b)), (lit ''savings'', num_f (db_savings b)),
              (lit ''tokens'', num_u (db_tokens b)), (lit ''estimated_n'', num_u (db_estimated_n b)),
              (lit ''by_route'', map_value (stats_value num_u num_f) (db_by_route b)),
              (lit ''by_key'', map_value (stats_value num_u num_f) (db_by_key b)),
              (lit ''by_workspace'', map_value (workspace_value num_u num_f) (db_by_workspace b))]"

definition to_value :: "(u64 \<Rightarrow> json) \<Rightarrow> (f64 \<Rightarrow> json) \<Rightarrow> ledger \<Rightarrow> json" where
  "to_value num_u num_f l =
     JObject [(lit ''max_days'', num_u (lg_max_days l)), (lit ''priced'', JBool (lg_priced l)),
              (lit ''days'', map_value (day_value num_u num_f) (lg_days l))]"

definition compatible_u64 :: "json option \<Rightarrow> u64" where
  "compatible_u64 v = (case Option.bind v as_u64 of None \<Rightarrow> 0 | Some n \<Rightarrow> n)"

definition compatible_f64 :: "json option \<Rightarrow> f64" where
  "compatible_f64 v =
     (case Option.bind v as_f64 of None \<Rightarrow> Fin 0 | Some x \<Rightarrow> if is_finite x then x else Fin 0)"

text \<open>Reading an object into an ordered map, skipping the members that are not objects.\<close>

definition collect_objects :: "((str \<times> json) list \<Rightarrow> 'a) \<Rightarrow> (str \<times> json) list \<Rightarrow> (str \<times> 'a) list" where
  "collect_objects f m =
     fold (\<lambda>(name, v) acc. case as_object v of None \<Rightarrow> acc | Some o1 \<Rightarrow> bt_insert name (f o1) acc) m []"

definition coerce_stats :: "(str \<times> json) list \<Rightarrow> ledger_stats" where
  "coerce_stats raw =
     \<lparr>ls_n = compatible_u64 (map_of raw (lit ''n'')),
      ls_realized = compatible_f64 (map_of raw (lit ''realized'')),
      ls_baseline = compatible_f64 (map_of raw (lit ''baseline'')),
      ls_savings = compatible_f64 (map_of raw (lit ''savings'')),
      ls_tokens = compatible_u64 (map_of raw (lit ''tokens''))\<rparr>"

definition coerce_stat_map :: "json option \<Rightarrow> (str \<times> ledger_stats) list" where
  "coerce_stat_map v =
     (case Option.bind v as_object of None \<Rightarrow> [] | Some m \<Rightarrow> collect_objects coerce_stats m)"

definition coerce_workspace :: "(str \<times> json) list \<Rightarrow> workspace_bucket" where
  "coerce_workspace raw =
     \<lparr>wb_n = compatible_u64 (map_of raw (lit ''n'')),
      wb_realized = compatible_f64 (map_of raw (lit ''realized'')),
      wb_baseline = compatible_f64 (map_of raw (lit ''baseline'')),
      wb_savings = compatible_f64 (map_of raw (lit ''savings'')),
      wb_tokens = compatible_u64 (map_of raw (lit ''tokens'')),
      wb_estimated_n = compatible_u64 (map_of raw (lit ''estimated_n'')),
      wb_by_route = coerce_stat_map (map_of raw (lit ''by_route''))\<rparr>"

definition coerce_workspace_map :: "json option \<Rightarrow> (str \<times> workspace_bucket) list" where
  "coerce_workspace_map v =
     (case Option.bind v as_object of None \<Rightarrow> [] | Some m \<Rightarrow> collect_objects coerce_workspace m)"

definition coerce_bucket :: "(str \<times> json) list \<Rightarrow> day_bucket" where
  "coerce_bucket raw =
     \<lparr>db_n = compatible_u64 (map_of raw (lit ''n'')),
      db_realized = compatible_f64 (map_of raw (lit ''realized'')),
      db_baseline = compatible_f64 (map_of raw (lit ''baseline'')),
      db_savings = compatible_f64 (map_of raw (lit ''savings'')),
      db_tokens = compatible_u64 (map_of raw (lit ''tokens'')),
      db_estimated_n = compatible_u64 (map_of raw (lit ''estimated_n'')),
      db_by_route = coerce_stat_map (map_of raw (lit ''by_route'')),
      db_by_key = coerce_stat_map (map_of raw (lit ''by_key'')),
      db_by_workspace = coerce_workspace_map (map_of raw (lit ''by_workspace''))\<rparr>"

definition from_value :: "json \<Rightarrow> (ledger_error, ledger) result" where
  "from_value v =
     (case as_object v of
        None \<Rightarrow> Inl (LedgerRoot (lit ''ledger root must be a JSON object''))
      | Some members \<Rightarrow>
          let max_days = (case Option.bind (map_of members (lit ''max_days'')) as_u64 of
                            None \<Rightarrow> 400 | Some n \<Rightarrow> n);
              priced = (case Option.bind (map_of members (lit ''priced'')) as_bool of
                          None \<Rightarrow> True | Some b \<Rightarrow> b);
              days = (case Option.bind (map_of members (lit ''days'')) as_object of
                        None \<Rightarrow> []
                      | Some m \<Rightarrow> collect_objects coerce_bucket
                                    (filter (\<lambda>p. is_ok (utc_date_parse (fst p))) m))
          in Inr \<lparr>lg_max_days = max_days, lg_priced = priced, lg_days = retain_days max_days days\<rparr>)"

section \<open>Retention\<close>

lemma retain_days_drop: "retain_days n m = drop (length m - n) m"
  by (induction n m rule: retain_days.induct) (auto simp: Suc_diff_le)

text \<open>The keys kept after a key is inserted and the oldest is dropped when there are too many.\<close>

definition kept_newest :: "nat \<Rightarrow> 'k::linorder set \<Rightarrow> ('k \<times> 'v) list \<Rightarrow> bool" where
  "kept_newest n seen m \<longleftrightarrow>
     sorted_keys m \<and> fst ` set m \<subseteq> seen \<and> length m \<le> n \<and>
     (\<forall>s \<in> seen - fst ` set m. length m = n \<and> (\<forall>k \<in> fst ` set m. s < k))"

lemma kept_newest_insert:
  assumes "kept_newest n seen m"
  shows "kept_newest n (insert k seen) (drop (length (bt_insert k v m) - n) (bt_insert k v m))"
proof -
  let ?m = "bt_insert k v m"
  have sorted: "sorted_keys ?m" using assms by (simp add: kept_newest_def sorted_keys_bt_insert)
  have keys: "fst ` set ?m = insert k (fst ` set m)" by (rule keys_bt_insert)
  have len: "length ?m = (if k \<in> fst ` set m then length m else Suc (length m))"
    using assms by (simp add: kept_newest_def length_bt_insert)
  show ?thesis
  proof (cases "length ?m \<le> n")
    case True
    then have "length m \<noteq> n \<or> k \<in> fst ` set m" using len by (auto split: if_splits)
    then show ?thesis using True assms sorted keys len by (auto simp: kept_newest_def insert_absorb)
  next
    case False
    then have full: "length m = n" "k \<notin> fst ` set m" "length ?m = Suc n"
      using len assms by (auto simp: kept_newest_def split: if_splits)
    then obtain p ps where ps: "?m = p # ps" by (cases ?m) auto
    have lt: "\<forall>k' \<in> fst ` set ps. fst p < k'" "sorted_keys ps"
      using sorted unfolding ps by (cases p, simp)+
    have all: "insert (fst p) (fst ` set ps) = insert k (fst ` set m)" using keys ps by simp
    have old: "s < k'" if "s \<in> seen" "s \<notin> fst ` set m" "k' \<in> fst ` set m" for s k'
      using assms that by (auto simp: kept_newest_def)
    have "s < k'" if s: "s \<in> insert k seen" "s \<notin> fst ` set ps" and k': "k' \<in> fst ` set ps" for s k'
    proof (cases "s = fst p")
      case False
      then have "s \<notin> insert k (fst ` set m)" using s(2) all by auto
      then have s': "s \<in> seen" "s \<notin> fst ` set m" using s(1) by auto
      show ?thesis
      proof (cases "k' = k")
        case True
        then have "fst p \<in> fst ` set m" using all lt(1) k' by fastforce
        then show ?thesis using old [OF s', of "fst p"] lt(1) k' by fastforce
      next
        case False
        then show ?thesis using old [OF s'] all k' by blast
      qed
    qed (use lt k' in auto)
    moreover have "fst ` set ps \<subseteq> insert k seen"
      using all assms by (auto simp: kept_newest_def)
    ultimately show ?thesis using full ps lt by (auto simp: kept_newest_def)
  qed
qed

type_synonym turn = "turn_cost \<times> utc_date \<times> str option \<times> str option"

fun record_turns :: "turn list \<Rightarrow> ledger \<Rightarrow> ledger" where
  "record_turns [] l = l"
| "record_turns ((c, day, k, w) # ts) l = record_turns ts (record_attributed c day k w l)"

lemma record_attributed_days:
  "\<exists>v. lg_days (record_attributed c day k w l) =
     drop (length (bt_insert (date_text day) v (lg_days l)) - lg_max_days l)
       (bt_insert (date_text day) v (lg_days l))"
  "lg_max_days (record_attributed c day k w l) = lg_max_days l"
  unfolding record_attributed_def retain_days_drop by auto

lemma record_turns_kept:
  "kept_newest (lg_max_days l) seen (lg_days l) \<Longrightarrow>
   kept_newest (lg_max_days l) (seen \<union> (\<lambda>t. date_text (fst (snd t))) ` set ts) (lg_days (record_turns ts l)) \<and>
   lg_max_days (record_turns ts l) = lg_max_days l"
proof (induction ts l arbitrary: seen rule: record_turns.induct)
  case (2 c day k w ts l)
  obtain v where "lg_days (record_attributed c day k w l) =
     drop (length (bt_insert (date_text day) v (lg_days l)) - lg_max_days l)
       (bt_insert (date_text day) v (lg_days l))"
    using record_attributed_days(1) by blast
  then have "kept_newest (lg_max_days l) (insert (date_text day) seen) (lg_days (record_attributed c day k w l))"
    using kept_newest_insert [OF "2.prems"] by simp
  from "2.IH" [unfolded record_attributed_days(2), OF this] show ?case by simp
qed simp

text \<open>
  However many turns are recorded, in whatever order of dates, the ledger holds at most the
  configured number of days, in date order, only days that were recorded, and a recorded day is
  missing only when the ledger is full of strictly later days.
\<close>

theorem ledger_keeps_newest_days:
  "let l = record_turns ts (ledger_new max_days priced);
       recorded = map (\<lambda>t. date_text (fst (snd t))) ts
   in sorted_keys (lg_days l) \<and> length (lg_days l) \<le> max_days \<and> set (day_keys l) \<subseteq> set recorded \<and>
      list_all (\<lambda>d. d \<in> set (day_keys l) \<or>
        (length (day_keys l) = max_days \<and> list_all (\<lambda>k. d < k) (day_keys l))) recorded"
proof -
  have "kept_newest (lg_max_days (ledger_new max_days priced)) {} (lg_days (ledger_new max_days priced))"
    by (simp add: kept_newest_def ledger_new_def)
  from record_turns_kept [OF this, of ts] show ?thesis
    by (auto simp: kept_newest_def ledger_new_def day_keys_def Let_def list_all_iff)
qed

section \<open>Attribution adds up\<close>

definition total_of :: "('v \<Rightarrow> nat) \<Rightarrow> ('k \<times> 'v) list \<Rightarrow> nat" where
  "total_of f m = sum_list (map (f \<circ> snd) m)"

lemma total_of_simps [simp]: "total_of f [] = 0" "total_of f ((k, v) # m) = f v + total_of f m"
  by (simp_all add: total_of_def)

lemma total_of_entry:
  assumes "sorted_keys m" "f d = 0"
  shows "total_of f (bt_entry d g k m) + f (case map_of m k of None \<Rightarrow> d | Some v \<Rightarrow> v) =
    total_of f m + f (g (case map_of m k of None \<Rightarrow> d | Some v \<Rightarrow> v))"
proof -
  have "total_of f (bt_insert k x m) + (case map_of m k of None \<Rightarrow> 0 | Some v \<Rightarrow> f v) = total_of f m + f x" for x
    using assms(1)
  proof (induction k x m rule: bt_insert.induct)
    case (2 k v k' v' m)
    have "map_of m k = None" if "k < k'"
      using that 2(2) by (auto simp: map_of_eq_None_iff)
    moreover have "map_of m k' = None"
      using 2(2) by (auto simp: map_of_eq_None_iff)
    ultimately show ?case using 2 by (auto split: option.splits)
  qed simp
  from this [of "g (case map_of m k of None \<Rightarrow> d | Some v \<Rightarrow> v)"] show ?thesis
    using assms(2) by (cases "map_of m k") auto
qed

lemma total_n_add_turn:
  assumes "sorted_keys m" "total_of ls_n m < u64_max"
  shows "total_of ls_n (bt_entry ledger_stats_default (stats_add_turn c) k m) = Suc (total_of ls_n m)"
proof -
  let ?old = "case map_of m k of None \<Rightarrow> ledger_stats_default | Some v \<Rightarrow> v"
  have "ls_n v \<le> total_of ls_n m" if "(k, v) \<in> set m" for v
    using that by (induction m) auto
  then have "ls_n ?old \<le> total_of ls_n m"
    by (auto simp: ledger_stats_default_def split: option.splits dest: map_of_SomeD)
  then have "ls_n (stats_add_turn c ?old) = Suc (ls_n ?old)"
    using assms(2) by (simp add: stats_add_turn_def sat_add_def)
  then show ?thesis
    using total_of_entry [OF assms(1), where f = ls_n and d = ledger_stats_default
        and g = "stats_add_turn c" and k = k] by (simp add: ledger_stats_default_def)
qed

lemma total_n_workspace_turn:
  assumes "sorted_keys m" "total_of wb_n m < u64_max"
  shows "total_of wb_n (bt_entry workspace_bucket_default (workspace_add_turn c) k m) = Suc (total_of wb_n m)"
proof -
  let ?old = "case map_of m k of None \<Rightarrow> workspace_bucket_default | Some v \<Rightarrow> v"
  have "wb_n v \<le> total_of wb_n m" if "(k, v) \<in> set m" for v
    using that by (induction m) auto
  then have "wb_n ?old \<le> total_of wb_n m"
    by (auto simp: workspace_bucket_default_def split: option.splits dest: map_of_SomeD)
  then have "wb_n (workspace_add_turn c ?old) = Suc (wb_n ?old)"
    using assms(2) by (simp add: workspace_add_turn_def sat_add_def)
  then show ?thesis
    using total_of_entry [OF assms(1), where f = wb_n and d = workspace_bucket_default
        and g = "workspace_add_turn c" and k = k] by (simp add: workspace_bucket_default_def)
qed

text \<open>A bucket whose breakdowns agree with its total, with at most \<open>n\<close> turns.\<close>

definition balanced :: "nat \<Rightarrow> day_bucket \<Rightarrow> bool" where
  "balanced n b \<longleftrightarrow>
     sorted_keys (db_by_route b) \<and> sorted_keys (db_by_key b) \<and> sorted_keys (db_by_workspace b) \<and>
     db_n b \<le> n \<and> total_of ls_n (db_by_route b) = db_n b \<and> total_of ls_n (db_by_key b) \<le> db_n b \<and>
     total_of wb_n (db_by_workspace b) \<le> db_n b \<and> db_estimated_n b \<le> db_n b"

lemma balanced_default: "balanced n day_bucket_default"
  by (simp add: balanced_def day_bucket_default_def)

lemma balanced_mono: "balanced m b \<Longrightarrow> m \<le> n \<Longrightarrow> balanced n b"
  by (auto simp: balanced_def)

lemma balanced_attribute:
  assumes "balanced n b" "n < u64_max"
  shows "balanced (Suc n) (attribute_turn c k w b)"
proof -
  have small: "db_n b < u64_max" using assms by (auto simp: balanced_def)
  have n: "sat_add (db_n b) (Suc 0) = Suc (db_n b)" using small by (simp add: sat_add_def)
  have e: "sat_add (db_estimated_n b) (Suc 0) \<le> Suc (db_n b)"
    using assms by (simp add: balanced_def sat_add_def)
  have route: "total_of ls_n (bt_entry ledger_stats_default (stats_add_turn c) (tc_route c) (db_by_route b)) =
      Suc (db_n b)"
    using assms small total_n_add_turn [of "db_by_route b" "tc_route c" c] by (simp add: balanced_def)
  have key: "total_of ls_n (bt_entry ledger_stats_default (stats_add_turn c) x (db_by_key b)) \<le> Suc (db_n b)" for x
    using assms small total_n_add_turn [of "db_by_key b" x c] by (simp add: balanced_def)
  have ws: "total_of wb_n (bt_entry workspace_bucket_default (workspace_add_turn c) x (db_by_workspace b))
      \<le> Suc (db_n b)" for x
    using assms small total_n_workspace_turn [of "db_by_workspace b" x c] by (simp add: balanced_def)
  show ?thesis
    using assms(1) n e route key ws
    by (auto simp: balanced_def attribute_turn_def day_add_turn_def Let_def sorted_keys_bt_insert
        split: option.splits)
qed

lemma record_attributed_balanced:
  assumes "list_all (\<lambda>p. balanced n (snd p)) (lg_days l)" "n < u64_max"
  shows "list_all (\<lambda>p. balanced (Suc n) (snd p)) (lg_days (record_attributed c day k w l))"
proof -
  let ?old = "case map_of (lg_days l) (date_text day) of None \<Rightarrow> day_bucket_default | Some v \<Rightarrow> v"
  have "balanced n ?old"
    using assms(1) balanced_default
    by (auto simp: list_all_iff split: option.splits dest!: map_of_SomeD)
  then have "balanced (Suc n) (attribute_turn c k w ?old)" using assms(2) by (rule balanced_attribute)
  moreover have "balanced (Suc n) (snd p)" if "p \<in> set (lg_days l)" for p
    using that assms(1) balanced_mono [of n _ "Suc n"] by (auto simp: list_all_iff)
  ultimately show ?thesis
    unfolding record_attributed_def retain_days_drop list_all_iff
    using set_bt_insert [of "date_text day" "attribute_turn c k w ?old" "lg_days l"]
    by (auto dest!: in_set_dropD)
qed

lemma record_turns_balanced:
  "list_all (\<lambda>p. balanced n (snd p)) (lg_days l) \<Longrightarrow> n + length ts \<le> u64_max \<Longrightarrow>
   list_all (\<lambda>p. balanced (n + length ts) (snd p)) (lg_days (record_turns ts l))"
proof (induction ts l arbitrary: n rule: record_turns.induct)
  case (2 c day k w ts l)
  then show ?case using "2.IH" [of "Suc n"] record_attributed_balanced [of n l c day k w] by simp
qed simp

text \<open>
  C11. The breakdowns of every day agree with its total: the requests per route add up to the day's
  requests, and those per key, per workspace and with estimated usage never exceed it.
\<close>

theorem breakdowns_add_up:
  assumes "length ts \<le> u64_max"
    and "(date, b) \<in> set (lg_days (record_turns ts (ledger_new max_days priced)))"
  shows "total_of ls_n (db_by_route b) = db_n b \<and> total_of ls_n (db_by_key b) \<le> db_n b \<and>
    total_of wb_n (db_by_workspace b) \<le> db_n b \<and> db_estimated_n b \<le> db_n b \<and> db_n b \<le> length ts"
proof -
  have "list_all (\<lambda>p. balanced (0 + length ts) (snd p)) (lg_days (record_turns ts (ledger_new max_days priced)))"
    by (rule record_turns_balanced) (use assms(1) in \<open>simp_all add: ledger_new_def\<close>)
  then show ?thesis using assms(2) by (auto simp: list_all_iff balanced_def)
qed

definition sample_cost :: turn_cost where
  "sample_cost = \<lparr>tc_route = [1], tc_realized = Fin 1, tc_baseline = Fin 3, tc_savings = Fin 2,
     tc_prompt_tokens = 500, tc_completion_tokens = 500, tc_estimated = True\<rparr>"

definition sample_day :: utc_date where
  "sample_day = \<lparr>dt_year = 2024, dt_month = 2, dt_day = 29\<rparr>"

theorem breakdowns_add_up_witness:
  "total_of ls_n (db_by_route (attribute_turn sample_cost (Some [7]) None day_bucket_default)) =
   db_n (attribute_turn sample_cost (Some [7]) None day_bucket_default)"
  using breakdowns_add_up [of "[(sample_cost, sample_day, Some [7], None)]" "date_text sample_day"
      "attribute_turn sample_cost (Some [7]) None day_bucket_default" 3 True]
  by (simp add: record_attributed_def ledger_new_def)

section \<open>Snapshots can be read back\<close>

lemma bt_insert_last: "\<forall>k' \<in> fst ` set m. k' < k \<Longrightarrow> bt_insert k v m = m @ [(k, v)]"
  by (induction k v m rule: bt_insert.induct) (auto dest: order.asym)

lemma sorted_keys_append:
  "sorted_keys (xs @ ys) \<longleftrightarrow> sorted_keys xs \<and> sorted_keys ys \<and> (\<forall>p\<in>set xs. \<forall>q\<in>set ys. fst p < fst q)"
  by (auto simp: sorted_keys_def sorted_wrt_append)

text \<open>Reading back what \<open>map_value\<close> wrote, one entry after the other.\<close>

lemma collect_objects_map_value:
  assumes "sorted_keys (acc @ map (\<lambda>(k, v). (k, f v)) m)"
    and "\<And>k v. (k, v) \<in> set m \<Longrightarrow> as_object (g v) = Some (o1 v) \<and> h (o1 v) = f v"
  shows "fold (\<lambda>(name, v) acc. case as_object v of None \<Rightarrow> acc | Some ob \<Rightarrow> bt_insert name (h ob) acc)
      (map (\<lambda>(k, v). (k, g v)) m) acc = acc @ map (\<lambda>(k, v). (k, f v)) m"
  using assms
proof (induction m arbitrary: acc)
  case (Cons p m)
  obtain k v where p: "p = (k, v)" by fastforce
  have "\<forall>k' \<in> fst ` set acc. k' < k"
    using Cons.prems(1) by (auto simp: p sorted_keys_append)
  then have ins: "bt_insert k (f v) acc = acc @ [(k, f v)]" by (rule bt_insert_last)
  have sorted: "sorted_keys ((acc @ [(k, f v)]) @ map (\<lambda>(k, v). (k, f v)) m)"
    using Cons.prems(1) by (simp add: p)
  have rest: "as_object (g v') = Some (o1 v') \<and> h (o1 v') = f v'" if "(k', v') \<in> set m" for k' v'
    using Cons.prems(2) [of k' v'] that by simp
  have "as_object (g v) = Some (o1 v)" "h (o1 v) = f v"
    using Cons.prems(2) [of k v] by (simp_all add: p)
  then show ?case using Cons.IH [OF sorted rest] by (simp add: p ins)
qed simp

lemma coerce_map_value:
  assumes "sorted_keys m"
    and "\<And>k v. (k, v) \<in> set m \<Longrightarrow> as_object (g v) = Some (o1 v) \<and> h (o1 v) = v"
  shows "collect_objects h (map (\<lambda>(k, v). (k, g v)) m) = m"
proof -
  have "map (\<lambda>(k, v). (k, v)) m = m" by (simp add: case_prod_beta)
  then show ?thesis
    using collect_objects_map_value [of "[]" "\<lambda>v. v" m g o1 h] assms
    by (simp add: collect_objects_def)
qed

definition finite_stats :: "ledger_stats \<Rightarrow> bool" where
  "finite_stats s \<longleftrightarrow> is_finite (ls_realized s) \<and> is_finite (ls_baseline s) \<and> is_finite (ls_savings s)"

definition finite_stat_map :: "(str \<times> ledger_stats) list \<Rightarrow> bool" where
  "finite_stat_map m \<longleftrightarrow> sorted_keys m \<and> list_all (\<lambda>p. finite_stats (snd p)) m"

definition finite_workspace :: "workspace_bucket \<Rightarrow> bool" where
  "finite_workspace b \<longleftrightarrow> is_finite (wb_realized b) \<and> is_finite (wb_baseline b) \<and>
     is_finite (wb_savings b) \<and> finite_stat_map (wb_by_route b)"

definition finite_day :: "day_bucket \<Rightarrow> bool" where
  "finite_day b \<longleftrightarrow> is_finite (db_realized b) \<and> is_finite (db_baseline b) \<and> is_finite (db_savings b) \<and>
     finite_stat_map (db_by_route b) \<and> finite_stat_map (db_by_key b) \<and>
     sorted_keys (db_by_workspace b) \<and> list_all (\<lambda>p. finite_workspace (snd p)) (db_by_workspace b)"

definition persistable :: "ledger \<Rightarrow> bool" where
  "persistable l \<longleftrightarrow> sorted_keys (lg_days l) \<and> length (lg_days l) \<le> lg_max_days l \<and>
     list_all (\<lambda>p. is_ok (utc_date_parse (fst p)) \<and> finite_day (snd p)) (lg_days l)"

text \<open>What the JSON library documents of its numbers: they read back as written.\<close>

definition faithful_numbers :: "(u64 \<Rightarrow> json) \<Rightarrow> (f64 \<Rightarrow> json) \<Rightarrow> bool" where
  "faithful_numbers num_u num_f \<longleftrightarrow>
     (\<forall>n. as_u64 (num_u n) = Some n) \<and> (\<forall>x. is_finite x \<longrightarrow> as_f64 (num_f x) = Some x)"

lemma faithful_compatible:
  assumes "faithful_numbers num_u num_f"
  shows "compatible_u64 (Some (num_u n)) = n" "is_finite x \<Longrightarrow> compatible_f64 (Some (num_f x)) = x"
    "as_u64 (num_u n) = Some n"
  using assms by (auto simp: faithful_numbers_def compatible_u64_def compatible_f64_def)

lemma stats_roundtrip:
  assumes "faithful_numbers num_u num_f" "finite_stats s"
  shows "\<exists>ob. as_object (stats_value num_u num_f s) = Some ob \<and> coerce_stats ob = s"
  using assms by (cases s) (auto simp: stats_value_def coerce_stats_def faithful_compatible finite_stats_def)

lemma stat_map_roundtrip:
  assumes "faithful_numbers num_u num_f" "finite_stat_map m"
  shows "coerce_stat_map (Some (map_value (stats_value num_u num_f) m)) = m"
proof -
  have "\<forall>s. finite_stats s \<longrightarrow>
      (\<exists>ob. as_object (stats_value num_u num_f s) = Some ob \<and> coerce_stats ob = s)"
    using stats_roundtrip [OF assms(1)] by blast
  then obtain ob where "\<And>s. finite_stats s \<Longrightarrow>
      as_object (stats_value num_u num_f s) = Some (ob s) \<and> coerce_stats (ob s) = s" by metis
  then have "collect_objects coerce_stats (map (\<lambda>(k, v). (k, stats_value num_u num_f v)) m) = m"
    using assms(2) by (intro coerce_map_value) (auto simp: finite_stat_map_def list_all_iff)
  then show ?thesis by (simp add: coerce_stat_map_def map_value_def)
qed

lemma workspace_roundtrip:
  assumes "faithful_numbers num_u num_f" "finite_workspace b"
  shows "\<exists>ob. as_object (workspace_value num_u num_f b) = Some ob \<and> coerce_workspace ob = b"
  using assms
  by (cases b) (auto simp: workspace_value_def coerce_workspace_def faithful_compatible
      finite_workspace_def stat_map_roundtrip)

lemma workspace_map_roundtrip:
  assumes "faithful_numbers num_u num_f" "sorted_keys m" "list_all (\<lambda>p. finite_workspace (snd p)) m"
  shows "coerce_workspace_map (Some (map_value (workspace_value num_u num_f) m)) = m"
proof -
  have "\<forall>s. finite_workspace s \<longrightarrow>
      (\<exists>ob. as_object (workspace_value num_u num_f s) = Some ob \<and> coerce_workspace ob = s)"
    using workspace_roundtrip [OF assms(1)] by blast
  then obtain ob where "\<And>s. finite_workspace s \<Longrightarrow>
      as_object (workspace_value num_u num_f s) = Some (ob s) \<and> coerce_workspace (ob s) = s" by metis
  then have "collect_objects coerce_workspace (map (\<lambda>(k, v). (k, workspace_value num_u num_f v)) m) = m"
    using assms(2,3) by (intro coerce_map_value) (auto simp: list_all_iff)
  then show ?thesis by (simp add: coerce_workspace_map_def map_value_def)
qed

lemma day_roundtrip:
  assumes "faithful_numbers num_u num_f" "finite_day b"
  shows "\<exists>ob. as_object (day_value num_u num_f b) = Some ob \<and> coerce_bucket ob = b"
  using assms
  by (cases b) (auto simp: day_value_def coerce_bucket_def faithful_compatible finite_day_def
      stat_map_roundtrip workspace_map_roundtrip)

text \<open>
  C12. A ledger in date order, within its retention and with finite amounts comes back unchanged from
  the JSON snapshot it writes, provided the JSON library's numbers read back as written.
\<close>

theorem snapshot_roundtrip:
  assumes "faithful_numbers num_u num_f" and "persistable l"
  shows "from_value (to_value num_u num_f l) = Inr l"
proof -
  have "\<forall>s. finite_day s \<longrightarrow>
      (\<exists>ob. as_object (day_value num_u num_f s) = Some ob \<and> coerce_bucket ob = s)"
    using day_roundtrip [OF assms(1)] by blast
  then obtain ob where "\<And>s. finite_day s \<Longrightarrow>
      as_object (day_value num_u num_f s) = Some (ob s) \<and> coerce_bucket (ob s) = s" by metis
  then have days: "collect_objects coerce_bucket
      (map (\<lambda>(k, v). (k, day_value num_u num_f v)) (lg_days l)) = lg_days l"
    using assms(2) by (intro coerce_map_value) (auto simp: persistable_def list_all_iff)
  have "filter (\<lambda>p. is_ok (utc_date_parse (fst p))) (map (\<lambda>(k, v). (k, day_value num_u num_f v)) (lg_days l)) =
      map (\<lambda>(k, v). (k, day_value num_u num_f v)) (lg_days l)"
    using assms(2) by (auto simp: filter_id_conv persistable_def list_all_iff)
  then show ?thesis
    using days assms faithful_compatible(3) [OF assms(1)]
    by (cases l) (simp add: to_value_def from_value_def map_value_def retain_days_drop persistable_def)
qed

definition exact_u64 :: "u64 \<Rightarrow> json" where
  "exact_u64 n = JNumber \<lparr>num_text = dec_digits n, num_f64 = Some (f64_of_nat n), num_u64 = Some n,
     num_i64 = Some (int n)\<rparr>"

definition exact_f64 :: "f64 \<Rightarrow> json" where
  "exact_f64 x = JNumber \<lparr>num_text = [], num_f64 = Some x, num_u64 = None, num_i64 = None\<rparr>"

theorem snapshot_roundtrip_witness:
  "from_value (to_value exact_u64 exact_f64
     \<lparr>lg_max_days = 3, lg_priced = True, lg_days = [(date_text sample_day, day_bucket_default)]\<rparr>) =
   Inr \<lparr>lg_max_days = 3, lg_priced = True, lg_days = [(date_text sample_day, day_bucket_default)]\<rparr>"
proof (rule snapshot_roundtrip)
  show "faithful_numbers exact_u64 exact_f64"
    by (simp add: faithful_numbers_def exact_u64_def exact_f64_def)
  have "valid_date sample_day"
    by (simp add: sample_day_def valid_date_bounds days_in_month_def leap_year_def)
  then show "persistable \<lparr>lg_max_days = 3, lg_priced = True, lg_days = [(date_text sample_day, day_bucket_default)]\<rparr>"
    by (simp add: persistable_def date_text_parse finite_day_def day_bucket_default_def finite_stat_map_def)
qed

end
