(* ===== verification/Budget.thy ===== *)
theory Budget
  imports Ledger
begin

text \<open>
  Spend budgets over the ledger, \<open>wayfinder-gateway/src/budget.rs\<close>: the gateway-wide, workspace and
  key caps, the verdict for one request from the local ledger or from a shared spend source, and the
  scopes of a shared reservation. The shared source is a parameter.
\<close>

section \<open>Policy\<close>

record budget =
  bg_window :: str
  bg_limit :: f64
  bg_on_breach :: str

datatype budget_decision = Allow | DegradeRoute | Block str f64

record budget_policy =
  bp_global :: "budget option"
  bp_by_workspace :: "(str \<times> budget) list"
  bp_by_key :: "(str \<times> budget) list"

text \<open>The configuration's budgets; entries without a budget are skipped.\<close>

definition collect_budgets :: "(str \<times> budget option) list \<Rightarrow> (str \<times> budget) list" where
  "collect_budgets entries =
     fold (\<lambda>(i, b) acc. case b of None \<Rightarrow> acc | Some x \<Rightarrow> bt_insert i x acc) entries []"

definition budget_policy_from_config ::
  "budget option \<Rightarrow> (str \<times> budget option) list \<Rightarrow> (str \<times> budget option) list \<Rightarrow> budget_policy" where
  "budget_policy_from_config global workspaces keys =
     \<lparr>bp_global = global, bp_by_workspace = collect_budgets workspaces, bp_by_key = collect_budgets keys\<rparr>"

definition budget_active :: "budget_policy \<Rightarrow> bool" where
  "budget_active p = (bp_global p \<noteq> None \<or> bp_by_workspace p \<noteq> [] \<or> bp_by_key p \<noteq> [])"

definition BLOCK :: str where
  "BLOCK = lit ''block''"

definition evaluate_spent :: "f64 \<Rightarrow> budget \<Rightarrow> bool \<Rightarrow> budget_decision" where
  "evaluate_spent amount b offline =
     (if amount < bg_limit b then Allow
      else if bg_on_breach b = BLOCK \<and> \<not> offline then Block (bg_window b) (bg_limit b)
      else DegradeRoute)"

definition evaluate_one :: "ledger \<Rightarrow> budget \<Rightarrow> str option \<Rightarrow> utc_date \<Rightarrow> bool \<Rightarrow> budget_decision" where
  "evaluate_one l b key_id today offline =
     (if spent l (bg_window b) key_id today < bg_limit b then Allow
      else if bg_on_breach b = BLOCK \<and> \<not> offline then Block (bg_window b) (bg_limit b)
      else DegradeRoute)"

definition evaluate_for ::
  "budget_policy \<Rightarrow> ledger \<Rightarrow> bool \<Rightarrow> str option \<Rightarrow> str option \<Rightarrow> utc_date \<Rightarrow> bool \<Rightarrow> budget_decision" where
  "evaluate_for p l priced workspace_id key_id today offline =
     (if \<not> priced then Allow
      else
        let global = (case bp_global p of None \<Rightarrow> Allow | Some b \<Rightarrow> evaluate_one l b None today offline)
        in case global of
          Block w x \<Rightarrow> Block w x
        | _ \<Rightarrow>
          (let d1 = (global = DegradeRoute);
               workspace =
                 (case workspace_id of
                    None \<Rightarrow> Allow
                  | Some i \<Rightarrow>
                      (case map_of (bp_by_workspace p) i of
                         None \<Rightarrow> Allow | Some b \<Rightarrow> evaluate_one l b (Some i) today offline))
           in case workspace of
                Block w x \<Rightarrow> Block w x
              | _ \<Rightarrow>
                (let d2 = (d1 \<or> workspace = DegradeRoute);
                     key =
                       (case key_id of
                          None \<Rightarrow> Allow
                        | Some i \<Rightarrow>
                            (case map_of (bp_by_key p) i of
                               None \<Rightarrow> Allow | Some b \<Rightarrow> evaluate_one l b (Some i) today offline))
                 in case key of
                      Block w x \<Rightarrow> Block w x
                    | _ \<Rightarrow> if d2 \<or> key = DegradeRoute then DegradeRoute else Allow)))"

definition evaluate ::
  "budget_policy \<Rightarrow> ledger \<Rightarrow> bool \<Rightarrow> str option \<Rightarrow> utc_date \<Rightarrow> bool \<Rightarrow> budget_decision" where
  "evaluate p l priced key_id today offline = evaluate_for p l priced None key_id today offline"

section \<open>Shared accounting\<close>

record shared_budget_scope =
  ss_scope :: str
  ss_window :: str
  ss_limit :: f64
  ss_blocks :: bool

definition shared_scope :: "str \<Rightarrow> budget \<Rightarrow> bool \<Rightarrow> shared_budget_scope" where
  "shared_scope scope b offline =
     \<lparr>ss_scope = scope, ss_window = bg_window b, ss_limit = bg_limit b,
      ss_blocks = (bg_on_breach b = BLOCK \<and> \<not> offline)\<rparr>"

definition shared_scopes ::
  "budget_policy \<Rightarrow> str option \<Rightarrow> str option \<Rightarrow> bool \<Rightarrow> shared_budget_scope list" where
  "shared_scopes p workspace_id key_id offline =
     (case bp_global p of None \<Rightarrow> [] | Some b \<Rightarrow> [shared_scope (lit ''global'') b offline]) @
     (case workspace_id of
        None \<Rightarrow> []
      | Some i \<Rightarrow>
          (case map_of (bp_by_workspace p) i of
             None \<Rightarrow> [] | Some b \<Rightarrow> [shared_scope (lit ''workspace:'' @ i) b offline])) @
     (case key_id of
        None \<Rightarrow> []
      | Some i \<Rightarrow>
          (case map_of (bp_by_key p) i of
             None \<Rightarrow> [] | Some b \<Rightarrow> [shared_scope (lit ''key:'' @ i) b offline]))"

text \<open>\<open>spend window scope date\<close> is the shared source's answer, or its error.\<close>

type_synonym 'e spend_source = "str \<Rightarrow> str \<Rightarrow> str \<Rightarrow> ('e, f64) result"

definition evaluate_shared_one ::
  "'e spend_source \<Rightarrow> budget \<Rightarrow> str \<Rightarrow> str \<Rightarrow> bool \<Rightarrow> ('e, budget_decision) result" where
  "evaluate_shared_one spend b scope date offline =
     (case spend (bg_window b) scope date of
        Inl e \<Rightarrow> Inl e
      | Inr amount \<Rightarrow> Inr (evaluate_spent amount b offline))"

text \<open>The caps in the order they are consulted, and the walk over them.\<close>

fun consult_shared ::
  "'e spend_source \<Rightarrow> str \<Rightarrow> bool \<Rightarrow> bool \<Rightarrow> (str \<times> budget) list \<Rightarrow> ('e, budget_decision) result" where
  "consult_shared spend date offline degraded [] = Inr (if degraded then DegradeRoute else Allow)"
| "consult_shared spend date offline degraded ((scope, b) # caps) =
     (case evaluate_shared_one spend b scope date offline of
        Inl e \<Rightarrow> Inl e
      | Inr Allow \<Rightarrow> consult_shared spend date offline degraded caps
      | Inr DegradeRoute \<Rightarrow> consult_shared spend date offline True caps
      | Inr (Block w x) \<Rightarrow> Inr (Block w x))"

definition shared_caps :: "budget_policy \<Rightarrow> str option \<Rightarrow> str option \<Rightarrow> (str \<times> budget) list" where
  "shared_caps p workspace_id key_id =
     (case bp_global p of None \<Rightarrow> [] | Some b \<Rightarrow> [(lit ''global'', b)]) @
     (case workspace_id of
        None \<Rightarrow> []
      | Some i \<Rightarrow>
          (case map_of (bp_by_workspace p) i of None \<Rightarrow> [] | Some b \<Rightarrow> [(lit ''workspace:'' @ i, b)])) @
     (case key_id of
        None \<Rightarrow> []
      | Some i \<Rightarrow> (case map_of (bp_by_key p) i of None \<Rightarrow> [] | Some b \<Rightarrow> [(lit ''key:'' @ i, b)]))"

definition evaluate_shared_for ::
  "'e spend_source \<Rightarrow> budget_policy \<Rightarrow> bool \<Rightarrow> str option \<Rightarrow> str option \<Rightarrow> utc_date \<Rightarrow> bool \<Rightarrow>
   ('e, budget_decision) result" where
  "evaluate_shared_for spend p priced workspace_id key_id today offline =
     (if \<not> priced then Inr Allow
      else consult_shared spend (date_text today) offline False (shared_caps p workspace_id key_id))"

definition evaluate_shared ::
  "'e spend_source \<Rightarrow> budget_policy \<Rightarrow> bool \<Rightarrow> str option \<Rightarrow> utc_date \<Rightarrow> bool \<Rightarrow>
   ('e, budget_decision) result" where
  "evaluate_shared spend p priced key_id today offline =
     evaluate_shared_for spend p priced None key_id today offline"

section \<open>Verdicts\<close>

text \<open>The caps that apply to a request, with the key whose spend each one is compared with.\<close>

definition applicable_caps :: "budget_policy \<Rightarrow> str option \<Rightarrow> str option \<Rightarrow> (budget \<times> str option) list" where
  "applicable_caps p workspace_id key_id =
     (case bp_global p of None \<Rightarrow> [] | Some b \<Rightarrow> [(b, None)]) @
     (case Option.bind workspace_id (map_of (bp_by_workspace p)) of
        None \<Rightarrow> [] | Some b \<Rightarrow> [(b, workspace_id)]) @
     (case Option.bind key_id (map_of (bp_by_key p)) of None \<Rightarrow> [] | Some b \<Rightarrow> [(b, key_id)])"

definition exhausted :: "ledger \<Rightarrow> utc_date \<Rightarrow> budget \<times> str option \<Rightarrow> bool" where
  "exhausted l today cap \<longleftrightarrow> \<not> spent l (bg_window (fst cap)) (snd cap) today < bg_limit (fst cap)"

definition hard_cap :: "bool \<Rightarrow> budget \<times> str option \<Rightarrow> bool" where
  "hard_cap offline cap \<longleftrightarrow> bg_on_breach (fst cap) = BLOCK \<and> \<not> offline"

lemma evaluate_one_eq:
  "evaluate_one l b k today offline =
    (if \<not> exhausted l today (b, k) then Allow
     else if hard_cap offline (b, k) then Block (bg_window b) (bg_limit b) else DegradeRoute)"
  by (simp add: evaluate_one_def exhausted_def hard_cap_def)

text \<open>
  The verdict of the local caps. Unpriced requests are always allowed. Otherwise the first
  exhausted hard cap, in the order gateway, workspace, key, blocks the request when it is online; when
  there is none, the request is degraded exactly when some applicable cap is exhausted.
\<close>

theorem budget_verdict:
  "evaluate_for p l priced workspace_id key_id today offline =
    (if \<not> priced then Allow
     else let reached = filter (exhausted l today) (applicable_caps p workspace_id key_id) in
       case filter (hard_cap offline) reached of
         (b, k) # _ \<Rightarrow> Block (bg_window b) (bg_limit b)
       | [] \<Rightarrow> if reached = [] then Allow else DegradeRoute)"
  by (simp add: evaluate_for_def evaluate_one_eq applicable_caps_def Let_def split: option.splits)

text \<open>
  The shared caps give the same kind of verdict, each compared with the spend the shared source
  reports for its own scope, a workspace's included: the first exhausted hard cap blocks, otherwise any
  exhausted cap degrades. No error arises when the source answers.
\<close>

theorem shared_budget_verdict:
  "evaluate_shared_for (\<lambda>w s d. Inr (amount w s d)) p priced workspace_id key_id today offline =
    (if \<not> priced then Inr Allow
     else let reached = filter (\<lambda>(s, b). \<not> amount (bg_window b) s (date_text today) < bg_limit b)
                (shared_caps p workspace_id key_id) in
       case filter (\<lambda>(s, b). bg_on_breach b = BLOCK \<and> \<not> offline) reached of
         (s, b) # _ \<Rightarrow> Inr (Block (bg_window b) (bg_limit b))
       | [] \<Rightarrow> Inr (if reached = [] then Allow else DegradeRoute))"
proof -
  have walk: "consult_shared (\<lambda>w s d. Inr (amount w s d)) date offline degraded caps =
      (let reached = filter (\<lambda>(s, b). \<not> amount (bg_window b) s date < bg_limit b) caps in
       case filter (\<lambda>(s, b). bg_on_breach b = BLOCK \<and> \<not> offline) reached of
         (s, b) # _ \<Rightarrow> Inr (Block (bg_window b) (bg_limit b))
       | [] \<Rightarrow> Inr (if reached = [] \<and> \<not> degraded then Allow else DegradeRoute))" for date degraded caps
  proof (induction caps arbitrary: degraded)
    case (Cons cap caps)
    obtain s b where cap: "cap = (s, b)" by fastforce
    show ?case
    proof (cases "amount (bg_window b) s date < bg_limit b")
      case True
      then show ?thesis using Cons by (simp add: cap evaluate_shared_one_def evaluate_spent_def)
    next
      case False
      then show ?thesis
        using Cons [of True]
        by (cases "bg_on_breach b = BLOCK \<and> \<not> offline")
          (auto simp: cap evaluate_shared_one_def evaluate_spent_def Let_def)
    qed
  qed simp
  show ?thesis unfolding evaluate_shared_for_def walk by (simp only: simp_thms not_False_eq_True)
qed

section \<open>Workspace caps and the local ledger\<close>

definition unattributed :: "str \<Rightarrow> day_bucket \<Rightarrow> bool" where
  "unattributed i b \<longleftrightarrow> map_of (db_by_key b) i = None"

lemma unattributed_turn:
  "unattributed i b \<Longrightarrow> k \<noteq> Some i \<Longrightarrow> unattributed i (attribute_turn c k w b)"
  by (auto simp: unattributed_def attribute_turn_def day_add_turn_def Let_def map_of_bt_insert
      split: option.splits)

lemma record_unattributed:
  assumes "list_all (\<lambda>p. unattributed i (snd p)) (lg_days l)" "k \<noteq> Some i"
  shows "list_all (\<lambda>p. unattributed i (snd p)) (lg_days (record_attributed c day k w l))"
proof -
  let ?old = "case map_of (lg_days l) (date_text day) of None \<Rightarrow> day_bucket_default | Some v \<Rightarrow> v"
  have "unattributed i ?old"
    using assms(1)
    by (auto simp: list_all_iff unattributed_def day_bucket_default_def split: option.splits dest!: map_of_SomeD)
  then have "unattributed i (attribute_turn c k w ?old)" using assms(2) by (rule unattributed_turn)
  then show ?thesis
    unfolding record_attributed_def retain_days_drop list_all_iff
    using set_bt_insert [of "date_text day" "attribute_turn c k w ?old" "lg_days l"] assms(1)
    by (auto simp: list_all_iff dest!: in_set_dropD)
qed

lemma record_turns_unattributed:
  "list_all (\<lambda>p. unattributed i (snd p)) (lg_days l) \<Longrightarrow>
   list_all (\<lambda>t. fst (snd (snd t)) \<noteq> Some i) ts \<Longrightarrow>
   list_all (\<lambda>p. unattributed i (snd p)) (lg_days (record_turns ts l))"
  by (induction ts l rule: record_turns.induct) (auto simp: record_unattributed)

lemma iter_sum_zeros: "\<forall>x \<in> set xs. x = Fin 0 \<Longrightarrow> f64_iter_sum xs = Fin 0 \<or> f64_iter_sum xs = NZero"
proof -
  have "Fin 0 + Fin 0 = Fin 0" "NZero + Fin 0 = Fin 0" by (simp_all add: plus_finite rnd_f64_numeral)
  then have "\<forall>x \<in> set xs. x = Fin 0 \<Longrightarrow> acc = Fin 0 \<or> acc = NZero \<Longrightarrow> f_sum acc xs = Fin 0 \<or> f_sum acc xs = NZero"
    for acc by (induction acc xs rule: f_sum.induct) auto
  then show "\<forall>x \<in> set xs. x = Fin 0 \<Longrightarrow> ?thesis" by (simp add: f64_iter_sum_def)
qed

lemma spent_unattributed:
  assumes "list_all (\<lambda>p. unattributed i (snd p)) (lg_days l)"
  shows "spent l window (Some i) today \<le> Fin 0"
proof -
  have zero: "realized_of (Some i) (snd p) = Fin 0" if "p \<in> set (lg_days l)" for p
    using assms that by (auto simp: list_all_iff unattributed_def realized_of_def)
  have "python_round x 6 \<le> Fin 0" if "x = Fin 0 \<or> x = NZero" for x
    using python_round_le [of x 0 6] that by auto
  moreover have "f64_iter_sum (map (realized_of (Some i) \<circ> snd) ds) = Fin 0 \<or>
      f64_iter_sum (map (realized_of (Some i) \<circ> snd) ds) = NZero" if "set ds \<subseteq> set (lg_days l)" for ds
    using that zero by (intro iter_sum_zeros) auto
  moreover have "(case map_of (lg_days l) d of None \<Rightarrow> Fin 0 | Some b \<Rightarrow> realized_of (Some i) b) = Fin 0" for d
    using zero by (auto split: option.splits dest: map_of_SomeD)
  ultimately show ?thesis by (simp add: spent_def)
qed

text \<open>
  C13. The local evaluation does not enforce workspace caps. A workspace's cap is compared with the
  spend recorded under a virtual key of the same name, while a workspace's spend is recorded under its
  workspace: unless some key is named like the workspace, the request is allowed however much the
  workspace has spent.
\<close>

theorem workspace_cap_not_enforced:
  assumes "list_all (\<lambda>t. fst (snd (snd t)) \<noteq> Some w) ts" and "Fin 0 < bg_limit b"
  shows "evaluate_for \<lparr>bp_global = None, bp_by_workspace = [(w, b)], bp_by_key = []\<rparr>
    (record_turns ts (ledger_new max_days True)) True (Some w) key_id today offline = Allow"
proof -
  have "list_all (\<lambda>p. unattributed w (snd p)) (lg_days (record_turns ts (ledger_new max_days True)))"
    by (rule record_turns_unattributed [OF _ assms(1)]) (simp add: ledger_new_def)
  from spent_unattributed [OF this] show ?thesis
    using f64_le_less_trans [OF _ assms(2)]
    by (simp add: evaluate_for_def evaluate_one_def split: option.splits)
qed

definition tiny_cap :: budget where
  "tiny_cap = \<lparr>bg_window = lit ''day'', bg_limit = Fin 1, bg_on_breach = BLOCK\<rparr>"

theorem workspace_cap_not_enforced_witness:
  "evaluate_for \<lparr>bp_global = None, bp_by_workspace = [(lit ''team'', tiny_cap)], bp_by_key = []\<rparr>
    (record_turns [(sample_cost, sample_day, Some (lit ''key''), Some (lit ''team''))] (ledger_new 400 True))
    True (Some (lit ''team'')) (Some (lit ''key'')) sample_day False = Allow"
  by (rule workspace_cap_not_enforced) (simp_all add: lit_def tiny_cap_def)

end
