(* ===== verification/Sse.thy ===== *)
theory Sse
  imports Prelude
begin

text \<open>
  The incremental Server-Sent Events decoder of \<open>wayfinder-providers/src/sse.rs\<close>. It works on bytes;
  the text it keeps (event names, data, ids) is represented by its UTF-8 bytes, which is what the
  bounds of the source count. Every delimiter the decoder looks for is ASCII, so it splits the bytes
  exactly where the source splits the characters.
\<close>

section \<open>State\<close>

definition DEFAULT_MAX_LINE_BYTES :: nat where
  "DEFAULT_MAX_LINE_BYTES = 256 * 1024"

definition DEFAULT_MAX_EVENT_BYTES :: nat where
  "DEFAULT_MAX_EVENT_BYTES = 1024 * 1024"

type_synonym bytes = "nat list"

record sse_event =
  ev_event :: bytes
  ev_data :: bytes
  ev_id :: "bytes option"

datatype sse_decode_error = LineTooLarge nat | EventTooLarge nat | InvalidUtf8 | InvalidLimits

record sse_decoder =
  sd_max_line_bytes :: nat
  sd_max_event_bytes :: nat
  sd_line :: bytes
  sd_event_type :: "bytes option"
  sd_data :: bytes
  sd_has_data :: bool
  sd_data_bytes :: nat
  sd_id :: "bytes option"

text \<open>\<open>str::from_utf8\<close> accepts exactly the well-formed UTF-8 sequences.\<close>

definition continuation :: "nat \<Rightarrow> bool" where
  "continuation b \<longleftrightarrow> 128 \<le> b \<and> b \<le> 191"

fun valid_utf8 :: "bytes \<Rightarrow> bool" where
  "valid_utf8 [] = True"
| "valid_utf8 (b # bs) =
     (if b < 128 then valid_utf8 bs
      else if 194 \<le> b \<and> b \<le> 223 then
        (case bs of c # rest \<Rightarrow> continuation c \<and> valid_utf8 rest | _ \<Rightarrow> False)
      else if 224 \<le> b \<and> b \<le> 239 then
        (case bs of
           c # d # rest \<Rightarrow>
             continuation c \<and> (b = 224 \<longrightarrow> 160 \<le> c) \<and> (b = 237 \<longrightarrow> c \<le> 159) \<and>
             continuation d \<and> valid_utf8 rest
         | _ \<Rightarrow> False)
      else if 240 \<le> b \<and> b \<le> 244 then
        (case bs of
           c # d # e # rest \<Rightarrow>
             continuation c \<and> (b = 240 \<longrightarrow> 144 \<le> c) \<and> (b = 244 \<longrightarrow> c \<le> 143) \<and>
             continuation d \<and> continuation e \<and> valid_utf8 rest
         | _ \<Rightarrow> False)
      else False)"

section \<open>Operations\<close>

definition sse_new :: "nat \<Rightarrow> nat \<Rightarrow> (sse_decode_error, sse_decoder) result" where
  "sse_new max_line_bytes max_event_bytes =
     (if max_line_bytes = 0 \<or> max_event_bytes = 0 then Inl InvalidLimits
      else Inr \<lparr>sd_max_line_bytes = max_line_bytes, sd_max_event_bytes = max_event_bytes, sd_line = [],
                sd_event_type = None, sd_data = [], sd_has_data = False, sd_data_bytes = 0, sd_id = None\<rparr>)"

definition sse_default :: sse_decoder where
  "sse_default =
     \<lparr>sd_max_line_bytes = DEFAULT_MAX_LINE_BYTES, sd_max_event_bytes = DEFAULT_MAX_EVENT_BYTES,
      sd_line = [], sd_event_type = None, sd_data = [], sd_has_data = False, sd_data_bytes = 0,
      sd_id = None\<rparr>"

definition dispatch :: "sse_decoder \<Rightarrow> sse_event option \<times> sse_decoder" where
  "dispatch d =
     (let d' = d\<lparr>sd_event_type := None, sd_data := [], sd_has_data := False, sd_data_bytes := 0\<rparr>
      in if \<not> sd_has_data d then (None, d')
         else (Some \<lparr>ev_event = (case sd_event_type d of None \<Rightarrow> lit ''message'' | Some t \<Rightarrow> t),
                     ev_data = sd_data d, ev_id = sd_id d\<rparr>, d'))"

definition split_field :: "bytes \<Rightarrow> bytes \<times> bytes" where
  "split_field line =
     (case dropWhile (\<lambda>b. b \<noteq> 58) line of
        [] \<Rightarrow> (line, [])
      | _ # value \<Rightarrow>
          (takeWhile (\<lambda>b. b \<noteq> 58) line,
           (case value of c # cs \<Rightarrow> if c = 32 then cs else value | [] \<Rightarrow> [])))"

definition process_line ::
  "sse_decoder \<Rightarrow> bytes \<Rightarrow> (sse_decode_error, sse_event list) result \<times> sse_decoder" where
  "process_line d raw =
     (if raw = [] then
        (case dispatch d of
           (None, d') \<Rightarrow> (Inr [], d')
         | (Some e, d') \<Rightarrow> (Inr [e], d'))
      else if \<not> valid_utf8 raw then (Inl InvalidUtf8, d)
      else if hd raw = 58 then (Inr [], d)
      else
        case split_field raw of (field, value) \<Rightarrow>
          if field = lit ''event'' then (Inr [], d\<lparr>sd_event_type := Some value\<rparr>)
          else if field = lit ''data'' then
            (let new_size = sat_add (sat_add (sd_data_bytes d) (if sd_has_data d then 1 else 0)) (length value)
             in if sd_max_event_bytes d < new_size then (Inl (EventTooLarge (sd_max_event_bytes d)), d)
                else (Inr [], d\<lparr>sd_data_bytes := new_size,
                                sd_data := (if sd_has_data d then sd_data d @ [10] else sd_data d) @ value,
                                sd_has_data := True\<rparr>))
          else if field = lit ''id'' \<and> 0 \<notin> set value then (Inr [], d\<lparr>sd_id := Some value\<rparr>)
          else (Inr [], d))"

definition strip_cr :: "bytes \<Rightarrow> bytes" where
  "strip_cr line = (if line \<noteq> [] \<and> last line = 13 then butlast line else line)"

fun push_loop ::
  "sse_decoder \<Rightarrow> sse_event list \<Rightarrow> bytes \<Rightarrow> (sse_decode_error, sse_event list) result \<times> sse_decoder" where
  "push_loop d events [] = (Inr events, d)"
| "push_loop d events (b # bs) =
     (if b = 10 then
        (case process_line (d\<lparr>sd_line := []\<rparr>) (strip_cr (sd_line d)) of
           (Inl e, d') \<Rightarrow> (Inl e, d')
         | (Inr es, d') \<Rightarrow> push_loop d' (events @ es) bs)
      else if sd_max_line_bytes d \<le> length (sd_line d)
      then (Inl (LineTooLarge (sd_max_line_bytes d)), d)
      else push_loop (d\<lparr>sd_line := sd_line d @ [b]\<rparr>) events bs)"

definition push :: "sse_decoder \<Rightarrow> bytes \<Rightarrow> (sse_decode_error, sse_event list) result \<times> sse_decoder" where
  "push d chunk = push_loop d [] chunk"

definition finish :: "sse_decoder \<Rightarrow> (sse_decode_error, sse_event list) result \<times> sse_decoder" where
  "finish d =
     (case (if sd_line d \<noteq> [] then process_line (d\<lparr>sd_line := []\<rparr>) (strip_cr (sd_line d)) else (Inr [], d)) of
        (Inl e, d') \<Rightarrow> (Inl e, d')
      | (Inr es, d') \<Rightarrow>
          (case dispatch d' of
             (None, d'') \<Rightarrow> (Inr es, d'')
           | (Some e, d'') \<Rightarrow> (Inr (es @ [e]), d'')))"

section \<open>Fragmentation does not matter\<close>

text \<open>Feeding chunks one after another, stopping at the first error.\<close>

fun push_all ::
  "sse_decoder \<Rightarrow> bytes list \<Rightarrow> (sse_decode_error, sse_event list) result \<times> sse_decoder" where
  "push_all d [] = (Inr [], d)"
| "push_all d (c # cs) =
     (case push d c of
        (Inl e, d') \<Rightarrow> (Inl e, d')
      | (Inr es, d') \<Rightarrow>
          (case push_all d' cs of (Inl e, d'') \<Rightarrow> (Inl e, d'') | (Inr es', d'') \<Rightarrow> (Inr (es @ es'), d'')))"

definition with_events ::
  "sse_event list \<Rightarrow> (sse_decode_error, sse_event list) result \<times> sse_decoder \<Rightarrow>
   (sse_decode_error, sse_event list) result \<times> sse_decoder" where
  "with_events es r = (case r of (Inl e, d) \<Rightarrow> (Inl e, d) | (Inr es', d) \<Rightarrow> (Inr (es @ es'), d))"

lemma with_events_append: "with_events es (with_events es' r) = with_events (es @ es') r"
  by (auto simp: with_events_def split: prod.splits sum.splits)

lemma push_loop_events: "push_loop d es bs = with_events es (push_loop d [] bs)"
proof (induction bs arbitrary: d es)
  case (Cons b bs)
  show ?case
  proof (cases "b = 10")
    case True
    obtain r d' where "process_line (d\<lparr>sd_line := []\<rparr>) (strip_cr (sd_line d)) = (r, d')" by fastforce
    then show ?thesis
      using True Cons [of d' "es @ projr r"] Cons [of d' "projr r"]
      by (cases r) (auto simp: with_events_append, simp add: with_events_def)
  next
    case False
    then show ?thesis
      using Cons [of "d\<lparr>sd_line := sd_line d @ [b]\<rparr>" es] by (simp add: with_events_def)
  qed
qed (simp add: with_events_def)

lemma push_loop_append:
  "push_loop d es (xs @ ys) =
    (case push_loop d es xs of (Inl e, d') \<Rightarrow> (Inl e, d') | (Inr es', d') \<Rightarrow> push_loop d' es' ys)"
  by (induction d es xs rule: push_loop.induct) (auto split: prod.splits sum.splits)

lemma fragments_whole: "push_all d chunks = push d (concat chunks)"
proof (induction chunks arbitrary: d)
  case (Cons c cs)
  obtain r d' where r: "push d c = (r, d')" by fastforce
  show ?case
  proof (cases r)
    case (Inr es)
    have "push d (c @ concat cs) = with_events es (push d' (concat cs))"
      using r Inr push_loop_events [of d' es "concat cs"] by (simp add: push_def push_loop_append)
    then show ?thesis using r Inr Cons by (simp add: with_events_def)
  qed (use r in \<open>simp add: push_def push_loop_append\<close>)
qed (simp add: push_def)

text \<open>
  Transport fragmentation is invisible: feeding a stream in any fragments, down to single bytes
  or empty ones, gives the same events, the same error and the same decoder state as feeding it whole.
\<close>

theorem fragmentation_invariant:
  "push_all d chunks = push d (concat chunks) \<and>
   push_all d chunks = push_all d (map (\<lambda>b. [b]) (concat chunks))"
  unfolding fragments_whole by (simp add: concat_map_singleton [of id, simplified])

section \<open>Memory is bounded\<close>

definition sse_inv :: "sse_decoder \<Rightarrow> bool" where
  "sse_inv d \<longleftrightarrow>
     length (sd_line d) \<le> sd_max_line_bytes d \<and> length (sd_data d) \<le> sd_max_event_bytes d \<and>
     sd_data_bytes d = length (sd_data d) \<and> (\<not> sd_has_data d \<longrightarrow> sd_data d = []) \<and>
     sd_max_event_bytes d < u64_max"

definition same_limits :: "sse_decoder \<Rightarrow> sse_decoder \<Rightarrow> bool" where
  "same_limits d d' \<longleftrightarrow>
     sd_max_line_bytes d' = sd_max_line_bytes d \<and> sd_max_event_bytes d' = sd_max_event_bytes d"

lemma process_line_inv:
  assumes "sse_inv d" "process_line d raw = (r, d')"
  shows "sse_inv d' \<and> same_limits d d'"
  using assms
  by (auto simp: process_line_def dispatch_def sse_inv_def same_limits_def Let_def sat_add_def
      split: if_splits prod.splits)

lemma push_loop_inv:
  "sse_inv d \<Longrightarrow> push_loop d es bs = (r, d') \<Longrightarrow> sse_inv d' \<and> same_limits d d'"
proof (induction d es bs rule: push_loop.induct)
  case (2 d events b bs)
  show ?case
  proof (cases "b = 10")
    case True
    obtain q d1 where q: "process_line (d\<lparr>sd_line := []\<rparr>) (strip_cr (sd_line d)) = (q, d1)" by fastforce
    have "sse_inv (d\<lparr>sd_line := []\<rparr>)" using 2(3) by (simp add: sse_inv_def)
    from process_line_inv [OF this q] have "sse_inv d1" "same_limits d d1"
      by (simp_all add: same_limits_def)
    then show ?thesis
      using 2 True q by (cases q) (auto simp: same_limits_def)
  next
    case False
    then show ?thesis using 2 by (auto simp: sse_inv_def same_limits_def split: if_splits)
  qed
qed (auto simp: same_limits_def)

text \<open>
  However the stream is fed and whatever it contains, the decoder never retains a line or an
  event's data beyond the configured limits, also after it has reported an error.
\<close>

theorem decoder_memory_bounded:
  assumes "sse_new max_line max_event = Inr d" and "max_event < u64_max"
    and "push_all d chunks = (r, d')"
  shows "length (sd_line d') \<le> max_line \<and> length (sd_data d') \<le> max_event"
proof -
  have d: "sse_inv d" "sd_max_line_bytes d = max_line" "sd_max_event_bytes d = max_event"
    using assms(1,2) by (auto simp: sse_new_def sse_inv_def split: if_splits)
  have "push_loop d [] (concat chunks) = (r, d')"
    using assms(3) by (simp add: fragments_whole push_def)
  from push_loop_inv [OF d(1) this] d show ?thesis by (simp add: sse_inv_def same_limits_def)
qed

theorem decoder_memory_bounded_witness:
  "length (sd_line (snd (push_all (sse_default\<lparr>sd_max_line_bytes := 4, sd_max_event_bytes := 3\<rparr>)
     [[1, 2], [3, 4, 5]]))) \<le> 4"
proof -
  let ?d = "sse_default\<lparr>sd_max_line_bytes := 4, sd_max_event_bytes := 3\<rparr>"
  have new: "sse_new 4 3 = Inr ?d" by (simp add: sse_new_def sse_default_def)
  have "3 < u64_max" by (simp add: u64_max_def)
  from decoder_memory_bounded [OF new this, of "[[1, 2], [3, 4, 5]]" "fst (push_all ?d [[1, 2], [3, 4, 5]])"
      "snd (push_all ?d [[1, 2], [3, 4, 5]])"]
  show ?thesis unfolding prod.collapse by blast
qed

section \<open>Events are decoded\<close>

text \<open>An event as a producer writes it: its name, its data line by line, and the blank line.\<close>

definition encode_event :: "bytes \<Rightarrow> bytes list \<Rightarrow> bytes" where
  "encode_event name data_lines =
     lit ''event: '' @ name @ [10] @ concat (map (\<lambda>l. lit ''data: '' @ l @ [10]) data_lines) @ [10]"

definition clean :: "bytes \<Rightarrow> bool" where
  "clean l \<longleftrightarrow> valid_utf8 l \<and> 10 \<notin> set l \<and> 13 \<notin> set l"

fun join_lines :: "bytes list \<Rightarrow> bytes" where
  "join_lines [] = []"
| "join_lines [l] = l"
| "join_lines (l # ls) = l @ [10] @ join_lines ls"

definition line_end :: "sse_decoder \<Rightarrow> bytes \<Rightarrow> (sse_decode_error, sse_event list) result \<times> sse_decoder" where
  "line_end d line = process_line (d\<lparr>sd_line := []\<rparr>) (strip_cr line)"

lemma push_loop_line:
  assumes "10 \<notin> set l" "length (sd_line d) + length l \<le> sd_max_line_bytes d"
  shows "push_loop d es (l @ 10 # rest) =
    (case line_end d (sd_line d @ l) of
       (Inl e, d') \<Rightarrow> (Inl e, d') | (Inr es', d') \<Rightarrow> push_loop d' (es @ es') rest)"
  using assms by (induction l arbitrary: d) (auto simp: line_end_def)

lemma strip_cr_clean: "13 \<notin> set l \<Longrightarrow> strip_cr l = l"
  by (metis last_in_set strip_cr_def)

lemma line_end_event:
  assumes "clean name"
  shows "line_end d (lit ''event: '' @ name) = (Inr [], d\<lparr>sd_line := [], sd_event_type := Some name\<rparr>)"
proof -
  have "strip_cr (lit ''event: '' @ name) = lit ''event: '' @ name"
    using assms by (intro strip_cr_clean) (auto simp: clean_def lit_def)
  then show ?thesis
    using assms by (simp add: line_end_def process_line_def split_field_def clean_def lit_def)
qed

lemma line_end_data:
  assumes "clean l" "sd_data_bytes d + (if sd_has_data d then 1 else 0) + length l \<le> sd_max_event_bytes d"
    "sd_max_event_bytes d < u64_max"
  shows "line_end d (lit ''data: '' @ l) = (Inr [], d\<lparr>sd_line := [],
    sd_data_bytes := sd_data_bytes d + (if sd_has_data d then 1 else 0) + length l,
    sd_data := (if sd_has_data d then sd_data d @ [10] else sd_data d) @ l, sd_has_data := True\<rparr>)"
proof -
  have "strip_cr (lit ''data: '' @ l) = lit ''data: '' @ l"
    using assms by (intro strip_cr_clean) (auto simp: clean_def lit_def)
  then show ?thesis
    using assms
    by (simp add: line_end_def process_line_def split_field_def clean_def lit_def sat_add_def)
qed

lemma join_lines_snoc: "ls \<noteq> [] \<Longrightarrow> join_lines (ls @ [l]) = join_lines ls @ [10] @ l"
  by (induction ls rule: join_lines.induct) auto

definition reading :: "sse_decoder \<Rightarrow> bytes \<Rightarrow> bytes list \<Rightarrow> sse_decoder" where
  "reading d name ls =
     d\<lparr>sd_line := [], sd_event_type := Some name, sd_data := join_lines ls, sd_has_data := (ls \<noteq> []),
       sd_data_bytes := length (join_lines ls)\<rparr>"

lemma push_data_line:
  assumes "clean l" "length l + 6 \<le> sd_max_line_bytes d" "sd_max_event_bytes d < u64_max"
    "length (join_lines (ls @ [l])) \<le> sd_max_event_bytes d"
  shows "push_loop (reading d name ls) es (lit ''data: '' @ l @ 10 # rest) =
    push_loop (reading d name (ls @ [l])) es rest"
proof -
  let ?r = "reading d name ls"
  have size: "sd_data_bytes ?r + (if sd_has_data ?r then 1 else 0) + length l = length (join_lines (ls @ [l]))"
    by (cases "ls = []") (simp_all add: reading_def join_lines_snoc)
  have "line_end ?r (lit ''data: '' @ l) = (Inr [], reading d name (ls @ [l]))"
    using line_end_data [OF assms(1), of ?r] size assms(3,4)
    by (cases "ls = []") (simp_all add: reading_def join_lines_snoc)
  moreover have "push_loop ?r es ((lit ''data: '' @ l) @ 10 # rest) =
      (case line_end ?r (sd_line ?r @ lit ''data: '' @ l) of
         (Inl e, d') \<Rightarrow> (Inl e, d') | (Inr es', d') \<Rightarrow> push_loop d' (es @ es') rest)"
    using assms(1,2) by (intro push_loop_line) (auto simp: reading_def clean_def lit_def)
  ultimately show ?thesis by (simp add: reading_def)
qed

lemma join_lines_prefix: "length (join_lines ls) \<le> length (join_lines (ls @ ms))"
proof (induction ms rule: rev_induct)
  case (snoc m ms)
  then show ?case
    by (cases "ls @ ms = []") (simp_all add: join_lines_snoc flip: append_assoc)
qed simp

lemma push_data_lines:
  assumes "list_all (\<lambda>l. clean l \<and> length l + 6 \<le> sd_max_line_bytes d) ms" "sd_max_event_bytes d < u64_max"
    "length (join_lines (ls @ ms)) \<le> sd_max_event_bytes d"
  shows "push_loop (reading d name ls) es (concat (map (\<lambda>l. lit ''data: '' @ l @ [10]) ms) @ rest) =
    push_loop (reading d name (ls @ ms)) es rest"
  using assms
proof (induction ms arbitrary: ls)
  case (Cons m ms)
  have "length (join_lines (ls @ [m])) \<le> sd_max_event_bytes d"
    using join_lines_prefix [of "ls @ [m]" ms] Cons.prems(3) by simp
  then show ?case
    using push_data_line [of m d ls name es "concat (map (\<lambda>l. lit ''data: '' @ l @ [10]) ms) @ rest"]
      Cons.IH [of "ls @ [m]"] Cons.prems by simp
qed simp

text \<open>
  A well-formed event is decoded to its name and its data, the data lines joined by newlines, and
  the decoder is ready for the next event.
\<close>

theorem event_roundtrip:
  assumes "sse_new max_line max_event = Inr d" and "max_event < u64_max"
    and "clean name" "length name + 7 \<le> max_line"
    and "list_all (\<lambda>l. clean l \<and> length l + 6 \<le> max_line) data_lines" "data_lines \<noteq> []"
    and "length (join_lines data_lines) \<le> max_event"
  shows "push d (encode_event name data_lines) =
    (Inr [\<lparr>ev_event = name, ev_data = join_lines data_lines, ev_id = None\<rparr>], d)"
proof -
  have d: "d = \<lparr>sd_max_line_bytes = max_line, sd_max_event_bytes = max_event, sd_line = [],
      sd_event_type = None, sd_data = [], sd_has_data = False, sd_data_bytes = 0, sd_id = None\<rparr>"
    using assms(1) by (auto simp: sse_new_def split: if_splits)
  let ?body = "concat (map (\<lambda>l. lit ''data: '' @ l @ [10]) data_lines)"
  have "push_loop d [] ((lit ''event: '' @ name) @ 10 # ?body @ [10]) =
      (case line_end d (sd_line d @ lit ''event: '' @ name) of
         (Inl e, d') \<Rightarrow> (Inl e, d') | (Inr es', d') \<Rightarrow> push_loop d' ([] @ es') (?body @ [10]))"
    using assms(3,4) by (intro push_loop_line) (auto simp: d clean_def lit_def)
  also have "\<dots> = push_loop (reading d name []) [] (?body @ [10])"
    using line_end_event [OF assms(3), of d] by (simp add: d reading_def)
  also have "\<dots> = push_loop (reading d name data_lines) [] [10]"
    using push_data_lines [of d data_lines "[]" name "[]" "[10]"] assms by (simp add: d)
  also have "\<dots> = (Inr [\<lparr>ev_event = name, ev_data = join_lines data_lines, ev_id = None\<rparr>], d)"
    using assms(6) by (simp add: reading_def strip_cr_def process_line_def dispatch_def Let_def d)
  finally show ?thesis by (simp add: push_def encode_event_def)
qed

theorem event_roundtrip_witness:
  "push sse_default (encode_event (lit ''delta'') [lit ''a'', lit ''b'']) =
   (Inr [\<lparr>ev_event = lit ''delta'', ev_data = join_lines [lit ''a'', lit ''b''], ev_id = None\<rparr>], sse_default)"
  by (rule event_roundtrip [of DEFAULT_MAX_LINE_BYTES DEFAULT_MAX_EVENT_BYTES])
    (simp_all add: sse_new_def sse_default_def DEFAULT_MAX_LINE_BYTES_def DEFAULT_MAX_EVENT_BYTES_def
      u64_max_def clean_def lit_def)

end
