(* ===== verification/Rate_Limit.thy ===== *)
theory Rate_Limit
  imports Scoring
begin

text \<open>
  The fixed-window request and token limiter of \<open>wayfinder-gateway/src/rate_limit.rs\<close>. The caller
  supplies the monotonic time, as in the source. The mutex is modelled by the operations being
  atomic; no operation panics while it holds the lock, so the poisoned-lock error does not occur.
\<close>

section \<open>State and results\<close>

definition DEFAULT_WINDOW_SECONDS :: f64 where
  "DEFAULT_WINDOW_SECONDS = Fin 60"

datatype limit_kind = Requests | Tokens

definition limit_kind_as_str :: "limit_kind \<Rightarrow> str" where
  "limit_kind_as_str k = (case k of Requests \<Rightarrow> lit ''rpm'' | Tokens \<Rightarrow> lit ''tpm'')"

record rate_result =
  limited_by :: "limit_kind option"
  retry_after_seconds :: u64

record rate_reservation =
  rv_window_id :: u64
  rv_reserved_tokens :: u64
  rv_reserved_request :: bool

record reservation_result =
  rr_rate :: rate_result
  rr_reservation :: "rate_reservation option"

definition rate_allowed :: "rate_result \<Rightarrow> bool" where
  "rate_allowed r = (limited_by r = None)"

record rate_snapshot =
  sn_limit :: u64
  sn_remaining :: u64
  sn_reset_seconds :: u64

datatype rate_limit_error = InvalidWindow | RateInvalidTime

record rate_configuration =
  rc_rpm :: "u64 option"
  rc_tpm :: "u64 option"
  rc_window_seconds :: f64

record rate_state =
  rs_configuration :: rate_configuration
  rs_window_id :: "u64 option"
  rs_requests :: u64
  rs_tokens :: u64

section \<open>Windows\<close>

definition validated_configuration ::
  "u64 option \<Rightarrow> u64 option \<Rightarrow> f64 \<Rightarrow> (rate_limit_error, rate_configuration) result" where
  "validated_configuration rpm tpm window =
     (if \<not> is_finite window \<or> window \<le> Fin 0 then Inl InvalidWindow
      else Inr \<lparr>rc_rpm = rpm, rc_tpm = tpm, rc_window_seconds = window\<rparr>)"

definition validate_time :: "f64 \<Rightarrow> (rate_limit_error, unit) result" where
  "validate_time now = (if \<not> is_finite now \<or> now < Fin 0 then Inl RateInvalidTime else Inr ())"

definition python_floor_div_positive :: "f64 \<Rightarrow> f64 \<Rightarrow> f64" where
  "python_floor_div_positive numerator denominator =
     (let modulo = f_rem numerator denominator;
          division = (numerator - modulo) div denominator
      in if feq division (Fin 0) then Fin 0
         else let floored = f_floor division
              in if Fin (1 / 2) < division - floored then floored + Fin 1 else floored)"

definition enter_window :: "u64 \<Rightarrow> rate_state \<Rightarrow> rate_state" where
  "enter_window w st =
     (if Some w \<noteq> rs_window_id st
      then st\<lparr>rs_window_id := Some w, rs_requests := 0, rs_tokens := 0\<rparr> else st)"

definition roll :: "rate_state \<Rightarrow> f64 \<Rightarrow> (rate_limit_error, rate_state) result" where
  "roll st now =
     (let quotient = python_floor_div_positive now (rc_window_seconds (rs_configuration st)) in
      if \<not> is_finite quotient \<or> f64_of_nat u64_max \<le> quotient then Inl RateInvalidTime
      else Inr (enter_window (f64_to_u64 quotient) st))"

definition retry_after :: "rate_state \<Rightarrow> f64 \<Rightarrow> u64" where
  "retry_after st now =
     (let next_window = sat_add (case rs_window_id st of None \<Rightarrow> 0 | Some w \<Rightarrow> w) 1;
          next = f64_of_nat next_window * rc_window_seconds (rs_configuration st);
          remaining = f_max (f_ceil (next - now)) (Fin 1)
      in f64_to_u64 remaining)"

definition rejected :: "limit_kind \<Rightarrow> rate_state \<Rightarrow> f64 \<Rightarrow> rate_result" where
  "rejected kind st now = \<lparr>limited_by = Some kind, retry_after_seconds = retry_after st now\<rparr>"

section \<open>Operations\<close>

definition rate_new ::
  "u64 option \<Rightarrow> u64 option \<Rightarrow> f64 \<Rightarrow> (rate_limit_error, rate_state) result" where
  "rate_new rpm tpm window =
     (case validated_configuration rpm tpm window of
        Inl e \<Rightarrow> Inl e
      | Inr c \<Rightarrow> Inr \<lparr>rs_configuration = c, rs_window_id = None, rs_requests = 0, rs_tokens = 0\<rparr>)"

definition rate_default :: rate_state where
  "rate_default =
     \<lparr>rs_configuration = \<lparr>rc_rpm = None, rc_tpm = None, rc_window_seconds = DEFAULT_WINDOW_SECONDS\<rparr>,
      rs_window_id = None, rs_requests = 0, rs_tokens = 0\<rparr>"

definition rate_active :: "rate_state \<Rightarrow> bool" where
  "rate_active st =
     (rc_rpm (rs_configuration st) \<noteq> None \<or> rc_tpm (rs_configuration st) \<noteq> None)"

definition tokens_active :: "rate_state \<Rightarrow> bool" where
  "tokens_active st = (rc_tpm (rs_configuration st) \<noteq> None)"

definition admitted :: rate_result where
  "admitted = \<lparr>limited_by = None, retry_after_seconds = 0\<rparr>"

definition tokens_exhausted :: "rate_state \<Rightarrow> u64 \<Rightarrow> bool" where
  "tokens_exhausted st tokens =
     (case rc_tpm (rs_configuration st) of
        None \<Rightarrow> False
      | Some limit \<Rightarrow>
          (if tokens = 0 then limit \<le> rs_tokens st else limit < sat_add (rs_tokens st) tokens))"

definition requests_exhausted :: "rate_state \<Rightarrow> bool" where
  "requests_exhausted st =
     (case rc_rpm (rs_configuration st) of None \<Rightarrow> False | Some limit \<Rightarrow> limit \<le> rs_requests st)"

definition charge :: "u64 \<Rightarrow> bool \<Rightarrow> rate_state \<Rightarrow> rate_state" where
  "charge tokens reserve_request st =
     (let st2 = (if reserve_request then st\<lparr>rs_requests := sat_add (rs_requests st) 1\<rparr> else st)
      in st2\<lparr>rs_tokens := sat_add (rs_tokens st2) tokens\<rparr>)"

definition reserve_inner ::
  "rate_state \<Rightarrow> u64 \<Rightarrow> bool \<Rightarrow> f64 \<Rightarrow>
   (rate_limit_error, reservation_result) result \<times> rate_state" where
  "reserve_inner st tokens reserve_request now =
     (case validate_time now of
        Inl e \<Rightarrow> (Inl e, st)
      | Inr _ \<Rightarrow>
        if (\<not> reserve_request \<or> rc_rpm (rs_configuration st) = None) \<and>
           rc_tpm (rs_configuration st) = None
        then (Inr \<lparr>rr_rate = admitted, rr_reservation = None\<rparr>, st)
        else case roll st now of
          Inl e \<Rightarrow> (Inl e, st)
        | Inr st1 \<Rightarrow>
          if reserve_request \<and> requests_exhausted st1
          then (Inr \<lparr>rr_rate = rejected Requests st1 now, rr_reservation = None\<rparr>, st1)
          else if tokens_exhausted st1 tokens
          then (Inr \<lparr>rr_rate = rejected Tokens st1 now, rr_reservation = None\<rparr>, st1)
          else
            let st3 = charge tokens reserve_request st1
            in case rs_window_id st3 of
                 None \<Rightarrow> (Inl RateInvalidTime, st3)
               | Some w \<Rightarrow>
                   (Inr \<lparr>rr_rate = admitted,
                         rr_reservation = Some \<lparr>rv_window_id = w, rv_reserved_tokens = tokens,
                                                rv_reserved_request = reserve_request\<rparr>\<rparr>, st3))"

definition reserve_at ::
  "rate_state \<Rightarrow> u64 \<Rightarrow> f64 \<Rightarrow> (rate_limit_error, reservation_result) result \<times> rate_state" where
  "reserve_at st tokens now = reserve_inner st tokens True now"

definition reserve_tokens_at ::
  "rate_state \<Rightarrow> u64 \<Rightarrow> f64 \<Rightarrow> (rate_limit_error, reservation_result) result \<times> rate_state" where
  "reserve_tokens_at st tokens now = reserve_inner st tokens False now"

definition admit_at :: "rate_state \<Rightarrow> f64 \<Rightarrow> (rate_limit_error, rate_result) result \<times> rate_state" where
  "admit_at st now =
     (case reserve_at st 0 now of
        (Inl e, st') \<Rightarrow> (Inl e, st')
      | (Inr r, st') \<Rightarrow> (Inr (rr_rate r), st'))"

definition reconcile_at ::
  "rate_state \<Rightarrow> rate_reservation \<Rightarrow> u64 \<Rightarrow> f64 \<Rightarrow> (rate_limit_error, bool) result \<times> rate_state" where
  "reconcile_at st r actual now =
     (case validate_time now of
        Inl e \<Rightarrow> (Inl e, st)
      | Inr _ \<Rightarrow>
        if rs_window_id st \<noteq> Some (rv_window_id r) then (Inr False, st)
        else if rv_reserved_tokens r \<le> actual
        then (Inr True, st\<lparr>rs_tokens := sat_add (rs_tokens st) (actual - rv_reserved_tokens r)\<rparr>)
        else (Inr True, st\<lparr>rs_tokens := sat_sub (rs_tokens st) (rv_reserved_tokens r - actual)\<rparr>))"

definition rollback_at ::
  "rate_state \<Rightarrow> rate_reservation \<Rightarrow> f64 \<Rightarrow> (rate_limit_error, bool) result \<times> rate_state" where
  "rollback_at st r now =
     (case validate_time now of
        Inl e \<Rightarrow> (Inl e, st)
      | Inr _ \<Rightarrow>
        if rs_window_id st \<noteq> Some (rv_window_id r) then (Inr False, st)
        else
          let st1 = (if rv_reserved_request r
                     then st\<lparr>rs_requests := sat_sub (rs_requests st) 1\<rparr> else st)
          in (Inr True, st1\<lparr>rs_tokens := sat_sub (rs_tokens st1) (rv_reserved_tokens r)\<rparr>))"

definition add_tokens_at ::
  "rate_state \<Rightarrow> u64 \<Rightarrow> f64 \<Rightarrow> (rate_limit_error, unit) result \<times> rate_state" where
  "add_tokens_at st tokens now =
     (case validate_time now of
        Inl e \<Rightarrow> (Inl e, st)
      | Inr _ \<Rightarrow>
        if rc_tpm (rs_configuration st) = None then (Inr (), st)
        else case roll st now of
          Inl e \<Rightarrow> (Inl e, st)
        | Inr st1 \<Rightarrow> (Inr (), st1\<lparr>rs_tokens := sat_add (rs_tokens st1) tokens\<rparr>))"

definition reconfigure ::
  "rate_state \<Rightarrow> u64 option \<Rightarrow> u64 option \<Rightarrow> f64 \<Rightarrow> (rate_limit_error, unit) result \<times> rate_state" where
  "reconfigure st rpm tpm window =
     (case validated_configuration rpm tpm window of
        Inl e \<Rightarrow> (Inl e, st)
      | Inr c \<Rightarrow> (Inr (), st\<lparr>rs_configuration := c\<rparr>))"

definition snapshot_at ::
  "rate_state \<Rightarrow> f64 \<Rightarrow> (rate_limit_error, rate_snapshot option) result \<times> rate_state" where
  "snapshot_at st now =
     (case validate_time now of
        Inl e \<Rightarrow> (Inl e, st)
      | Inr _ \<Rightarrow>
        (case rc_rpm (rs_configuration st) of
           None \<Rightarrow> (Inr None, st)
         | Some limit \<Rightarrow>
             (case roll st now of
                Inl e \<Rightarrow> (Inl e, st)
              | Inr st1 \<Rightarrow>
                  (Inr (Some \<lparr>sn_limit = limit, sn_remaining = sat_sub limit (rs_requests st1),
                              sn_reset_seconds = retry_after st1 now\<rparr>), st1))))"

definition stats :: "rate_state \<Rightarrow> u64 \<times> u64" where
  "stats st = (rs_requests st, rs_tokens st)"

section \<open>Limits hold in every state\<close>

text \<open>What callers can do to a limiter whose configuration stays fixed.\<close>

datatype rate_op =
    OpReserve u64 bool f64
  | OpReconcile rate_reservation u64 f64
  | OpRollback rate_reservation f64
  | OpAddTokens u64 f64
  | OpSnapshot f64

fun rate_apply :: "rate_op \<Rightarrow> rate_state \<Rightarrow> rate_state" where
  "rate_apply (OpReserve n req now) st = snd (reserve_inner st n req now)"
| "rate_apply (OpReconcile r n now) st = snd (reconcile_at st r n now)"
| "rate_apply (OpRollback r now) st = snd (rollback_at st r now)"
| "rate_apply (OpAddTokens n now) st = snd (add_tokens_at st n now)"
| "rate_apply (OpSnapshot now) st = snd (snapshot_at st now)"

definition requests_within :: "rate_state \<Rightarrow> bool" where
  "requests_within st \<longleftrightarrow>
     (case rc_rpm (rs_configuration st) of None \<Rightarrow> True | Some limit \<Rightarrow> rs_requests st \<le> limit)"

definition tokens_within :: "rate_state \<Rightarrow> bool" where
  "tokens_within st \<longleftrightarrow>
     (case rc_tpm (rs_configuration st) of None \<Rightarrow> True | Some limit \<Rightarrow> rs_tokens st \<le> limit)"

text \<open>An operation that never charges more tokens than were reserved.\<close>

fun frugal :: "rate_op \<Rightarrow> bool" where
  "frugal (OpReconcile r n now) \<longleftrightarrow> n \<le> rv_reserved_tokens r"
| "frugal (OpAddTokens n now) \<longleftrightarrow> n = 0"
| "frugal _ \<longleftrightarrow> True"

lemma roll_Inr: "roll st now = Inr st1 \<Longrightarrow> \<exists>w. st1 = enter_window w st"
  by (auto simp: roll_def Let_def split: if_splits)

lemma enter_window_simps [simp]:
  "rs_window_id (enter_window w st) = Some w"
  "rs_configuration (enter_window w st) = rs_configuration st"
  "enter_window w (enter_window w st) = enter_window w st"
  by (auto simp: enter_window_def)

lemma enter_window_within:
  "requests_within st \<Longrightarrow> requests_within (enter_window w st)"
  "tokens_within st \<Longrightarrow> tokens_within (enter_window w st)"
  by (auto simp: enter_window_def requests_within_def tokens_within_def split: option.splits)

lemma charge_simps [simp]:
  "rs_window_id (charge n req st) = rs_window_id st"
  "rs_configuration (charge n req st) = rs_configuration st"
  "rs_tokens (charge n req st) = sat_add (rs_tokens st) n"
  "rs_requests (charge n req st) = (if req then sat_add (rs_requests st) 1 else rs_requests st)"
  by (simp_all add: charge_def Let_def)

lemma sat_add_1_le: "n < m \<Longrightarrow> sat_add n (Suc 0) \<le> m"
  by (simp add: sat_add_def)

lemma charge_within:
  "requests_within st \<Longrightarrow> req \<longrightarrow> \<not> requests_exhausted st \<Longrightarrow> requests_within (charge n req st)"
  "tokens_within st \<Longrightarrow> \<not> tokens_exhausted st n \<Longrightarrow> tokens_within (charge n req st)"
  by (auto simp: requests_within_def requests_exhausted_def tokens_within_def tokens_exhausted_def
      sat_add_1_le sat_add_def split: option.splits if_splits)

text \<open>The three ways a reservation can change the state.\<close>

lemma reserve_inner_cases:
  assumes "reserve_inner st n req now = (r, st')"
  obtains (unchanged) "st' = st" "\<And>x y. r \<noteq> Inr \<lparr>rr_rate = x, rr_reservation = Some y\<rparr>"
  | (rolled) w k where "st' = enter_window w st"
      "r = Inr \<lparr>rr_rate = rejected k (enter_window w st) now, rr_reservation = None\<rparr>"
      "roll st now = Inr (enter_window w st)"
  | (charged) w where "st' = charge n req (enter_window w st)"
      "req \<longrightarrow> \<not> requests_exhausted (enter_window w st)" "\<not> tokens_exhausted (enter_window w st) n"
      "r = Inr \<lparr>rr_rate = admitted, rr_reservation = Some \<lparr>rv_window_id = w,
         rv_reserved_tokens = n, rv_reserved_request = req\<rparr>\<rparr>"
      "roll st now = Inr (enter_window w st)"
proof (cases "roll st now")
  case (Inl e)
  then show ?thesis
    using assms by (intro unchanged) (auto simp: reserve_inner_def split: sum.splits if_splits)
next
  case (Inr st1)
  then obtain w where w: "st1 = enter_window w st" using roll_Inr by blast
  show ?thesis
    using assms Inr unfolding reserve_inner_def w
    by (auto simp: Let_def split: sum.splits if_splits intro: unchanged rolled charged)
qed

lemma reserve_inner_within:
  assumes "reserve_inner st n req now = (r, st')"
  shows "requests_within st \<Longrightarrow> requests_within st'" "tokens_within st \<Longrightarrow> tokens_within st'"
    "rs_configuration st' = rs_configuration st"
  using assms by (cases rule: reserve_inner_cases; simp add: enter_window_within charge_within)+

lemma reconcile_at_within:
  assumes "reconcile_at st r n now = (res, st')"
  shows "requests_within st \<Longrightarrow> requests_within st'" "rs_configuration st' = rs_configuration st"
    "n \<le> rv_reserved_tokens r \<Longrightarrow> tokens_within st \<Longrightarrow> tokens_within st'"
  using assms
  by (auto simp: reconcile_at_def requests_within_def tokens_within_def sat_sub_def sat_add_def
      split: sum.splits if_splits option.splits)

lemma rollback_at_within:
  assumes "rollback_at st r now = (res, st')"
  shows "requests_within st \<Longrightarrow> requests_within st'" "tokens_within st \<Longrightarrow> tokens_within st'"
    "rs_configuration st' = rs_configuration st"
  using assms
  by (auto simp: rollback_at_def requests_within_def tokens_within_def sat_sub_def Let_def
      split: sum.splits if_splits option.splits)

lemma add_tokens_at_within:
  assumes "add_tokens_at st n now = (res, st')"
  shows "requests_within st \<Longrightarrow> requests_within st'" "rs_configuration st' = rs_configuration st"
    "n = 0 \<Longrightarrow> tokens_within st \<Longrightarrow> tokens_within st'"
  using assms roll_Inr [of st now] enter_window_within [of st]
  by (auto simp: add_tokens_at_def requests_within_def tokens_within_def sat_add_def min.coboundedI1
      split: sum.splits if_splits option.splits)

lemma snapshot_at_within:
  assumes "snapshot_at st now = (res, st')"
  shows "requests_within st \<Longrightarrow> requests_within st'" "tokens_within st \<Longrightarrow> tokens_within st'"
    "rs_configuration st' = rs_configuration st"
  using assms roll_Inr [of st now] enter_window_within [of st]
  by (auto simp: snapshot_at_def split: sum.splits option.splits)

lemmas within_steps = reserve_inner_within reconcile_at_within rollback_at_within
  add_tokens_at_within snapshot_at_within

lemma rate_apply_within:
  "requests_within st \<Longrightarrow> requests_within (rate_apply op st)"
  "rs_configuration (rate_apply op st) = rs_configuration st"
  "frugal op \<Longrightarrow> tokens_within st \<Longrightarrow> tokens_within (rate_apply op st)"
  by (cases op; simp; metis within_steps prod.collapse)+

lemma rate_run_within:
  "requests_within st \<Longrightarrow> requests_within (fold rate_apply ops st)"
  "rs_configuration (fold rate_apply ops st) = rs_configuration st"
  "list_all frugal ops \<Longrightarrow> tokens_within st \<Longrightarrow> tokens_within (fold rate_apply ops st)"
  by (induction ops arbitrary: st) (simp_all add: rate_apply_within)

text \<open>
  Whatever reservations, reconciliations, rollbacks, token reports and snapshots are performed
  on a limiter, in any order and at any times, the request counter never exceeds the configured
  request limit; and when completions never report more than was reserved, the token counter never
  exceeds the token limit.
\<close>

theorem limits_hold_in_every_state:
  assumes "rate_new rpm tpm window = Inr st"
  shows "(case rpm of None \<Rightarrow> True | Some limit \<Rightarrow> rs_requests (fold rate_apply ops st) \<le> limit) \<and>
    (list_all frugal ops \<longrightarrow>
      (case tpm of None \<Rightarrow> True | Some limit \<Rightarrow> rs_tokens (fold rate_apply ops st) \<le> limit))"
proof -
  have st: "rc_rpm (rs_configuration st) = rpm" "rc_tpm (rs_configuration st) = tpm"
    "requests_within st" "tokens_within st"
    using assms
    by (auto simp: rate_new_def validated_configuration_def requests_within_def tokens_within_def
        split: if_splits option.splits)
  then show ?thesis
    using rate_run_within(1) [OF st(3), of ops] rate_run_within(2) [of ops st]
      rate_run_within(3) [OF _ st(4), of ops]
    by (auto simp: requests_within_def tokens_within_def split: option.splits)
qed

definition sample_limiter :: rate_state where
  "sample_limiter = \<lparr>rs_configuration = \<lparr>rc_rpm = Some 2, rc_tpm = Some 100, rc_window_seconds = Fin 60\<rparr>,
     rs_window_id = None, rs_requests = 0, rs_tokens = 0\<rparr>"

lemma sample_limiter_new: "rate_new (Some 2) (Some 100) (Fin 60) = Inr sample_limiter"
  by (simp add: rate_new_def validated_configuration_def sample_limiter_def less_eq_f64_def)

theorem limits_hold_in_every_state_witness:
  "rs_requests (fold rate_apply [OpReserve 40 True (Fin 0), OpReserve 80 True (Fin 1)] sample_limiter) \<le> 2"
  using limits_hold_in_every_state
    [OF sample_limiter_new, of "[OpReserve 40 True (Fin 0), OpReserve 80 True (Fin 1)]"] by simp

section \<open>Reservations can be undone\<close>

text \<open>
  Rolling a reservation back, in the window it was made in, restores the counters exactly; and
  once the window has changed, neither a rollback nor a reconciliation touches the new window.
\<close>

theorem rollback_restores:
  assumes "reserve_inner st tokens req now = (Inr \<lparr>rr_rate = rate, rr_reservation = Some r\<rparr>, st')"
    and "rs_requests st < u64_max" and "rs_tokens st + tokens \<le> u64_max"
    and "validate_time later = Inr ()"
  shows "rollback_at st' r later = (Inr True, enter_window (rv_window_id r) st) \<and>
    (rs_window_id st2 \<noteq> Some (rv_window_id r) \<longrightarrow>
      rollback_at st2 r later = (Inr False, st2) \<and> reconcile_at st2 r actual later = (Inr False, st2))"
  using assms(1)
proof (cases rule: reserve_inner_cases)
  case (charged w)
  let ?s = "enter_window w st"
  have "rs_requests ?s < u64_max" "rs_tokens ?s + tokens \<le> u64_max"
    using assms(2,3) by (auto simp: enter_window_def u64_max_def)
  then have "rollback_at st' r later = (Inr True, ?s)"
    using charged assms(4) by (auto simp: rollback_at_def Let_def sat_add_def sat_sub_def charge_def)
  then show ?thesis using charged assms(4) by (auto simp: rollback_at_def reconcile_at_def)
qed auto

lemma roll_at_zero:
  assumes "is_finite (rc_window_seconds (rs_configuration st))" "0 < val (rc_window_seconds (rs_configuration st))"
  shows "roll st (Fin 0) = Inr (enter_window 0 st)"
proof -
  let ?w = "rc_window_seconds (rs_configuration st)"
  have "f_rem (Fin 0) ?w = Fin 0"
    using assms by (simp add: f_rem_def is_finite_not_nan trunc_rat_def rnd_f64_zero f64_zero_def)
  then have q: "python_floor_div_positive (Fin 0) ?w = Fin 0"
    using assms
    by (simp add: python_floor_div_positive_def minus_finite rnd_f64_zero f64_zero_def divide_finite feq_def)
  have "f64_of_nat 1 \<le> f64_of_nat u64_max" by (rule f64_of_nat_mono) simp
  then have "\<not> f64_of_nat u64_max \<le> Fin 0"
    using f64_le_trans [of "f64_of_nat 1" "f64_of_nat u64_max" "Fin 0"] by (auto simp: f64_of_nat_exact)
  then show ?thesis using q by (simp add: roll_def)
qed

lemma sample_reservation:
  "reserve_inner sample_limiter 40 True (Fin 0) =
    (Inr \<lparr>rr_rate = admitted, rr_reservation =
       Some \<lparr>rv_window_id = 0, rv_reserved_tokens = 40, rv_reserved_request = True\<rparr>\<rparr>,
     charge 40 True (enter_window 0 sample_limiter))"
proof -
  have "roll sample_limiter (Fin 0) = Inr (enter_window 0 sample_limiter)"
    by (rule roll_at_zero) (simp_all add: sample_limiter_def)
  then show ?thesis
    by (simp add: reserve_inner_def validate_time_def requests_exhausted_def tokens_exhausted_def)
      (simp add: sample_limiter_def enter_window_def sat_add_def)
qed

theorem rollback_restores_witness:
  "rollback_at (charge 40 True (enter_window 0 sample_limiter))
     \<lparr>rv_window_id = 0, rv_reserved_tokens = 40, rv_reserved_request = True\<rparr> (Fin 5) =
   (Inr True, enter_window 0 sample_limiter)"
  using rollback_restores [OF sample_reservation, of "Fin 5" sample_limiter 0]
  by (simp add: validate_time_def) (simp add: sample_limiter_def u64_max_def)

section \<open>Windows follow time\<close>

text \<open>The quotient before it is snapped to an integer, and the snapping.\<close>

definition snap_quotient :: "f64 \<Rightarrow> f64" where
  "snap_quotient d =
     (if feq d (Fin 0) then Fin 0
      else if Fin (1 / 2) < d - f_floor d then f_floor d + Fin 1 else f_floor d)"

definition snap_int :: "f64 \<Rightarrow> int" where
  "snap_int d = (if Fin (1 / 2) < d - f_floor d then \<lfloor>val d\<rfloor> + 1 else \<lfloor>val d\<rfloor>)"

lemma f_floor_exact:
  assumes "wf_f64 d" "is_finite d" "0 \<le> val d"
  shows "is_finite (f_floor d)" "val (f_floor d) = of_int \<lfloor>val d\<rfloor>"
proof -
  have "wf_f64 (Fin (of_int \<lfloor>val d\<rfloor>))"
    using assms by (cases d) (auto simp: floor_representable representable_def [of 0])
  from rnd_f64_wf_val [OF this] show "is_finite (f_floor d)" "val (f_floor d) = of_int \<lfloor>val d\<rfloor>"
    using assms(2) by (simp_all add: f_floor_def)
qed

lemma snap_quotient_eq:
  assumes "wf_f64 d" "is_finite d" "0 \<le> val d"
  shows "\<exists>s. snap_quotient d = rnd_f64 s (of_int (snap_int d))"
proof -
  note fl = f_floor_exact [OF assms]
  show ?thesis
  proof (cases "val d = 0")
    case True
    have "feq d (Fin 0)" using True assms(2) by (simp add: feq_def is_finite_not_nan is_finite_rank)
    moreover have "d - f_floor d \<le> Fin 0"
      using fl assms(2) True by (intro minus_self_le) (auto simp: f64_le_finite)
    then have "\<not> Fin (1 / 2) < d - f_floor d"
      using f64_less_le_trans [of "Fin (1 / 2)" "d - f_floor d" "Fin 0"] by auto
    ultimately show ?thesis
      using True by (auto simp: snap_quotient_def snap_int_def rnd_f64_zero f64_zero_def)
  next
    case False
    then have "\<not> feq d (Fin 0)" using assms(2) by (cases d) (auto simp: feq_def)
    moreover have "f_floor d = rnd_f64 (is_sign_negative d) (of_int \<lfloor>val d\<rfloor>)"
      using assms(2) by (simp add: f_floor_def)
    ultimately show ?thesis
      using fl by (auto simp: snap_quotient_def snap_int_def plus_finite)
  qed
qed

lemma snap_int_mono:
  assumes "wf_f64 d" "is_finite d" "0 \<le> val d" and "wf_f64 d'" "is_finite d'" "val d \<le> val d'"
  shows "snap_int d \<le> snap_int d'"
proof -
  have d': "0 \<le> val d'" using assms(3,6) by simp
  note fl = f_floor_exact [OF assms(1-3)] and fl' = f_floor_exact [OF assms(4,5) d']
  have le: "\<lfloor>val d\<rfloor> \<le> \<lfloor>val d'\<rfloor>" using assms(6) by (rule floor_mono)
  show ?thesis
  proof (cases "\<lfloor>val d\<rfloor> = \<lfloor>val d'\<rfloor>")
    case True
    have "d - f_floor d \<le> d' - f_floor d'"
      using True fl fl' assms by (simp add: minus_finite rnd_f64_mono)
    then show ?thesis
      using True f64_less_le_trans [of "Fin (1 / 2)" "d - f_floor d" "d' - f_floor d'"]
      by (auto simp: snap_int_def)
  next
    case False
    then show ?thesis using le by (auto simp: snap_int_def)
  qed
qed

lemma snap_quotient_mono:
  assumes "wf_f64 d" "is_finite d" "Fin 0 \<le> d" and "wf_f64 d'" "d \<le> d'"
  shows "snap_quotient d \<le> snap_quotient d'"
proof -
  have d: "0 \<le> val d" using assms(2,3) by (simp add: f64_le_finite)
  obtain s where s: "snap_quotient d = rnd_f64 s (of_int (snap_int d))"
    using snap_quotient_eq [OF assms(1,2) d] by blast
  show ?thesis
  proof (cases "is_finite d'")
    case True
    then have le: "val d \<le> val d'" using assms(2,5) by (simp add: f64_le_finite)
    obtain s' where s': "snap_quotient d' = rnd_f64 s' (of_int (snap_int d'))"
      using snap_quotient_eq [OF assms(4) True] d le by force
    show ?thesis
      unfolding s s' using snap_int_mono [OF assms(1,2) d assms(4) True le] by (intro rnd_f64_mono) simp
  next
    case False
    then have "d' = PInf" using assms(2,5) by (cases d') (auto simp: less_eq_f64_def is_finite_rank)
    moreover have "snap_quotient PInf = PInf"
      by (simp add: snap_quotient_def feq_def f_floor_def minus_f64_def plus_f64_def less_f64_def)
    ultimately show ?thesis by (simp add: s)
  qed
qed

lemma f_rem_exact:
  assumes "wf_f64 a" "is_finite a" "0 \<le> val a" "wf_f64 b" "is_finite b" "0 < val b"
  shows "is_finite (f_rem a b)" "val a - val (f_rem a b) = of_int \<lfloor>val a / val b\<rfloor> * val b"
proof -
  let ?k = "\<lfloor>val a / val b\<rfloor>"
  define r where "r = val a - of_int ?k * val b"
  have k: "0 \<le> ?k" using assms by simp
  have r0: "0 \<le> r" unfolding r_def
    using floor_divide_lower [OF assms(6), of "val a"] by simp
  have rb: "r < val b" unfolding r_def
    using floor_divide_upper [OF assms(6), of "val a"] by (simp add: algebra_simps)
  have ra: "r \<le> val a" unfolding r_def using k assms(6) by simp
  have rem: "f_rem a b = rnd_f64 (is_sign_negative a) r"
    using assms by (simp add: f_rem_def trunc_rat_def r_def is_finite_not_nan divide_less_0_iff)
  have "is_finite (rnd_f64 s r) \<and> val (rnd_f64 s r) = r" for s
  proof (cases "r = 0")
    case False
    then have "0 < r" "0 < val a" using r0 ra by auto
    moreover have "representable (val a)" "representable (val b)"
      using assms \<open>0 < val a\<close> by (cases a; cases b; auto)+
    ultimately have "rnd_mag r = r" using remainder_exact r_def ra rb assms(6) by blast
    moreover have "r < 2 ^ 1024"
      using ra \<open>representable (val a)\<close> assms(3) by (auto simp: representable_def)
    ultimately have "representable r" using \<open>0 < r\<close> by (simp add: representable_def)
    then show ?thesis using False by (simp add: rnd_f64_representable)
  qed (simp add: rnd_f64_zero)
  then show "is_finite (f_rem a b)" "val a - val (f_rem a b) = of_int ?k * val b"
    by (simp_all add: rem r_def)
qed

lemma quotient_numerator:
  assumes "wf_f64 a" "is_finite a" "0 \<le> val a" "wf_f64 b" "is_finite b" "0 < val b"
  shows "is_finite (a - f_rem a b)" "0 \<le> val (a - f_rem a b)"
    "\<exists>s. a - f_rem a b = rnd_f64 s (of_int \<lfloor>val a / val b\<rfloor> * val b)"
proof -
  note rem = f_rem_exact [OF assms]
  show ex: "\<exists>s. a - f_rem a b = rnd_f64 s (of_int \<lfloor>val a / val b\<rfloor> * val b)"
    using rem assms(2) by (auto simp: minus_finite)
  then obtain s where s: "a - f_rem a b = rnd_f64 s (of_int \<lfloor>val a / val b\<rfloor> * val b)" ..
  have lo: "Fin 0 \<le> a - f_rem a b" unfolding s using assms by (intro rnd_f64_nonneg) simp
  have "a - f_rem a b \<le> rnd_f64 False (val a)"
    unfolding s using floor_divide_lower [OF assms(6), of "val a"] by (intro rnd_f64_mono)
  then show fin: "is_finite (a - f_rem a b)"
    using lo rnd_f64_wf_val(1) [OF assms(1,2), of False]
    by (cases "a - f_rem a b"; cases "rnd_f64 False (val a)") (auto simp: less_eq_f64_def)
  show "0 \<le> val (a - f_rem a b)" using lo fin by (simp add: f64_le_finite)
qed

lemma python_floor_div_mono:
  assumes "wf_f64 a" "is_finite a" "0 \<le> val a" and "wf_f64 a'" "is_finite a'" "a \<le> a'"
    and b: "wf_f64 b" "is_finite b" "0 < val b"
    and fin: "is_finite (python_floor_div_positive a b)"
  shows "python_floor_div_positive a b \<le> python_floor_div_positive a' b"
proof -
  let ?d = "(a - f_rem a b) div b" and ?d' = "(a' - f_rem a' b) div b"
  have le: "val a \<le> val a'" using assms by (simp add: f64_le_finite)
  then have a': "0 \<le> val a'" using assms(3) by simp
  note q = quotient_numerator [OF assms(1-3) b] and q' = quotient_numerator [OF assms(4,5) a' b]
  have eq: "python_floor_div_positive x b = snap_quotient ((x - f_rem x b) div b)" for x
    by (simp add: python_floor_div_positive_def snap_quotient_def Let_def)
  have "of_int \<lfloor>val a / val b\<rfloor> * val b \<le> of_int \<lfloor>val a' / val b\<rfloor> * val b"
    using le b(3) by (intro mult_right_mono) (auto intro!: floor_mono divide_right_mono)
  then have "a - f_rem a b \<le> a' - f_rem a' b"
    using q(3) q'(3) rnd_f64_mono by metis
  then have "val (a - f_rem a b) \<le> val (a' - f_rem a' b)" using q q' by (simp add: f64_le_finite)
  then have dd: "?d \<le> ?d'" "Fin 0 \<le> ?d" "wf_f64 ?d" "wf_f64 ?d'"
    using q q' b by (simp_all add: divide_finite rnd_f64_mono rnd_f64_nonneg divide_right_mono)
  have "is_finite ?d"
  proof (rule ccontr)
    assume "\<not> is_finite ?d"
    then have "?d = PInf" using dd(2) by (cases ?d) (auto simp: less_eq_f64_def)
    then show False
      using fin by (simp add: eq snap_quotient_def feq_def f_floor_def minus_f64_def plus_f64_def less_f64_def)
  qed
  then show ?thesis unfolding eq using dd by (intro snap_quotient_mono)
qed

section \<open>Admissions per window\<close>

type_synonym rate_request = "u64 \<times> bool \<times> f64"

definition window_at :: "rate_configuration \<Rightarrow> f64 \<Rightarrow> u64" where
  "window_at c now = f64_to_u64 (python_floor_div_positive now (rc_window_seconds c))"

definition granted :: "('e, reservation_result) result \<Rightarrow> rate_reservation list" where
  "granted r = (case r of Inl e \<Rightarrow> [] | Inr x \<Rightarrow> (case rr_reservation x of None \<Rightarrow> [] | Some v \<Rightarrow> [v]))"

text \<open>The reservations granted to a sequence of requests.\<close>

fun reservations :: "rate_state \<Rightarrow> rate_request list \<Rightarrow> rate_reservation list" where
  "reservations st [] = []"
| "reservations st ((n, req, now) # qs) =
     granted (fst (reserve_inner st n req now)) @ reservations (snd (reserve_inner st n req now)) qs"

text \<open>Requests arrive in time order, at non-negative finite times.\<close>

definition in_time_order :: "rate_request list \<Rightarrow> bool" where
  "in_time_order qs \<longleftrightarrow>
     sorted_wrt (\<lambda>p q. snd (snd p) \<le> snd (snd q)) qs \<and>
     list_all (\<lambda>q. wf_f64 (snd (snd q)) \<and> is_finite (snd (snd q)) \<and> Fin 0 \<le> snd (snd q)) qs"

definition window_reached :: "rate_state \<Rightarrow> rate_request list \<Rightarrow> bool" where
  "window_reached st qs \<longleftrightarrow>
     (\<forall>w. rs_window_id st = Some w \<longrightarrow>
        list_all (\<lambda>q. w \<le> window_at (rs_configuration st) (snd (snd q))) qs)"

definition valid_window :: "rate_configuration \<Rightarrow> bool" where
  "valid_window c \<longleftrightarrow>
     wf_f64 (rc_window_seconds c) \<and> is_finite (rc_window_seconds c) \<and> 0 < val (rc_window_seconds c)"

lemma roll_window:
  assumes "roll st now = Inr (enter_window w st)"
  shows "w = window_at (rs_configuration st) now"
    "is_finite (python_floor_div_positive now (rc_window_seconds (rs_configuration st)))"
  using assms enter_window_simps(1) [of w st] enter_window_simps(1)
  by (auto simp: roll_def Let_def window_at_def split: if_splits, metis option.inject)

lemma window_at_mono:
  assumes "valid_window c" "in_time_order ((n, req, now) # qs)"
    "is_finite (python_floor_div_positive now (rc_window_seconds c))"
  shows "list_all (\<lambda>q. window_at c now \<le> window_at c (snd (snd q))) qs"
  using assms unfolding list_all_iff window_at_def
  by (auto simp: in_time_order_def valid_window_def list_all_iff f64_le_finite
      intro!: f64_to_u64_mono python_floor_div_mono)

lemma in_time_order_tl: "in_time_order (q # qs) \<Longrightarrow> in_time_order qs"
  by (simp add: in_time_order_def)

text \<open>One reservation step: what is granted, and that the window only moves forward.\<close>

lemma reserve_step:
  assumes "reserve_inner st n req now = (r, st')" and "valid_window (rs_configuration st)"
    and "in_time_order ((n, req, now) # qs)" and "window_reached st ((n, req, now) # qs)"
  shows "window_reached st' qs" "rs_configuration st' = rs_configuration st"
    "granted r = [] \<and> st' = st \<or>
     (\<exists>w. (\<forall>u. rs_window_id st = Some u \<longrightarrow> u \<le> w) \<and> rs_window_id st' = Some w \<and>
        (granted r = [] \<and> st' = enter_window w st \<or>
         granted r = [\<lparr>rv_window_id = w, rv_reserved_tokens = n, rv_reserved_request = req\<rparr>] \<and>
         st' = charge n req (enter_window w st) \<and>
         (req \<longrightarrow> \<not> requests_exhausted (enter_window w st)) \<and> \<not> tokens_exhausted (enter_window w st) n))"
proof -
  show cfg: "rs_configuration st' = rs_configuration st" using assms(1) by (rule reserve_inner_within)
  have moved: "window_reached st' qs \<and> (\<forall>u. rs_window_id st = Some u \<longrightarrow> u \<le> w)"
    if "roll st now = Inr (enter_window w st)" "rs_window_id st' = Some w" for w
    using roll_window [OF that(1)] window_at_mono [OF assms(2,3)] assms(4) that(2) cfg
    by (auto simp: window_reached_def)
  show "window_reached st' qs"
    using assms(1)
    by (cases rule: reserve_inner_cases) (use assms(4) moved in \<open>auto simp: window_reached_def\<close>)
  show "granted r = [] \<and> st' = st \<or>
     (\<exists>w. (\<forall>u. rs_window_id st = Some u \<longrightarrow> u \<le> w) \<and> rs_window_id st' = Some w \<and>
        (granted r = [] \<and> st' = enter_window w st \<or>
         granted r = [\<lparr>rv_window_id = w, rv_reserved_tokens = n, rv_reserved_request = req\<rparr>] \<and>
         st' = charge n req (enter_window w st) \<and>
         (req \<longrightarrow> \<not> requests_exhausted (enter_window w st)) \<and> \<not> tokens_exhausted (enter_window w st) n))"
    using assms(1)
  proof (cases rule: reserve_inner_cases)
    case unchanged
    have "granted r = []"
    proof (cases r)
      case (Inr x)
      then show ?thesis using unchanged(2) by (cases x) (auto simp: granted_def split: option.splits)
    qed (simp add: granted_def)
    then show ?thesis using unchanged by simp
  next
    case (rolled w k)
    then show ?thesis using moved [of w] by (auto simp: granted_def)
  next
    case (charged w)
    then show ?thesis using moved [of w] by (auto simp: granted_def)
  qed
qed

lemma reservations_forward:
  assumes "valid_window (rs_configuration st)" "in_time_order qs" "window_reached st qs"
    and "rs_window_id st = Some u" "v \<in> set (reservations st qs)"
  shows "u \<le> rv_window_id v"
  using assms
proof (induction st qs arbitrary: u rule: reservations.induct)
  case (2 st n req now qs)
  obtain r st' where step: "reserve_inner st n req now = (r, st')" by fastforce
  note facts = reserve_step [OF step "2.prems"(1-3)]
  have IH: "u' \<le> rv_window_id v" if "rs_window_id st' = Some u'" "v \<in> set (reservations st' qs)" for u'
    using "2.IH" that "2.prems" facts step by (simp add: in_time_order_tl)
  show ?case
    using facts(3) "2.prems"(4,5) IH by (auto simp: step)
qed simp

text \<open>
  A counted dimension of the limiter: a counter that a new window resets and a reservation raises by
  its weight, never beyond the limit. The limiter has two, requests and tokens.
\<close>

locale window_counter =
  fixes weight :: "rate_reservation \<Rightarrow> nat"
    and counter :: "rate_state \<Rightarrow> nat"
    and limit_of :: "rate_configuration \<Rightarrow> nat option"
  assumes counter_reset:
      "counter (enter_window w st) = (if rs_window_id st = Some w then counter st else 0)"
    and counter_charge: "limit_of (rs_configuration st) = Some limit \<Longrightarrow> counter st \<le> limit \<Longrightarrow>
      req \<longrightarrow> \<not> requests_exhausted st \<Longrightarrow> \<not> tokens_exhausted st n \<Longrightarrow>
      counter (charge n req st) =
        counter st + weight \<lparr>rv_window_id = w, rv_reserved_tokens = n, rv_reserved_request = req\<rparr> \<and>
      counter (charge n req st) \<le> limit"
begin

definition spent_in :: "u64 \<Rightarrow> rate_reservation list \<Rightarrow> nat" where
  "spent_in w vs = sum_list (map weight (filter (\<lambda>v. rv_window_id v = w) vs))"

lemma spent_in_Cons: "spent_in w (v # vs) = (if rv_window_id v = w then weight v else 0) + spent_in w vs"
  by (simp add: spent_in_def)

lemma spent_in_none: "(\<And>v. v \<in> set vs \<Longrightarrow> rv_window_id v \<noteq> w) \<Longrightarrow> spent_in w vs = 0"
  by (simp add: spent_in_def)

lemma spent_bounded:
  assumes "valid_window (rs_configuration st)" "in_time_order qs" "window_reached st qs"
    and "limit_of (rs_configuration st) = Some limit" "counter st \<le> limit"
  shows "spent_in w (reservations st qs) + (if rs_window_id st = Some w then counter st else 0) \<le> limit"
  using assms
proof (induction st qs rule: reservations.induct)
  case (2 st n req now qs)
  obtain r st' where step: "reserve_inner st n req now = (r, st')" by fastforce
  note facts = reserve_step [OF step "2.prems"(1-3)]
  have tl: "in_time_order qs" using "2.prems"(2) by (rule in_time_order_tl)
  have IH: "spent_in w (reservations st' qs) + (if rs_window_id st' = Some w then counter st' else 0) \<le> limit"
    if "counter st' \<le> limit"
    using "2.IH" [unfolded step snd_conv] that tl facts(1,2) "2.prems"(1,4) by simp
  have past: "spent_in w (reservations st' qs) = 0" if "rs_window_id st' = Some u" "w < u" for u
    using reservations_forward [OF _ tl facts(1) that(1)] facts(2) "2.prems"(1) that(2)
    by (intro spent_in_none) fastforce
  from facts(3) show ?case
  proof (elim disjE exE conjE)
    assume "granted r = []" "st' = st"
    then show ?thesis using IH "2.prems"(5) step by (auto split: if_splits)
  next
    fix u assume u: "\<forall>v. rs_window_id st = Some v \<longrightarrow> v \<le> u" "rs_window_id st' = Some u"
      and e: "granted r = []" "st' = enter_window u st"
    then have "counter st' \<le> limit" using "2.prems"(5) by (simp add: counter_reset)
    then show ?thesis
      using IH past [OF u(2)] u e step "2.prems"(5)
      by (cases "rs_window_id st = Some w"; cases "u = w") (auto simp: counter_reset split: if_splits)
  next
    fix u assume u: "\<forall>v. rs_window_id st = Some v \<longrightarrow> v \<le> u" "rs_window_id st' = Some u"
      and c: "granted r = [\<lparr>rv_window_id = u, rv_reserved_tokens = n, rv_reserved_request = req\<rparr>]"
        "st' = charge n req (enter_window u st)"
        "req \<longrightarrow> \<not> requests_exhausted (enter_window u st)" "\<not> tokens_exhausted (enter_window u st) n"
    have "counter (enter_window u st) \<le> limit" using "2.prems"(5) by (simp add: counter_reset)
    then have ch: "counter st' = counter (enter_window u st) +
        weight \<lparr>rv_window_id = u, rv_reserved_tokens = n, rv_reserved_request = req\<rparr>" "counter st' \<le> limit"
      using counter_charge [of "enter_window u st" limit req n u] c "2.prems"(4) by simp_all
    show ?thesis
    proof (cases "u = w")
      case True
      then show ?thesis using IH [OF ch(2)] u c(1) ch(1) step
        by (auto simp: spent_in_Cons counter_reset split: if_splits)
    next
      case False
      then show ?thesis
        using IH [OF ch(2)] past [OF u(2)] u c(1) step "2.prems"(5)
        by (cases "rs_window_id st = Some w") (auto simp: spent_in_Cons)
    qed
  qed
qed (simp add: spent_in_def)

end

text \<open>The limiter's two dimensions. A token limit of \<open>u64::MAX\<close> is left out: its counter saturates.\<close>

definition request_weight :: "rate_reservation \<Rightarrow> nat" where
  "request_weight v = (if rv_reserved_request v then 1 else 0)"

definition request_limit :: "rate_configuration \<Rightarrow> nat option" where
  "request_limit c = (case rc_rpm c of None \<Rightarrow> None | Some l \<Rightarrow> if l \<le> u64_max then Some l else None)"

definition token_limit :: "rate_configuration \<Rightarrow> nat option" where
  "token_limit c = (case rc_tpm c of None \<Rightarrow> None | Some l \<Rightarrow> if l < u64_max then Some l else None)"

interpretation request_window: window_counter request_weight rs_requests request_limit
  by unfold_locales
    (auto simp: enter_window_def request_weight_def request_limit_def requests_exhausted_def
      sat_add_def split: option.splits if_splits)

interpretation token_window: window_counter rv_reserved_tokens rs_tokens token_limit
  by unfold_locales
    (auto simp: enter_window_def token_limit_def tokens_exhausted_def sat_add_def
      split: option.splits if_splits)



section \<open>Retry hints\<close>

lemma f64_to_u64_ge_1: "Fin 1 \<le> x \<Longrightarrow> 1 \<le> f64_to_u64 x"
  using f64_to_u64_mono [of "Fin 1" x] by (simp add: u64_max_def)

text \<open>
  A rejected request is told to wait at least one whole second, and an admitted one is told to
  wait none; and only admitted requests hold a reservation.
\<close>

theorem retry_hint:
  assumes "reserve_inner st tokens req now = (Inr res, st')"
  shows "if rate_allowed (rr_rate res) then retry_after_seconds (rr_rate res) = 0
    else 1 \<le> retry_after_seconds (rr_rate res) \<and> rr_reservation res = None"
proof -
  have "1 \<le> retry_after s now" for s
    unfolding retry_after_def Let_def by (intro f64_to_u64_ge_1 f_max_ge) simp
  then show ?thesis
    using assms
    by (auto simp: reserve_inner_def rejected_def admitted_def rate_allowed_def Let_def
        split: sum.splits if_splits option.splits)
qed

theorem retry_hint_witness:
  "if rate_allowed admitted then retry_after_seconds admitted = 0
   else 1 \<le> retry_after_seconds admitted"
  using retry_hint [OF sample_reservation] by (auto split: if_splits)

end
