(* ===== verification/State_Backend.thy ===== *)
theory State_Backend
  imports Rate_Limit
begin

text \<open>
  The shared-state contract of \<open>wayfinder-gateway/src/state.rs\<close> and its process-local implementation
  \<open>MemoryStateBackend\<close>: one fixed-window limiter per policy dimension, created on first use, and the
  fleet counters of canary rollouts. Each operation is one critical section of the source; a poisoned
  lock is not modelled. The Redis implementation runs scripts in an external server and is a parameter
  of the components that use a backend.
\<close>

section \<open>Limiters\<close>

record state_limit_config =
  lc_rpm :: "u64 option"
  lc_tpm :: "u64 option"
  lc_window_seconds :: f64

datatype state_backend_error = BackendInvalidWindow | Unavailable | LockPoisoned

definition validate_limit :: "state_limit_config \<Rightarrow> (state_backend_error, state_limit_config) result" where
  "validate_limit c =
     (if \<not> is_finite (lc_window_seconds c) \<or> lc_window_seconds c \<le> Fin 0 then Inl BackendInvalidWindow
      else Inr c)"

text \<open>Fleet counters of one rollout window.\<close>

record shared_canary_snapshot =
  cs_requests :: u64
  cs_errors :: u64
  cs_latency_sum_ms :: u64
  cs_latency_samples :: u64
  cs_realized_cost :: f64
  cs_baseline_cost :: f64
  cs_cost_samples :: u64
  cs_quality_loss :: f64
  cs_quality_samples :: u64
  cs_tripped_reason :: "str option"

definition canary_snapshot_default :: shared_canary_snapshot where
  "canary_snapshot_default =
     \<lparr>cs_requests = 0, cs_errors = 0, cs_latency_sum_ms = 0, cs_latency_samples = 0,
      cs_realized_cost = Fin 0, cs_baseline_cost = Fin 0, cs_cost_samples = 0,
      cs_quality_loss = Fin 0, cs_quality_samples = 0, cs_tripped_reason = None\<rparr>"

record memory_canary_state =
  mc_window :: u64
  mc_seen :: "str list"
  mc_snapshot :: shared_canary_snapshot
  mc_tripped_until :: f64

definition memory_canary_default :: memory_canary_state where
  "memory_canary_default =
     \<lparr>mc_window = 0, mc_seen = [], mc_snapshot = canary_snapshot_default, mc_tripped_until = Fin 0\<rparr>"

record memory_backend =
  mb_limiters :: "(str \<times> rate_state) list"
  mb_canary :: "(str \<times> memory_canary_state) list"

definition memory_backend_default :: memory_backend where
  "memory_backend_default = \<lparr>mb_limiters = [], mb_canary = []\<rparr>"

text \<open>
  The limiter of a key, created with the given configuration when the key is new. An existing limiter
  keeps the configuration it was created with. \<open>limiter_for\<close> and \<open>limiter_for_mut\<close> of the source have
  this body.
\<close>

definition limiter_for ::
  "(str \<times> rate_state) list \<Rightarrow> str \<Rightarrow> state_limit_config \<Rightarrow>
   (state_backend_error, rate_state \<times> (str \<times> rate_state) list) result" where
  "limiter_for limiters key c =
     (case map_of limiters key of
        Some st \<Rightarrow> Inr (st, limiters)
      | None \<Rightarrow>
          (case rate_new (lc_rpm c) (lc_tpm c) (lc_window_seconds c) of
             Inl _ \<Rightarrow> Inl BackendInvalidWindow
           | Inr st \<Rightarrow> Inr (st, bt_insert key st limiters)))"

text \<open>
  Every limiter operation of the backend validates the configuration, finds the limiter and runs one
  operation of it, whose errors become \<open>Unavailable\<close>.
\<close>

definition on_limiter ::
  "(rate_state \<Rightarrow> (rate_limit_error, 'a) result \<times> rate_state) \<Rightarrow> str \<Rightarrow> state_limit_config \<Rightarrow>
   memory_backend \<Rightarrow> (state_backend_error, 'a) result \<times> memory_backend" where
  "on_limiter f key c b =
     (case validate_limit c of
        Inl e \<Rightarrow> (Inl e, b)
      | Inr c' \<Rightarrow>
          (case limiter_for (mb_limiters b) key c' of
             Inl e \<Rightarrow> (Inl e, b)
           | Inr (st, limiters) \<Rightarrow>
               (case f st of (r, st') \<Rightarrow>
                  (case r of Inl _ \<Rightarrow> Inl Unavailable | Inr x \<Rightarrow> Inr x,
                   b\<lparr>mb_limiters := bt_insert key st' limiters\<rparr>))))"

definition memory_admit ::
  "memory_backend \<Rightarrow> str \<Rightarrow> state_limit_config \<Rightarrow> f64 \<Rightarrow>
   (state_backend_error, rate_result) result \<times> memory_backend" where
  "memory_admit b key c now = on_limiter (\<lambda>st. admit_at st now) key c b"

definition memory_reserve ::
  "memory_backend \<Rightarrow> str \<Rightarrow> state_limit_config \<Rightarrow> u64 \<Rightarrow> f64 \<Rightarrow>
   (state_backend_error, reservation_result) result \<times> memory_backend" where
  "memory_reserve b key c tokens now = on_limiter (\<lambda>st. reserve_at st tokens now) key c b"

definition memory_reserve_tokens ::
  "memory_backend \<Rightarrow> str \<Rightarrow> state_limit_config \<Rightarrow> u64 \<Rightarrow> f64 \<Rightarrow>
   (state_backend_error, reservation_result) result \<times> memory_backend" where
  "memory_reserve_tokens b key c tokens now = on_limiter (\<lambda>st. reserve_tokens_at st tokens now) key c b"

definition memory_reconcile ::
  "memory_backend \<Rightarrow> str \<Rightarrow> state_limit_config \<Rightarrow> rate_reservation \<Rightarrow> u64 \<Rightarrow> f64 \<Rightarrow>
   (state_backend_error, bool) result \<times> memory_backend" where
  "memory_reconcile b key c v actual now = on_limiter (\<lambda>st. reconcile_at st v actual now) key c b"

definition memory_rollback ::
  "memory_backend \<Rightarrow> str \<Rightarrow> state_limit_config \<Rightarrow> rate_reservation \<Rightarrow> f64 \<Rightarrow>
   (state_backend_error, bool) result \<times> memory_backend" where
  "memory_rollback b key c v now = on_limiter (\<lambda>st. rollback_at st v now) key c b"

definition memory_add_tokens ::
  "memory_backend \<Rightarrow> str \<Rightarrow> state_limit_config \<Rightarrow> u64 \<Rightarrow> f64 \<Rightarrow>
   (state_backend_error, unit) result \<times> memory_backend" where
  "memory_add_tokens b key c tokens now = on_limiter (\<lambda>st. add_tokens_at st tokens now) key c b"

definition memory_snapshot ::
  "memory_backend \<Rightarrow> str \<Rightarrow> state_limit_config \<Rightarrow> f64 \<Rightarrow>
   (state_backend_error, rate_snapshot option) result \<times> memory_backend" where
  "memory_snapshot b key c now =
     (case validate_limit c of
        Inl e \<Rightarrow> (Inl e, b)
      | Inr c' \<Rightarrow>
          if lc_rpm c' = None then (Inr None, b) else on_limiter (\<lambda>st. snapshot_at st now) key c' b)"

section \<open>Canary counters\<close>

record shared_canary_observation =
  co_rollout_id :: str
  co_request_id :: str
  co_succeeded :: bool
  co_latency_ms :: u64
  co_realized_cost :: "f64 option"
  co_baseline_cost :: "f64 option"
  co_quality_loss :: "f64 option"

definition validate_canary_inputs ::
  "shared_canary_observation \<Rightarrow> f64 \<Rightarrow> (state_backend_error, unit) result" where
  "validate_canary_inputs ob window =
     (if co_rollout_id ob = [] \<or> 128 < str_len (co_rollout_id ob) \<or>
         co_request_id ob = [] \<or> 128 < str_len (co_request_id ob) \<or>
         \<not> is_finite window \<or> window \<le> Fin 0 \<or> 86400000 < co_latency_ms ob
      then Inl Unavailable else Inr ())"

definition canary_window :: "f64 \<Rightarrow> f64 \<Rightarrow> (state_backend_error, u64) result" where
  "canary_window window now =
     (if \<not> is_finite window \<or> window \<le> Fin 0 \<or> \<not> is_finite now then Inl Unavailable
      else Inr (f64_to_u64 (f_max (f_floor (now div window)) (Fin 0))))"

definition rotate_memory_canary :: "u64 \<Rightarrow> memory_canary_state \<Rightarrow> memory_canary_state" where
  "rotate_memory_canary window st =
     (if mc_window st = window then st
      else st\<lparr>mc_window := window, mc_seen := [],
              mc_snapshot := canary_snapshot_default\<lparr>cs_tripped_reason := cs_tripped_reason (mc_snapshot st)\<rparr>\<rparr>)"

definition add_outcome :: "shared_canary_observation \<Rightarrow> shared_canary_snapshot \<Rightarrow> shared_canary_snapshot" where
  "add_outcome ob s =
     s\<lparr>cs_requests := sat_add (cs_requests s) 1,
       cs_errors := (if co_succeeded ob then cs_errors s else sat_add (cs_errors s) 1),
       cs_latency_sum_ms := sat_add (cs_latency_sum_ms s) (co_latency_ms ob),
       cs_latency_samples := sat_add (cs_latency_samples s) 1\<rparr>"

definition add_cost :: "shared_canary_observation \<Rightarrow> shared_canary_snapshot \<Rightarrow> shared_canary_snapshot" where
  "add_cost ob s =
     (case (co_realized_cost ob, co_baseline_cost ob) of
        (Some realized, Some baseline) \<Rightarrow>
          if is_finite realized \<and> is_finite baseline \<and> Fin 0 \<le> realized \<and> Fin 0 \<le> baseline
          then s\<lparr>cs_realized_cost := cs_realized_cost s + realized,
                 cs_baseline_cost := cs_baseline_cost s + baseline,
                 cs_cost_samples := sat_add (cs_cost_samples s) 1\<rparr>
          else s
      | _ \<Rightarrow> s)"

definition add_quality :: "shared_canary_observation \<Rightarrow> shared_canary_snapshot \<Rightarrow> shared_canary_snapshot" where
  "add_quality ob s =
     (case co_quality_loss ob of
        None \<Rightarrow> s
      | Some loss \<Rightarrow>
          if is_finite loss \<and> Fin 0 \<le> loss \<and> loss \<le> Fin 1
          then s\<lparr>cs_quality_loss := cs_quality_loss s + loss,
                 cs_quality_samples := sat_add (cs_quality_samples s) 1\<rparr>
          else s)"

definition observe_canary ::
  "shared_canary_observation \<Rightarrow> memory_canary_state \<Rightarrow> bool \<times> memory_canary_state" where
  "observe_canary ob st =
     (if co_request_id ob \<in> set (mc_seen st) then (False, st)
      else (True, st\<lparr>mc_seen := co_request_id ob # mc_seen st,
                     mc_snapshot := add_quality ob (add_cost ob (add_outcome ob (mc_snapshot st)))\<rparr>))"

definition canary_entry :: "memory_backend \<Rightarrow> str \<Rightarrow> memory_canary_state" where
  "canary_entry b rollout = (case map_of (mb_canary b) rollout of None \<Rightarrow> memory_canary_default | Some st \<Rightarrow> st)"

definition record_canary ::
  "memory_backend \<Rightarrow> shared_canary_observation \<Rightarrow> f64 \<Rightarrow> f64 \<Rightarrow>
   (state_backend_error, bool) result \<times> memory_backend" where
  "record_canary b ob window now =
     (case validate_canary_inputs ob window of
        Inl e \<Rightarrow> (Inl e, b)
      | Inr _ \<Rightarrow>
          (case canary_window window now of
             Inl e \<Rightarrow> (Inl e, b)
           | Inr w \<Rightarrow>
               (case observe_canary ob (rotate_memory_canary w (canary_entry b (co_rollout_id ob))) of
                  (fresh, st) \<Rightarrow> (Inr fresh, b\<lparr>mb_canary := bt_insert (co_rollout_id ob) st (mb_canary b)\<rparr>))))"

definition clear_trip :: "f64 \<Rightarrow> memory_canary_state \<Rightarrow> memory_canary_state" where
  "clear_trip now st =
     (if mc_tripped_until st \<le> now
      then st\<lparr>mc_tripped_until := Fin 0, mc_snapshot := (mc_snapshot st)\<lparr>cs_tripped_reason := None\<rparr>\<rparr>
      else st)"

definition canary_snapshot ::
  "memory_backend \<Rightarrow> str \<Rightarrow> f64 \<Rightarrow> f64 \<Rightarrow>
   (state_backend_error, shared_canary_snapshot) result \<times> memory_backend" where
  "canary_snapshot b rollout window now =
     (if rollout = [] \<or> 128 < str_len rollout then (Inl Unavailable, b)
      else
        case canary_window window now of
          Inl e \<Rightarrow> (Inl e, b)
        | Inr w \<Rightarrow>
            let st = clear_trip now (rotate_memory_canary w (canary_entry b rollout))
            in (Inr (mc_snapshot st), b\<lparr>mb_canary := bt_insert rollout st (mb_canary b)\<rparr>))"

definition trip_canary ::
  "memory_backend \<Rightarrow> str \<Rightarrow> str \<Rightarrow> f64 \<Rightarrow> f64 \<Rightarrow> (state_backend_error, unit) result \<times> memory_backend" where
  "trip_canary b rollout reason hold now =
     (if rollout = [] \<or> 128 < str_len rollout \<or> reason = [] \<or> 128 < str_len reason \<or>
         \<not> is_finite hold \<or> hold \<le> Fin 0
      then (Inl Unavailable, b)
      else
        let st = canary_entry b rollout;
            st' = st\<lparr>mc_tripped_until := f_max (mc_tripped_until st) (now + hold),
                     mc_snapshot := (mc_snapshot st)\<lparr>cs_tripped_reason := Some reason\<rparr>\<rparr>
        in (Inr (), b\<lparr>mb_canary := bt_insert rollout st' (mb_canary b)\<rparr>))"

end
