(* ===== verification/Access.thy ===== *)
theory Access
  imports State_Backend Json
begin

text \<open>
  Authentication and admission of \<open>wayfinder-gateway/src/auth.rs\<close> and \<open>access.rs\<close>: virtual keys by
  digest, and the gateway, workspace and key limiters consulted for one request. A limiter is shared
  by reference (all keys of a workspace hold the same one), so the limiters live in a store and the
  policy holds references. The hash function is a parameter; the clock reading is an argument.
\<close>

section \<open>Virtual keys\<close>

text \<open>\<open>sha256\<close> is the digest, as bytes, of a string's UTF-8 encoding.\<close>

type_synonym digest = "str \<Rightarrow> nat list"

definition hash_key :: "digest \<Rightarrow> str \<Rightarrow> str" where
  "hash_key sha256 presented = hex_encode (sha256 presented)"

definition hex_nibble :: "nat \<Rightarrow> nat option" where
  "hex_nibble c =
     (if 48 \<le> c \<and> c \<le> 57 then Some (c - 48)
      else if 97 \<le> c \<and> c \<le> 102 then Some (c - 97 + 10)
      else if 65 \<le> c \<and> c \<le> 70 then Some (c - 65 + 10)
      else None)"

fun hex_pairs :: "str \<Rightarrow> nat list option" where
  "hex_pairs [] = Some []"
| "hex_pairs [c] = None"
| "hex_pairs (c # d # cs) =
     (case hex_nibble c of
        None \<Rightarrow> None
      | Some high \<Rightarrow>
          (case hex_nibble d of
             None \<Rightarrow> None
           | Some low \<Rightarrow> map_option (\<lambda>rest. (16 * high + low) # rest) (hex_pairs cs)))"

text \<open>A value with a non-ASCII character is rejected here and in the source alike: it is no hexadecimal digit.\<close>

definition parse_digest :: "str \<Rightarrow> nat list option" where
  "parse_digest value =
     (let v = trim value in if str_len v \<noteq> 64 then None else hex_pairs v)"

definition verify :: "digest \<Rightarrow> str \<Rightarrow> str \<Rightarrow> bool" where
  "verify sha256 presented expected_hash =
     (case parse_digest expected_hash of None \<Rightarrow> False | Some e \<Rightarrow> sha256 presented = e)"

fun match_loop :: "nat list \<Rightarrow> str option \<Rightarrow> (str \<times> str) list \<Rightarrow> str option" where
  "match_loop actual found [] = found"
| "match_loop actual found ((key_id, expected) # rest) =
     match_loop actual (if parse_digest expected = Some actual then Some key_id else found) rest"

definition match_key :: "digest \<Rightarrow> str option \<Rightarrow> (str \<times> str) list \<Rightarrow> str option" where
  "match_key sha256 presented hashes =
     (case presented of
        None \<Rightarrow> None
      | Some p \<Rightarrow> if p = [] then None else match_loop (sha256 p) None hashes)"

definition extract_bearer :: "str option \<Rightarrow> str option" where
  "extract_bearer authorization =
     (case authorization of
        None \<Rightarrow> None
      | Some a \<Rightarrow>
          let value = trim a in
          if value = [] then None
          else
            let lower = to_ascii_lowercase value in
            if lower = lit ''bearer'' \<or> prefix (lit ''bearer '') lower
            then (let token = trim (drop 6 value) in if token = [] then None else Some token)
            else Some value)"

section \<open>Policy\<close>

definition MAX_VIRTUAL_KEYS :: nat where "MAX_VIRTUAL_KEYS = 256"

definition MAX_WORKSPACES :: nat where "MAX_WORKSPACES = 256"

definition MAX_KEY_ID_BYTES :: nat where "MAX_KEY_ID_BYTES = 128"

datatype limiter_ref = GlobalLimiter | WorkspaceLimiter str | KeyLimiter str

record virtual_key_policy =
  vk_id :: str
  vk_digest :: str
  vk_workspace :: "str option"
  vk_allowed_models :: "str list"
  vk_workspace_limiter :: "limiter_ref option"
  vk_limiter :: "limiter_ref option"

datatype access_policy_error =
  TooManyKeys | TooManyWorkspaces | InvalidKeyId | AccessRateLimit rate_limit_error
  | AccessStateBackend state_backend_error

type_synonym limiter_store = "limiter_ref \<Rightarrow> rate_state"

record access_policy =
  ap_global_limiter :: "limiter_ref option"
  ap_keys :: "virtual_key_policy list"
  ap_allow_unauthenticated_default :: bool

text \<open>The parts of the gateway configuration the policy reads.\<close>

record config_rate_limit =
  cl_rpm :: "u64 option"
  cl_tpm :: "u64 option"
  cl_window :: f64

record config_workspace =
  cw_models :: "str list"
  cw_rate_limit :: "config_rate_limit option"

record config_key =
  ck_hash :: str
  ck_workspace :: "str option"
  ck_models :: "str list"
  ck_rate_limit :: "config_rate_limit option"

record access_config =
  ac_rate_limit :: "config_rate_limit option"
  ac_workspaces :: "(str \<times> config_workspace) list"
  ac_keys :: "(str \<times> config_key) list"
  ac_allow_unauthenticated_default :: bool

definition new_limiter :: "config_rate_limit \<Rightarrow> (rate_limit_error, rate_state) result" where
  "new_limiter c = rate_new (cl_rpm c) (cl_tpm c) (cl_window c)"

definition is_control :: "nat \<Rightarrow> bool" where
  "is_control c \<longleftrightarrow> c < 32 \<or> (127 \<le> c \<and> c \<le> 159)"

definition valid_key_id :: "str \<Rightarrow> bool" where
  "valid_key_id v \<longleftrightarrow> v \<noteq> [] \<and> str_len v \<le> MAX_KEY_ID_BYTES \<and> list_all (\<lambda>c. \<not> is_control c) v"

text \<open>Allocating an optional limiter at its reference.\<close>

definition install ::
  "limiter_ref \<Rightarrow> config_rate_limit option \<Rightarrow> limiter_store \<Rightarrow>
   (access_policy_error, limiter_ref option \<times> limiter_store) result" where
  "install ref c store =
     (case c of
        None \<Rightarrow> Inr (None, store)
      | Some limit \<Rightarrow>
          (case new_limiter limit of
             Inl e \<Rightarrow> Inl (AccessRateLimit e)
           | Inr st \<Rightarrow> Inr (Some ref, store(ref := st))))"

fun install_workspaces ::
  "(str \<times> config_workspace) list \<Rightarrow> (str \<times> str list \<times> limiter_ref option) list \<Rightarrow> limiter_store \<Rightarrow>
   (access_policy_error, (str \<times> str list \<times> limiter_ref option) list \<times> limiter_store) result" where
  "install_workspaces [] acc store = Inr (acc, store)"
| "install_workspaces ((i, w) # ws) acc store =
     (case install (WorkspaceLimiter i) (cw_rate_limit w) store of
        Inl e \<Rightarrow> Inl e
      | Inr (l, store') \<Rightarrow> install_workspaces ws (bt_insert i (cw_models w, l) acc) store')"

fun install_keys ::
  "(str \<times> str list \<times> limiter_ref option) list \<Rightarrow> (str \<times> config_key) list \<Rightarrow> virtual_key_policy list \<Rightarrow>
   limiter_store \<Rightarrow> (access_policy_error, virtual_key_policy list \<times> limiter_store) result" where
  "install_keys workspaces [] acc store = Inr (acc, store)"
| "install_keys workspaces ((i, k) # ks) acc store =
     (if \<not> valid_key_id i then Inl InvalidKeyId
      else
        case install (KeyLimiter i) (ck_rate_limit k) store of
          Inl e \<Rightarrow> Inl e
        | Inr (l, store') \<Rightarrow>
            let workspace = Option.bind (ck_workspace k) (map_of workspaces);
                allowed = (if ck_models k = [] then (case workspace of None \<Rightarrow> [] | Some (ms, _) \<Rightarrow> ms)
                           else ck_models k)
            in install_keys workspaces ks
                 (acc @ [\<lparr>vk_id = i, vk_digest = ck_hash k, vk_workspace = ck_workspace k,
                          vk_allowed_models = allowed,
                          vk_workspace_limiter = Option.bind workspace snd, vk_limiter = l\<rparr>]) store')"

definition access_from_config ::
  "access_config \<Rightarrow> limiter_store \<Rightarrow> (access_policy_error, access_policy \<times> limiter_store) result" where
  "access_from_config c store =
     (if MAX_VIRTUAL_KEYS < length (ac_keys c) then Inl TooManyKeys
      else if MAX_WORKSPACES < length (ac_workspaces c) then Inl TooManyWorkspaces
      else
        case install GlobalLimiter (ac_rate_limit c) store of
          Inl e \<Rightarrow> Inl e
        | Inr (global, store1) \<Rightarrow>
            (case install_workspaces (ac_workspaces c) [] store1 of
               Inl e \<Rightarrow> Inl e
             | Inr (workspaces, store2) \<Rightarrow>
                 (case install_keys workspaces (ac_keys c) [] store2 of
                    Inl e \<Rightarrow> Inl e
                  | Inr (keys, store3) \<Rightarrow>
                      Inr (\<lparr>ap_global_limiter = global, ap_keys = keys,
                            ap_allow_unauthenticated_default = ac_allow_unauthenticated_default c\<rparr>, store3))))"

text \<open>A grant is the index of the authenticated key, or none.\<close>

type_synonym access_grant = "nat option"

definition access_active :: "access_policy \<Rightarrow> bool" where
  "access_active p = (ap_global_limiter p \<noteq> None \<or> ap_keys p \<noteq> [])"

definition requires_authentication :: "access_policy \<Rightarrow> bool" where
  "requires_authentication p = (ap_keys p \<noteq> [] \<and> \<not> ap_allow_unauthenticated_default p)"

definition granted_key :: "access_policy \<Rightarrow> access_grant \<Rightarrow> virtual_key_policy option" where
  "granted_key p grant =
     (case grant of None \<Rightarrow> None | Some i \<Rightarrow> if i < length (ap_keys p) then Some (ap_keys p ! i) else None)"

definition grant_key_id :: "access_policy \<Rightarrow> access_grant \<Rightarrow> str option" where
  "grant_key_id p grant = map_option vk_id (granted_key p grant)"

definition grant_workspace_id :: "access_policy \<Rightarrow> access_grant \<Rightarrow> str option" where
  "grant_workspace_id p grant = Option.bind (granted_key p grant) vk_workspace"

definition grant_allowed_models :: "access_policy \<Rightarrow> access_grant \<Rightarrow> str list" where
  "grant_allowed_models p grant = (case granted_key p grant of None \<Rightarrow> [] | Some k \<Rightarrow> vk_allowed_models k)"

fun key_position :: "nat \<Rightarrow> str \<Rightarrow> virtual_key_policy list \<Rightarrow> nat option" where
  "key_position i key_id [] = None"
| "key_position i key_id (k # ks) = (if vk_id k = key_id then Some i else key_position (Suc i) key_id ks)"

definition authenticate :: "digest \<Rightarrow> access_policy \<Rightarrow> str option \<Rightarrow> access_grant option" where
  "authenticate sha256 p authorization =
     (if ap_keys p = [] then Some None
      else if authorization = None \<and> ap_allow_unauthenticated_default p then Some None
      else
        case match_key sha256 (extract_bearer authorization)
               (map (\<lambda>k. (vk_id k, vk_digest k)) (ap_keys p)) of
          None \<Rightarrow> None
        | Some key_id \<Rightarrow> map_option Some (key_position 0 key_id (ap_keys p)))"

section \<open>Admission\<close>

definition admit_ref ::
  "limiter_ref \<Rightarrow> f64 \<Rightarrow> limiter_store \<Rightarrow> (access_policy_error, rate_result) result \<times> limiter_store" where
  "admit_ref ref now store =
     (case admit_at (store ref) now of
        (Inl e, st) \<Rightarrow> (Inl (AccessRateLimit e), store(ref := st))
      | (Inr r, st) \<Rightarrow> (Inr r, store(ref := st)))"

definition admit_global ::
  "access_policy \<Rightarrow> f64 \<Rightarrow> limiter_store \<Rightarrow>
   (access_policy_error, rate_result option) result \<times> limiter_store" where
  "admit_global p now store =
     (case ap_global_limiter p of
        None \<Rightarrow> (Inr None, store)
      | Some ref \<Rightarrow>
          (case admit_ref ref now store of
             (Inl e, store') \<Rightarrow> (Inl e, store')
           | (Inr r, store') \<Rightarrow> (Inr (Some r), store')))"

definition workspace_ref :: "access_policy \<Rightarrow> access_grant \<Rightarrow> limiter_ref option" where
  "workspace_ref p grant = Option.bind (granted_key p grant) vk_workspace_limiter"

definition key_ref :: "access_policy \<Rightarrow> access_grant \<Rightarrow> limiter_ref option" where
  "key_ref p grant = Option.bind (granted_key p grant) vk_limiter"

definition admit_key_only ::
  "access_policy \<Rightarrow> access_grant \<Rightarrow> rate_result option \<Rightarrow> f64 \<Rightarrow> limiter_store \<Rightarrow>
   (access_policy_error, rate_result option) result \<times> limiter_store" where
  "admit_key_only p grant workspace_result now store =
     (case key_ref p grant of
        None \<Rightarrow> (Inr workspace_result, store)
      | Some ref \<Rightarrow>
          (case admit_ref ref now store of
             (Inl e, store') \<Rightarrow> (Inl e, store')
           | (Inr r, store') \<Rightarrow> (Inr (Some r), store')))"

definition admit_key ::
  "access_policy \<Rightarrow> access_grant \<Rightarrow> f64 \<Rightarrow> limiter_store \<Rightarrow>
   (access_policy_error, rate_result option) result \<times> limiter_store" where
  "admit_key p grant now store =
     (case workspace_ref p grant of
        None \<Rightarrow> admit_key_only p grant None now store
      | Some ref \<Rightarrow>
          (case admit_ref ref now store of
             (Inl e, store') \<Rightarrow> (Inl e, store')
           | (Inr r, store') \<Rightarrow>
               if \<not> rate_allowed r then (Inr (Some r), store')
               else admit_key_only p grant (Some r) now store'))"

definition snapshot_ref ::
  "limiter_ref option \<Rightarrow> f64 \<Rightarrow> limiter_store \<Rightarrow>
   (access_policy_error, rate_snapshot option) result \<times> limiter_store" where
  "snapshot_ref ref now store =
     (case ref of
        None \<Rightarrow> (Inr None, store)
      | Some r \<Rightarrow>
          (case snapshot_at (store r) now of
             (Inl e, st) \<Rightarrow> (Inl (AccessRateLimit e), store(r := st))
           | (Inr s, st) \<Rightarrow> (Inr s, store(r := st))))"

text \<open>\<open>min_by_key\<close> keeps the first of several least elements.\<close>

fun least_remaining :: "rate_snapshot list \<Rightarrow> rate_snapshot option" where
  "least_remaining [] = None"
| "least_remaining (s # ss) =
     (case least_remaining ss of
        None \<Rightarrow> Some s
      | Some t \<Rightarrow> if sn_remaining t < sn_remaining s then Some t else Some s)"

definition some_list :: "'a option \<Rightarrow> 'a list" where
  "some_list x = (case x of None \<Rightarrow> [] | Some y \<Rightarrow> [y])"

definition tightest_snapshot ::
  "access_policy \<Rightarrow> access_grant \<Rightarrow> f64 \<Rightarrow> limiter_store \<Rightarrow>
   (access_policy_error, rate_snapshot option) result \<times> limiter_store" where
  "tightest_snapshot p grant now store =
     (case snapshot_ref (ap_global_limiter p) now store of
        (Inl e, store1) \<Rightarrow> (Inl e, store1)
      | (Inr g, store1) \<Rightarrow>
          (case snapshot_ref (key_ref p grant) now store1 of
             (Inl e, store2) \<Rightarrow> (Inl e, store2)
           | (Inr k, store2) \<Rightarrow>
               (case snapshot_ref (workspace_ref p grant) now store2 of
                  (Inl e, store3) \<Rightarrow> (Inl e, store3)
                | (Inr w, store3) \<Rightarrow>
                    (Inr (least_remaining (some_list g @ some_list w @ some_list k)), store3))))"

text \<open>The limiters of a grant, in the order the gateway consults them.\<close>

definition grant_limiters :: "access_policy \<Rightarrow> access_grant \<Rightarrow> limiter_ref list" where
  "grant_limiters p grant =
     some_list (ap_global_limiter p) @ some_list (workspace_ref p grant) @ some_list (key_ref p grant)"

fun add_tokens_refs ::
  "limiter_ref list \<Rightarrow> u64 \<Rightarrow> f64 \<Rightarrow> limiter_store \<Rightarrow> (access_policy_error, unit) result \<times> limiter_store" where
  "add_tokens_refs [] tokens now store = (Inr (), store)"
| "add_tokens_refs (r # rs) tokens now store =
     (case add_tokens_at (store r) tokens now of
        (Inl e, st) \<Rightarrow> (Inl (AccessRateLimit e), store(r := st))
      | (Inr _, st) \<Rightarrow> add_tokens_refs rs tokens now (store(r := st)))"

definition add_tokens ::
  "access_policy \<Rightarrow> access_grant \<Rightarrow> u64 \<Rightarrow> f64 \<Rightarrow> limiter_store \<Rightarrow>
   (access_policy_error, unit) result \<times> limiter_store" where
  "add_tokens p grant tokens now store = add_tokens_refs (grant_limiters p grant) tokens now store"

definition token_limits_active :: "access_policy \<Rightarrow> access_grant \<Rightarrow> limiter_store \<Rightarrow> bool" where
  "token_limits_active p grant store = list_ex (\<lambda>r. tokens_active (store r)) (grant_limiters p grant)"

datatype token_decision = Reserved "(limiter_ref \<times> rate_reservation) list" | Rejected rate_result

definition reserve_ref ::
  "u64 \<Rightarrow> f64 \<Rightarrow> limiter_store \<Rightarrow> limiter_ref \<Rightarrow>
   (rate_limit_error, reservation_result) result \<times> limiter_store" where
  "reserve_ref tokens now store r =
     (case reserve_tokens_at (store r) tokens now of (res, st) \<Rightarrow> (res, store(r := st)))"

definition rollback_ref :: "f64 \<Rightarrow> limiter_store \<Rightarrow> limiter_ref \<Rightarrow> rate_reservation \<Rightarrow> limiter_store" where
  "rollback_ref now store r v = store(r := snd (rollback_at (store r) v now))"

definition rollback_entries ::
  "f64 \<Rightarrow> (limiter_ref \<times> rate_reservation) list \<Rightarrow> limiter_store \<Rightarrow> limiter_store" where
  "rollback_entries now entries store = fold (\<lambda>(r, v) s. rollback_ref now s r v) entries store"

fun reserve_loop ::
  "limiter_ref list \<Rightarrow> (limiter_ref \<times> rate_reservation) list \<Rightarrow> u64 \<Rightarrow> f64 \<Rightarrow> limiter_store \<Rightarrow>
   (access_policy_error, token_decision) result \<times> limiter_store" where
  "reserve_loop [] entries tokens now store = (Inr (Reserved entries), store)"
| "reserve_loop (r # rs) entries tokens now store =
     (case reserve_ref tokens now store r of
        (Inl e, store') \<Rightarrow> (Inl (AccessRateLimit e), store')
      | (Inr res, store') \<Rightarrow>
          if \<not> rate_allowed (rr_rate res)
          then (Inr (Rejected (rr_rate res)), rollback_entries now (rev entries) store')
          else reserve_loop rs
                 (case rr_reservation res of None \<Rightarrow> entries | Some v \<Rightarrow> entries @ [(r, v)])
                 tokens now store')"

definition reserve_local_tokens ::
  "access_policy \<Rightarrow> access_grant \<Rightarrow> u64 \<Rightarrow> f64 \<Rightarrow> limiter_store \<Rightarrow>
   (access_policy_error, token_decision) result \<times> limiter_store" where
  "reserve_local_tokens p grant tokens now store =
     reserve_loop (grant_limiters p grant) [] tokens now store"

fun reconcile_entries ::
  "(limiter_ref \<times> rate_reservation) list \<Rightarrow> u64 \<Rightarrow> f64 \<Rightarrow> limiter_store \<Rightarrow>
   (access_policy_error, unit) result \<times> limiter_store" where
  "reconcile_entries [] actual now store = (Inr (), store)"
| "reconcile_entries ((r, v) # es) actual now store =
     (case reconcile_at (store r) v actual now of
        (Inl e, st) \<Rightarrow> (Inl (AccessRateLimit e), store(r := st))
      | (Inr _, st) \<Rightarrow> reconcile_entries es actual now (store(r := st)))"

section \<open>Keys are matched by digest\<close>

lemma match_loop_Some:
  "match_loop actual found hs = Some k \<longleftrightarrow>
     (\<exists>i < length hs. fst (hs ! i) = k \<and> parse_digest (snd (hs ! i)) = Some actual \<and>
        (\<forall>j. i < j \<and> j < length hs \<longrightarrow> parse_digest (snd (hs ! j)) \<noteq> Some actual)) \<or>
     (found = Some k \<and> (\<forall>h \<in> set hs. parse_digest (snd h) \<noteq> Some actual))"
proof (induction hs arbitrary: found rule: rev_induct)
  case Nil
  then show ?case by simp
next
  case (snoc h hs)
  have last: "match_loop actual found (hs @ [h]) =
      (if parse_digest (snd h) = Some actual then Some (fst h) else match_loop actual found hs)"
    by (induction hs arbitrary: found) (cases h; auto)+
  show ?case
  proof (cases "parse_digest (snd h) = Some actual")
    case True
    have "\<not> (i < length hs \<and> (\<forall>j. i < j \<and> j < length (hs @ [h]) \<longrightarrow>
        parse_digest (snd ((hs @ [h]) ! j)) \<noteq> Some actual))" for i
      using True by (metis length_append_singleton lessI nth_append_length)
    then show ?thesis using True unfolding last
      by (auto simp: nth_append less_Suc_eq)
  next
    case False
    then show ?thesis unfolding last using snoc.IH [of found]
      by (auto simp: nth_append less_Suc_eq)
  qed
qed

lemma key_position_Some:
  "key_position n k ks = Some i \<longleftrightarrow>
     n \<le> i \<and> i < n + length ks \<and> vk_id (ks ! (i - n)) = k \<and> (\<forall>j < i - n. vk_id (ks ! j) \<noteq> k)"
proof (induction ks arbitrary: n)
  case Nil
  then show ?case by simp
next
  case (Cons x xs)
  show ?case
  proof (cases "vk_id x = k")
    case True
    then show ?thesis by (auto simp: nth_Cons split: nat.splits)
  next
    case False
    have "(\<forall>j < i - n. vk_id ((x # xs) ! j) \<noteq> k) \<longleftrightarrow> (\<forall>j < i - Suc n. vk_id (xs ! j) \<noteq> k)"
      if "Suc n \<le> i"
    proof -
      from that obtain d where "i - n = Suc d" "i - Suc n = d" by (cases "i - n") auto
      then show ?thesis using False by (auto simp: nth_Cons split: nat.splits)
    qed
    then show ?thesis using False Cons.IH [of "Suc n"]
      by (cases "n = i") (auto simp: nth_Cons Suc_le_eq diff_Suc split: nat.splits)
  qed
qed

lemma key_position_distinct:
  assumes "distinct (map vk_id ks)" "i < length ks"
  shows "key_position 0 (vk_id (ks ! i)) ks = Some i"
  using assms by (auto simp: key_position_Some distinct_conv_nth)

text \<open>The last key with the digest is the one granted.\<close>

lemma granted_index:
  assumes "distinct (map vk_id ks)"
  shows "Option.bind (match_loop d None (map (\<lambda>k. (vk_id k, vk_digest k)) ks))
      (\<lambda>k. map_option Some (key_position 0 k ks)) = Some (Some i) \<longleftrightarrow>
    i < length ks \<and> parse_digest (vk_digest (ks ! i)) = Some d \<and>
    (\<forall>j. i < j \<and> j < length ks \<longrightarrow> parse_digest (vk_digest (ks ! j)) \<noteq> Some d)"
  (is "?granted \<longleftrightarrow> ?last i")
proof
  assume ?granted
  then obtain k where "match_loop d None (map (\<lambda>k. (vk_id k, vk_digest k)) ks) = Some k"
    and pos: "key_position 0 k ks = Some i"
    by (auto simp: bind_eq_Some_conv)
  then obtain i' where "vk_id (ks ! i') = k" "?last i'"
    by (auto simp: match_loop_Some)
  moreover from this have "i' = i" using pos key_position_distinct [OF assms, of i'] by simp
  ultimately show "?last i" by simp
next
  assume last: "?last i"
  then have "match_loop d None (map (\<lambda>k. (vk_id k, vk_digest k)) ks) = Some (vk_id (ks ! i))"
    unfolding match_loop_Some by (intro disjI1 exI [of _ i]) simp
  then show ?granted using last key_position_distinct [OF assms, of i] by simp
qed

lemma extract_bearer_None: "extract_bearer None = None"
  by (simp add: extract_bearer_def)

lemma extract_bearer_nonempty: "extract_bearer a \<noteq> Some []"
  by (simp add: extract_bearer_def Let_def split: option.split)

text \<open>
  C14. Authentication with distinct key ids. Without configured keys every request is anonymous; with
  them, a request without an authorization header is anonymous exactly when the configuration allows
  it; every other request is granted a key just when it presents a non-empty token whose digest is the
  one configured for that key and for no later key, and is refused when no key has that digest.
\<close>

theorem authentication:
  assumes "distinct (map vk_id (ap_keys p))"
  shows "(authenticate sha256 p authorization = Some None \<longleftrightarrow>
      ap_keys p = [] \<or> authorization = None \<and> ap_allow_unauthenticated_default p) \<and>
    (authenticate sha256 p authorization = Some (Some i) \<longleftrightarrow>
      i < length (ap_keys p) \<and>
      (\<exists>token. extract_bearer authorization = Some token \<and>
        parse_digest (vk_digest (ap_keys p ! i)) = Some (sha256 token) \<and>
        (\<forall>j. i < j \<and> j < length (ap_keys p) \<longrightarrow>
           parse_digest (vk_digest (ap_keys p ! j)) \<noteq> Some (sha256 token))))"
proof (cases "ap_keys p = [] \<or> authorization = None \<and> ap_allow_unauthenticated_default p")
  case True
  then show ?thesis by (auto simp: authenticate_def extract_bearer_None)
next
  case False
  let ?ks = "ap_keys p" let ?hs = "map (\<lambda>k. (vk_id k, vk_digest k)) ?ks"
  have auth: "authenticate sha256 p authorization =
      Option.bind (extract_bearer authorization) (\<lambda>token.
        Option.bind (match_loop (sha256 token) None ?hs)
          (\<lambda>k. map_option Some (key_position 0 k ?ks)))"
    using False extract_bearer_nonempty [of authorization]
    by (cases "extract_bearer authorization") (auto simp: authenticate_def match_key_def split: option.splits)
  show ?thesis using False granted_index [OF assms] unfolding auth
    by (auto simp: bind_eq_Some_conv)
qed

definition is_digest :: "nat list \<Rightarrow> bool" where
  "is_digest bs \<longleftrightarrow> length bs = 32 \<and> list_all (\<lambda>b. b < 256) bs"

lemma hex_nibble_digit: "n < 16 \<Longrightarrow> hex_nibble (hex_digit n) = Some n"
  by (auto simp: hex_nibble_def hex_digit_def)

lemma hex_pairs_encode: "list_all (\<lambda>b. b < 256) bs \<Longrightarrow> hex_pairs (hex_encode bs) = Some bs"
proof (induction bs)
  case (Cons b bs)
  have "16 * (b div 16) + b mod 16 = b" by simp
  moreover have "b div 16 < 16" using Cons.prems by auto
  ultimately show ?case using Cons by (simp add: hex_nibble_digit)
qed simp

lemma hex_encode_plain:
  "list_all (\<lambda>b. b < 256) bs \<Longrightarrow> c \<in> set (hex_encode bs) \<Longrightarrow> \<not> is_whitespace c \<and> len_utf8 c = 1"
proof (induction bs)
  case (Cons b bs)
  have "\<not> is_whitespace (hex_digit n) \<and> len_utf8 (hex_digit n) = 1" if "n < 16" for n
    using that by (auto simp: hex_digit_def is_whitespace_def len_utf8_def)
  moreover have "b div 16 < 16" "b mod 16 < 16" using Cons.prems by auto
  ultimately show ?case using Cons by auto
qed simp

lemma length_hex_encode: "length (hex_encode bs) = 2 * length bs"
  by (induction bs) auto

lemma parse_digest_encode:
  assumes "is_digest bs"
  shows "parse_digest (hex_encode bs) = Some bs"
proof -
  let ?s = "hex_encode bs"
  have all: "list_all (\<lambda>b. b < 256) bs" and len: "length ?s = 64"
    using assms by (simp_all add: is_digest_def length_hex_encode)
  then have "?s \<noteq> []" by auto
  then have "trim ?s = ?s"
    using hex_encode_plain [OF all] by (intro trim_id) (meson hd_in_set last_in_set)
  moreover have "map len_utf8 ?s = replicate 64 1"
    using hex_encode_plain [OF all] len by (intro nth_equalityI) auto
  ultimately show ?thesis
    using hex_pairs_encode [OF all] by (simp add: parse_digest_def str_len_def sum_list_replicate)
qed

text \<open>
  For a hash with 32-byte digests, the text stored for a key verifies exactly the tokens with the
  same digest.
\<close>

theorem hash_key_roundtrip:
  assumes "\<And>s. is_digest (sha256 s)"
  shows "verify sha256 presented (hash_key sha256 secret) \<longleftrightarrow> sha256 presented = sha256 secret"
  using parse_digest_encode [OF assms] by (auto simp: verify_def hash_key_def)

definition sample_sha :: digest where
  "sample_sha s = replicate 31 0 @ [sum_list s mod 256]"

lemma sample_sha_digest: "is_digest (sample_sha s)"
  by (simp add: sample_sha_def is_digest_def list_all_iff)

lemma sample_digest: "parse_digest (hash_key sample_sha s) = Some (sample_sha s)"
  by (simp add: hash_key_def parse_digest_encode sample_sha_digest)

theorem hash_key_roundtrip_witness:
  "is_digest (sample_sha (lit ''wf-secret'')) \<and>
   verify sample_sha (lit ''wf-secret'') (hash_key sample_sha (lit ''wf-secret''))"
  using hash_key_roundtrip [of sample_sha, OF sample_sha_digest] by (simp add: sample_sha_digest)

definition sample_policy :: access_policy where
  "sample_policy = \<lparr>ap_global_limiter = Some GlobalLimiter,
     ap_keys = [\<lparr>vk_id = lit ''a'', vk_digest = hash_key sample_sha (lit ''wf-one''), vk_workspace = None,
                 vk_allowed_models = [], vk_workspace_limiter = None, vk_limiter = Some (KeyLimiter (lit ''a''))\<rparr>,
                \<lparr>vk_id = lit ''b'', vk_digest = hash_key sample_sha (lit ''wf-two''), vk_workspace = None,
                 vk_allowed_models = [], vk_workspace_limiter = None, vk_limiter = None\<rparr>],
     ap_allow_unauthenticated_default = False\<rparr>"

theorem authentication_witness:
  "distinct (map vk_id (ap_keys sample_policy)) \<and>
   authenticate sample_sha sample_policy (Some (lit ''Bearer wf-one'')) = Some (Some 0) \<and>
   authenticate sample_sha sample_policy None \<noteq> Some None"
proof -
  have d: "distinct (map vk_id (ap_keys sample_policy))"
    by (simp add: sample_policy_def lit_def)
  have t: "extract_bearer (Some (lit ''Bearer wf-one'')) = Some (lit ''wf-one'')" by code_simp
  have "sample_sha (lit ''wf-two'') \<noteq> sample_sha (lit ''wf-one'')" by code_simp
  then have "\<forall>j. 0 < j \<and> j < length (ap_keys sample_policy) \<longrightarrow>
      parse_digest (vk_digest (ap_keys sample_policy ! j)) \<noteq> Some (sample_sha (lit ''wf-one''))"
    by (auto simp: sample_policy_def sample_digest less_Suc_eq simp del: lit_def)
  then have "authenticate sample_sha sample_policy (Some (lit ''Bearer wf-one'')) = Some (Some 0)"
    using authentication [OF d, of sample_sha "Some (lit ''Bearer wf-one'')" 0] t
    by (simp only: t option.inject) (simp add: sample_policy_def sample_digest)
  then show ?thesis
    using d authentication [OF d, of sample_sha None 0] by (simp add: sample_policy_def)
qed

section \<open>A refused reservation leaves no trace\<close>

text \<open>
  What a reservation over several scopes relies on: each scope has a counter that only its own
  operations change; undoing a granted reservation, or not being granted one, gives a counter
  equivalent to the one before. \<open>addr\<close> names a scope's counter, \<open>room\<close> says that it does not
  saturate, and \<open>usable\<close> holds of the scopes that can grant anything.
\<close>

locale undoable_scopes =
  fixes addr :: "'r \<Rightarrow> 'a"
    and view :: "'b \<Rightarrow> 'r \<Rightarrow> 's"
    and reserve :: "'b \<Rightarrow> 'r \<Rightarrow> ('e, reservation_result) result \<times> 'b"
    and undo :: "'b \<Rightarrow> 'r \<Rightarrow> rate_reservation \<Rightarrow> 'b"
    and undone :: "'s \<Rightarrow> rate_reservation \<Rightarrow> 's"
    and eqv :: "'s \<Rightarrow> 's \<Rightarrow> bool"
    and room :: "'s \<Rightarrow> bool"
    and usable :: "'r \<Rightarrow> bool"
  assumes eqv_refl: "eqv s s"
    and undo_own: "usable r \<Longrightarrow> view (undo b r v) r = undone (view b r) v"
    and undo_other: "addr r' \<noteq> addr r \<Longrightarrow> view (undo b r v) r' = view b r'"
    and reserve_other: "addr r' \<noteq> addr r \<Longrightarrow> view (snd (reserve b r)) r' = view b r'"
    and granted: "room (view b r) \<Longrightarrow> reserve b r = (Inr res, b') \<Longrightarrow> rr_reservation res = Some v \<Longrightarrow>
      eqv (view b r) (undone (view b' r) v)"
    and granted_usable: "reserve b r = (Inr res, b') \<Longrightarrow> usable r"
    and not_granted: "reserve b r = (Inr res, b') \<Longrightarrow> rr_reservation res = None \<Longrightarrow> eqv (view b r) (view b' r)"
    and refused: "reserve b r = (Inr res, b') \<Longrightarrow> \<not> rate_allowed (rr_rate res) \<Longrightarrow> rr_reservation res = None"
    and failed: "reserve b r = (Inl e, b') \<Longrightarrow> eqv (view b r) (view b' r)"
begin

text \<open>
  Scopes with an entry come back when it is undone, the others are as they were. The scopes considered
  have counters of their own.
\<close>

definition held :: "'r set \<Rightarrow> 'b \<Rightarrow> ('r \<times> rate_reservation) list \<Rightarrow> 'b \<Rightarrow> bool" where
  "held scopes start entries b \<longleftrightarrow>
     distinct (map fst entries) \<and> inj_on addr scopes \<and> fst ` set entries \<subseteq> scopes \<and>
     list_all (\<lambda>e. usable (fst e)) entries \<and>
     (\<forall>r\<in>scopes. case map_of entries r of
            None \<Rightarrow> eqv (view start r) (view b r)
          | Some v \<Rightarrow> eqv (view start r) (undone (view b r) v))"

lemma held_start: "inj_on addr scopes \<Longrightarrow> held scopes b [] b"
  by (simp add: held_def eqv_refl)

lemma undo_all_view:
  assumes "inj_on addr scopes" "fst ` set entries \<subseteq> scopes" "distinct (map fst entries)" "r \<in> scopes"
    "list_all (\<lambda>e. usable (fst e)) entries"
  shows "view (fold (\<lambda>(r, v) b. undo b r v) entries b) r =
     (case map_of entries r of None \<Rightarrow> view b r | Some v \<Rightarrow> undone (view b r) v)"
  using assms
proof (induction entries arbitrary: b)
  case (Cons e es)
  obtain r' v where e: "e = (r', v)" by (cases e)
  have "map_of es r' = None" using Cons.prems(3) by (simp add: e map_of_eq_None_iff)
  moreover have "view (undo b r' v) r = (if r = r' then undone (view b r) v else view b r)"
    using Cons.prems by (cases "r = r'") (auto simp: e undo_own intro!: undo_other dest: inj_onD)
  ultimately show ?case using Cons.IH [of "undo b r' v"] Cons.prems by (cases "r = r'"; cases "map_of es r") (simp_all add: e)
qed simp

lemma undo_held:
  assumes "held scopes start entries b" "r \<in> scopes"
  shows "eqv (view start r) (view (fold (\<lambda>(r, v) b. undo b r v) (rev entries) b) r)"
proof -
  have "map_of (rev entries) = map_of entries"
    using assms by (intro map_of_inject_set [THEN iffD2]) (auto simp: held_def rev_map [symmetric])
  moreover have "case map_of entries r of None \<Rightarrow> eqv (view start r) (view b r)
      | Some v \<Rightarrow> eqv (view start r) (undone (view b r) v)"
    using assms unfolding held_def by blast
  moreover have "inj_on addr scopes" "fst ` set (rev entries) \<subseteq> scopes" "distinct (map fst (rev entries))"
    "list_all (\<lambda>e. usable (fst e)) (rev entries)"
    using assms by (auto simp: held_def rev_map [symmetric])
  ultimately show ?thesis
    using undo_all_view [of scopes "rev entries" r b] assms(2) by (cases "map_of entries r") simp_all
qed

lemma held_other:
  assumes "held scopes start entries b" "r' \<in> scopes" "r \<in> scopes" "r' \<noteq> r"
  shows "view (snd (reserve b r)) r' = view b r'"
  using assms by (intro reserve_other) (auto simp: held_def dest: inj_onD)

lemma held_step:
  assumes h: "held scopes start entries b" and res: "reserve b r = (Inr res, b')"
    and r: "view b r = view start r" "room (view start r)" "r \<in> scopes" "r \<notin> fst ` set entries"
  shows "held scopes start (case rr_reservation res of None \<Rightarrow> entries | Some v \<Rightarrow> entries @ [(r, v)]) b'"
proof -
  have other: "view b' r' = view b r'" if "r' \<in> scopes" "r' \<noteq> r" for r'
    using held_other [OF h that(1) r(3) that(2)] res by simp
  have none: "map_of entries r = None" using r(4) by (simp add: map_of_eq_None_iff)
  have old: "case map_of entries r' of None \<Rightarrow> eqv (view start r') (view b' r')
      | Some v \<Rightarrow> eqv (view start r') (undone (view b' r') v)" if "r' \<in> scopes" "r' \<noteq> r" for r'
    using h that other [OF that] unfolding held_def by metis
  show ?thesis
  proof (cases "rr_reservation res")
    case None
    then have "eqv (view start r) (view b' r)" using not_granted [OF res] r(1) by simp
    then have "case map_of entries r' of None \<Rightarrow> eqv (view start r') (view b' r')
        | Some v \<Rightarrow> eqv (view start r') (undone (view b' r') v)" if "r' \<in> scopes" for r'
      using none old that by (cases "r' = r") auto
    then show ?thesis using h None by (simp add: held_def)
  next
    case (Some v)
    then have "eqv (view start r) (undone (view b' r) v)" using granted [OF _ res] r by simp
    moreover have "map_of (entries @ [(r, v)]) r' = map_of entries r'" if "r' \<noteq> r" for r'
      using that by (auto simp: map_add_def split: option.splits)
    moreover have "map_of (entries @ [(r, v)]) r = Some v" using none by (simp add: map_add_def)
    ultimately have "case map_of (entries @ [(r, v)]) r' of None \<Rightarrow> eqv (view start r') (view b' r')
        | Some v \<Rightarrow> eqv (view start r') (undone (view b' r') v)" if "r' \<in> scopes" for r'
      using old that by (cases "r' = r") (simp_all del: map_of_append)
    then show ?thesis using h Some r granted_usable [OF res] by (simp add: held_def del: map_of_append)
  qed
qed

lemma held_failed:
  assumes h: "held scopes start entries b" and res: "reserve b r = (Inl e, b')"
    and r: "view b r = view start r" "r \<in> scopes" "r \<notin> fst ` set entries"
  shows "held scopes start entries b'"
proof -
  have other: "view b' r' = view b r'" if "r' \<in> scopes" "r' \<noteq> r" for r'
    using held_other [OF h that(1) r(2) that(2)] res by simp
  have "map_of entries r = None" "eqv (view start r) (view b' r)"
    using r failed [OF res] by (simp_all add: map_of_eq_None_iff)
  moreover have "case map_of entries r' of None \<Rightarrow> eqv (view start r') (view b' r')
      | Some v \<Rightarrow> eqv (view start r') (undone (view b' r') v)" if "r' \<in> scopes" "r' \<noteq> r" for r'
    using h that other [OF that] unfolding held_def by metis
  ultimately have "case map_of entries r' of None \<Rightarrow> eqv (view start r') (view b' r')
      | Some v \<Rightarrow> eqv (view start r') (undone (view b' r') v)" if "r' \<in> scopes" for r'
    using that by (cases "r' = r") auto
  then show ?thesis using h by (simp add: held_def)
qed

end

text \<open>The same limiter, possibly moved to a later window.\<close>

definition rolled :: "rate_state \<Rightarrow> rate_state \<Rightarrow> bool" where
  "rolled s s' \<longleftrightarrow> s' = s \<or> (case rs_window_id s' of None \<Rightarrow> False | Some w \<Rightarrow> s' = enter_window w s)"

lemma rolled_enter_window [simp]: "rolled s s" "rolled s (enter_window w s)"
  by (simp_all add: rolled_def)

definition room_for :: "u64 \<Rightarrow> rate_state \<Rightarrow> bool" where
  "room_for tokens s \<longleftrightarrow> rs_tokens s + tokens \<le> u64_max"

lemma reserve_inner_time: "reserve_inner st n req now = (Inr r, st') \<Longrightarrow> validate_time now = Inr ()"
  by (auto simp: reserve_inner_def split: sum.splits)

lemma reserve_tokens_undone:
  assumes room: "room_for tokens s" and r: "reserve_tokens_at s tokens now = (Inr r, s')"
    and v: "rr_reservation r = Some v"
  shows "rolled s (snd (rollback_at s' v now))" "fst (rollback_at s' v now) = Inr True"
proof -
  have now: "validate_time now = Inr ()" using r by (auto simp: reserve_tokens_at_def dest: reserve_inner_time)
  have "\<exists>w. rollback_at s' v now = (Inr True, enter_window w s)"
    using r [unfolded reserve_tokens_at_def]
  proof (cases rule: reserve_inner_cases)
    case (charged w)
    have "rs_tokens (enter_window w s) + tokens \<le> u64_max"
      using room by (auto simp: enter_window_def room_for_def)
    then have "rollback_at s' v now = (Inr True, enter_window w s)"
      using charged v now by (auto simp: rollback_at_def Let_def sat_add_def sat_sub_def charge_def)
    then show ?thesis by blast
  qed (use v in \<open>cases r; auto\<close>)+
  then show "rolled s (snd (rollback_at s' v now))" "fst (rollback_at s' v now) = Inr True" by auto
qed

lemma reserve_tokens_rolled:
  "reserve_tokens_at s tokens now = (Inr r, s') \<Longrightarrow> rr_reservation r = None \<Longrightarrow> rolled s s'"
  "reserve_tokens_at s tokens now = (Inl e, s') \<Longrightarrow> rolled s s'"
  unfolding reserve_tokens_at_def by (cases rule: reserve_inner_cases, assumption; simp)+

lemma reserve_tokens_refused:
  "reserve_tokens_at s tokens now = (Inr r, s') \<Longrightarrow> \<not> rate_allowed (rr_rate r) \<Longrightarrow> rr_reservation r = None"
  unfolding reserve_tokens_at_def
  by (cases rule: reserve_inner_cases, assumption; cases r; cases "rr_reservation r")
    (auto simp: admitted_def rate_allowed_def)

interpretation token_scopes: undoable_scopes "\<lambda>r. r" "\<lambda>store r. store r" "reserve_ref tokens now"
    "rollback_ref now" "\<lambda>st v. snd (rollback_at st v now)" rolled "room_for tokens" "\<lambda>_. True"
  for tokens now
  by unfold_locales
    (auto simp: reserve_ref_def rollback_ref_def split: prod.splits
      intro: reserve_tokens_undone reserve_tokens_rolled reserve_tokens_refused)

lemma reserve_loop_outcome:
  assumes "reserve_loop rs entries tokens now store = (Inr d, store')"
    and "token_scopes.held now UNIV start entries store" "distinct rs" "\<And>r. r \<in> set rs \<Longrightarrow> store r = start r"
    and "\<And>r. r \<in> set rs \<Longrightarrow> room_for tokens (start r)" "set rs \<inter> fst ` set entries = {}"
  shows "case d of
      Reserved es \<Rightarrow> token_scopes.held now UNIV start es store'
    | Rejected _ \<Rightarrow> \<forall>r. rolled (start r) (store' r)"
  using assms
proof (induction rs arbitrary: entries store)
  case Nil
  then show ?case by auto
next
  case (Cons r rs)
  obtain res st where res: "reserve_ref tokens now store r = (Inr res, st)"
    using Cons.prems(1) by (cases "reserve_ref tokens now store r") (auto split: sum.splits)
  have step: "token_scopes.held now UNIV start
      (case rr_reservation res of None \<Rightarrow> entries | Some v \<Rightarrow> entries @ [(r, v)]) st"
    using Cons.prems res by (intro token_scopes.held_step [OF Cons.prems(2)]) auto
  have same: "st r' = start r'" if "r' \<in> set rs" for r'
  proof -
    have "r' \<noteq> r" using Cons.prems(3) that by auto
    then have "st r' = store r'" using token_scopes.reserve_other [of r' r tokens now store] res by simp
    then show ?thesis using Cons.prems(4) that by simp
  qed
  show ?case
  proof (cases "rate_allowed (rr_rate res)")
    case True
    then show ?thesis
      using same Cons.prems res by (intro Cons.IH [OF _ step]) (auto split: option.splits)
  next
    case False
    then have "token_scopes.held now UNIV start entries st"
      using step token_scopes.refused [OF res] by simp
    then show ?thesis
      using Cons.prems(1) res False token_scopes.undo_held by (auto simp: rollback_entries_def)
  qed
qed

text \<open>Every limiter of a policy built from configuration has its own reference.\<close>

definition workspace_slot :: "limiter_ref option \<Rightarrow> bool" where
  "workspace_slot l \<longleftrightarrow> (case l of Some GlobalLimiter \<Rightarrow> False | Some (KeyLimiter _) \<Rightarrow> False | _ \<Rightarrow> True)"

definition key_slot :: "limiter_ref option \<Rightarrow> bool" where
  "key_slot l \<longleftrightarrow> (case l of Some GlobalLimiter \<Rightarrow> False | Some (WorkspaceLimiter _) \<Rightarrow> False | _ \<Rightarrow> True)"

definition own_references :: "virtual_key_policy list \<Rightarrow> bool" where
  "own_references ks \<longleftrightarrow> list_all (\<lambda>k. workspace_slot (vk_workspace_limiter k) \<and> key_slot (vk_limiter k)) ks"

lemma install_reference: "install ref c store = Inr (l, store') \<Longrightarrow> l = None \<or> l = Some ref"
  by (auto simp: install_def split: option.splits sum.splits)

lemma install_workspaces_references:
  "install_workspaces ws acc store = Inr (acc', store') \<Longrightarrow>
   \<forall>i e. map_of acc i = Some e \<longrightarrow> workspace_slot (snd e) \<Longrightarrow>
   map_of acc' i = Some e \<Longrightarrow> workspace_slot (snd e)"
proof (induction ws acc store rule: install_workspaces.induct)
  case (2 i w ws acc store)
  obtain l st where l: "install (WorkspaceLimiter i) (cw_rate_limit w) store = Inr (l, st)"
    using "2.prems"(1) by (auto split: sum.splits)
  then have "workspace_slot l" by (auto simp: workspace_slot_def dest: install_reference)
  then have "\<forall>j e. map_of (bt_insert i (cw_models w, l) acc) j = Some e \<longrightarrow> workspace_slot (snd e)"
    using "2.prems"(2) by (auto simp: map_of_bt_insert)
  then show ?case using "2.IH" [OF l refl] "2.prems"(1,3) l by simp
next
  case (1 acc store)
  then show ?case by (cases e) auto
qed

lemma install_keys_references:
  "install_keys workspaces ks acc store = Inr (acc', store') \<Longrightarrow>
   \<forall>i e. map_of workspaces i = Some e \<longrightarrow> workspace_slot (snd e) \<Longrightarrow>
   own_references acc \<Longrightarrow> own_references acc'"
proof (induction workspaces ks acc store rule: install_keys.induct)
  case (2 workspaces i k ks acc store)
  obtain l st where l: "install (KeyLimiter i) (ck_rate_limit k) store = Inr (l, st)"
    and valid: "valid_key_id i"
    using "2.prems"(1) by (auto split: sum.splits if_splits)
  have "key_slot l" using install_reference [OF l] by (auto simp: key_slot_def)
  moreover have "workspace_slot (Option.bind (Option.bind (ck_workspace k) (map_of workspaces)) snd)"
  proof (cases "Option.bind (ck_workspace k) (map_of workspaces)")
    case None
    then show ?thesis by (simp add: workspace_slot_def)
  next
    case (Some e)
    then show ?thesis using "2.prems"(2) by (cases e) (auto simp: bind_eq_Some_conv)
  qed
  ultimately show ?case
    using "2.IH" [OF _ l refl] "2.prems" l valid by (auto simp: own_references_def Let_def)
qed simp

lemma grant_limiters_distinct:
  assumes "access_from_config c store0 = Inr (p, store1)"
  shows "distinct (grant_limiters p grant)"
proof -
  obtain g s1 ws s2 ks where "install GlobalLimiter (ac_rate_limit c) store0 = Inr (g, s1)"
    and ws: "install_workspaces (ac_workspaces c) [] s1 = Inr (ws, s2)"
    and ks: "install_keys ws (ac_keys c) [] s2 = Inr (ks, store1)"
    and p: "ap_global_limiter p = g" "ap_keys p = ks"
    using assms by (auto simp: access_from_config_def split: if_splits sum.splits prod.splits)
  then have g: "g = None \<or> g = Some GlobalLimiter" by (auto dest: install_reference)
  have "own_references ks"
    using install_keys_references [OF ks] install_workspaces_references [OF ws]
    by (auto simp: own_references_def)
  then have k: "workspace_slot (vk_workspace_limiter k) \<and> key_slot (vk_limiter k)"
    if "granted_key p grant = Some k" for k
    using that p by (auto simp: granted_key_def own_references_def list_all_length split: option.splits if_splits)
  show ?thesis
  proof (cases "granted_key p grant")
    case None
    then show ?thesis
      by (auto simp: grant_limiters_def workspace_ref_def key_ref_def some_list_def split: option.splits)
  next
    case (Some key)
    then show ?thesis using g p(1) k [OF Some]
      by (auto simp: grant_limiters_def workspace_ref_def key_ref_def some_list_def workspace_slot_def
          key_slot_def split: option.splits limiter_ref.splits)
  qed
qed

text \<open>
  Reserving tokens for a request is all or nothing. With a policy built from configuration and
  counters that do not saturate, a reservation refused by any of the gateway, workspace and key
  limiters leaves every limiter as it was, up to having entered the current window; and undoing the
  entries of a successful reservation restores every limiter in the same sense.
\<close>

theorem reservation_all_or_nothing:
  assumes "access_from_config c store0 = Inr (p, store1)"
    and "list_all (\<lambda>r. room_for tokens (store r)) (grant_limiters p grant)"
    and "reserve_local_tokens p grant tokens now store = (Inr d, store')"
  shows "rolled (store r)
    ((case d of
        Rejected _ \<Rightarrow> store'
      | Reserved entries \<Rightarrow> rollback_entries now (rev entries) store') r)"
proof -
  have "case d of Reserved es \<Rightarrow> token_scopes.held now UNIV store es store'
      | Rejected _ \<Rightarrow> \<forall>r. rolled (store r) (store' r)"
    using assms grant_limiters_distinct [OF assms(1)]
    by (intro reserve_loop_outcome [where rs = "grant_limiters p grant" and entries = "[]"
          and store = store and tokens = tokens])
      (auto simp: reserve_local_tokens_def list_all_iff intro: token_scopes.held_start)
  then show ?thesis
    using token_scopes.undo_held by (cases d) (auto simp: rollback_entries_def)
qed

definition sample_access :: access_config where
  "sample_access = \<lparr>ac_rate_limit = Some \<lparr>cl_rpm = Some 2, cl_tpm = Some 100, cl_window = Fin 60\<rparr>,
     ac_workspaces = [],
     ac_keys = [([97], \<lparr>ck_hash = [], ck_workspace = None, ck_models = [],
       ck_rate_limit = Some \<lparr>cl_rpm = None, cl_tpm = Some 10, cl_window = Fin 60\<rparr>\<rparr>)],
     ac_allow_unauthenticated_default = False\<rparr>"

definition key_limiter :: rate_state where
  "key_limiter = \<lparr>rs_configuration = \<lparr>rc_rpm = None, rc_tpm = Some 10, rc_window_seconds = Fin 60\<rparr>,
     rs_window_id = None, rs_requests = 0, rs_tokens = 0\<rparr>"

definition sample_keys :: access_policy where
  "sample_keys = \<lparr>ap_global_limiter = Some GlobalLimiter,
     ap_keys = [\<lparr>vk_id = [97], vk_digest = [], vk_workspace = None, vk_allowed_models = [],
       vk_workspace_limiter = None, vk_limiter = Some (KeyLimiter [97])\<rparr>],
     ap_allow_unauthenticated_default = False\<rparr>"

definition sample_store :: limiter_store where
  "sample_store = (\<lambda>_. rate_default)(GlobalLimiter := sample_limiter, KeyLimiter [97] := key_limiter)"

lemma sample_access_built:
  "access_from_config sample_access (\<lambda>_. rate_default) = Inr (sample_keys, sample_store)"
proof -
  have "rate_new None (Some 10) (Fin 60) = Inr key_limiter"
    by (simp add: rate_new_def validated_configuration_def key_limiter_def less_eq_f64_def)
  then show ?thesis
    by (simp add: access_from_config_def sample_access_def install_def new_limiter_def sample_limiter_new
        sample_keys_def sample_store_def valid_key_id_def is_control_def str_len_def len_utf8_def
        MAX_VIRTUAL_KEYS_def MAX_WORKSPACES_def MAX_KEY_ID_BYTES_def Let_def)
qed

lemma sample_reservations:
  "reserve_tokens_at sample_limiter 40 (Fin 0) = (Inr \<lparr>rr_rate = admitted, rr_reservation =
     Some \<lparr>rv_window_id = 0, rv_reserved_tokens = 40, rv_reserved_request = False\<rparr>\<rparr>,
     charge 40 False (enter_window 0 sample_limiter))"
  "reserve_tokens_at key_limiter 40 (Fin 0) =
    (Inr \<lparr>rr_rate = rejected Tokens (enter_window 0 key_limiter) (Fin 0), rr_reservation = None\<rparr>,
     enter_window 0 key_limiter)"
proof -
  have "roll sample_limiter (Fin 0) = Inr (enter_window 0 sample_limiter)"
    "roll key_limiter (Fin 0) = Inr (enter_window 0 key_limiter)"
    by (rule roll_at_zero; simp add: sample_limiter_def key_limiter_def)+
  then show "reserve_tokens_at sample_limiter 40 (Fin 0) = (Inr \<lparr>rr_rate = admitted, rr_reservation =
     Some \<lparr>rv_window_id = 0, rv_reserved_tokens = 40, rv_reserved_request = False\<rparr>\<rparr>,
     charge 40 False (enter_window 0 sample_limiter))"
    "reserve_tokens_at key_limiter 40 (Fin 0) =
    (Inr \<lparr>rr_rate = rejected Tokens (enter_window 0 key_limiter) (Fin 0), rr_reservation = None\<rparr>,
     enter_window 0 key_limiter)"
    by (simp_all add: reserve_tokens_at_def reserve_inner_def validate_time_def tokens_exhausted_def)
      (simp_all add: sample_limiter_def key_limiter_def enter_window_def sat_add_def u64_max_def)
qed

theorem reservation_all_or_nothing_witness:
  "fst (reserve_local_tokens sample_keys (Some 0) 40 (Fin 0) sample_store) =
     Inr (Rejected (rejected Tokens (enter_window 0 key_limiter) (Fin 0))) \<and>
   rolled sample_limiter (snd (reserve_local_tokens sample_keys (Some 0) 40 (Fin 0) sample_store) GlobalLimiter)"
proof -
  have refs: "grant_limiters sample_keys (Some 0) = [GlobalLimiter, KeyLimiter [97]]"
    by (simp add: grant_limiters_def sample_keys_def workspace_ref_def key_ref_def granted_key_def some_list_def)
  then have out: "fst (reserve_local_tokens sample_keys (Some 0) 40 (Fin 0) sample_store) =
     Inr (Rejected (rejected Tokens (enter_window 0 key_limiter) (Fin 0)))"
    by (simp add: reserve_local_tokens_def reserve_ref_def sample_store_def sample_reservations rate_allowed_def admitted_def
        rejected_def)
  then have "reserve_local_tokens sample_keys (Some 0) 40 (Fin 0) sample_store =
      (Inr (Rejected (rejected Tokens (enter_window 0 key_limiter) (Fin 0))),
       snd (reserve_local_tokens sample_keys (Some 0) 40 (Fin 0) sample_store))"
    by (simp add: prod_eq_iff)
  from reservation_all_or_nothing [OF sample_access_built _ this, of GlobalLimiter] out
  show ?thesis
    by (simp add: refs) (simp add: sample_store_def room_for_def u64_max_def sample_limiter_def key_limiter_def)
qed

end
