(* ===== verification/Shared_Access.thy ===== *)
theory Shared_Access
  imports Access
begin

text \<open>
  The fleet-wide half of \<open>wayfinder-gateway/src/access.rs\<close>: \<open>SharedAccessPolicy\<close>, which consults a
  state backend for the same three scopes, and the operations of \<open>AccessPolicy\<close> that prefer it and
  fall back on the local limiters. The backend is a table of operations (the trait \<open>StateBackend\<close>) on
  a state of its own; the process-local backend is one instance. The component encoding of keys
  (URL-safe Base64) is the parameter \<open>enc\<close>.
\<close>

section \<open>Backends and shared policy\<close>

record 'b backend =
  bk_admit :: "'b \<Rightarrow> str \<Rightarrow> state_limit_config \<Rightarrow> f64 \<Rightarrow> (state_backend_error, rate_result) result \<times> 'b"
  bk_reserve_tokens :: "'b \<Rightarrow> str \<Rightarrow> state_limit_config \<Rightarrow> u64 \<Rightarrow> f64 \<Rightarrow>
    (state_backend_error, reservation_result) result \<times> 'b"
  bk_reconcile :: "'b \<Rightarrow> str \<Rightarrow> state_limit_config \<Rightarrow> rate_reservation \<Rightarrow> u64 \<Rightarrow> f64 \<Rightarrow>
    (state_backend_error, bool) result \<times> 'b"
  bk_rollback :: "'b \<Rightarrow> str \<Rightarrow> state_limit_config \<Rightarrow> rate_reservation \<Rightarrow> f64 \<Rightarrow>
    (state_backend_error, bool) result \<times> 'b"
  bk_add_tokens :: "'b \<Rightarrow> str \<Rightarrow> state_limit_config \<Rightarrow> u64 \<Rightarrow> f64 \<Rightarrow> (state_backend_error, unit) result \<times> 'b"
  bk_snapshot :: "'b \<Rightarrow> str \<Rightarrow> state_limit_config \<Rightarrow> f64 \<Rightarrow>
    (state_backend_error, rate_snapshot option) result \<times> 'b"

definition memory_ops :: "memory_backend backend" where
  "memory_ops =
     \<lparr>bk_admit = memory_admit, bk_reserve_tokens = memory_reserve_tokens, bk_reconcile = memory_reconcile,
      bk_rollback = memory_rollback, bk_add_tokens = memory_add_tokens, bk_snapshot = memory_snapshot\<rparr>"

definition global_limit_key :: str where
  "global_limit_key = lit ''global''"

definition workspace_limit_key :: "(str \<Rightarrow> str) \<Rightarrow> str \<Rightarrow> str" where
  "workspace_limit_key enc i = lit ''workspace:'' @ enc i"

definition virtual_key_limit_key :: "(str \<Rightarrow> str) \<Rightarrow> str \<Rightarrow> str" where
  "virtual_key_limit_key enc i = lit ''virtual-key:'' @ enc i"

record shared_limit =
  sl_key :: str
  sl_config :: state_limit_config

record shared_key_policy =
  sk_workspace :: "shared_limit option"
  sk_limiter :: "shared_limit option"

record shared_access_policy =
  sp_global :: "shared_limit option"
  sp_keys :: "shared_key_policy list"

record 'b shared_state =
  sh_backend :: 'b
  sh_degraded :: bool

definition shared_limit_config :: "config_rate_limit \<Rightarrow> state_limit_config" where
  "shared_limit_config l = \<lparr>lc_rpm = cl_rpm l, lc_tpm = cl_tpm l, lc_window_seconds = cl_window l\<rparr>"

definition shared_workspaces ::
  "(str \<Rightarrow> str) \<Rightarrow> (str \<times> config_workspace) list \<Rightarrow> (str \<times> shared_limit) list" where
  "shared_workspaces enc ws =
     fold (\<lambda>(i, w) m. case cw_rate_limit w of
             None \<Rightarrow> m
           | Some l \<Rightarrow> bt_insert i \<lparr>sl_key = workspace_limit_key enc i, sl_config = shared_limit_config l\<rparr> m) ws []"

definition shared_access_new :: "(str \<Rightarrow> str) \<Rightarrow> access_config \<Rightarrow> shared_access_policy" where
  "shared_access_new enc c =
     \<lparr>sp_global = map_option (\<lambda>l. \<lparr>sl_key = global_limit_key, sl_config = shared_limit_config l\<rparr>) (ac_rate_limit c),
      sp_keys = map (\<lambda>(i, k).
        \<lparr>sk_workspace = Option.bind (ck_workspace k) (map_of (shared_workspaces enc (ac_workspaces c))),
         sk_limiter = map_option (\<lambda>l. \<lparr>sl_key = virtual_key_limit_key enc i, sl_config = shared_limit_config l\<rparr>)
                        (ck_rate_limit k)\<rparr>) (ac_keys c)\<rparr>"

definition shared_key :: "shared_access_policy \<Rightarrow> access_grant \<Rightarrow> shared_key_policy option" where
  "shared_key sp grant =
     (case grant of None \<Rightarrow> None | Some i \<Rightarrow> if i < length (sp_keys sp) then Some (sp_keys sp ! i) else None)"

section \<open>Shared operations\<close>

definition shared_admit_global ::
  "'b backend \<Rightarrow> shared_access_policy \<Rightarrow> f64 \<Rightarrow> 'b \<Rightarrow> (state_backend_error, rate_result option) result \<times> 'b" where
  "shared_admit_global ops sp now b =
     (case sp_global sp of
        None \<Rightarrow> (Inr None, b)
      | Some l \<Rightarrow>
          (case bk_admit ops b (sl_key l) (sl_config l) now of
             (Inl e, b') \<Rightarrow> (Inl e, b')
           | (Inr r, b') \<Rightarrow> (Inr (Some r), b')))"

text \<open>A scope that is absent or admits lets the next one decide.\<close>

definition shared_admit_scope ::
  "'b backend \<Rightarrow> f64 \<Rightarrow> shared_limit option \<Rightarrow>
   ('b \<Rightarrow> (state_backend_error, rate_result option) result \<times> 'b) \<Rightarrow> 'b \<Rightarrow>
   (state_backend_error, rate_result option) result \<times> 'b" where
  "shared_admit_scope ops now scope continue b =
     (case scope of
        None \<Rightarrow> continue b
      | Some l \<Rightarrow>
          (case bk_admit ops b (sl_key l) (sl_config l) now of
             (Inl e, b') \<Rightarrow> (Inl e, b')
           | (Inr r, b') \<Rightarrow> if \<not> rate_allowed r then (Inr (Some r), b') else continue b'))"

definition shared_admit_key ::
  "'b backend \<Rightarrow> shared_access_policy \<Rightarrow> access_grant \<Rightarrow> f64 \<Rightarrow> 'b \<Rightarrow>
   (state_backend_error, rate_result option) result \<times> 'b" where
  "shared_admit_key ops sp grant now b =
     (case shared_key sp grant of
        None \<Rightarrow> (Inr None, b)
      | Some k \<Rightarrow>
          shared_admit_scope ops now (sk_workspace k)
            (shared_admit_scope ops now (sk_limiter k) (\<lambda>b'. (Inr None, b'))) b)"

text \<open>The scopes of a grant, in the order they are consulted.\<close>

definition shared_scopes_of :: "shared_access_policy \<Rightarrow> access_grant \<Rightarrow> shared_limit list" where
  "shared_scopes_of sp grant =
     some_list (sp_global sp) @
     (case shared_key sp grant of
        None \<Rightarrow> []
      | Some k \<Rightarrow> some_list (sk_workspace k) @ some_list (sk_limiter k))"

fun shared_snapshots ::
  "'b backend \<Rightarrow> f64 \<Rightarrow> shared_limit list \<Rightarrow> rate_snapshot list \<Rightarrow> 'b \<Rightarrow>
   (state_backend_error, rate_snapshot list) result \<times> 'b" where
  "shared_snapshots ops now [] acc b = (Inr acc, b)"
| "shared_snapshots ops now (l # ls) acc b =
     (case bk_snapshot ops b (sl_key l) (sl_config l) now of
        (Inl e, b') \<Rightarrow> (Inl e, b')
      | (Inr s, b') \<Rightarrow> shared_snapshots ops now ls (acc @ some_list s) b')"

definition shared_snapshot ::
  "'b backend \<Rightarrow> shared_access_policy \<Rightarrow> access_grant \<Rightarrow> f64 \<Rightarrow> 'b \<Rightarrow>
   (state_backend_error, rate_snapshot option) result \<times> 'b" where
  "shared_snapshot ops sp grant now b =
     (case shared_snapshots ops now (shared_scopes_of sp grant) [] b of
        (Inl e, b') \<Rightarrow> (Inl e, b')
      | (Inr ss, b') \<Rightarrow> (Inr (least_remaining ss), b'))"

fun shared_add_tokens ::
  "'b backend \<Rightarrow> shared_limit list \<Rightarrow> u64 \<Rightarrow> f64 \<Rightarrow> 'b \<Rightarrow> (state_backend_error, unit) result \<times> 'b" where
  "shared_add_tokens ops [] tokens now b = (Inr (), b)"
| "shared_add_tokens ops (l # ls) tokens now b =
     (case bk_add_tokens ops b (sl_key l) (sl_config l) tokens now of
        (Inl e, b') \<Rightarrow> (Inl e, b')
      | (Inr _, b') \<Rightarrow> shared_add_tokens ops ls tokens now b')"

datatype shared_reservation_error = Clean | Unsafe state_backend_error

datatype shared_decision =
  SharedReserved "(shared_limit \<times> rate_reservation) list" | SharedRejected rate_result

definition rollback_shared ::
  "'b backend \<Rightarrow> f64 \<Rightarrow> 'b \<Rightarrow> shared_limit \<Rightarrow> rate_reservation \<Rightarrow> (state_backend_error, bool) result \<times> 'b" where
  "rollback_shared ops now b l v = bk_rollback ops b (sl_key l) (sl_config l) v now"

text \<open>Rolling entries back in order; the flag says whether any rollback failed.\<close>

fun rollback_all ::
  "'b backend \<Rightarrow> f64 \<Rightarrow> (shared_limit \<times> rate_reservation) list \<Rightarrow> bool \<Rightarrow> 'b \<Rightarrow> bool \<times> 'b" where
  "rollback_all ops now [] bad b = (bad, b)"
| "rollback_all ops now ((l, v) # es) bad b =
     (case rollback_shared ops now b l v of
        (Inl _, b') \<Rightarrow> rollback_all ops now es True b'
      | (Inr _, b') \<Rightarrow> rollback_all ops now es bad b')"

definition token_limited :: "shared_access_policy \<Rightarrow> access_grant \<Rightarrow> shared_limit list" where
  "token_limited sp grant = filter (\<lambda>l. lc_tpm (sl_config l) \<noteq> None) (shared_scopes_of sp grant)"

definition reserve_shared ::
  "'b backend \<Rightarrow> u64 \<Rightarrow> f64 \<Rightarrow> 'b \<Rightarrow> shared_limit \<Rightarrow> (state_backend_error, reservation_result) result \<times> 'b" where
  "reserve_shared ops tokens now b l = bk_reserve_tokens ops b (sl_key l) (sl_config l) tokens now"

fun reserve_shared_loop ::
  "'b backend \<Rightarrow> shared_limit list \<Rightarrow> (shared_limit \<times> rate_reservation) list \<Rightarrow> u64 \<Rightarrow> f64 \<Rightarrow> 'b shared_state \<Rightarrow>
   (shared_reservation_error, shared_decision) result \<times> 'b shared_state" where
  "reserve_shared_loop ops [] entries tokens now st =
     (Inr (SharedReserved entries), st\<lparr>sh_degraded := False\<rparr>)"
| "reserve_shared_loop ops (l # ls) entries tokens now st =
     (case reserve_shared ops tokens now (sh_backend st) l of
        (Inl e, b) \<Rightarrow>
          (case rollback_all ops now (rev entries) False b of
             (bad, b') \<Rightarrow> (Inl (if bad then Unsafe e else Clean), st\<lparr>sh_backend := b'\<rparr>))
      | (Inr res, b) \<Rightarrow>
          if \<not> rate_allowed (rr_rate res)
          then (case rollback_all ops now (rev entries) False b of
                  (bad, b') \<Rightarrow> (Inr (SharedRejected (rr_rate res)),
                                st\<lparr>sh_backend := b', sh_degraded := (if bad then True else sh_degraded st)\<rparr>))
          else reserve_shared_loop ops ls
                 (case rr_reservation res of None \<Rightarrow> entries | Some v \<Rightarrow> entries @ [(l, v)])
                 tokens now (st\<lparr>sh_backend := b\<rparr>))"

definition shared_reserve_tokens ::
  "'b backend \<Rightarrow> shared_access_policy \<Rightarrow> access_grant \<Rightarrow> u64 \<Rightarrow> f64 \<Rightarrow> 'b shared_state \<Rightarrow>
   (shared_reservation_error, shared_decision) result \<times> 'b shared_state" where
  "shared_reserve_tokens ops sp grant tokens now st =
     reserve_shared_loop ops (token_limited sp grant) [] tokens now st"

section \<open>Falling back on local limiters\<close>

text \<open>The state behind an access policy: the local limiters and, with a backend, the shared state.\<close>

record 'b access_state =
  as_store :: limiter_store
  as_shared :: "'b shared_state"

datatype token_entry = LocalEntry limiter_ref rate_reservation | SharedEntry shared_limit rate_reservation

datatype reservation_decision = TokensReserved "token_entry list" | TokensRejected rate_result

definition local_reservation ::
  "access_policy \<Rightarrow> access_grant \<Rightarrow> u64 \<Rightarrow> f64 \<Rightarrow> 'b access_state \<Rightarrow>
   (access_policy_error, reservation_decision) result \<times> 'b access_state" where
  "local_reservation p grant tokens now s =
     (case reserve_local_tokens p grant tokens now (as_store s) of
        (Inl e, store) \<Rightarrow> (Inl e, s\<lparr>as_store := store\<rparr>)
      | (Inr (Rejected r), store) \<Rightarrow> (Inr (TokensRejected r), s\<lparr>as_store := store\<rparr>)
      | (Inr (Reserved es), store) \<Rightarrow>
          (Inr (TokensReserved (map (\<lambda>(r, v). LocalEntry r v) es)), s\<lparr>as_store := store\<rparr>))"

definition reserve_tokens ::
  "'b backend \<Rightarrow> access_policy \<Rightarrow> shared_access_policy option \<Rightarrow> access_grant \<Rightarrow> u64 \<Rightarrow> f64 \<Rightarrow> 'b access_state \<Rightarrow>
   (access_policy_error, reservation_decision) result \<times> 'b access_state" where
  "reserve_tokens ops p shared grant tokens now s =
     (case shared of
        None \<Rightarrow> local_reservation p grant tokens now s
      | Some sp \<Rightarrow>
          (case shared_reserve_tokens ops sp grant tokens now (as_shared s) of
             (Inr (SharedReserved es), st) \<Rightarrow>
               (Inr (TokensReserved (map (\<lambda>(l, v). SharedEntry l v) es)), s\<lparr>as_shared := st\<rparr>)
           | (Inr (SharedRejected r), st) \<Rightarrow> (Inr (TokensRejected r), s\<lparr>as_shared := st\<rparr>)
           | (Inl Clean, st) \<Rightarrow> local_reservation p grant tokens now (s\<lparr>as_shared := st\<lparr>sh_degraded := True\<rparr>\<rparr>)
           | (Inl (Unsafe e), st) \<Rightarrow> (Inl (AccessStateBackend e), s\<lparr>as_shared := st\<lparr>sh_degraded := True\<rparr>\<rparr>)))"

fun reconcile_tokens ::
  "'b backend \<Rightarrow> token_entry list \<Rightarrow> u64 \<Rightarrow> f64 \<Rightarrow> 'b access_state \<Rightarrow>
   (access_policy_error, unit) result \<times> 'b access_state" where
  "reconcile_tokens ops [] actual now s = (Inr (), s)"
| "reconcile_tokens ops (LocalEntry r v # es) actual now s =
     (case reconcile_at (as_store s r) v actual now of
        (Inl e, st) \<Rightarrow> (Inl (AccessRateLimit e), s\<lparr>as_store := (as_store s)(r := st)\<rparr>)
      | (Inr _, st) \<Rightarrow> reconcile_tokens ops es actual now (s\<lparr>as_store := (as_store s)(r := st)\<rparr>))"
| "reconcile_tokens ops (SharedEntry l v # es) actual now s =
     (case bk_reconcile ops (sh_backend (as_shared s)) (sl_key l) (sl_config l) v actual now of
        (Inl e, b) \<Rightarrow> (Inl (AccessStateBackend e), s\<lparr>as_shared := (as_shared s)\<lparr>sh_backend := b\<rparr>\<rparr>)
      | (Inr _, b) \<Rightarrow> reconcile_tokens ops es actual now (s\<lparr>as_shared := (as_shared s)\<lparr>sh_backend := b\<rparr>\<rparr>))"

text \<open>
  Admission and snapshots prefer the shared state: an answer clears the degraded mark, a failure sets it
  and the local limiters decide.
\<close>

definition prefer_shared ::
  "('b \<Rightarrow> (state_backend_error, 'a) result \<times> 'b) \<Rightarrow>
   (limiter_store \<Rightarrow> (access_policy_error, 'a) result \<times> limiter_store) \<Rightarrow>
   'b access_state \<Rightarrow> (access_policy_error, 'a) result \<times> 'b access_state" where
  "prefer_shared remote fallback s =
     (case remote (sh_backend (as_shared s)) of
        (Inr r, b) \<Rightarrow> (Inr r, s\<lparr>as_shared := \<lparr>sh_backend = b, sh_degraded = False\<rparr>\<rparr>)
      | (Inl _, b) \<Rightarrow>
          (case fallback (as_store s) of
             (r, store) \<Rightarrow> (r, \<lparr>as_store = store, as_shared = \<lparr>sh_backend = b, sh_degraded = True\<rparr>\<rparr>)))"

definition local_only ::
  "(limiter_store \<Rightarrow> (access_policy_error, 'a) result \<times> limiter_store) \<Rightarrow>
   'b access_state \<Rightarrow> (access_policy_error, 'a) result \<times> 'b access_state" where
  "local_only f s = (case f (as_store s) of (r, store) \<Rightarrow> (r, s\<lparr>as_store := store\<rparr>))"

definition admit_shared_global ::
  "'b backend \<Rightarrow> access_policy \<Rightarrow> shared_access_policy option \<Rightarrow> f64 \<Rightarrow> 'b access_state \<Rightarrow>
   (access_policy_error, rate_result option) result \<times> 'b access_state" where
  "admit_shared_global ops p shared now s =
     (case shared of
        None \<Rightarrow> local_only (admit_global p now) s
      | Some sp \<Rightarrow> prefer_shared (shared_admit_global ops sp now) (admit_global p now) s)"

definition admit_shared_key ::
  "'b backend \<Rightarrow> access_policy \<Rightarrow> shared_access_policy option \<Rightarrow> access_grant \<Rightarrow> f64 \<Rightarrow> 'b access_state \<Rightarrow>
   (access_policy_error, rate_result option) result \<times> 'b access_state" where
  "admit_shared_key ops p shared grant now s =
     (case shared of
        None \<Rightarrow> local_only (admit_key p grant now) s
      | Some sp \<Rightarrow> prefer_shared (shared_admit_key ops sp grant now) (admit_key p grant now) s)"

definition tightest_snapshot_shared ::
  "'b backend \<Rightarrow> access_policy \<Rightarrow> shared_access_policy option \<Rightarrow> access_grant \<Rightarrow> f64 \<Rightarrow> 'b access_state \<Rightarrow>
   (access_policy_error, rate_snapshot option) result \<times> 'b access_state" where
  "tightest_snapshot_shared ops p shared grant now s =
     (case shared of
        None \<Rightarrow> local_only (tightest_snapshot p grant now) s
      | Some sp \<Rightarrow> prefer_shared (shared_snapshot ops sp grant now) (tightest_snapshot p grant now) s)"

definition add_shared_tokens ::
  "'b backend \<Rightarrow> shared_access_policy option \<Rightarrow> access_grant \<Rightarrow> u64 \<Rightarrow> f64 \<Rightarrow> 'b access_state \<Rightarrow>
   (access_policy_error, unit) result \<times> 'b access_state" where
  "add_shared_tokens ops shared grant tokens now s =
     (case shared of
        None \<Rightarrow> (Inr (), s)
      | Some sp \<Rightarrow>
          (case shared_add_tokens ops (shared_scopes_of sp grant) tokens now (sh_backend (as_shared s)) of
             (r, b) \<Rightarrow> (Inr (), s\<lparr>as_shared := \<lparr>sh_backend = b, sh_degraded = \<not> is_ok r\<rparr>\<rparr>)))"

section \<open>Reservations over a backend\<close>

text \<open>
  A backend whose token reservations can be undone: the contract of \<open>undoable_scopes\<close> for its
  operations, and rolling back what it granted does not fail.
\<close>

locale reservation_backend =
  undoable_scopes sl_key view "reserve_shared ops tokens now"
    "\<lambda>b l v. snd (rollback_shared ops now b l v)" undone eqv room usable
  for ops :: "'b backend" and view :: "'b \<Rightarrow> shared_limit \<Rightarrow> 's" and undone eqv room usable tokens now +
  assumes rollback_ok: "reserve_shared ops tokens now b l = (Inr res, b') \<Longrightarrow> rr_reservation res = Some v \<Longrightarrow>
    is_ok (fst (rollback_shared ops now b2 l v))"
begin

lemma rollback_all_eq:
  "list_all (\<lambda>(l, v). \<forall>b. is_ok (fst (rollback_shared ops now b l v))) es \<Longrightarrow>
   rollback_all ops now es bad b = (bad, fold (\<lambda>(l, v) b. snd (rollback_shared ops now b l v)) es b)"
proof (induction es arbitrary: b)
  case (Cons e es)
  obtain l v where e: "e = (l, v)" by (cases e)
  then have "is_ok (fst (rollback_shared ops now b l v))" using Cons.prems by simp
  then obtain x where "fst (rollback_shared ops now b l v) = Inr x"
    by (cases "fst (rollback_shared ops now b l v)") auto
  then show ?case using Cons e by (auto split: prod.splits)
qed simp

text \<open>Every entry of the loop can be rolled back.\<close>

definition undoable :: "(shared_limit \<times> rate_reservation) list \<Rightarrow> bool" where
  "undoable es \<longleftrightarrow> list_all (\<lambda>(l, v). \<forall>b. is_ok (fst (rollback_shared ops now b l v))) es"

lemma reserve_shared_loop_outcome:
  assumes "held (set scopes) start entries (sh_backend st)" "undoable entries" "distinct ls" "set ls \<subseteq> set scopes"
    and "\<And>l. l \<in> set ls \<Longrightarrow> view (sh_backend st) l = view start l \<and> room (view start l)"
    and "set ls \<inter> fst ` set entries = {}"
    and "reserve_shared_loop ops ls entries tokens now st = (out, st')"
  shows "case out of
      Inr (SharedReserved es) \<Rightarrow> held (set scopes) start es (sh_backend st') \<and> undoable es
    | Inl (Unsafe e) \<Rightarrow> False
    | _ \<Rightarrow> \<forall>l\<in>set scopes. eqv (view start l) (view (sh_backend st') l)"
  using assms
proof (induction ls arbitrary: entries st)
  case Nil
  then show ?case by auto
next
  case (Cons l ls)
  let ?b = "sh_backend st"
  have undo: "rollback_all ops now (rev entries) False b =
      (False, fold (\<lambda>(l, v) b. snd (rollback_shared ops now b l v)) (rev entries) b)" for b
    using Cons.prems(2) by (intro rollback_all_eq) (auto simp: undoable_def list_all_iff)
  show ?case
  proof (cases "reserve_shared ops tokens now ?b l")
    case (Pair r b)
    show ?thesis
    proof (cases r)
      case (Inl e)
      have "held (set scopes) start entries b"
        using Cons.prems Pair Inl by (intro held_failed [OF Cons.prems(1)]) auto
      then show ?thesis using Cons.prems(7) Pair Inl undo by (auto intro: undo_held)
    next
      case (Inr res)
      have step: "held (set scopes) start
          (case rr_reservation res of None \<Rightarrow> entries | Some v \<Rightarrow> entries @ [(l, v)]) b"
        using Cons.prems Pair Inr by (intro held_step [OF Cons.prems(1)]) auto
      show ?thesis
      proof (cases "rate_allowed (rr_rate res)")
        case False
        then have "held (set scopes) start entries b" using step refused Pair Inr by auto
        then show ?thesis using Cons.prems(7) Pair Inr False undo by (auto intro: undo_held)
      next
        case True
        have "undoable (case rr_reservation res of None \<Rightarrow> entries | Some v \<Rightarrow> entries @ [(l, v)])"
          using Cons.prems(2) rollback_ok [of ?b l res b] Pair Inr by (auto simp: undoable_def split: option.splits)
        moreover have "view b l' = view start l'" if "l' \<in> set ls" for l'
          using held_other [OF Cons.prems(1), of l' l] Cons.prems(3,4,5) that Pair by auto
        ultimately show ?thesis
          using Cons.prems True Pair Inr
          by (intro Cons.IH [where st = "st\<lparr>sh_backend := b\<rparr>"
                and entries = "case rr_reservation res of None \<Rightarrow> entries | Some v \<Rightarrow> entries @ [(l, v)]"])
            (auto simp: step split: option.splits)
      qed
    qed
  qed
qed

end

subsection \<open>The process-local backend\<close>

text \<open>The limiter a scope has or would get on first use.\<close>

definition limiter_view :: "memory_backend \<Rightarrow> shared_limit \<Rightarrow> rate_state" where
  "limiter_view b l =
     (case map_of (mb_limiters b) (sl_key l) of
        Some st \<Rightarrow> st
      | None \<Rightarrow>
          (case rate_new (lc_rpm (sl_config l)) (lc_tpm (sl_config l)) (lc_window_seconds (sl_config l)) of
             Inl _ \<Rightarrow> rate_default
           | Inr st \<Rightarrow> st))"

definition valid_limit :: "shared_limit \<Rightarrow> bool" where
  "valid_limit l \<longleftrightarrow> is_ok (validate_limit (sl_config l))"

lemma validate_limit_cases:
  "validate_limit c = (if is_finite (lc_window_seconds c) \<and> \<not> lc_window_seconds c \<le> Fin 0
     then Inr c else Inl BackendInvalidWindow)"
  by (simp add: validate_limit_def)

lemma limiter_for_valid:
  assumes "valid_limit l"
  shows "\<exists>ls. limiter_for (mb_limiters b) (sl_key l) (sl_config l) = Inr (limiter_view b l, ls) \<and>
     (\<forall>k. k \<noteq> sl_key l \<longrightarrow> map_of ls k = map_of (mb_limiters b) k)"
proof -
  have "\<exists>st. rate_new (lc_rpm (sl_config l)) (lc_tpm (sl_config l)) (lc_window_seconds (sl_config l)) = Inr st"
    using assms by (auto simp: valid_limit_def validate_limit_cases rate_new_def validated_configuration_def
        split: if_splits)
  then show ?thesis
    by (auto simp: limiter_for_def limiter_view_def map_of_bt_insert split: option.splits)
qed

lemma on_limiter_valid:
  assumes "valid_limit l" "f (limiter_view b l) = (r, st)"
  shows "fst (on_limiter f (sl_key l) (sl_config l) b) = (case r of Inl _ \<Rightarrow> Inl Unavailable | Inr x \<Rightarrow> Inr x)"
    "limiter_view (snd (on_limiter f (sl_key l) (sl_config l) b)) l = st"
    "sl_key l' \<noteq> sl_key l \<Longrightarrow> limiter_view (snd (on_limiter f (sl_key l) (sl_config l) b)) l' = limiter_view b l'"
proof -
  obtain ls where ls: "limiter_for (mb_limiters b) (sl_key l) (sl_config l) = Inr (limiter_view b l, ls)"
    "\<forall>k. k \<noteq> sl_key l \<longrightarrow> map_of ls k = map_of (mb_limiters b) k"
    using limiter_for_valid [OF assms(1)] by blast
  have run: "on_limiter f (sl_key l) (sl_config l) b =
      (case r of Inl _ \<Rightarrow> Inl Unavailable | Inr x \<Rightarrow> Inr x, b\<lparr>mb_limiters := bt_insert (sl_key l) st ls\<rparr>)"
    using assms ls(1) by (auto simp: on_limiter_def valid_limit_def validate_limit_cases split: if_splits)
  show "fst (on_limiter f (sl_key l) (sl_config l) b) = (case r of Inl _ \<Rightarrow> Inl Unavailable | Inr x \<Rightarrow> Inr x)"
    "limiter_view (snd (on_limiter f (sl_key l) (sl_config l) b)) l = st"
    "sl_key l' \<noteq> sl_key l \<Longrightarrow> limiter_view (snd (on_limiter f (sl_key l) (sl_config l) b)) l' = limiter_view b l'"
    using ls(2) unfolding run by (auto simp: limiter_view_def map_of_bt_insert)
qed

lemma on_limiter_invalid:
  "\<not> valid_limit l \<Longrightarrow> on_limiter f (sl_key l) (sl_config l) b = (Inl BackendInvalidWindow, b)"
  by (auto simp: on_limiter_def valid_limit_def validate_limit_cases split: if_splits)

lemmas memory_defs = reserve_shared_def rollback_shared_def memory_ops_def memory_reserve_tokens_def
  memory_rollback_def

lemma memory_reserve_Inr:
  assumes "reserve_shared memory_ops tokens now b l = (Inr res, b')"
  shows "valid_limit l" "reserve_tokens_at (limiter_view b l) tokens now = (Inr res, limiter_view b' l)"
proof -
  have run: "on_limiter (\<lambda>st. reserve_tokens_at st tokens now) (sl_key l) (sl_config l) b = (Inr res, b')"
    using assms by (simp add: memory_defs)
  show valid: "valid_limit l" by (rule ccontr) (use run in \<open>simp add: on_limiter_invalid\<close>)
  obtain x st where x: "reserve_tokens_at (limiter_view b l) tokens now = (x, st)" by fastforce
  show "reserve_tokens_at (limiter_view b l) tokens now = (Inr res, limiter_view b' l)"
    using on_limiter_valid [OF valid, where f = "\<lambda>st. reserve_tokens_at st tokens now", OF x] run x
    by (cases x) auto
qed

lemma memory_reserve_Inl:
  assumes "reserve_shared memory_ops tokens now b l = (Inl e, b')"
  shows "rolled (limiter_view b l) (limiter_view b' l)"
proof (cases "valid_limit l")
  case True
  have run: "on_limiter (\<lambda>st. reserve_tokens_at st tokens now) (sl_key l) (sl_config l) b = (Inl e, b')"
    using assms by (simp add: memory_defs)
  obtain x st where x: "reserve_tokens_at (limiter_view b l) tokens now = (x, st)" by fastforce
  then show ?thesis
    using on_limiter_valid [OF True, where f = "\<lambda>st. reserve_tokens_at st tokens now", OF x] run
    by (cases x) (auto intro: reserve_tokens_rolled(2))
next
  case False
  then show ?thesis using assms by (auto simp: memory_defs on_limiter_invalid)
qed

lemma memory_other:
  assumes "sl_key l' \<noteq> sl_key l"
  shows "limiter_view (snd (reserve_shared memory_ops tokens now b l)) l' = limiter_view b l'"
    "limiter_view (snd (rollback_shared memory_ops now b l v)) l' = limiter_view b l'"
  using assms
  by (cases "valid_limit l"; simp add: memory_defs on_limiter_invalid
      on_limiter_valid(3) [OF _ prod.collapse [symmetric]])+

lemma memory_rollback_own:
  assumes "valid_limit l"
  shows "limiter_view (snd (rollback_shared memory_ops now b l v)) l = snd (rollback_at (limiter_view b l) v now)"
    "validate_time now = Inr () \<Longrightarrow> is_ok (fst (rollback_shared memory_ops now b l v))"
  using on_limiter_valid [OF assms, where f = "\<lambda>st. rollback_at st v now" and b = b, OF prod.collapse [symmetric]]
  by (simp_all add: memory_defs) (auto simp: rollback_at_def Let_def)

interpretation memory_scopes: reservation_backend memory_ops limiter_view
    "\<lambda>st v. snd (rollback_at st v now)" rolled "room_for tokens" valid_limit tokens now
  for tokens now
proof unfold_locales
  fix b l res b' v b2
  assume "reserve_shared memory_ops tokens now b l = (Inr res, b')"
  then have "valid_limit l" and r: "reserve_tokens_at (limiter_view b l) tokens now = (Inr res, limiter_view b' l)"
    by (rule memory_reserve_Inr)+
  then show "is_ok (fst (rollback_shared memory_ops now b2 l v))"
    by (intro memory_rollback_own(2)) (auto simp: reserve_tokens_at_def dest: reserve_inner_time)
qed (auto simp: memory_rollback_own memory_other
    dest: memory_reserve_Inr memory_reserve_Inl
    intro: reserve_tokens_undone reserve_tokens_rolled(1) reserve_tokens_refused)

subsection \<open>All or nothing across the fleet and the process\<close>

lemma shared_workspaces_key:
  "map_of (shared_workspaces enc ws) i = Some l \<Longrightarrow> \<exists>j. sl_key l = workspace_limit_key enc j"
proof -
  have "map_of (fold (\<lambda>(i, w) m. case cw_rate_limit w of
             None \<Rightarrow> m
           | Some l \<Rightarrow> bt_insert i \<lparr>sl_key = workspace_limit_key enc i, sl_config = shared_limit_config l\<rparr> m) ws m) i = Some l \<Longrightarrow>
      \<forall>i l. map_of m i = Some l \<longrightarrow> (\<exists>j. sl_key l = workspace_limit_key enc j) \<Longrightarrow>
      \<exists>j. sl_key l = workspace_limit_key enc j" for m
  proof (induction ws arbitrary: m)
    case (Cons w ws)
    obtain j wk where w: "w = (j, wk)" by (cases w)
    show ?case
    proof (cases "cw_rate_limit wk")
      case None
      then show ?thesis using Cons w by simp
    next
      case (Some lim)
      let ?m = "bt_insert j \<lparr>sl_key = workspace_limit_key enc j, sl_config = shared_limit_config lim\<rparr> m"
      have "\<forall>i l. map_of ?m i = Some l \<longrightarrow> (\<exists>j. sl_key l = workspace_limit_key enc j)"
        using Cons.prems(2) by (auto simp: map_of_bt_insert)
      then show ?thesis using Cons.IH [of ?m] Cons.prems(1) w Some by simp
    qed
  qed simp
  then show "map_of (shared_workspaces enc ws) i = Some l \<Longrightarrow> \<exists>j. sl_key l = workspace_limit_key enc j"
    by (simp add: shared_workspaces_def)
qed

lemma shared_keys_differ [simp]:
  "global_limit_key \<noteq> workspace_limit_key enc i" "global_limit_key \<noteq> virtual_key_limit_key enc j"
  "workspace_limit_key enc i \<noteq> virtual_key_limit_key enc j"
  by (simp_all add: global_limit_key_def workspace_limit_key_def virtual_key_limit_key_def)

lemma shared_scopes_distinct:
  "distinct (map sl_key (shared_scopes_of (shared_access_new enc c) grant))"
proof -
  let ?sp = "shared_access_new enc c"
  have g: "sl_key l = global_limit_key" if "sp_global ?sp = Some l" for l
    using that by (auto simp: shared_access_new_def)
  have k: "(\<forall>l. sk_workspace k = Some l \<longrightarrow> (\<exists>i. sl_key l = workspace_limit_key enc i)) \<and>
      (\<forall>l. sk_limiter k = Some l \<longrightarrow> (\<exists>i. sl_key l = virtual_key_limit_key enc i))"
    if "shared_key ?sp grant = Some k" for k
    using that shared_workspaces_key
    by (fastforce simp: shared_key_def shared_access_new_def bind_eq_Some_conv
        split: option.splits if_splits prod.splits)
  show ?thesis
  proof (cases "shared_key ?sp grant")
    case None
    then show ?thesis by (auto simp: shared_scopes_of_def some_list_def split: option.splits)
  next
    case (Some key)
    then show ?thesis using g k [OF Some] shared_keys_differ [of enc] shared_keys_differ [symmetric, of enc]
      by (auto simp: shared_scopes_of_def some_list_def split: option.splits)
  qed
qed

lemma shared_reserve_outcome:
  assumes "sp = shared_access_new enc c"
    and "list_all (\<lambda>l. room_for tokens (limiter_view (sh_backend st) l)) (token_limited sp grant)"
    and "shared_reserve_tokens memory_ops sp grant tokens now st = (out, st')"
  shows "case out of
      Inr (SharedReserved es) \<Rightarrow> True
    | Inl (Unsafe e) \<Rightarrow> False
    | _ \<Rightarrow> \<forall>l\<in>set (shared_scopes_of sp grant).
        rolled (limiter_view (sh_backend st) l) (limiter_view (sh_backend st') l)"
proof -
  let ?scopes = "shared_scopes_of sp grant"
  have d: "distinct (map sl_key ?scopes)" using assms(1) shared_scopes_distinct by simp
  then have "memory_scopes.held now (set ?scopes) (sh_backend st) [] (sh_backend st)"
    by (intro memory_scopes.held_start) (simp add: distinct_map)
  moreover have "distinct (token_limited sp grant)" "set (token_limited sp grant) \<subseteq> set ?scopes"
    using d by (auto simp: token_limited_def distinct_map)
  ultimately have "case out of
      Inr (SharedReserved es) \<Rightarrow> memory_scopes.held now (set ?scopes) (sh_backend st) es (sh_backend st') \<and>
        memory_scopes.undoable now es
    | Inl (Unsafe e) \<Rightarrow> False
    | _ \<Rightarrow> \<forall>l\<in>set ?scopes. rolled (limiter_view (sh_backend st) l) (limiter_view (sh_backend st') l)"
    using assms
    by (intro memory_scopes.reserve_shared_loop_outcome [where entries = "[]" and st = st and ls = "token_limited sp grant"])
      (auto simp: shared_reserve_tokens_def memory_scopes.undoable_def list_all_iff)
  then show ?thesis by (auto split: sum.splits shared_decision.splits shared_reservation_error.splits)
qed

lemma reserve_loop_error: "reserve_loop rs entries tokens now store \<noteq> (Inl (AccessStateBackend e), store')"
  by (induction rs entries tokens now store rule: reserve_loop.induct) (auto split: prod.splits sum.splits)

lemma local_reservation_rejected:
  assumes "access_from_config c store0 = Inr (p, store1)"
    and "list_all (\<lambda>r. room_for tokens (as_store s r)) (grant_limiters p grant)"
    and "local_reservation p grant tokens now s = (Inr (TokensRejected r), s')"
  shows "rolled (as_store s ref) (as_store s' ref)" "as_shared s' = as_shared s"
proof -
  obtain store' where run: "reserve_local_tokens p grant tokens now (as_store s) = (Inr (Rejected r), store')"
    and s': "s' = s\<lparr>as_store := store'\<rparr>"
    using assms(3) by (auto simp: local_reservation_def split: prod.splits sum.splits token_decision.splits)
  have "case Rejected r of Reserved es \<Rightarrow> token_scopes.held now UNIV (as_store s) es store'
      | Rejected _ \<Rightarrow> \<forall>r. rolled (as_store s r) (store' r)"
    using assms run grant_limiters_distinct [OF assms(1)]
    by (intro reserve_loop_outcome [where rs = "grant_limiters p grant" and entries = "[]"
          and store = "as_store s" and tokens = tokens])
      (auto simp: reserve_local_tokens_def list_all_iff intro: token_scopes.held_start)
  then show "rolled (as_store s ref) (as_store s' ref)" "as_shared s' = as_shared s"
    using s' by simp_all
qed

text \<open>
  C15. With the process-local backend behind the shared policy, a token reservation never ends in the
  unsafe state error, and when it is rejected, by the shared scopes or by the local limiters after a
  clean fallback, every shared and every local limiter of the request is as before, up to having
  entered the current window.
\<close>

theorem fleet_reservation_all_or_nothing:
  assumes "access_from_config c store0 = Inr (p, store1)" and "sp = shared_access_new enc c"
    and "list_all (\<lambda>r. room_for tokens (as_store s r)) (grant_limiters p grant)"
    and "list_all (\<lambda>l. room_for tokens (limiter_view (sh_backend (as_shared s)) l)) (token_limited sp grant)"
    and "reserve_tokens memory_ops p (Some sp) grant tokens now s = (out, s')"
  shows "(\<forall>e. out \<noteq> Inl (AccessStateBackend e)) \<and>
    (\<forall>r. out = Inr (TokensRejected r) \<longrightarrow>
      rolled (as_store s ref) (as_store s' ref) \<and>
      list_all (\<lambda>l. rolled (limiter_view (sh_backend (as_shared s)) l) (limiter_view (sh_backend (as_shared s')) l))
        (shared_scopes_of sp grant))"
proof -
  obtain o1 st where sh: "shared_reserve_tokens memory_ops sp grant tokens now (as_shared s) = (o1, st)" by fastforce
  note shared = shared_reserve_outcome [OF assms(2,4) sh]
  show ?thesis
  proof (cases o1)
    case (Inr d)
    then show ?thesis using assms(5) sh shared
      by (cases d) (auto simp: reserve_tokens_def list_all_iff)
  next
    case (Inl e)
    with shared have e: "e = Clean" by (cases e) auto
    let ?s = "s\<lparr>as_shared := st\<lparr>sh_degraded := True\<rparr>\<rparr>"
    have run: "local_reservation p grant tokens now ?s = (out, s')"
      using assms(5) sh Inl e by (simp add: reserve_tokens_def)
    have "out \<noteq> Inl (AccessStateBackend e')" for e'
      using run by (auto simp: local_reservation_def reserve_local_tokens_def reserve_loop_error
          split: prod.splits sum.splits token_decision.splits)
    moreover have "rolled (as_store s ref) (as_store s' ref) \<and> as_shared s' = st\<lparr>sh_degraded := True\<rparr>"
      if "out = Inr (TokensRejected r)" for r
      using local_reservation_rejected [OF assms(1), where s = ?s] assms(3) run that by fastforce
    ultimately show ?thesis using shared Inl e by (auto simp: list_all_iff)
  qed
qed

definition sample_access_state :: "memory_backend access_state" where
  "sample_access_state = \<lparr>as_store = sample_store,
     as_shared = \<lparr>sh_backend = memory_backend_default, sh_degraded = False\<rparr>\<rparr>"

abbreviation sample_shared :: shared_access_policy where
  "sample_shared \<equiv> shared_access_new (\<lambda>i. i) sample_access"

abbreviation sample_reserve ::
  "(access_policy_error, reservation_decision) result \<times> memory_backend access_state" where
  "sample_reserve \<equiv>
     reserve_tokens memory_ops sample_keys (Some sample_shared) (Some 0) 40 (Fin 0) sample_access_state"

lemma sample_token_limited:
  "token_limited sample_shared (Some 0) =
     [\<lparr>sl_key = global_limit_key, sl_config = \<lparr>lc_rpm = Some 2, lc_tpm = Some 100, lc_window_seconds = Fin 60\<rparr>\<rparr>,
      \<lparr>sl_key = virtual_key_limit_key (\<lambda>i. i) [97],
       sl_config = \<lparr>lc_rpm = None, lc_tpm = Some 10, lc_window_seconds = Fin 60\<rparr>\<rparr>]"
  by (simp add: token_limited_def shared_scopes_of_def shared_access_new_def sample_access_def shared_key_def
      some_list_def shared_limit_config_def)

lemma key_limiter_new: "rate_new None (Some 10) (Fin 60) = Inr key_limiter"
  by (simp add: rate_new_def validated_configuration_def key_limiter_def less_eq_f64_def)

lemma sample_fleet_rejected:
  "fst sample_reserve = Inr (TokensRejected (rejected Tokens (enter_window 0 key_limiter) (Fin 0)))"
proof -
  have valid: "validate_limit \<lparr>lc_rpm = m, lc_tpm = n, lc_window_seconds = Fin 60\<rparr> =
      Inr \<lparr>lc_rpm = m, lc_tpm = n, lc_window_seconds = Fin 60\<rparr>" for m n
    by (simp add: validate_limit_def)
  show ?thesis
    by (simp add: reserve_tokens_def shared_reserve_tokens_def sample_token_limited memory_defs on_limiter_def valid
        limiter_for_def sample_access_state_def memory_backend_default_def sample_limiter_new key_limiter_new
        sample_reservations map_of_bt_insert shared_keys_differ [symmetric] rate_allowed_def admitted_def rejected_def split: prod.split)
qed

theorem fleet_reservation_all_or_nothing_witness:
  "fst sample_reserve = Inr (TokensRejected (rejected Tokens (enter_window 0 key_limiter) (Fin 0))) \<and>
   list_all (\<lambda>l. rolled (limiter_view memory_backend_default l)
     (limiter_view (sh_backend (as_shared (snd sample_reserve))) l)) (shared_scopes_of sample_shared (Some 0))"
proof -
  have refs: "grant_limiters sample_keys (Some 0) = [GlobalLimiter, KeyLimiter [97]]"
    by (simp add: grant_limiters_def sample_keys_def workspace_ref_def key_ref_def granted_key_def some_list_def)
  have local: "list_all (\<lambda>r. room_for 40 (as_store sample_access_state r)) (grant_limiters sample_keys (Some 0))"
    by (simp add: refs sample_access_state_def sample_store_def room_for_def u64_max_def)
      (simp add: sample_limiter_def key_limiter_def)
  have remote: "list_all (\<lambda>l. room_for 40 (limiter_view (sh_backend (as_shared sample_access_state)) l))
      (token_limited sample_shared (Some 0))"
    by (simp add: sample_token_limited sample_access_state_def memory_backend_default_def limiter_view_def
        sample_limiter_new key_limiter_new room_for_def u64_max_def)
      (simp add: sample_limiter_def key_limiter_def)
  show ?thesis
    using fleet_reservation_all_or_nothing [OF sample_access_built refl local remote prod.collapse [symmetric]]
      sample_fleet_rejected
    by (simp add: sample_access_state_def)
qed

end
