(* ===== verification/Canary.thy ===== *)
theory Canary
  imports Shared_Access
begin

text \<open>
  Canary rollouts: deterministic assignment and tripwires of \<open>wayfinder-gateway/src/canary.rs\<close>, the
  canary counters of the process-local backend, and the two steps of \<open>wayfinder-gateway/src/lib.rs\<close> that
  use them: admitting a request to the rollout and recording its outcome. The hash function, the
  canary operations of the backend and the choice among the candidate route's models are parameters.
\<close>

section \<open>Assignment\<close>

definition BUCKETS :: u64 where "BUCKETS = 1000000"

record canary_config =
  cc_enabled :: bool
  cc_rollout_id :: str
  cc_candidate_route :: str
  cc_fraction :: f64
  cc_scope :: str
  cc_cohort :: "str option"
  cc_max_requests :: u64
  cc_window :: f64
  cc_min_samples :: u64
  cc_max_error_rate :: f64
  cc_max_latency_ms :: f64
  cc_max_cost_multiplier :: f64
  cc_max_quality_loss :: f64
  cc_rollback_hold :: f64

datatype assignment = Eligible str | Suppressed str

datatype tripwire = TripErrorRate | TripLatency | TripCost | TripQuality

fun tripwire_as_str :: "tripwire \<Rightarrow> str" where
  "tripwire_as_str TripErrorRate = lit ''error-rate''"
| "tripwire_as_str TripLatency = lit ''latency''"
| "tripwire_as_str TripCost = lit ''cost-multiplier''"
| "tripwire_as_str TripQuality = lit ''quality-loss''"

definition from_be_bytes :: "nat list \<Rightarrow> nat" where
  "from_be_bytes bs = foldl (\<lambda>a b. 256 * a + b) 0 bs"

definition assignment_bucket :: "digest \<Rightarrow> str \<Rightarrow> str \<Rightarrow> u64" where
  "assignment_bucket sha256 rollout_id identity =
     from_be_bytes (take 8 (sha256 (lit ''wayfinder-canary-v1'' @ [0] @ rollout_id @ [0] @ identity))) mod BUCKETS"

text \<open>\<open>Option::filter\<close> on non-empty strings.\<close>

definition non_empty :: "str option \<Rightarrow> str option" where
  "non_empty v = (case v of None \<Rightarrow> None | Some s \<Rightarrow> if s = [] then None else Some s)"

definition canary_threshold :: "f64 \<Rightarrow> u64" where
  "canary_threshold fraction = f64_to_u64 (f_floor (f_clamp fraction (Fin 0) (Fin 1) * f64_of_nat BUCKETS))"

definition bucket_assignment :: "digest \<Rightarrow> canary_config \<Rightarrow> str option \<Rightarrow> assignment" where
  "bucket_assignment sha256 c identity =
     (case non_empty identity of
        None \<Rightarrow> Suppressed (lit ''stable-identity-missing'')
      | Some i \<Rightarrow>
          if assignment_bucket sha256 (cc_rollout_id c) i < canary_threshold (cc_fraction c)
          then Eligible i else Suppressed (lit ''outside-cohort''))"

definition assignment_identity ::
  "digest \<Rightarrow> canary_config \<Rightarrow> str \<Rightarrow> str option \<Rightarrow> str option \<Rightarrow> str option \<Rightarrow> str option \<Rightarrow> assignment" where
  "assignment_identity sha256 c request_id workspace key identity_header cohort_header =
     (if cc_scope c = lit ''request''
      then bucket_assignment sha256 c
             (case non_empty identity_header of None \<Rightarrow> Some request_id | Some i \<Rightarrow> Some i)
      else if cc_scope c = lit ''workspace'' then bucket_assignment sha256 c workspace
      else if cc_scope c = lit ''key'' then bucket_assignment sha256 c key
      else if cc_scope c = lit ''cohort'' then
        (case cc_cohort c of
           None \<Rightarrow> Suppressed (lit ''cohort-not-configured'')
         | Some expected \<Rightarrow>
             bucket_assignment sha256 c (if cohort_header = Some expected then cohort_header else None))
      else bucket_assignment sha256 c None)"

section \<open>Tripwires\<close>

definition latency_exceeded :: "canary_config \<Rightarrow> shared_canary_snapshot \<Rightarrow> bool" where
  "latency_exceeded c s \<longleftrightarrow>
     0 < cs_latency_samples s \<and>
     cc_max_latency_ms c < f64_of_nat (cs_latency_sum_ms s) div f64_of_nat (cs_latency_samples s)"

definition cost_exceeded :: "canary_config \<Rightarrow> shared_canary_snapshot \<Rightarrow> bool" where
  "cost_exceeded c s \<longleftrightarrow>
     0 < cs_cost_samples s \<and> Fin 0 < cs_baseline_cost s \<and>
     cc_max_cost_multiplier c < cs_realized_cost s div cs_baseline_cost s"

definition quality_exceeded :: "canary_config \<Rightarrow> shared_canary_snapshot \<Rightarrow> bool" where
  "quality_exceeded c s \<longleftrightarrow>
     0 < cs_quality_samples s \<and> cc_max_quality_loss c < cs_quality_loss s div f64_of_nat (cs_quality_samples s)"

definition tripwire_of :: "canary_config \<Rightarrow> shared_canary_snapshot \<Rightarrow> tripwire option" where
  "tripwire_of c s =
     (if cs_requests s < cc_min_samples c then None
      else if cc_max_error_rate c < f64_of_nat (cs_errors s) div f64_of_nat (cs_requests s) then Some TripErrorRate
      else if latency_exceeded c s then Some TripLatency
      else if cost_exceeded c s then Some TripCost
      else if quality_exceeded c s then Some TripQuality
      else None)"

section \<open>Admission to the rollout and its outcome\<close>

record 'b canary_ops =
  co_snapshot_at :: "'b \<Rightarrow> str \<Rightarrow> f64 \<Rightarrow> f64 \<Rightarrow> (state_backend_error, shared_canary_snapshot) result \<times> 'b"
  co_record_at :: "'b \<Rightarrow> shared_canary_observation \<Rightarrow> f64 \<Rightarrow> f64 \<Rightarrow> (state_backend_error, bool) result \<times> 'b"
  co_trip_at :: "'b \<Rightarrow> str \<Rightarrow> str \<Rightarrow> f64 \<Rightarrow> f64 \<Rightarrow> (state_backend_error, unit) result \<times> 'b"
  co_admit_at :: "'b \<Rightarrow> str \<Rightarrow> state_limit_config \<Rightarrow> f64 \<Rightarrow> (state_backend_error, rate_result) result \<times> 'b"

definition memory_canary_ops :: "memory_backend canary_ops" where
  "memory_canary_ops =
     \<lparr>co_snapshot_at = canary_snapshot, co_record_at = record_canary, co_trip_at = trip_canary,
      co_admit_at = memory_admit\<rparr>"

definition exposure_limit :: "canary_config \<Rightarrow> state_limit_config" where
  "exposure_limit c = \<lparr>lc_rpm = Some (cc_max_requests c), lc_tpm = None, lc_window_seconds = cc_window c\<rparr>"

definition exposure_key :: "canary_config \<Rightarrow> str" where
  "exposure_key c = lit ''canary-exposure:'' @ cc_rollout_id c"

text \<open>
  The candidate, if any, is the model the surrounding state would serve; it is consulted last. The
  assignment is that of the request.
\<close>

definition maybe_assign_canary ::
  "'b canary_ops \<Rightarrow> canary_config \<Rightarrow> assignment \<Rightarrow> str option \<Rightarrow> f64 \<Rightarrow> 'b \<Rightarrow> str option \<times> 'b" where
  "maybe_assign_canary ops c assignment candidate now b =
     (if \<not> cc_enabled c \<or> cc_fraction c \<le> Fin 0 then (None, b)
      else
        case co_snapshot_at ops b (cc_rollout_id c) (cc_window c) now of
          (Inl _, b1) \<Rightarrow> (None, b1)
        | (Inr s, b1) \<Rightarrow>
            if cs_tripped_reason s \<noteq> None then (None, b1)
            else
              case assignment of
                Suppressed _ \<Rightarrow> (None, b1)
              | Eligible _ \<Rightarrow>
                  (case co_admit_at ops b1 (exposure_key c) (exposure_limit c) now of
                     (Inl _, b2) \<Rightarrow> (None, b2)
                   | (Inr r, b2) \<Rightarrow> if limited_by r \<noteq> None then (None, b2) else (candidate, b2)))"

definition record_canary_outcome ::
  "'b canary_ops \<Rightarrow> canary_config \<Rightarrow> shared_canary_observation \<Rightarrow> f64 \<Rightarrow> 'b \<Rightarrow> tripwire option \<times> 'b" where
  "record_canary_outcome ops c ob now b =
     (case co_record_at ops b ob (cc_window c) now of (_, b1) \<Rightarrow>
        (case co_snapshot_at ops b1 (co_rollout_id ob) (cc_window c) now of
           (Inl _, b2) \<Rightarrow> (None, b2)
         | (Inr s, b2) \<Rightarrow>
             (case tripwire_of c s of
                None \<Rightarrow> (None, b2)
              | Some t \<Rightarrow>
                  (case co_trip_at ops b2 (co_rollout_id ob) (tripwire_as_str t) (cc_rollback_hold c) now of
                     (Inl _, b3) \<Rightarrow> (None, b3)
                   | (Inr _, b3) \<Rightarrow> (Some t, b3)))))"

section \<open>Assignment grows with the fraction\<close>

lemma f_clamp_unit:
  assumes "\<not> is_nan x"
  shows "is_finite (f_clamp x (Fin 0) (Fin 1))" "0 \<le> val (f_clamp x (Fin 0) (Fin 1))"
    "val (f_clamp x (Fin 0) (Fin 1)) \<le> 1"
  using assms by (cases x; auto simp: f_clamp_def Let_def less_f64_def)+

lemma f_clamp_unit_mono: "x \<le> y \<Longrightarrow> val (f_clamp x (Fin 0) (Fin 1)) \<le> val (f_clamp y (Fin 0) (Fin 1))"
  by (cases x; cases y) (auto simp: f_clamp_def Let_def less_f64_def less_eq_f64_def split: if_splits)

lemma f_floor_mono:
  assumes "x \<le> y"
  shows "f_floor x \<le> f_floor y"
proof (cases "is_finite x \<and> is_finite y")
  case True
  then show ?thesis
    using assms by (simp add: f_floor_def f64_le_finite floor_mono rnd_f64_mono)
next
  case False
  then have "x = NInf \<or> y = PInf"
    using assms by (cases x; cases y) (auto simp: less_eq_f64_def)
  then show ?thesis
    using assms by (auto simp: f_floor_def less_eq_f64_def [of _ NInf] less_eq_f64_def [of PInf])
qed

lemma canary_threshold_mono:
  assumes "x \<le> y"
  shows "canary_threshold x \<le> canary_threshold y"
proof -
  have n: "\<not> is_nan x" "\<not> is_nan y" using assms by (auto simp: less_eq_f64_def)
  let ?c = "\<lambda>z. f_clamp z (Fin 0) (Fin 1)"
  have b: "f64_of_nat BUCKETS = Fin 1000000" by (simp add: f64_of_nat_exact BUCKETS_def)
  have "?c x * Fin 1000000 \<le> ?c y * Fin 1000000"
    using f_clamp_unit [OF n(1)] f_clamp_unit [OF n(2)] f_clamp_unit_mono [OF assms]
    by (simp add: times_finite rnd_f64_mono)
  then show ?thesis
    by (simp add: canary_threshold_def b f_floor_mono f64_to_u64_mono)
qed

lemma canary_threshold_ends:
  "canary_threshold (Fin 0) = 0" "canary_threshold (Fin 1) = BUCKETS"
  by (simp_all add: canary_threshold_def f_clamp_def f64_of_nat_exact BUCKETS_def times_finite rnd_f64_zero
      f64_zero_def f_floor_def rnd_f64_numeral u64_max_def)

text \<open>
  Canary assignment is monotone in the configured fraction: an identity that is in the rollout at
  some fraction is in it, with the same identity, at every greater one; at fraction zero nobody is, and
  at fraction one everybody with a usable identity is.
\<close>

theorem canary_assignment_monotone:
  assumes "cc_fraction c \<le> f"
  shows "(assignment_identity sha256 c request_id workspace key hdr cohort = Eligible i \<longrightarrow>
      assignment_identity sha256 (c\<lparr>cc_fraction := f\<rparr>) request_id workspace key hdr cohort = Eligible i) \<and>
    assignment_identity sha256 (c\<lparr>cc_fraction := Fin 0\<rparr>) request_id workspace key hdr cohort \<noteq> Eligible i \<and>
    assignment_identity sha256 (c\<lparr>cc_fraction := Fin 1\<rparr>) request_id workspace key hdr cohort \<noteq>
      Suppressed (lit ''outside-cohort'')"
proof -
  have bucket: "assignment_bucket sha256 r j < BUCKETS" for r j
    by (simp add: assignment_bucket_def BUCKETS_def)
  have up: "bucket_assignment sha256 c v = Eligible i \<Longrightarrow>
      bucket_assignment sha256 (c\<lparr>cc_fraction := f\<rparr>) v = Eligible i" for v
    using canary_threshold_mono [OF assms]
    by (auto simp: bucket_assignment_def split: option.splits if_splits)
  have ends: "bucket_assignment sha256 (c\<lparr>cc_fraction := Fin 0\<rparr>) v \<noteq> Eligible i"
    "bucket_assignment sha256 (c\<lparr>cc_fraction := Fin 1\<rparr>) v \<noteq> Suppressed (lit ''outside-cohort'')" for v
    using bucket by (auto simp: bucket_assignment_def canary_threshold_ends split: option.splits)
  show ?thesis using up ends
    by (auto simp: assignment_identity_def split: option.splits)
qed

definition sample_canary :: canary_config where
  "sample_canary = \<lparr>cc_enabled = True, cc_rollout_id = lit ''r1'', cc_candidate_route = lit ''new'',
     cc_fraction = Fin (1 / 2), cc_scope = lit ''key'', cc_cohort = None, cc_max_requests = 10, cc_window = Fin 60,
     cc_min_samples = 1, cc_max_error_rate = Fin (1 / 5), cc_max_latency_ms = Fin 1000,
     cc_max_cost_multiplier = Fin 2, cc_max_quality_loss = Fin (1 / 10), cc_rollback_hold = Fin 100\<rparr>"

lemma zero_bytes: "from_be_bytes (replicate n 0) = 0"
proof (induction n)
  case (Suc n)
  then show ?case by (simp add: from_be_bytes_def)
qed (simp add: from_be_bytes_def)

theorem canary_assignment_monotone_witness:
  "assignment_identity (\<lambda>s. replicate 32 0) (sample_canary\<lparr>cc_fraction := Fin 1\<rparr>) [] None (Some [97]) None None =
   Eligible [97]"
proof -
  have "canary_threshold (Fin (1 / 2)) = 500000"
    by (simp add: canary_threshold_def f_clamp_def Let_def f64_of_nat_exact BUCKETS_def times_finite
        rnd_f64_numeral f_floor_def u64_max_def)
  then have "assignment_identity (\<lambda>s. replicate 32 0) sample_canary [] None (Some [97]) None None = Eligible [97]"
    by (simp add: assignment_identity_def sample_canary_def bucket_assignment_def non_empty_def
        assignment_bucket_def zero_bytes)
  moreover have "cc_fraction sample_canary \<le> Fin 1" by (simp add: sample_canary_def)
  ultimately show ?thesis using canary_assignment_monotone by blast
qed

section \<open>A tripped rollout stays stopped\<close>

text \<open>
  What the rollout relies on in its backend: \<open>stopped b r t\<close> says that rollout \<open>r\<close> reports a tripwire
  at every time before \<open>t\<close>; tripping establishes it and no operation before that time ends it.
\<close>

locale stopping_backend =
  fixes ops :: "'b canary_ops"
    and stopped :: "'b \<Rightarrow> str \<Rightarrow> f64 \<Rightarrow> bool"
  assumes trip_stops: "co_trip_at ops b r reason hold now = (Inr (), b') \<Longrightarrow> \<not> is_nan (now + hold) \<Longrightarrow>
      stopped b' r (now + hold)"
    and trip_keeps: "stopped b r t \<Longrightarrow> stopped (snd (co_trip_at ops b r' reason hold now)) r t"
    and record_keeps: "stopped b r t \<Longrightarrow> stopped (snd (co_record_at ops b ob window now)) r t"
    and admit_keeps: "stopped b r t \<Longrightarrow> stopped (snd (co_admit_at ops b key limit now)) r t"
    and snapshot_keeps: "stopped b r t \<Longrightarrow> now < t \<Longrightarrow> stopped (snd (co_snapshot_at ops b r' window now)) r t"
    and snapshot_reports: "stopped b r t \<Longrightarrow> now < t \<Longrightarrow> fst (co_snapshot_at ops b r window now) = Inr s \<Longrightarrow>
      cs_tripped_reason s \<noteq> None"
begin

lemma assign_keeps:
  assumes "stopped b r t" "now < t"
  shows "stopped (snd (maybe_assign_canary ops c asg candidate now b)) r t"
proof -
  obtain o1 b1 where 1: "co_snapshot_at ops b (cc_rollout_id c) (cc_window c) now = (o1, b1)" by fastforce
  obtain o2 b2 where 2: "co_admit_at ops b1 (exposure_key c) (exposure_limit c) now = (o2, b2)" by fastforce
  have "stopped b1 r t" using snapshot_keeps [OF assms, of "cc_rollout_id c" "cc_window c"] 1 by simp
  moreover from this have "stopped b2 r t" using admit_keeps [of b1 r t] 2 by (metis snd_conv)
  ultimately show ?thesis
    using assms(1) by (simp add: maybe_assign_canary_def 1 2 split: sum.split assignment.split)
qed

lemma outcome_keeps:
  assumes "stopped b r t" "now < t"
  shows "stopped (snd (record_canary_outcome ops c ob now b)) r t"
proof -
  obtain o1 b1 where 1: "co_record_at ops b ob (cc_window c) now = (o1, b1)" by fastforce
  obtain o2 b2 where 2: "co_snapshot_at ops b1 (co_rollout_id ob) (cc_window c) now = (o2, b2)" by fastforce
  have s1: "stopped b1 r t" using record_keeps [OF assms(1)] 1 by (metis snd_conv)
  then have s2: "stopped b2 r t" using snapshot_keeps [OF s1 assms(2)] 2 by (metis snd_conv)
  show ?thesis
  proof (cases o2)
    case (Inl e)
    then show ?thesis using s2 by (simp add: record_canary_outcome_def 1 2)
  next
    case (Inr sn)
    show ?thesis
    proof (cases "tripwire_of c sn")
      case None
      then show ?thesis using s2 Inr by (simp add: record_canary_outcome_def 1 2)
    next
      case (Some w)
      obtain o3 b3 where 3: "co_trip_at ops b2 (co_rollout_id ob) (tripwire_as_str w) (cc_rollback_hold c) now = (o3, b3)"
        by fastforce
      then have "stopped b3 r t" using trip_keeps [OF s2] by (metis snd_conv)
      then show ?thesis using Inr Some by (simp add: record_canary_outcome_def 1 2 3 split: sum.split)
    qed
  qed
qed

lemma stopped_assign:
  assumes "stopped b (cc_rollout_id c) t" "now < t"
  shows "fst (maybe_assign_canary ops c asg candidate now b) = None"
proof -
  obtain o1 b1 where 1: "co_snapshot_at ops b (cc_rollout_id c) (cc_window c) now = (o1, b1)" by fastforce
  then have "\<And>sn. o1 = Inr sn \<Longrightarrow> cs_tripped_reason sn \<noteq> None"
    using snapshot_reports [OF assms, of "cc_window c"] by simp
  then show ?thesis by (cases o1) (simp_all add: maybe_assign_canary_def 1)
qed

lemma outcome_stops:
  "record_canary_outcome ops c ob now b = (Some w, b') \<Longrightarrow> \<not> is_nan (now + cc_rollback_hold c) \<Longrightarrow>
   stopped b' (co_rollout_id ob) (now + cc_rollback_hold c)"
  by (auto simp: record_canary_outcome_def split: prod.splits sum.splits option.splits intro: trip_stops)

end

definition memory_stopped :: "memory_backend \<Rightarrow> str \<Rightarrow> f64 \<Rightarrow> bool" where
  "memory_stopped b r t \<longleftrightarrow>
     cs_tripped_reason (mc_snapshot (canary_entry b r)) \<noteq> None \<and> t \<le> mc_tripped_until (canary_entry b r)"

lemma canary_entry_insert:
  "canary_entry (b\<lparr>mb_canary := bt_insert r st (mb_canary b)\<rparr>) r' = (if r' = r then st else canary_entry b r')"
  by (simp add: canary_entry_def map_of_bt_insert)

lemma rotate_keeps_trip [simp]:
  "cs_tripped_reason (mc_snapshot (rotate_memory_canary w st)) = cs_tripped_reason (mc_snapshot st)"
  "mc_tripped_until (rotate_memory_canary w st) = mc_tripped_until st"
  by (simp_all add: rotate_memory_canary_def canary_snapshot_default_def)

lemma observe_keeps_trip [simp]:
  "cs_tripped_reason (mc_snapshot (snd (observe_canary ob st))) = cs_tripped_reason (mc_snapshot st)"
  "mc_tripped_until (snd (observe_canary ob st)) = mc_tripped_until st"
  by (auto simp: observe_canary_def add_quality_def add_cost_def add_outcome_def split: option.splits)

lemma f_max_ge_left: "\<not> is_nan x \<Longrightarrow> x \<le> f_max x y"
  by (auto simp: f_max_def f64_le_refl f64_less_imp_le)

interpretation memory_rollout: stopping_backend memory_canary_ops memory_stopped
proof unfold_locales
  fix b :: memory_backend and r reason hold now b' t r' ob window key limit s
  show "co_trip_at memory_canary_ops b r reason hold now = (Inr (), b') \<Longrightarrow> \<not> is_nan (now + hold) \<Longrightarrow>
      memory_stopped b' r (now + hold)"
    by (auto simp: memory_canary_ops_def trip_canary_def memory_stopped_def canary_entry_insert Let_def
        f_max_ge split: if_splits)
  show "memory_stopped b r t \<Longrightarrow> memory_stopped (snd (co_trip_at memory_canary_ops b r' reason hold now)) r t"
    using f64_le_trans f_max_ge_left
    by (auto simp: memory_canary_ops_def trip_canary_def memory_stopped_def canary_entry_insert Let_def
        less_eq_f64_def [of t]) (metis f64_le_trans f_max_ge_left less_eq_f64_def)+
  show "memory_stopped b r t \<Longrightarrow> memory_stopped (snd (co_record_at memory_canary_ops b ob window now)) r t"
    by (auto simp: memory_canary_ops_def record_canary_def memory_stopped_def canary_entry_insert
        split: sum.split prod.split dest: arg_cong [where f = snd])
      (metis observe_keeps_trip rotate_keeps_trip snd_conv)+
  show "memory_stopped b r t \<Longrightarrow> memory_stopped (snd (co_admit_at memory_canary_ops b key limit now)) r t"
    by (auto simp: memory_canary_ops_def memory_admit_def on_limiter_def memory_stopped_def canary_entry_def
        split: sum.splits prod.splits)
  show "memory_stopped b r t \<Longrightarrow> now < t \<Longrightarrow>
      memory_stopped (snd (co_snapshot_at memory_canary_ops b r' window now)) r t"
    by (auto simp: memory_canary_ops_def canary_snapshot_def memory_stopped_def canary_entry_insert Let_def
        clear_trip_def split: sum.splits dest: f64_less_le_trans f64_less_asym)
  show "memory_stopped b r t \<Longrightarrow> now < t \<Longrightarrow>
      fst (co_snapshot_at memory_canary_ops b r window now) = Inr s \<Longrightarrow> cs_tripped_reason s \<noteq> None"
    by (auto simp: memory_canary_ops_def canary_snapshot_def memory_stopped_def Let_def clear_trip_def
        split: sum.splits if_splits dest: f64_less_le_trans f64_less_asym)
qed

datatype rollout_step =
  AssignStep canary_config assignment "str option" f64
| OutcomeStep canary_config shared_canary_observation f64

fun step_time :: "rollout_step \<Rightarrow> f64" where
  "step_time (AssignStep c asg candidate now) = now"
| "step_time (OutcomeStep c ob now) = now"

fun rollout_apply :: "rollout_step \<Rightarrow> memory_backend \<Rightarrow> memory_backend" where
  "rollout_apply (AssignStep c asg candidate now) b =
     snd (maybe_assign_canary memory_canary_ops c asg candidate now b)"
| "rollout_apply (OutcomeStep c ob now) b = snd (record_canary_outcome memory_canary_ops c ob now b)"

lemma run_keeps_stopped:
  "memory_stopped b r t \<Longrightarrow> list_all (\<lambda>s. step_time s < t) steps \<Longrightarrow> memory_stopped (fold rollout_apply steps b) r t"
proof (induction steps arbitrary: b)
  case (Cons s steps)
  then have "memory_stopped (rollout_apply s b) r t"
    by (cases s) (auto intro: memory_rollout.assign_keeps memory_rollout.outcome_keeps)
  then show ?case using Cons by simp
qed simp


definition failed_report :: shared_canary_observation where
  "failed_report = \<lparr>co_rollout_id = lit ''r1'', co_request_id = lit ''q1'', co_succeeded = False, co_latency_ms = 5,
     co_realized_cost = None, co_baseline_cost = None, co_quality_loss = None\<rparr>"

lemma failed_report_trips:
  "fst (record_canary_outcome memory_canary_ops sample_canary failed_report (Fin 0) memory_backend_default) =
   Some TripErrorRate"
proof -
  have w: "canary_window (Fin 60) (Fin 0) = Inr 0"
    by (simp add: canary_window_def divide_finite rnd_f64_zero f64_zero_def f_floor_def f_max_def)
  have n: "f64_of_nat (Suc 0) = Fin 1" using f64_of_nat_exact [of 1] by simp
  show ?thesis
    by (simp add: record_canary_outcome_def memory_canary_ops_def record_canary_def validate_canary_inputs_def
        failed_report_def sample_canary_def w memory_backend_default_def canary_entry_def memory_canary_default_def
        rotate_memory_canary_def observe_canary_def add_quality_def add_cost_def add_outcome_def
        canary_snapshot_def str_len_def len_utf8_def map_of_bt_insert Let_def clear_trip_def trip_canary_def
        canary_snapshot_default_def tripwire_of_def n divide_finite rnd_f64_numeral sat_add_def)
qed


section \<open>Every request counts once\<close>

text \<open>The reference: keep the first report of every request, then add the reports up.\<close>

fun first_reports :: "str list \<Rightarrow> shared_canary_observation list \<Rightarrow> shared_canary_observation list" where
  "first_reports seen [] = []"
| "first_reports seen (ob # obs) =
     (if co_request_id ob \<in> set seen then first_reports seen obs
      else ob # first_reports (co_request_id ob # seen) obs)"

definition add_report :: "shared_canary_observation \<Rightarrow> shared_canary_snapshot \<Rightarrow> shared_canary_snapshot" where
  "add_report ob s = add_quality ob (add_cost ob (add_outcome ob s))"

definition record_all ::
  "f64 \<Rightarrow> (shared_canary_observation \<times> f64) list \<Rightarrow> memory_backend \<Rightarrow> memory_backend" where
  "record_all window reports b = fold (\<lambda>(ob, now) b. snd (record_canary b ob window now)) reports b"

definition in_window :: "str \<Rightarrow> f64 \<Rightarrow> u64 \<Rightarrow> shared_canary_observation \<times> f64 \<Rightarrow> bool" where
  "in_window r window w = (\<lambda>(ob, now). co_rollout_id ob = r \<and> validate_canary_inputs ob window = Inr () \<and>
     canary_window window now = Inr w)"

lemma record_all_snapshot:
  assumes "list_all (in_window r window w) reports" "rotate_memory_canary w (canary_entry b r) = st"
  shows "mc_snapshot (rotate_memory_canary w (canary_entry (record_all window reports b) r)) =
    fold add_report (first_reports (mc_seen st) (map fst reports)) (mc_snapshot st)"
  using assms
proof (induction reports arbitrary: b st)
  case Nil
  then show ?case by (simp add: record_all_def)
next
  case (Cons e reports)
  obtain ob now where e: "e = (ob, now)" by (cases e)
  let ?st = "snd (observe_canary ob st)" and ?b = "snd (record_canary b ob window now)"
  have entry: "canary_entry ?b r = ?st"
    using Cons.prems by (simp add: e in_window_def record_canary_def canary_entry_insert split: prod.split)
  moreover have "mc_window st = w" using Cons.prems(2) by (auto simp: rotate_memory_canary_def)
  ultimately have "rotate_memory_canary w (canary_entry ?b r) = ?st"
    by (simp add: rotate_memory_canary_def observe_canary_def)
  moreover have "record_all window (e # reports) b = record_all window reports ?b"
    by (simp add: record_all_def e)
  ultimately show ?case
    using Cons.IH [of ?b ?st] Cons.prems(1) by (simp add: e observe_canary_def add_report_def)
qed

lemma add_report_requests:
  "cs_requests (add_report ob s) = sat_add (cs_requests s) 1"
  "cs_errors (add_report ob s) = (if co_succeeded ob then cs_errors s else sat_add (cs_errors s) 1)"
  by (auto simp: add_report_def add_quality_def add_cost_def add_outcome_def split: option.splits)

lemma fold_add_report_counts:
  assumes "cs_requests s \<le> u64_max" "cs_errors s \<le> u64_max"
  shows "cs_requests (fold add_report obs s) = min (cs_requests s + length obs) u64_max"
    "cs_errors (fold add_report obs s) =
       min (cs_errors s + length (filter (\<lambda>ob. \<not> co_succeeded ob) obs)) u64_max"
  using assms by (induction obs arbitrary: s) (simp_all add: add_report_requests sat_add_def min_def)

lemma first_reports_distinct:
  "distinct (map co_request_id (first_reports seen obs)) \<and>
   co_request_id ` set (first_reports seen obs) = co_request_id ` set obs - set seen"
  by (induction seen obs rule: first_reports.induct) auto

text \<open>
  Reports of one rollout in one window are idempotent per request: the counters are those of
  adding up the first report of every request, so retried reports change nothing, and the request
  counter is the number of distinct requests, saturated at the 64-bit maximum.
\<close>

theorem canary_counts_each_request_once:
  assumes "map_of (mb_canary b) r = None" "list_all (in_window r window w) reports"
  shows "mc_snapshot (rotate_memory_canary w (canary_entry (record_all window reports b) r)) =
      fold add_report (first_reports [] (map fst reports)) canary_snapshot_default \<and>
    cs_requests (mc_snapshot (rotate_memory_canary w (canary_entry (record_all window reports b) r))) =
      min (card (co_request_id ` fst ` set reports)) u64_max \<and>
    cs_errors (mc_snapshot (rotate_memory_canary w (canary_entry (record_all window reports b) r))) \<le>
      cs_requests (mc_snapshot (rotate_memory_canary w (canary_entry (record_all window reports b) r)))"
proof -
  let ?st = "rotate_memory_canary w (canary_entry b r)" and ?fs = "first_reports [] (map fst reports)"
  have fresh: "mc_seen ?st = []" "mc_snapshot ?st = canary_snapshot_default"
    using assms(1) by (simp_all add: canary_entry_def memory_canary_default_def rotate_memory_canary_def
        canary_snapshot_default_def)
  have snap: "mc_snapshot (rotate_memory_canary w (canary_entry (record_all window reports b) r)) =
      fold add_report ?fs canary_snapshot_default"
    using record_all_snapshot [OF assms(2) refl, of b] fresh by simp
  have "length ?fs = card (co_request_id ` fst ` set reports)"
    using first_reports_distinct [of "[]" "map fst reports"] distinct_card [of "map co_request_id ?fs"] by simp
  moreover have "length (filter (\<lambda>ob. \<not> co_succeeded ob) ?fs) \<le> length ?fs" by (rule length_filter_le)
  ultimately show ?thesis
    unfolding snap by (simp add: fold_add_report_counts canary_snapshot_default_def min.coboundedI1)
qed

theorem canary_counts_each_request_once_witness:
  "cs_requests (mc_snapshot (rotate_memory_canary 0 (canary_entry
     (record_all (Fin 60) [(failed_report, Fin 0), (failed_report, Fin 0)] memory_backend_default) (lit ''r1'')))) = 1"
proof -
  have w: "canary_window (Fin 60) (Fin 0) = Inr 0"
    by (simp add: canary_window_def divide_finite rnd_f64_zero f64_zero_def f_floor_def f_max_def)
  have "list_all (in_window (lit ''r1'') (Fin 60) 0) [(failed_report, Fin 0), (failed_report, Fin 0)]"
    by (simp add: in_window_def w validate_canary_inputs_def failed_report_def str_len_def len_utf8_def)
  from canary_counts_each_request_once [OF _ this, of memory_backend_default] show ?thesis
    by (simp add: memory_backend_default_def add_report_requests canary_snapshot_default_def sat_add_def)
qed

end
