(* ===== verification/Sorting.thy ===== *)
theory Sorting
  imports Prelude "HOL-Library.Multiset"
begin

text \<open>
  The stable sort of the Rust standard library, for a comparison that may be arbitrary, and the facts the
  components use: it permutes, and it orders when the comparison is total and transitive.
\<close>

text \<open>\<open>slice::sort_by\<close> is a stable sort; the comparison is given as \<open>not greater\<close>.\<close>

fun insort_by :: "('a \<Rightarrow> 'a \<Rightarrow> bool) \<Rightarrow> 'a \<Rightarrow> 'a list \<Rightarrow> 'a list" where
  "insort_by le x [] = [x]"
| "insort_by le x (y # ys) = (if le x y then x # y # ys else y # insort_by le x ys)"

definition sort_by :: "('a \<Rightarrow> 'a \<Rightarrow> bool) \<Rightarrow> 'a list \<Rightarrow> 'a list" where
  "sort_by le xs = foldr (insort_by le) xs []"

lemma mset_insort_by: "mset (insort_by le x ys) = add_mset x (mset ys)"
  by (induction ys) auto

lemma mset_sort_by [simp]: "mset (sort_by le xs) = mset xs"
  by (induction xs) (simp_all add: sort_by_def mset_insort_by)

lemma set_sort_by [simp]: "set (sort_by le xs) = set xs"
  by (metis mset_sort_by set_mset_mset)

lemma set_insort_by: "set (insort_by le x ys) = insert x (set ys)"
  by (metis mset_insort_by set_mset_mset set_mset_add_mset_insert)

text \<open>Sorting by a comparison that is total and transitive on the elements orders them.\<close>

lemma sorted_sort_by:
  assumes "\<And>x y. x \<in> set xs \<Longrightarrow> y \<in> set xs \<Longrightarrow> le x y \<or> le y x"
    and "\<And>x y z. x \<in> set xs \<Longrightarrow> y \<in> set xs \<Longrightarrow> z \<in> set xs \<Longrightarrow> le x y \<Longrightarrow> le y z \<Longrightarrow> le x z"
  shows "sorted_wrt le (sort_by le xs)"
  using assms
proof (induction xs)
  case (Cons x xs)
  have ins: "sorted_wrt le (insort_by le x ys)" if "sorted_wrt le ys" "set ys \<subseteq> set xs" for ys
    using that
  proof (induction ys)
    case (Cons y ys)
    note lin = \<open>\<And>a b. a \<in> set (x # xs) \<Longrightarrow> b \<in> set (x # xs) \<Longrightarrow> le a b \<or> le b a\<close>
    note tr = \<open>\<And>a b c. a \<in> set (x # xs) \<Longrightarrow> b \<in> set (x # xs) \<Longrightarrow> c \<in> set (x # xs) \<Longrightarrow> le a b \<Longrightarrow> le b c \<Longrightarrow> le a c\<close>
    show ?case
    proof (cases "le x y")
      case True
      have "le x z" if "z \<in> set ys" for z
        using tr [of x y z] True that Cons.prems by auto
      then show ?thesis using True Cons.prems by simp
    next
      case False
      then have "le y x" using lin [of x y] Cons.prems by auto
      then show ?thesis using False Cons by (auto simp: set_insort_by)
    qed
  qed simp
  have "sorted_wrt le (sort_by le xs)"
    using Cons.prems by (intro Cons.IH) (meson list.set_intros(2))+
  then have "sorted_wrt le (insort_by le x (sort_by le xs))" by (intro ins) simp_all
  then show ?case by (simp add: sort_by_def)
next
  case Nil
  show ?case by (simp add: sort_by_def)
qed

end
