(* ===== verification/Calibration.thy ===== *)
theory Calibration
  imports Scoring Sorting
begin

text \<open>
  Threshold calibration of \<open>wayfinder-routing-core/src/calibration.rs\<close>: the candidate cuts, the metrics of
  one cut and the search for the cut of least expected loss. All arithmetic is binary64. The theory
  proves that the search returns the metrics of one of the candidate cuts and that no candidate is
  better than it by more than the stated tolerance.
\<close>

definition OBJECTIVE_EPSILON :: f64 where
  "OBJECTIVE_EPSILON = rnd_f64 False (1 / 10 ^ 12)"

record threshold_sample =
  ts_score :: f64
  ts_requires_high :: bool

record min_cost_calibration =
  mc_threshold :: f64
  mc_accuracy :: f64
  mc_quality_recovered :: f64
  mc_cost_savings :: f64
  mc_expected_money_cost :: f64
  mc_expected_loss :: f64

datatype calibration_error =
  EmptyDataset | MissingLabelClass | InvalidScore nat f64 | InvalidCost str f64 | UnorderedCosts

definition validate_cost :: "str \<Rightarrow> f64 \<Rightarrow> (calibration_error, unit) result" where
  "validate_cost name v = (if \<not> is_finite v \<or> v < Fin 0 then Inl (InvalidCost name v) else Inr ())"

fun first_bad_score :: "nat \<Rightarrow> threshold_sample list \<Rightarrow> calibration_error option" where
  "first_bad_score i [] = None"
| "first_bad_score i (x # xs) =
     (if \<not> is_finite (ts_score x) \<or> \<not> (Fin 0 \<le> ts_score x \<and> ts_score x \<le> Fin 1)
      then Some (InvalidScore i (ts_score x)) else first_bad_score (Suc i) xs)"

definition validate_inputs ::
  "threshold_sample list \<Rightarrow> f64 \<Rightarrow> f64 \<Rightarrow> f64 \<Rightarrow> (calibration_error, unit) result" where
  "validate_inputs samples low_cost high_cost quality_penalty =
     (if samples = [] then Inl EmptyDataset
      else
        case first_bad_score 0 samples of
          Some e \<Rightarrow> Inl e
        | None \<Rightarrow>
            if \<not> list_ex ts_requires_high samples \<or> \<not> list_ex (\<lambda>x. \<not> ts_requires_high x) samples
            then Inl MissingLabelClass
            else
              case validate_cost (lit ''low_cost'') low_cost of
                Inl e \<Rightarrow> Inl e
              | Inr _ \<Rightarrow>
                  (case validate_cost (lit ''high_cost'') high_cost of
                     Inl e \<Rightarrow> Inl e
                   | Inr _ \<Rightarrow>
                       (case validate_cost (lit ''quality_penalty'') quality_penalty of
                          Inl e \<Rightarrow> Inl e
                        | Inr _ \<Rightarrow> if high_cost \<le> low_cost then Inl UnorderedCosts else Inr ())))"

definition routed_high :: "f64 \<Rightarrow> threshold_sample \<Rightarrow> bool" where
  "routed_high threshold x \<longleftrightarrow> threshold \<le> ts_score x"

text \<open>The counters of the source's loop, as counts; the money is added up in the order of the samples.\<close>

definition metrics_at ::
  "threshold_sample list \<Rightarrow> f64 \<Rightarrow> f64 \<Rightarrow> f64 \<Rightarrow> f64 \<Rightarrow> min_cost_calibration" where
  "metrics_at samples threshold low_cost high_cost quality_penalty =
     (let n = f64_of_nat (length samples);
          high_labels = f64_of_nat (length (filter ts_requires_high samples));
          correct = length (filter (\<lambda>x. routed_high threshold x = ts_requires_high x) samples);
          recovered = length (filter (\<lambda>x. ts_requires_high x \<and> routed_high threshold x) samples);
          missed_high = length (filter (\<lambda>x. ts_requires_high x \<and> \<not> routed_high threshold x) samples);
          money = f_sum (Fin 0) (map (\<lambda>x. if routed_high threshold x then high_cost else low_cost) samples);
          expected_money_cost = money div n;
          missed_high_rate = f64_of_nat missed_high div n
      in \<lparr>mc_threshold = threshold, mc_accuracy = f64_of_nat correct div n,
          mc_quality_recovered = f64_of_nat recovered div high_labels,
          mc_cost_savings = (high_cost - expected_money_cost) div high_cost,
          mc_expected_money_cost = expected_money_cost,
          mc_expected_loss = expected_money_cost + quality_penalty * missed_high_rate\<rparr>)"

text \<open>\<open>dedup_by\<close> drops every element equal to its predecessor.\<close>

fun dedup :: "f64 list \<Rightarrow> f64 list" where
  "dedup (x # y # zs) = (if x = y then dedup (x # zs) else x # dedup (y # zs))"
| "dedup xs = xs"

definition candidate_cuts :: "threshold_sample list \<Rightarrow> f64 list" where
  "candidate_cuts samples =
     dedup (sort_by total_le (Fin 0 # Fin 1 # map (\<lambda>x. python_round (ts_score x) 4) samples))"

fun best_cuts_loop :: "(f64 \<Rightarrow> f64) \<Rightarrow> f64 \<Rightarrow> f64 list \<Rightarrow> f64 list \<Rightarrow> f64 \<times> f64 list" where
  "best_cuts_loop loss best_loss best_cuts [] = (best_loss, best_cuts)"
| "best_cuts_loop loss best_loss best_cuts (c # cs) =
     (if loss c < best_loss - OBJECTIVE_EPSILON then best_cuts_loop loss (loss c) [c] cs
      else if f_abs (loss c - best_loss) \<le> OBJECTIVE_EPSILON
      then best_cuts_loop loss best_loss (best_cuts @ [c]) cs
      else best_cuts_loop loss best_loss best_cuts cs)"

definition calibrate_min_cost ::
  "threshold_sample list \<Rightarrow> f64 \<Rightarrow> f64 \<Rightarrow> f64 \<Rightarrow> (calibration_error, min_cost_calibration) result" where
  "calibrate_min_cost samples low_cost high_cost quality_penalty =
     (case validate_inputs samples low_cost high_cost quality_penalty of
        Inl e \<Rightarrow> Inl e
      | Inr _ \<Rightarrow>
          let loss = (\<lambda>c. mc_expected_loss (metrics_at samples c low_cost high_cost quality_penalty));
              best_cuts = snd (best_cuts_loop loss PInf [] (candidate_cuts samples));
              chosen = (if length best_cuts div 2 < length best_cuts then best_cuts ! (length best_cuts div 2) else Fin 0)
          in Inr (metrics_at samples chosen low_cost high_cost quality_penalty))"

section \<open>The chosen cut is optimal up to the tolerance\<close>

lemma plus_finite_wf: "is_finite (x + y) \<Longrightarrow> wf_f64 (x + y)"
  by (cases x; cases y) (auto simp: plus_f64_def)

lemma minus_le_self:
  assumes "is_finite x" "wf_f64 x" "is_finite e" "0 \<le> val e"
  shows "x - e \<le> x"
proof -
  let ?s = "x = NZero \<and> e = Fin 0"
  have "x - e \<le> rnd_f64 ?s (val x)"
    using assms by (simp add: minus_finite rnd_f64_mono)
  moreover have "rnd_f64 ?s (val x) \<le> x"
    using rnd_f64_wf_val [OF assms(2,1)] assms(1) by (simp add: f64_le_finite)
  ultimately show ?thesis by (rule f64_le_trans)
qed

lemma epsilon_finite: "is_finite OBJECTIVE_EPSILON" "0 \<le> val OBJECTIVE_EPSILON"
proof -
  have le: "rnd_f64 False (1 / 10 ^ 12) \<le> rnd_f64 False 1" by (rule rnd_f64_mono) simp
  have ge: "Fin 0 \<le> rnd_f64 False (1 / 10 ^ 12)" by (rule rnd_f64_nonneg) simp
  show "is_finite OBJECTIVE_EPSILON" "0 \<le> val OBJECTIVE_EPSILON"
    using le ge by (cases "rnd_f64 False (1 / 10 ^ 12)";
        auto simp: OBJECTIVE_EPSILON_def less_eq_f64_def rnd_f64_numeral)+
qed

text \<open>The search's invariant over the cuts seen so far.\<close>

definition search_inv :: "(f64 \<Rightarrow> f64) \<Rightarrow> f64 list \<Rightarrow> f64 \<Rightarrow> f64 list \<Rightarrow> bool" where
  "search_inv loss seen best cuts \<longleftrightarrow>
     (if seen = [] then best = PInf \<and> cuts = []
      else cuts \<noteq> [] \<and> set cuts \<subseteq> set seen \<and> best \<in> loss ` set seen \<and>
           (\<forall>c\<in>set cuts. loss c = best \<or> f_abs (loss c - best) \<le> OBJECTIVE_EPSILON) \<and>
           (\<forall>c\<in>set seen. \<not> loss c < best - OBJECTIVE_EPSILON))"

lemma search_improved:
  assumes "search_inv loss seen best cuts" "loss c < best - OBJECTIVE_EPSILON"
    and "\<forall>c\<in>set (c # seen). is_finite (loss c) \<and> wf_f64 (loss c)"
  shows "search_inv loss (seen @ [c]) (loss c) [c]"
proof -
  have self: "\<not> loss c < loss c - OBJECTIVE_EPSILON"
    using minus_le_self [of "loss c"] epsilon_finite assms(3) by (auto dest: f64_less_asym)
  have "\<not> loss c' < loss c - OBJECTIVE_EPSILON" if "c' \<in> set seen" for c'
  proof
    assume c': "loss c' < loss c - OBJECTIVE_EPSILON"
    have best: "is_finite best" "wf_f64 best" "\<not> loss c' < best - OBJECTIVE_EPSILON"
      using assms(1,3) that by (auto simp: search_inv_def split: if_splits)
    then have "loss c \<le> best"
      using assms(2) minus_le_self [OF best(1,2) epsilon_finite] by (blast intro: f64_less_imp_le f64_le_trans)
    then have "loss c - OBJECTIVE_EPSILON \<le> best - OBJECTIVE_EPSILON"
      using assms(3) best epsilon_finite by (intro minus_mono_left) auto
    then show False using c' best(3) f64_less_le_trans by blast
  qed
  then show ?thesis using self by (auto simp: search_inv_def)
qed

lemma PInf_minus_finite: "is_finite e \<Longrightarrow> PInf - e = PInf"
  by (simp add: minus_f64_def plus_f64_def is_finite_not_nan)

lemma PInf_minus_epsilon: "is_finite x \<Longrightarrow> x < PInf - OBJECTIVE_EPSILON"
  by (cases x) (auto simp: PInf_minus_finite epsilon_finite less_f64_def)

lemma best_cuts_loop_inv:
  assumes "search_inv loss seen best cuts" "\<forall>c\<in>set (seen @ cs). is_finite (loss c) \<and> wf_f64 (loss c)"
    and "best_cuts_loop loss best cuts cs = (best', cuts')"
  shows "search_inv loss (seen @ cs) best' cuts'"
  using assms
proof (induction cs arbitrary: seen best cuts)
  case (Cons c cs)
  show ?case
  proof (cases "loss c < best - OBJECTIVE_EPSILON")
    case True
    then have "search_inv loss (seen @ [c]) (loss c) [c]"
      using Cons.prems by (intro search_improved) auto
    then show ?thesis using Cons.IH [of "seen @ [c]" "loss c" "[c]"] Cons.prems True by simp
  next
    case False
    then have seen: "seen \<noteq> []"
      using Cons.prems(1,2) PInf_minus_epsilon [of "loss c"] by (auto simp: search_inv_def)
    let ?cuts = "if f_abs (loss c - best) \<le> OBJECTIVE_EPSILON then cuts @ [c] else cuts"
    have "search_inv loss (seen @ [c]) best ?cuts"
      using Cons.prems(1) False seen by (auto simp: search_inv_def)
    then show ?thesis using Cons.IH [of "seen @ [c]" best ?cuts] Cons.prems False by (simp split: if_splits)
  qed
qed simp

lemma set_dedup [simp]: "set (dedup xs) = set xs"
  by (induction xs rule: dedup.induct) auto

lemma set_candidate_cuts:
  "set (candidate_cuts samples) = insert (Fin 0) (insert (Fin 1) ((\<lambda>x. python_round (ts_score x) 4) ` set samples))"
  by (simp add: candidate_cuts_def image_image)

text \<open>
  C37. Threshold calibration is optimal: when it succeeds, and the expected losses of the candidate
  cuts (0, 1 and every sample's score rounded to four decimals) do not overflow, its result is the
  metrics of one of those cuts; some candidate's loss is beaten by no candidate by more than the
  objective tolerance, and the chosen cut's loss is within the tolerance of it.
\<close>

theorem calibrated_cut_is_optimal:
  fixes samples low_cost high_cost quality_penalty
  defines "loss \<equiv> \<lambda>c. mc_expected_loss (metrics_at samples c low_cost high_cost quality_penalty)"
    and "cuts \<equiv> insert (Fin 0) (insert (Fin 1) ((\<lambda>x. python_round (ts_score x) 4) ` set samples))"
  assumes ok: "calibrate_min_cost samples low_cost high_cost quality_penalty = Inr m"
    and fin: "\<forall>c\<in>cuts. is_finite (loss c)"
  shows "\<exists>c\<in>cuts. \<exists>best\<in>cuts. m = metrics_at samples c low_cost high_cost quality_penalty \<and>
           (\<forall>c'\<in>cuts. \<not> loss c' < loss best - OBJECTIVE_EPSILON) \<and>
           (loss c = loss best \<or> f_abs (loss c - loss best) \<le> OBJECTIVE_EPSILON)"
proof -
  obtain b cs where run: "best_cuts_loop loss PInf [] (candidate_cuts samples) = (b, cs)" by fastforce
  have "wf_f64 (loss c)" if "is_finite (loss c)" for c
    using that plus_finite_wf by (simp add: loss_def metrics_at_def Let_def)
  then have "search_inv loss ([] @ candidate_cuts samples) b cs"
    using fin by (intro best_cuts_loop_inv [OF _ _ run]) (auto simp: search_inv_def set_candidate_cuts cuts_def)
  moreover have "candidate_cuts samples \<noteq> []"
    using set_candidate_cuts [of samples] by auto
  ultimately have inv: "cs \<noteq> []" "set cs \<subseteq> cuts" "b \<in> loss ` cuts"
    "\<forall>c\<in>set cs. loss c = b \<or> f_abs (loss c - b) \<le> OBJECTIVE_EPSILON"
    "\<forall>c\<in>cuts. \<not> loss c < b - OBJECTIVE_EPSILON"
    by (auto simp: search_inv_def set_candidate_cuts cuts_def)
  let ?c = "cs ! (length cs div 2)"
  have c: "?c \<in> set cs" using inv(1) by (intro nth_mem) (simp add: div_less_dividend)
  have "m = metrics_at samples ?c low_cost high_cost quality_penalty"
    using ok run inv(1)
    by (auto simp: calibrate_min_cost_def loss_def [symmetric] Let_def div_less_dividend split: sum.splits)
  then show ?thesis using inv c by blast
qed

lemma two_sample_losses_finite:
  "is_finite (mc_expected_loss (metrics_at
     [\<lparr>ts_score = Fin 0, ts_requires_high = False\<rparr>, \<lparr>ts_score = Fin 1, ts_requires_high = True\<rparr>]
     c (Fin 0) (Fin 2) (Fin 2)))"
  by (auto simp: metrics_at_def Let_def routed_high_def f64_of_nat_exact f64_simps rnd_f64_half)

theorem calibrated_cut_is_optimal_witness:
  "\<exists>m. calibrate_min_cost
        [\<lparr>ts_score = Fin 0, ts_requires_high = False\<rparr>, \<lparr>ts_score = Fin 1, ts_requires_high = True\<rparr>]
        (Fin 0) (Fin 2) (Fin 2) = Inr m \<and>
     mc_threshold m \<in> {Fin 0, Fin 1, python_round (Fin 0) 4, python_round (Fin 1) 4}"
proof -
  let ?s = "[\<lparr>ts_score = Fin 0, ts_requires_high = False\<rparr>, \<lparr>ts_score = Fin 1, ts_requires_high = True\<rparr>]"
  obtain m where m: "calibrate_min_cost ?s (Fin 0) (Fin 2) (Fin 2) = Inr m"
    by (simp add: calibrate_min_cost_def validate_inputs_def validate_cost_def Let_def)
  show ?thesis
    using m calibrated_cut_is_optimal [OF m] two_sample_losses_finite
    by (force simp: metrics_at_def Let_def)
qed

end
