(* ===== verification/Reload.thy ===== *)
theory Reload
  imports Prelude
begin

text \<open>
  The last-good snapshot holder of \<open>wayfinder-gateway/src/reload.rs\<close>. The mutex makes every
  operation one step on the state; the loader runs inside it and is a function of the state of the
  world outside (the file system, a parser), so that a model run shows how often it is called. A lock
  poisoned by a panic of the loader is not modelled.
\<close>

datatype ('t, 'e) reload_outcome = Unchanged 't | Reloaded 't | Retained 't 'e

fun outcome_current :: "('t, 'e) reload_outcome \<Rightarrow> 't" where
  "outcome_current (Unchanged c) = c"
| "outcome_current (Reloaded c) = c"
| "outcome_current (Retained c _) = c"

record ('t, 'v) last_good =
  lg_version :: 'v
  lg_current :: 't
  lg_failures :: u64

definition last_good_new :: "'t \<Rightarrow> 'v \<Rightarrow> ('t, 'v) last_good" where
  "last_good_new initial version = \<lparr>lg_version = version, lg_current = initial, lg_failures = 0\<rparr>"

definition refresh ::
  "'v \<Rightarrow> ('w \<Rightarrow> ('e, 't) result \<times> 'w) \<Rightarrow> ('t, 'v) last_good \<Rightarrow> 'w \<Rightarrow>
   ('t, 'e) reload_outcome \<times> ('t, 'v) last_good \<times> 'w" where
  "refresh observed load st w =
     (if observed = lg_version st then (Unchanged (lg_current st), st, w)
      else
        let st1 = st\<lparr>lg_version := observed\<rparr> in
        case load w of
          (Inr next_value, w') \<Rightarrow> (Reloaded next_value, st1\<lparr>lg_current := next_value\<rparr>, w')
        | (Inl e, w') \<Rightarrow> (Retained (lg_current st1) e, st1\<lparr>lg_failures := sat_add (lg_failures st1) 1\<rparr>, w'))"

section \<open>The holder against the history of observations\<close>

text \<open>
  A history is the list of observed versions, each with what parsing it would give. The world of the
  run is the list of versions the loader was called for.
\<close>

type_synonym ('v, 'e, 't) observations = "('v \<times> ('e, 't) result) list"

definition observe :: "'v \<times> ('e, 't) result \<Rightarrow> ('t, 'v) last_good \<times> 'v list \<Rightarrow> ('t, 'v) last_good \<times> 'v list" where
  "observe ob s = (case s of (st, w) \<Rightarrow> snd (refresh (fst ob) (\<lambda>w. (snd ob, w @ [fst ob])) st w))"

text \<open>The observations whose version differs from the one before.\<close>

fun changes :: "'v \<Rightarrow> ('v, 'e, 't) observations \<Rightarrow> ('v, 'e, 't) observations" where
  "changes v [] = []"
| "changes v (ob # obs) = (if fst ob = v then changes v obs else ob # changes (fst ob) obs)"

definition last_ok :: "'t \<Rightarrow> ('v, 'e, 't) observations \<Rightarrow> 't" where
  "last_ok initial obs = fold (\<lambda>ob c. case snd ob of Inl _ \<Rightarrow> c | Inr x \<Rightarrow> x) obs initial"

definition failed :: "('v, 'e, 't) observations \<Rightarrow> nat" where
  "failed obs = length (filter (\<lambda>ob. \<not> is_ok (snd ob)) obs)"

lemma observe_same: "fst ob = lg_version st \<Longrightarrow> observe ob (st, w) = (st, w)"
  by (simp add: observe_def refresh_def)

lemma observe_changed:
  "fst ob \<noteq> lg_version st \<Longrightarrow> observe ob (st, w) =
     (\<lparr>lg_version = fst ob, lg_current = last_ok (lg_current st) [ob],
       lg_failures = (if is_ok (snd ob) then lg_failures st else sat_add (lg_failures st) 1)\<rparr>, w @ [fst ob])"
  by (cases st; cases "snd ob") (simp_all add: observe_def refresh_def last_ok_def)

text \<open>The failure counter after \<open>n\<close> more failures.\<close>

definition after_failures :: "u64 \<Rightarrow> nat \<Rightarrow> u64" where
  "after_failures c n = (if n = 0 then c else sat_add c n)"

lemma after_failures_Suc: "after_failures (sat_add c (Suc 0)) n = after_failures c (Suc n)"
  by (auto simp: after_failures_def sat_add_def)

lemma observe_history:
  "fold observe obs (st, w) =
     (\<lparr>lg_version = last (lg_version st # map fst obs), lg_current = last_ok (lg_current st) (changes (lg_version st) obs),
       lg_failures = after_failures (lg_failures st) (failed (changes (lg_version st) obs))\<rparr>,
      w @ map fst (changes (lg_version st) obs))"
proof (induction obs arbitrary: st w)
  case Nil
  show ?case by (cases st) (simp add: last_ok_def failed_def after_failures_def)
next
  case (Cons ob obs)
  show ?case
  proof (cases "fst ob = lg_version st")
    case True
    then show ?thesis by (simp add: Cons observe_same)
  next
    case False
    then show ?thesis
      by (cases "is_ok (snd ob)") (simp_all add: Cons observe_changed last_ok_def failed_def after_failures_Suc)
  qed
qed

text \<open>
  After any sequence of observed versions the snapshot served to requests is the last one that
  parsed among the versions that differed from their predecessor, or the initial snapshot if none
  did; the loader ran exactly once for each such version and never for an unchanged one, and the
  failure count is the number of them that did not parse, up to saturation.
\<close>

theorem reload_serves_last_good:
  "fold observe obs (last_good_new initial v, []) =
     (\<lparr>lg_version = last (v # map fst obs), lg_current = last_ok initial (changes v obs),
       lg_failures = min (failed (changes v obs)) u64_max\<rparr>,
      map fst (changes v obs))"
  by (auto simp: observe_history last_good_new_def after_failures_def sat_add_def)

end
