(* ===== verification/Modalities.thy ===== *)
theory Modalities
  imports Json
begin

text \<open>
  The fail-closed modality boundary of \<open>wayfinder-gateway/src/modalities.rs\<close>: the scan of a chat body
  for fields that only a non-text surface has, and what a body that passes the scan looks like.
\<close>

definition MODALITY_CONTRACT_VERSION :: str where
  "MODALITY_CONTRACT_VERSION = lit ''wf-modalities-v1''"

definition MAX_SCAN_DEPTH :: nat where "MAX_SCAN_DEPTH = 64"

datatype modality_error = UnsupportedField str | NestingTooDeep

definition body_fields :: "str list" where
  "body_fields = map lit
     [''input'', ''images'', ''image'', ''image_url'', ''audio'', ''input_audio'', ''audio_url'', ''modalities'',
      ''audio_config'', ''voice'', ''format'', ''batch'', ''batch_id'', ''file_id'', ''input_file'', ''files'']"

definition nested_fields :: "str list" where
  "nested_fields = map lit
     [''image_url'', ''input_image'', ''image'', ''input_audio'', ''audio'', ''audio_url'', ''input_file'',
      ''file'', ''file_id'']"

text \<open>The loop over a list of field names: the first one the object contains.\<close>

definition first_field :: "str list \<Rightarrow> (str \<times> json) list \<Rightarrow> modality_error option" where
  "first_field names m = map_option UnsupportedField (List.find (\<lambda>f. f \<in> fst ` set m) names)"

fun find_nested_modality :: "json \<Rightarrow> nat \<Rightarrow> modality_error option"
  and find_in_values :: "json list \<Rightarrow> nat \<Rightarrow> modality_error option"
  and find_in_members :: "(str \<times> json) list \<Rightarrow> nat \<Rightarrow> modality_error option" where
  "find_nested_modality v depth =
     (if MAX_SCAN_DEPTH \<le> depth then Some NestingTooDeep
      else case v of
        JArray xs \<Rightarrow> find_in_values xs (Suc depth)
      | JObject m \<Rightarrow>
          (case first_field nested_fields m of
             Some e \<Rightarrow> Some e
           | None \<Rightarrow> find_in_members m (Suc depth))
      | JNull \<Rightarrow> None | JBool _ \<Rightarrow> None | JNumber _ \<Rightarrow> None | JString _ \<Rightarrow> None)"
| "find_in_values [] depth = None"
| "find_in_values (v # vs) depth =
     (case find_nested_modality v depth of Some e \<Rightarrow> Some e | None \<Rightarrow> find_in_values vs depth)"
| "find_in_members [] depth = None"
| "find_in_members (kv # m) depth =
     (case find_nested_modality (snd kv) depth of Some e \<Rightarrow> Some e | None \<Rightarrow> find_in_members m depth)"

declare find_nested_modality.simps [simp del]

definition unsupported_text_surface :: "(str \<times> json) list \<Rightarrow> modality_error option" where
  "unsupported_text_surface body =
     (case first_field body_fields body of
        Some e \<Rightarrow> Some e
      | None \<Rightarrow> Option.bind (map_of body (lit ''messages'')) (\<lambda>messages. find_nested_modality messages 0))"

section \<open>What passes the scan\<close>

text \<open>The names of all object members at any depth, and the nesting depth, of a value.\<close>

fun all_fields :: "json \<Rightarrow> str set" where
  "all_fields (JArray xs) = (\<Union>v\<in>set xs. all_fields v)"
| "all_fields (JObject m) = fst ` set m \<union> (\<Union>kv\<in>set m. all_fields (snd kv))"
| "all_fields _ = {}"

fun nesting :: "json \<Rightarrow> nat" where
  "nesting (JArray xs) = Suc (fold max (map nesting xs) 0)"
| "nesting (JObject m) = Suc (fold max (map (\<lambda>kv. nesting (snd kv)) m) 0)"
| "nesting _ = Suc 0"

lemma fold_max_le: "fold max xs n \<le> b \<longleftrightarrow> n \<le> b \<and> (\<forall>x\<in>set xs. x \<le> b)" for b :: nat
  by (induction xs arbitrary: n) auto

lemma fold_max_depth: "d + Suc (fold max xs 0) \<le> b \<longleftrightarrow> d < b \<and> (\<forall>x\<in>set xs. Suc d + x \<le> b)" for b :: nat
proof (cases "d < b")
  case True
  then have "d + Suc (fold max xs 0) \<le> b \<longleftrightarrow> fold max xs 0 \<le> b - Suc d" by arith
  also have "\<dots> \<longleftrightarrow> (\<forall>x\<in>set xs. Suc d + x \<le> b)" using True by (auto simp: fold_max_le)
  finally show ?thesis using True by simp
qed simp

lemma first_field_None: "first_field names m = None \<longleftrightarrow> set names \<inter> fst ` set m = {}"
  by (auto simp: first_field_def find_None_iff)

lemma find_in_values_None: "find_in_values vs d = None \<longleftrightarrow> (\<forall>v\<in>set vs. find_nested_modality v d = None)"
  by (induction vs) (auto split: option.splits)

lemma find_in_members_None: "find_in_members m d = None \<longleftrightarrow> (\<forall>kv\<in>set m. find_nested_modality (snd kv) d = None)"
  by (induction m) (auto split: option.splits)

lemma find_nested_None:
  "find_nested_modality v d = None \<longleftrightarrow> d + nesting v \<le> MAX_SCAN_DEPTH \<and> set nested_fields \<inter> all_fields v = {}"
proof (induction v arbitrary: d)
  case (JArray xs)
  have "find_nested_modality (JArray xs) d = None \<longleftrightarrow>
      d < MAX_SCAN_DEPTH \<and> (\<forall>v\<in>set xs. find_nested_modality v (Suc d) = None)"
    by (simp add: find_nested_modality.simps [of "JArray xs"] find_in_values_None)
  then show ?case by (simp only: nesting.simps fold_max_depth) (auto simp: JArray disjoint_iff)
next
  case (JObject m)
  have sub: "find_nested_modality (snd kv) n = None \<longleftrightarrow>
      n + nesting (snd kv) \<le> MAX_SCAN_DEPTH \<and> set nested_fields \<inter> all_fields (snd kv) = {}"
    if "kv \<in> set m" for kv n
    using JObject [of kv "snd kv"] that by (simp add: snds.simps)
  have "find_nested_modality (JObject m) d = None \<longleftrightarrow>
      d < MAX_SCAN_DEPTH \<and> set nested_fields \<inter> fst ` set m = {} \<and>
      (\<forall>kv\<in>set m. find_nested_modality (snd kv) (Suc d) = None)"
    by (auto simp: find_nested_modality.simps [of "JObject m"] find_in_members_None
        simp flip: first_field_None split: option.splits)
  then show ?case
    by (simp only: nesting.simps fold_max_depth) (auto simp: sub disjoint_iff)
qed (auto simp: find_nested_modality.simps)

text \<open>
  C38. The modality boundary is exact: a chat body is accepted precisely when it has none of the
  refused top-level fields, and its messages, if any, carry none of the refused fields in any object
  at any depth and nest at most 64 levels. An accepted body holds no image, audio, file or batch part.
\<close>

theorem accepted_bodies_are_text:
  "unsupported_text_surface body = None \<longleftrightarrow>
     set body_fields \<inter> fst ` set body = {} \<and>
     (case map_of body (lit ''messages'') of
        None \<Rightarrow> True
      | Some messages \<Rightarrow> nesting messages \<le> 64 \<and> set nested_fields \<inter> all_fields messages = {})"
  by (auto simp: unsupported_text_surface_def find_nested_None MAX_SCAN_DEPTH_def
      simp flip: first_field_None split: option.splits)

end
