(* ===== verification/Recent.thy ===== *)
theory Recent
  imports Scoring Contracts
begin

text \<open>
  The bounded ring of prompt-free receipts of \<open>wayfinder-gateway/src/recent.rs\<close>: appending, the four
  enrichments of a retained receipt, user labels, and the two reports. The mutex makes every operation
  one step. The theory proves what the ring retains under any interleaving of operations and that a
  workspace report partitions the receipts it counts.
\<close>

definition MAX_RECENT_ENTRIES :: nat where "MAX_RECENT_ENTRIES = 200"

datatype recent_outcome = RStreaming | RSucceeded | RFailed | RCancelled | RCacheHit

datatype user_outcome = USuccess | UCorrection | UFailure

record recent_cost =
  rk_realized :: f64
  rk_baseline :: f64
  rk_saved :: f64
  rk_tokens :: u64
  rk_unit :: str
  rk_estimated :: bool

record recent_entry =
  re_request_id :: str
  re_model :: str
  re_score :: f64
  re_mode :: str
  re_policy_version :: "str option"
  re_snapshot_id :: "str option"
  re_policy_profile :: "str option"
  re_served_by :: "str option"
  re_execution_boundary :: "execution_boundary option"
  re_outcome :: "recent_outcome option"
  re_user_outcome :: "user_outcome option"
  re_http_status :: "nat option"
  re_error_type :: "str option"
  re_ts :: f64
  re_cost :: "recent_cost option"
  re_key :: "str option"
  re_workspace :: "str option"
  re_cache :: "str option"

datatype user_outcome_error = ReceiptNotFound | ReceiptNotTerminal

record recent_routes =
  rr_capacity :: nat
  rr_entries :: "recent_entry list"

definition recent_new :: "nat \<Rightarrow> recent_routes" where
  "recent_new capacity = \<lparr>rr_capacity = min capacity MAX_RECENT_ENTRIES, rr_entries = []\<rparr>"

definition recent_default :: recent_routes where
  "recent_default = recent_new MAX_RECENT_ENTRIES"

text \<open>The loop that drops the oldest entry while the ring is over its capacity.\<close>

fun pop_front_while :: "nat \<Rightarrow> 'a list \<Rightarrow> 'a list" where
  "pop_front_while capacity [] = []"
| "pop_front_while capacity (x # xs) = (if capacity < length (x # xs) then pop_front_while capacity xs else x # xs)"

definition recent_record :: "recent_entry \<Rightarrow> recent_routes \<Rightarrow> recent_routes" where
  "recent_record e r =
     (if rr_capacity r = 0 then r
      else r\<lparr>rr_entries := pop_front_while (rr_capacity r) (rr_entries r @ [e])\<rparr>)"

text \<open>The newest entry that satisfies the predicate, updated in place; nothing when there is none.\<close>

fun update_first :: "('a \<Rightarrow> bool) \<Rightarrow> ('a \<Rightarrow> 'a) \<Rightarrow> 'a list \<Rightarrow> 'a list option" where
  "update_first P f [] = None"
| "update_first P f (x # xs) = (if P x then Some (f x # xs) else map_option (Cons x) (update_first P f xs))"

definition update_newest :: "('a \<Rightarrow> bool) \<Rightarrow> ('a \<Rightarrow> 'a) \<Rightarrow> 'a list \<Rightarrow> 'a list option" where
  "update_newest P f xs = map_option rev (update_first P f (rev xs))"

definition update_entry ::
  "str \<Rightarrow> (recent_entry \<Rightarrow> recent_entry) \<Rightarrow> recent_routes \<Rightarrow> bool \<times> recent_routes" where
  "update_entry request_id f r =
     (case update_newest (\<lambda>e. re_request_id e = request_id) f (rr_entries r) of
        None \<Rightarrow> (False, r)
      | Some entries \<Rightarrow> (True, r\<lparr>rr_entries := entries\<rparr>))"

definition update_cost :: "str \<Rightarrow> recent_cost \<Rightarrow> recent_routes \<Rightarrow> bool \<times> recent_routes" where
  "update_cost request_id cost = update_entry request_id (\<lambda>e. e\<lparr>re_cost := Some cost\<rparr>)"

definition update_cache :: "str \<Rightarrow> str \<Rightarrow> recent_routes \<Rightarrow> bool \<times> recent_routes" where
  "update_cache request_id cache = update_entry request_id (\<lambda>e. e\<lparr>re_cache := Some cache\<rparr>)"

definition update_delivery ::
  "str \<Rightarrow> str \<Rightarrow> execution_boundary \<Rightarrow> recent_outcome \<Rightarrow> nat option \<Rightarrow> str option \<Rightarrow> recent_routes \<Rightarrow>
   bool \<times> recent_routes" where
  "update_delivery request_id served_by boundary outcome http_status error_type =
     update_entry request_id
       (\<lambda>e. e\<lparr>re_served_by := Some served_by, re_execution_boundary := Some boundary, re_outcome := Some outcome,
              re_http_status := http_status, re_error_type := error_type\<rparr>)"

definition update_outcome ::
  "str \<Rightarrow> recent_outcome \<Rightarrow> nat option \<Rightarrow> str option \<Rightarrow> recent_routes \<Rightarrow> bool \<times> recent_routes" where
  "update_outcome request_id outcome http_status error_type =
     update_entry request_id
       (\<lambda>e. e\<lparr>re_outcome := Some outcome, re_http_status := http_status, re_error_type := error_type\<rparr>)"

definition terminal_outcome :: "recent_outcome option \<Rightarrow> bool" where
  "terminal_outcome oc \<longleftrightarrow> (case oc of
      Some RSucceeded \<Rightarrow> True | Some RFailed \<Rightarrow> True | Some RCancelled \<Rightarrow> True | Some RCacheHit \<Rightarrow> True
    | Some RStreaming \<Rightarrow> False | None \<Rightarrow> False)"

definition receipt_matches :: "str \<Rightarrow> str \<Rightarrow> recent_entry \<Rightarrow> bool" where
  "receipt_matches request_id workspace e \<longleftrightarrow> re_request_id e = request_id \<and> re_workspace e = Some workspace"

definition label_user_outcome ::
  "str \<Rightarrow> str \<Rightarrow> user_outcome \<Rightarrow> recent_routes \<Rightarrow> (user_outcome_error, unit) result \<times> recent_routes" where
  "label_user_outcome request_id workspace outcome r =
     (let matches = receipt_matches request_id workspace in
      case List.find matches (rev (rr_entries r)) of
        None \<Rightarrow> (Inl ReceiptNotFound, r)
      | Some e \<Rightarrow>
          if \<not> terminal_outcome (re_outcome e) then (Inl ReceiptNotTerminal, r)
          else
            (case update_newest matches (\<lambda>e. e\<lparr>re_user_outcome := Some outcome\<rparr>) (rr_entries r) of
               None \<Rightarrow> (Inl ReceiptNotFound, r)
             | Some entries \<Rightarrow> (Inr (), r\<lparr>rr_entries := entries\<rparr>)))"

definition entries_for_workspace :: "str \<Rightarrow> recent_routes \<Rightarrow> recent_entry list" where
  "entries_for_workspace workspace r = filter (\<lambda>e. re_workspace e = Some workspace) (rr_entries r)"

section \<open>Reports\<close>

record recent_report =
  rp_total :: nat
  rp_by_model :: "(str \<times> u64) list"
  rp_scored_total :: nat
  rp_scored_by_model :: "(str \<times> u64) list"
  rp_recent :: "recent_entry list"

definition count_key :: "str \<Rightarrow> (str \<times> u64) list \<Rightarrow> (str \<times> u64) list" where
  "count_key = bt_entry 0 (\<lambda>n. sat_add n 1)"

definition scored :: "recent_entry \<Rightarrow> bool" where
  "scored e \<longleftrightarrow> re_mode e = lit ''scored''"

definition report_step ::
  "recent_entry \<Rightarrow> (str \<times> u64) list \<times> nat \<times> (str \<times> u64) list \<Rightarrow> (str \<times> u64) list \<times> nat \<times> (str \<times> u64) list" where
  "report_step e s =
     (case s of (by_model, scored_total, scored_by_model) \<Rightarrow>
        (count_key (re_model e) by_model,
         if scored e then sat_add scored_total 1 else scored_total,
         if scored e then count_key (re_model e) scored_by_model else scored_by_model))"

definition report :: "int \<Rightarrow> recent_routes \<Rightarrow> recent_report" where
  "report requested_limit r =
     (case fold report_step (rr_entries r) ([], 0, []) of
        (by_model, scored_total, scored_by_model) \<Rightarrow>
          let clamped = nat (max 1 (min requested_limit (int MAX_RECENT_ENTRIES)))
          in \<lparr>rp_total = length (rr_entries r), rp_by_model = by_model, rp_scored_total = scored_total,
              rp_scored_by_model = scored_by_model, rp_recent = take clamped (rev (rr_entries r))\<rparr>)"

record recent_boundary_counts =
  bc_on_device :: u64
  bc_local_network :: u64
  bc_hosted :: u64
  bc_unknown :: u64

record recent_workspace_report =
  rw_shared_capacity :: nat
  rw_retained :: u64
  rw_first_observed_ts :: "f64 option"
  rw_last_observed_ts :: "f64 option"
  rw_terminal :: u64
  rw_succeeded :: u64
  rw_failed :: u64
  rw_cancelled :: u64
  rw_cache_hits :: u64
  rw_in_progress :: u64
  rw_delivery_unobserved :: u64
  rw_user_labelled :: u64
  rw_user_successes :: u64
  rw_user_corrections :: u64
  rw_user_failures :: u64
  rw_failure_rate_pct :: "f64 option"
  rw_boundaries :: recent_boundary_counts
  rw_by_route :: "(str \<times> u64) list"

definition workspace_report_zero :: "nat \<Rightarrow> recent_workspace_report" where
  "workspace_report_zero capacity =
     \<lparr>rw_shared_capacity = capacity, rw_retained = 0, rw_first_observed_ts = None, rw_last_observed_ts = None,
      rw_terminal = 0, rw_succeeded = 0, rw_failed = 0, rw_cancelled = 0, rw_cache_hits = 0, rw_in_progress = 0,
      rw_delivery_unobserved = 0, rw_user_labelled = 0, rw_user_successes = 0, rw_user_corrections = 0,
      rw_user_failures = 0, rw_failure_rate_pct = None,
      rw_boundaries = \<lparr>bc_on_device = 0, bc_local_network = 0, bc_hosted = 0, bc_unknown = 0\<rparr>, rw_by_route = []\<rparr>"

definition count_outcome :: "recent_outcome option \<Rightarrow> recent_workspace_report \<Rightarrow> recent_workspace_report" where
  "count_outcome oc w =
     (case oc of
        Some RSucceeded \<Rightarrow> w\<lparr>rw_terminal := sat_add (rw_terminal w) 1, rw_succeeded := sat_add (rw_succeeded w) 1\<rparr>
      | Some RFailed \<Rightarrow> w\<lparr>rw_terminal := sat_add (rw_terminal w) 1, rw_failed := sat_add (rw_failed w) 1\<rparr>
      | Some RCancelled \<Rightarrow> w\<lparr>rw_terminal := sat_add (rw_terminal w) 1, rw_cancelled := sat_add (rw_cancelled w) 1\<rparr>
      | Some RCacheHit \<Rightarrow> w\<lparr>rw_terminal := sat_add (rw_terminal w) 1, rw_cache_hits := sat_add (rw_cache_hits w) 1\<rparr>
      | Some RStreaming \<Rightarrow> w\<lparr>rw_in_progress := sat_add (rw_in_progress w) 1\<rparr>
      | None \<Rightarrow> w\<lparr>rw_delivery_unobserved := sat_add (rw_delivery_unobserved w) 1\<rparr>)"

definition count_label :: "user_outcome option \<Rightarrow> recent_workspace_report \<Rightarrow> recent_workspace_report" where
  "count_label label w =
     (case label of
        Some USuccess \<Rightarrow>
          w\<lparr>rw_user_labelled := sat_add (rw_user_labelled w) 1, rw_user_successes := sat_add (rw_user_successes w) 1\<rparr>
      | Some UCorrection \<Rightarrow>
          w\<lparr>rw_user_labelled := sat_add (rw_user_labelled w) 1, rw_user_corrections := sat_add (rw_user_corrections w) 1\<rparr>
      | Some UFailure \<Rightarrow>
          w\<lparr>rw_user_labelled := sat_add (rw_user_labelled w) 1, rw_user_failures := sat_add (rw_user_failures w) 1\<rparr>
      | None \<Rightarrow> w)"

definition count_boundary :: "execution_boundary option \<Rightarrow> recent_boundary_counts \<Rightarrow> recent_boundary_counts" where
  "count_boundary eb b =
     (case eb of
        Some OnDevice \<Rightarrow> b\<lparr>bc_on_device := sat_add (bc_on_device b) 1\<rparr>
      | Some LocalNetwork \<Rightarrow> b\<lparr>bc_local_network := sat_add (bc_local_network b) 1\<rparr>
      | Some Hosted \<Rightarrow> b\<lparr>bc_hosted := sat_add (bc_hosted b) 1\<rparr>
      | None \<Rightarrow> b\<lparr>bc_unknown := sat_add (bc_unknown b) 1\<rparr>)"

definition workspace_step :: "recent_entry \<Rightarrow> recent_workspace_report \<Rightarrow> recent_workspace_report" where
  "workspace_step e w =
     (let w1 = w\<lparr>rw_retained := sat_add (rw_retained w) 1,
                 rw_first_observed_ts := Some (case rw_first_observed_ts w of None \<Rightarrow> re_ts e | Some t \<Rightarrow> f_min t (re_ts e)),
                 rw_last_observed_ts := Some (case rw_last_observed_ts w of None \<Rightarrow> re_ts e | Some t \<Rightarrow> f_max t (re_ts e))\<rparr>;
          w2 = count_label (re_user_outcome e) (count_outcome (re_outcome e) w1)
      in w2\<lparr>rw_boundaries := count_boundary (re_execution_boundary e) (rw_boundaries w2),
            rw_by_route := count_key (case re_served_by e of None \<Rightarrow> re_model e | Some m \<Rightarrow> m) (rw_by_route w2)\<rparr>)"

definition report_for_workspace :: "str \<Rightarrow> recent_routes \<Rightarrow> recent_workspace_report" where
  "report_for_workspace workspace r =
     (let w = fold workspace_step (entries_for_workspace workspace r) (workspace_report_zero (rr_capacity r))
      in w\<lparr>rw_failure_rate_pct :=
             (if 0 < rw_terminal w
              then Some (python_round (Fin 100 * f64_of_nat (rw_failed w) div f64_of_nat (rw_terminal w)) 1)
              else None)\<rparr>)"

section \<open>What the ring retains\<close>

lemma pop_front_while_eq: "pop_front_while n xs = drop (length xs - n) xs"
  by (induction xs) (auto simp: Suc_diff_le not_less)

lemma drop_snoc_drop:
  "drop (length (drop (length xs - n) xs @ [x]) - n) (drop (length xs - n) xs @ [x]) =
   drop (length (xs @ [x]) - n) (xs @ [x])"
proof (cases "n \<le> length xs")
  case True
  then have "Suc (length xs - (length xs - n)) - n + (length xs - n) = Suc (length xs) - n" by arith
  then show ?thesis using True by (cases n) (simp_all add: Suc_diff_le)
qed simp

lemma map_update_first:
  assumes "update_first P f xs = Some ys" and "\<And>x. g (f x) = g x"
  shows "map g ys = map g xs"
  using assms(1) by (induction xs arbitrary: ys) (auto simp: assms(2) split: if_splits)

lemma map_update_newest:
  assumes "update_newest P f xs = Some ys" and "\<And>x. g (f x) = g x"
  shows "map g ys = map g xs"
proof -
  obtain zs where "update_first P f (rev xs) = Some zs" "ys = rev zs"
    using assms(1) by (auto simp: update_newest_def)
  then show ?thesis using map_update_first [of P f "rev xs" zs g] assms(2) by (simp add: rev_map [symmetric])
qed

text \<open>The part of a receipt that is fixed when it is recorded.\<close>

definition receipt_facts :: "recent_entry \<Rightarrow> recent_entry" where
  "receipt_facts e =
     e\<lparr>re_served_by := None, re_execution_boundary := None, re_outcome := None, re_user_outcome := None,
       re_http_status := None, re_error_type := None, re_cost := None, re_cache := None\<rparr>"

datatype recent_op =
    RecordOp recent_entry
  | CostOp str recent_cost
  | CacheOp str str
  | DeliveryOp str str execution_boundary recent_outcome "nat option" "str option"
  | OutcomeOp str recent_outcome "nat option" "str option"
  | LabelOp str str user_outcome

fun recent_apply :: "recent_op \<Rightarrow> recent_routes \<Rightarrow> recent_routes" where
  "recent_apply (RecordOp e) r = recent_record e r"
| "recent_apply (CostOp i c) r = snd (update_cost i c r)"
| "recent_apply (CacheOp i c) r = snd (update_cache i c r)"
| "recent_apply (DeliveryOp i s b oc h e) r = snd (update_delivery i s b oc h e r)"
| "recent_apply (OutcomeOp i oc h e) r = snd (update_outcome i oc h e r)"
| "recent_apply (LabelOp i w u) r = snd (label_user_outcome i w u r)"

fun recorded :: "recent_op list \<Rightarrow> recent_entry list" where
  "recorded [] = []"
| "recorded (RecordOp e # ops) = e # recorded ops"
| "recorded (_ # ops) = recorded ops"

lemma recorded_snoc: "recorded (ops @ [x]) = recorded ops @ (case x of RecordOp e \<Rightarrow> [e] | _ \<Rightarrow> [])"
  by (induction ops rule: recorded.induct) (auto split: recent_op.splits)

lemma update_entry_keeps:
  assumes "\<And>e. receipt_facts (f e) = receipt_facts e"
  shows "rr_capacity (snd (update_entry i f r)) = rr_capacity r"
    and "map receipt_facts (rr_entries (snd (update_entry i f r))) = map receipt_facts (rr_entries r)"
  using assms by (auto simp: update_entry_def dest: map_update_newest split: option.splits)

lemma enrichment_keeps:
  assumes "\<And>e. x \<noteq> RecordOp e"
  shows "rr_capacity (recent_apply x r) = rr_capacity r \<and>
    map receipt_facts (rr_entries (recent_apply x r)) = map receipt_facts (rr_entries r)"
proof (cases x)
  case (LabelOp i w u)
  have "map receipt_facts ys = map receipt_facts (rr_entries r)"
    if "update_newest (receipt_matches i w) (\<lambda>e. e\<lparr>re_user_outcome := Some u\<rparr>) (rr_entries r) = Some ys" for ys
    using that by (rule map_update_newest) (simp add: receipt_facts_def)
  then show ?thesis by (auto simp: LabelOp label_user_outcome_def Let_def split: option.splits)
qed (use assms in \<open>auto simp: update_cost_def update_cache_def update_delivery_def update_outcome_def
      update_entry_keeps receipt_facts_def\<close>)

lemma recent_ring_state:
  "rr_capacity (fold recent_apply ops (recent_new c)) = min c MAX_RECENT_ENTRIES \<and>
   map receipt_facts (rr_entries (fold recent_apply ops (recent_new c))) =
     map receipt_facts (drop (length (recorded ops) - min c MAX_RECENT_ENTRIES) (recorded ops))"
proof (induction ops rule: rev_induct)
  case Nil
  show ?case by (simp add: recent_new_def)
next
  case (snoc x ops)
  show ?case
  proof (cases "\<exists>e. x = RecordOp e")
    case True
    then obtain e where x: "x = RecordOp e" by blast
    let ?r = "fold recent_apply ops (recent_new c)" and ?n = "min c MAX_RECENT_ENTRIES"
    have ih: "map receipt_facts (rr_entries ?r) =
        drop (length (map receipt_facts (recorded ops)) - ?n) (map receipt_facts (recorded ops))"
      using snoc by (simp add: drop_map)
    have "map receipt_facts (drop (length (rr_entries ?r @ [e]) - ?n) (rr_entries ?r @ [e])) =
        drop (length (map receipt_facts (rr_entries ?r) @ [receipt_facts e]) - ?n)
          (map receipt_facts (rr_entries ?r) @ [receipt_facts e])"
      by (simp only: drop_map [symmetric] map_append list.map length_append length_map list.size)
    also have "\<dots> = map receipt_facts (drop (length (recorded ops @ [e]) - ?n) (recorded ops @ [e]))"
      by (simp only: ih drop_snoc_drop) (simp only: drop_map [symmetric] map_append list.map length_append length_map list.size)
    finally show ?thesis
      using snoc by (auto simp: x recorded_snoc recent_record_def pop_front_while_eq)
  next
    case False
    then have "recorded (ops @ [x]) = recorded ops" by (auto simp: recorded_snoc split: recent_op.splits)
    then show ?thesis using snoc enrichment_keeps [of x] False by simp
  qed
qed

text \<open>
  Whatever operations ran on a new ring, it holds exactly the last receipts recorded, oldest first,
  as many as its capacity (at most 200) allows; enrichments and labels never add, drop or reorder a
  receipt, nor change the request, route, score, mode, policy, time, key or workspace it was recorded with.
\<close>

theorem recent_ring_keeps_newest:
  "map receipt_facts (rr_entries (fold recent_apply ops (recent_new capacity))) =
     map receipt_facts (drop (length (recorded ops) - min capacity 200) (recorded ops))"
  using recent_ring_state [of ops capacity] by (simp add: MAX_RECENT_ENTRIES_def)

section \<open>Workspace reports\<close>

definition tally :: "(recent_entry \<Rightarrow> bool) \<Rightarrow> recent_entry list \<Rightarrow> nat" where
  "tally P es = length (filter P es)"

lemma tally_Nil [simp]: "tally P [] = 0"
  by (simp add: tally_def)

lemma tally_snoc [simp]: "tally P (es @ [e]) = tally P es + (if P e then 1 else 0)"
  by (simp add: tally_def)

lemma sat_add_tally [simp]: "length es < u64_max \<Longrightarrow> sat_add (tally P es) (Suc 0) = Suc (tally P es)"
  using le_less_trans [OF length_filter_le, of es u64_max P] by (simp add: sat_add_def tally_def min_def)

definition served_route :: "recent_entry \<Rightarrow> str" where
  "served_route e = (case re_served_by e of None \<Rightarrow> re_model e | Some m \<Rightarrow> m)"

text \<open>The counters of a report over the receipts it has seen.\<close>

definition outcome_counts :: "recent_entry list \<Rightarrow> recent_workspace_report \<Rightarrow> bool" where
  "outcome_counts es w \<longleftrightarrow>
     rw_retained w = length es \<and> rw_terminal w = tally (\<lambda>e. terminal_outcome (re_outcome e)) es \<and>
     rw_succeeded w = tally (\<lambda>e. re_outcome e = Some RSucceeded) es \<and>
     rw_failed w = tally (\<lambda>e. re_outcome e = Some RFailed) es \<and>
     rw_cancelled w = tally (\<lambda>e. re_outcome e = Some RCancelled) es \<and>
     rw_cache_hits w = tally (\<lambda>e. re_outcome e = Some RCacheHit) es \<and>
     rw_in_progress w = tally (\<lambda>e. re_outcome e = Some RStreaming) es \<and>
     rw_delivery_unobserved w = tally (\<lambda>e. re_outcome e = None) es"

definition label_counts :: "recent_entry list \<Rightarrow> recent_workspace_report \<Rightarrow> bool" where
  "label_counts es w \<longleftrightarrow>
     rw_user_labelled w = tally (\<lambda>e. re_user_outcome e \<noteq> None) es \<and>
     rw_user_successes w = tally (\<lambda>e. re_user_outcome e = Some USuccess) es \<and>
     rw_user_corrections w = tally (\<lambda>e. re_user_outcome e = Some UCorrection) es \<and>
     rw_user_failures w = tally (\<lambda>e. re_user_outcome e = Some UFailure) es"

definition boundary_counts :: "recent_entry list \<Rightarrow> recent_boundary_counts \<Rightarrow> bool" where
  "boundary_counts es b \<longleftrightarrow>
     bc_on_device b = tally (\<lambda>e. re_execution_boundary e = Some OnDevice) es \<and>
     bc_local_network b = tally (\<lambda>e. re_execution_boundary e = Some LocalNetwork) es \<and>
     bc_hosted b = tally (\<lambda>e. re_execution_boundary e = Some Hosted) es \<and>
     bc_unknown b = tally (\<lambda>e. re_execution_boundary e = None) es"

definition route_counts :: "recent_entry list \<Rightarrow> (str \<times> u64) list \<Rightarrow> bool" where
  "route_counts es m \<longleftrightarrow> sorted_keys m \<and>
     (\<forall>route. map_of m route = (let n = tally (\<lambda>e. served_route e = route) es in if n = 0 then None else Some n))"

lemma outcome_counts_step:
  "outcome_counts es w \<Longrightarrow> length es < u64_max \<Longrightarrow> outcome_counts (es @ [e]) (workspace_step e w)"
  by (cases "re_outcome e"; cases "the (re_outcome e)"; cases "re_user_outcome e"; cases "the (re_user_outcome e)")
    (simp_all add: outcome_counts_def workspace_step_def count_outcome_def count_label_def terminal_outcome_def
      Let_def sat_add_exact [of "length es"])

lemma label_counts_step:
  "label_counts es w \<Longrightarrow> length es < u64_max \<Longrightarrow> label_counts (es @ [e]) (workspace_step e w)"
  by (cases "re_outcome e"; cases "the (re_outcome e)"; cases "re_user_outcome e"; cases "the (re_user_outcome e)")
    (simp_all add: label_counts_def workspace_step_def count_outcome_def count_label_def Let_def)

lemma boundaries_step: "rw_boundaries (workspace_step e w) = count_boundary (re_execution_boundary e) (rw_boundaries w)"
  by (simp add: workspace_step_def count_outcome_def count_label_def Let_def
      split: option.splits recent_outcome.splits user_outcome.splits)

lemma boundary_counts_step:
  "boundary_counts es b \<Longrightarrow> length es < u64_max \<Longrightarrow>
   boundary_counts (es @ [e]) (count_boundary (re_execution_boundary e) b)"
  by (cases "re_execution_boundary e"; cases "the (re_execution_boundary e)")
    (simp_all add: boundary_counts_def count_boundary_def)

lemma routes_step: "rw_by_route (workspace_step e w) = count_key (served_route e) (rw_by_route w)"
  by (simp add: workspace_step_def count_outcome_def count_label_def served_route_def Let_def
      split: option.splits recent_outcome.splits user_outcome.splits)

lemma route_counts_step:
  "route_counts es m \<Longrightarrow> length es < u64_max \<Longrightarrow> route_counts (es @ [e]) (count_key (served_route e) m)"
  by (auto simp: route_counts_def count_key_def Let_def sorted_keys_bt_insert map_of_bt_insert
      sat_add_def [of 0])

lemma workspace_counts:
  assumes "length es \<le> u64_max"
  shows "let w = fold workspace_step es (workspace_report_zero c) in
    outcome_counts es w \<and> label_counts es w \<and> boundary_counts es (rw_boundaries w) \<and> route_counts es (rw_by_route w)"
  using assms
proof (induction es rule: rev_induct)
  case Nil
  show ?case
    by (simp add: workspace_report_zero_def outcome_counts_def label_counts_def boundary_counts_def route_counts_def)
next
  case (snoc e es)
  then show ?case
    by (simp add: Let_def outcome_counts_step label_counts_step boundaries_step boundary_counts_step
        routes_step route_counts_step)
qed

lemma tally_terminal:
  "tally (\<lambda>e. terminal_outcome (re_outcome e)) es =
     tally (\<lambda>e. re_outcome e = Some RSucceeded) es + tally (\<lambda>e. re_outcome e = Some RFailed) es +
     tally (\<lambda>e. re_outcome e = Some RCancelled) es + tally (\<lambda>e. re_outcome e = Some RCacheHit) es"
  by (induction es rule: rev_induct) (auto simp: terminal_outcome_def split: option.splits recent_outcome.splits)

lemma tally_retained:
  "length es = tally (\<lambda>e. terminal_outcome (re_outcome e)) es + tally (\<lambda>e. re_outcome e = Some RStreaming) es +
     tally (\<lambda>e. re_outcome e = None) es"
  by (induction es rule: rev_induct) (auto simp: terminal_outcome_def split: option.splits recent_outcome.splits)

text \<open>
  A workspace report over a ring built by the gateway is an exact partition of the workspace's
  retained receipts: every counter is the number of receipts in its class, the terminal ones are those
  that succeeded, failed, were cancelled or hit the cache, every receipt is terminal, in progress or
  unobserved, and the count of every route is the number of receipts it served.
\<close>

theorem workspace_report_partitions:
  fixes ops c workspace
  defines "r \<equiv> fold recent_apply ops (recent_new c)"
  defines "es \<equiv> entries_for_workspace workspace r"
  defines "w \<equiv> report_for_workspace workspace r"
  shows "outcome_counts es w \<and> label_counts es w \<and> boundary_counts es (rw_boundaries w) \<and>
    route_counts es (rw_by_route w) \<and>
    rw_terminal w = rw_succeeded w + rw_failed w + rw_cancelled w + rw_cache_hits w \<and>
    rw_retained w = rw_terminal w + rw_in_progress w + rw_delivery_unobserved w"
proof -
  have "length (rr_entries r) \<le> 200"
    using recent_ring_state [of ops c, THEN conjunct2, THEN arg_cong [where f = length]]
    by (simp add: r_def MAX_RECENT_ENTRIES_def)
  moreover have "length es \<le> length (rr_entries r)" by (simp add: es_def entries_for_workspace_def)
  ultimately have "length es \<le> u64_max" by (simp add: u64_max_def)
  then have "outcome_counts es w \<and> label_counts es w \<and> boundary_counts es (rw_boundaries w) \<and> route_counts es (rw_by_route w)"
    using workspace_counts [of es "rr_capacity r"]
    by (simp add: w_def es_def report_for_workspace_def Let_def outcome_counts_def label_counts_def)
  then show ?thesis
    using tally_terminal [of es] tally_retained [of es] by (simp add: outcome_counts_def)
qed

end
