(* ===== verification/Breaker.thy ===== *)
theory Breaker
  imports Scoring
begin

text \<open>
  Delivery reliability: the circuit breaker, retry delays, delivery plans and failover candidates of
  \<open>wayfinder-providers/src/reliability.rs\<close>, and the attempt leases of the gateway's
  \<open>reliability.rs\<close>, which acquire a target, complete it or drop it. Time is a parameter, as in the
  source. The breaker's mutex is modelled by the operations being atomic; the poisoned-lock error
  has no counterpart because no operation panics while it holds the lock.
\<close>

section \<open>Retry policy\<close>

definition RETRYABLE_STATUS :: "nat list" where
  "RETRYABLE_STATUS = [429, 500, 502, 503, 504]"

definition AUTH_FAILURE_STATUS :: "nat list" where
  "AUTH_FAILURE_STATUS = [401, 403, 407]"

definition is_retryable :: "nat option \<Rightarrow> bool" where
  "is_retryable status = (case status of None \<Rightarrow> True | Some v \<Rightarrow> v \<in> set RETRYABLE_STATUS)"

definition is_auth_failure :: "nat option \<Rightarrow> bool" where
  "is_auth_failure status = (case status of None \<Rightarrow> False | Some v \<Rightarrow> v \<in> set AUTH_FAILURE_STATUS)"

definition finite_nonneg_or_zero :: "f64 \<Rightarrow> f64" where
  "finite_nonneg_or_zero x = (if is_finite x then f_max x (Fin 0) else Fin 0)"

definition f64_pow2 :: "nat \<Rightarrow> f64" where
  "f64_pow2 n = rnd_f64 False (2 ^ n)"

text \<open>\<open>rng i\<close> is what the jitter source returns on its \<open>i\<close>-th call; it is called once per retry.\<close>

definition retry_delays_with :: "nat \<Rightarrow> f64 \<Rightarrow> f64 \<Rightarrow> (nat \<Rightarrow> f64) \<Rightarrow> f64 list" where
  "retry_delays_with retries base_seconds cap_seconds rng =
     (let base = finite_nonneg_or_zero base_seconds; cap = finite_nonneg_or_zero cap_seconds in
      map (\<lambda>i.
        let slot = f_min (base * f64_pow2 (min i (2 ^ 31 - 1))) cap;
            sample = rng i;
            jitter = (if is_finite sample then f_clamp sample (Fin 0) (Fin 1) else Fin 0)
        in python_round (slot * jitter) 6) [0..<retries])"

section \<open>The circuit breaker\<close>

record breaker =
  br_threshold :: nat
  br_cooldown :: f64
  br_failures :: "str \<rightharpoonup> nat"
  br_opened_at :: "str \<rightharpoonup> f64"
  br_half_open :: "str set"

datatype circuit_attempt = Closed | HalfOpen

definition breaker_new :: "nat \<Rightarrow> f64 \<Rightarrow> breaker" where
  "breaker_new threshold cooldown =
     \<lparr>br_threshold = max threshold 1, br_cooldown = finite_nonneg_or_zero cooldown,
      br_failures = Map.empty, br_opened_at = Map.empty, br_half_open = {}\<rparr>"

definition breaker_default :: breaker where
  "breaker_default = breaker_new 5 (Fin 30)"

definition allow_at :: "breaker \<Rightarrow> str \<Rightarrow> f64 \<Rightarrow> bool" where
  "allow_at b target now =
     (if target \<in> br_half_open b then False
      else case br_opened_at b target of
        None \<Rightarrow> True
      | Some opened \<Rightarrow> br_cooldown b \<le> now - opened)"

definition begin_at :: "breaker \<Rightarrow> str \<Rightarrow> f64 \<Rightarrow> circuit_attempt option \<times> breaker" where
  "begin_at b target now =
     (case br_opened_at b target of
        None \<Rightarrow> (Some Closed, b)
      | Some opened \<Rightarrow>
          (if now - opened < br_cooldown b then (None, b)
           else if target \<in> br_half_open b then (None, b)
           else (Some HalfOpen, b\<lparr>br_half_open := insert target (br_half_open b)\<rparr>)))"

definition is_open_at :: "breaker \<Rightarrow> str \<Rightarrow> f64 \<Rightarrow> bool" where
  "is_open_at b target now = (\<not> allow_at b target now)"

definition record_at :: "breaker \<Rightarrow> str \<Rightarrow> bool \<Rightarrow> f64 \<Rightarrow> breaker" where
  "record_at b target succeeded now =
     (let b1 = b\<lparr>br_half_open := br_half_open b - {target}\<rparr> in
      if succeeded then
        b1\<lparr>br_failures := (br_failures b1)(target := None),
           br_opened_at := (br_opened_at b1)(target := None)\<rparr>
      else
        let count = sat_add (case br_failures b1 target of None \<Rightarrow> 0 | Some n \<Rightarrow> n) 1;
            b2 = b1\<lparr>br_failures := (br_failures b1)(target \<mapsto> count)\<rparr>
        in if br_threshold b2 \<le> count
           then b2\<lparr>br_opened_at := (br_opened_at b2)(target \<mapsto> now)\<rparr> else b2)"

definition abandon_at :: "breaker \<Rightarrow> str \<Rightarrow> circuit_attempt \<Rightarrow> f64 \<Rightarrow> breaker" where
  "abandon_at b target attempt now =
     (if attempt = HalfOpen then record_at b target False now else b)"

section \<open>Plans\<close>

text \<open>The de-duplicating filter over the primary and the fallbacks; \<open>seen\<close> is the hash set.\<close>

fun plan_loop ::
  "str list \<Rightarrow> (breaker \<times> f64) option \<Rightarrow> (str \<Rightarrow> bool) \<Rightarrow> str list \<Rightarrow> str list" where
  "plan_loop seen br allow [] = []"
| "plan_loop seen br allow (t # ts) =
     (if t \<in> set seen then plan_loop seen br allow ts
      else if (case br of None \<Rightarrow> True | Some (b, now) \<Rightarrow> allow_at b t now) \<and> allow t
        then t # plan_loop (t # seen) br allow ts
      else plan_loop (t # seen) br allow ts)"

definition delivery_plan ::
  "str \<Rightarrow> str list \<Rightarrow> (breaker \<times> f64) option \<Rightarrow> (str \<Rightarrow> bool) \<Rightarrow> str list" where
  "delivery_plan primary fallbacks br allow = plan_loop [] br allow (primary # fallbacks)"

datatype failover_policy = SameTier | Degrade | Escalate

definition failover_candidates :: "str \<Rightarrow> str list \<Rightarrow> failover_policy \<Rightarrow> str list" where
  "failover_candidates chosen ladder policy =
     (case position_from 0 chosen ladder of
        None \<Rightarrow> []
      | Some index \<Rightarrow>
          (case policy of
             SameTier \<Rightarrow> []
           | Degrade \<Rightarrow> rev (take index ladder)
           | Escalate \<Rightarrow> drop (sat_add index 1) ladder))"

definition precheck_ok :: "u64 \<Rightarrow> u64 option \<Rightarrow> bool" where
  "precheck_ok estimated window = (case window of None \<Rightarrow> True | Some w \<Rightarrow> estimated \<le> w)"

definition parse_failover :: "str \<Rightarrow> failover_policy option" where
  "parse_failover v =
     (if v = lit ''same-tier'' then Some SameTier
      else if v = lit ''degrade'' then Some Degrade
      else if v = lit ''escalate'' then Some Escalate
      else None)"

section \<open>The gateway's reliability policy\<close>

datatype reliability_error = InvalidBounds | InvalidPolicy | InvalidTime

record reliability_policy =
  rl_retries :: nat
  rl_failover :: failover_policy
  rl_breaker_threshold :: u64
  rl_breaker_cooldown_ms :: u64
  rl_breaker :: breaker

text \<open>
  \<open>Duration::try_from_secs_f64\<close>: whole nanoseconds, nearest, ties to even; \<open>None\<close> for a negative,
  non-finite or unrepresentable value.
\<close>

definition duration_nanos :: "f64 \<Rightarrow> nat option" where
  "duration_nanos x =
     (if is_finite x \<and> 0 \<le> val x \<and> val x < 2 ^ 64 then Some (nat (rne (val x * 10 ^ 9))) else None)"

definition policy_from_config ::
  "u64 \<Rightarrow> u64 \<Rightarrow> f64 \<Rightarrow> str \<Rightarrow> (reliability_error, reliability_policy) result" where
  "policy_from_config retries threshold cooldown failover =
     (case duration_nanos cooldown of
        None \<Rightarrow> Inl InvalidBounds
      | Some ns \<Rightarrow>
          (if u64_max < ns div 10 ^ 6 then Inl InvalidBounds
           else case parse_failover failover of
             None \<Rightarrow> Inl InvalidPolicy
           | Some f \<Rightarrow>
               Inr \<lparr>rl_retries = retries, rl_failover = f, rl_breaker_threshold = max threshold 1,
                    rl_breaker_cooldown_ms = max (ns div 10 ^ 6) 1,
                    rl_breaker = breaker_new threshold cooldown\<rparr>))"

definition effective_failover :: "reliability_policy \<Rightarrow> str option \<Rightarrow> failover_policy" where
  "effective_failover p header =
     (case header of
        None \<Rightarrow> rl_failover p
      | Some v \<Rightarrow> (case parse_failover v of None \<Rightarrow> rl_failover p | Some f \<Rightarrow> f))"

definition RETRY_BASE_SECONDS :: f64 where
  "RETRY_BASE_SECONDS = flit (1 / 5)"

definition RETRY_CAP_SECONDS :: f64 where
  "RETRY_CAP_SECONDS = Fin 5"

definition retry_delays :: "reliability_policy \<Rightarrow> (nat \<Rightarrow> f64) \<Rightarrow> f64 list" where
  "retry_delays p jitter = retry_delays_with (rl_retries p) RETRY_BASE_SECONDS RETRY_CAP_SECONDS jitter"

definition validated_now :: "f64 \<Rightarrow> (reliability_error, f64) result" where
  "validated_now now = (if is_finite now \<and> Fin 0 \<le> now then Inr now else Inl InvalidTime)"

definition policy_delivery_plan ::
  "reliability_policy \<Rightarrow> f64 \<Rightarrow> str \<Rightarrow> str list \<Rightarrow> (str \<Rightarrow> bool) \<Rightarrow>
   (reliability_error, str list) result" where
  "policy_delivery_plan p clock primary candidates allow =
     (case validated_now clock of
        Inl e \<Rightarrow> Inl e
      | Inr now \<Rightarrow> Inr (delivery_plan primary candidates (Some (rl_breaker p, now)) allow))"

definition target_available ::
  "reliability_policy \<Rightarrow> f64 \<Rightarrow> str \<Rightarrow> (reliability_error, bool) result" where
  "target_available p clock target =
     (case policy_delivery_plan p clock target [] (\<lambda>_. True) of
        Inl e \<Rightarrow> Inl e
      | Inr plan \<Rightarrow> Inr (plan \<noteq> []))"

text \<open>A lease: the target and the attempt state it was granted in.\<close>

type_synonym lease = "str \<times> circuit_attempt"

definition begin_attempt ::
  "reliability_policy \<Rightarrow> f64 \<Rightarrow> str \<Rightarrow>
   (reliability_error, lease option \<times> reliability_policy) result" where
  "begin_attempt p clock target =
     (case validated_now clock of
        Inl e \<Rightarrow> Inl e
      | Inr now \<Rightarrow>
          (case begin_at (rl_breaker p) target now of
             (None, b) \<Rightarrow> Inr (None, p\<lparr>rl_breaker := b\<rparr>)
           | (Some st, b) \<Rightarrow> Inr (Some (target, st), p\<lparr>rl_breaker := b\<rparr>)))"

text \<open>Dropping an unfinished lease; only a half-open one touches the breaker.\<close>

definition drop_attempt :: "reliability_policy \<Rightarrow> f64 \<Rightarrow> lease \<Rightarrow> reliability_policy" where
  "drop_attempt p clock l =
     (if snd l \<noteq> HalfOpen then p
      else case validated_now clock of
        Inl e \<Rightarrow> p
      | Inr now \<Rightarrow> p\<lparr>rl_breaker := abandon_at (rl_breaker p) (fst l) (snd l) now\<rparr>)"

text \<open>
  Completing consumes the lease. When the clock reading is rejected the error is returned and the
  lease is dropped unfinished, which reads the clock again (\<open>clock'\<close>).
\<close>

definition complete_attempt ::
  "reliability_policy \<Rightarrow> f64 \<Rightarrow> f64 \<Rightarrow> lease \<Rightarrow> bool \<Rightarrow>
   (reliability_error, unit) result \<times> reliability_policy" where
  "complete_attempt p clock clock' l succeeded =
     (case validated_now clock of
        Inl e \<Rightarrow> (Inl e, drop_attempt p clock' l)
      | Inr now \<Rightarrow>
          (Inr (), p\<lparr>rl_breaker := record_at (rl_breaker p) (fst l) succeeded now\<rparr>))"

definition policy_record ::
  "reliability_policy \<Rightarrow> f64 \<Rightarrow> str \<Rightarrow> bool \<Rightarrow> (reliability_error, reliability_policy) result" where
  "policy_record p clock target succeeded =
     (case validated_now clock of
        Inl e \<Rightarrow> Inl e
      | Inr now \<Rightarrow> Inr (p\<lparr>rl_breaker := record_at (rl_breaker p) target succeeded now\<rparr>))"

section \<open>The breaker's invariant\<close>

definition breaker_inv :: "breaker \<Rightarrow> bool" where
  "breaker_inv b \<longleftrightarrow>
     1 \<le> br_threshold b \<and> br_threshold b \<le> u64_max \<and> is_finite (br_cooldown b) \<and>
     br_half_open b \<subseteq> dom (br_opened_at b) \<and>
     (\<forall>t. t \<in> dom (br_opened_at b) \<longleftrightarrow> (\<exists>n. br_failures b t = Some n \<and> br_threshold b \<le> n))"

lemma finite_nonneg_or_zero_finite [simp]: "is_finite (finite_nonneg_or_zero x)"
  by (auto simp: finite_nonneg_or_zero_def f_max_def)

lemma breaker_inv_new: "threshold \<le> u64_max \<Longrightarrow> breaker_inv (breaker_new threshold cooldown)"
  by (simp add: breaker_inv_def breaker_new_def)

lemma begin_at_inv: "breaker_inv b \<Longrightarrow> breaker_inv (snd (begin_at b t now))"
  by (auto simp: breaker_inv_def begin_at_def split: option.splits)

lemma record_at_inv:
  assumes "breaker_inv b"
  shows "breaker_inv (record_at b t ok now)"
proof (cases ok)
  case True
  then show ?thesis using assms by (auto simp: breaker_inv_def record_at_def Let_def)
next
  case False
  define c where "c = sat_add (case br_failures b t of None \<Rightarrow> 0 | Some n \<Rightarrow> n) 1"
  have grow: "br_threshold b \<le> c" if "br_failures b t = Some n" "br_threshold b \<le> n" for n
    using that assms by (auto simp: c_def sat_add_def breaker_inv_def)
  have rec: "record_at b t ok now =
      (let b2 = b\<lparr>br_half_open := br_half_open b - {t}, br_failures := (br_failures b)(t \<mapsto> c)\<rparr>
       in if br_threshold b \<le> c then b2\<lparr>br_opened_at := (br_opened_at b)(t \<mapsto> now)\<rparr> else b2)"
    using False by (simp add: record_at_def Let_def c_def)
  show ?thesis
    unfolding rec using assms grow
    by (auto simp: breaker_inv_def Let_def dom_def)
qed

lemma abandon_at_inv: "breaker_inv b \<Longrightarrow> breaker_inv (abandon_at b t a now)"
  by (simp add: abandon_at_def record_at_inv)

lemma record_at_frame:
  "t' \<noteq> t \<Longrightarrow> br_opened_at (record_at b t ok now) t' = br_opened_at b t'"
  "t' \<noteq> t \<Longrightarrow> t' \<in> br_half_open (record_at b t ok now) \<longleftrightarrow> t' \<in> br_half_open b"
  "br_threshold (record_at b t ok now) = br_threshold b"
  "br_cooldown (record_at b t ok now) = br_cooldown b"
  by (auto simp: record_at_def Let_def)

subsection \<open>Opening\<close>

lemma record_failure_state:
  assumes "br_failures b t = (if n = 0 then None else Some n)" "n < u64_max"
  shows "br_failures (record_at b t False now) t = Some (Suc n)"
    and "br_opened_at (record_at b t False now) t =
      (if br_threshold b \<le> Suc n then Some now else br_opened_at b t)"
  using assms by (auto simp: record_at_def Let_def sat_add_def split: if_splits)

lemma record_failures_state:
  assumes "br_failures b t = (if n = 0 then None else Some n)"
    and "br_opened_at b t = None" "n < br_threshold b" "n + length ts \<le> u64_max"
  shows "br_opened_at (fold (\<lambda>now b. record_at b t False now) ts b) t =
    (if br_threshold b \<le> n + length ts \<and> ts \<noteq> [] then Some (last ts) else None)"
proof -
  let ?run = "\<lambda>ts. fold (\<lambda>now b. record_at b t False now) ts b"
  have "br_threshold (?run ts) = br_threshold b \<and>
      br_failures (?run ts) t = (if n + length ts = 0 then None else Some (n + length ts)) \<and>
      br_opened_at (?run ts) t =
        (if br_threshold b \<le> n + length ts \<and> ts \<noteq> [] then Some (last ts) else None)"
    using assms(4)
  proof (induction ts rule: rev_induct)
    case Nil
    then show ?case using assms by simp
  next
    case (snoc x ts)
    let ?b = "?run ts"
    have IH: "br_threshold ?b = br_threshold b"
      "br_failures ?b t = (if n + length ts = 0 then None else Some (n + length ts))"
      "br_opened_at ?b t =
        (if br_threshold b \<le> n + length ts \<and> ts \<noteq> [] then Some (last ts) else None)"
      using snoc by simp_all
    have lt: "n + length ts < u64_max" using snoc.prems by simp
    show ?case
      using record_failure_state [OF IH(2) lt, of x] IH assms(3)
      by (auto simp: record_at_frame)
  qed
  then show ?thesis by simp
qed

text \<open>
  Starting from a target without recorded failures, a run of consecutive failures opens the
  circuit exactly when it is at least as long as the threshold, and the cooldown then counts from the
  last of them: every later failure restarts it.
\<close>

theorem breaker_opens_at_threshold:
  assumes "breaker_inv b" and "br_failures b t = None" and "length ts \<le> u64_max"
  shows "br_opened_at (fold (\<lambda>now b. record_at b t False now) ts b) t =
    (if br_threshold b \<le> length ts then Some (last ts) else None)"
proof -
  have "t \<notin> dom (br_opened_at b)" using assms(1,2) by (simp add: breaker_inv_def)
  then have "br_opened_at b t = None" by (simp add: domIff)
  moreover have "1 \<le> br_threshold b" using assms(1) by (simp add: breaker_inv_def)
  ultimately show ?thesis
    using record_failures_state [of b t 0 ts] assms by auto
qed

theorem breaker_opens_at_threshold_witness:
  "br_opened_at (fold (\<lambda>now b. record_at b [] False now) [Fin 1, Fin 2] (breaker_new 2 (Fin 30))) [] =
   (if br_threshold (breaker_new 2 (Fin 30)) \<le> length [Fin 1, Fin 2] then Some (last [Fin 1, Fin 2]) else None)"
  by (rule breaker_opens_at_threshold)
    (simp_all add: breaker_inv_new u64_max_def, simp_all add: breaker_new_def)

subsection \<open>Availability\<close>

definition finite_times :: "breaker \<Rightarrow> bool" where
  "finite_times b \<longleftrightarrow> (\<forall>t x. br_opened_at b t = Some x \<longrightarrow> is_finite x)"

text \<open>
  The read-only availability test and the acquiring operation agree: an attempt is granted at
  an instant exactly when the target is reported available then, and an available target stays
  available as time passes until something is recorded.
\<close>

theorem availability_agrees_and_persists:
  assumes "breaker_inv b" and "finite_times b" and "is_finite now" "is_finite later" "now \<le> later"
  shows "(fst (begin_at b t now) \<noteq> None \<longleftrightarrow> allow_at b t now) \<and>
    (allow_at b t now \<longrightarrow> allow_at b t later)"
proof (cases "br_opened_at b t")
  case None
  then have "t \<notin> br_half_open b" using assms(1) by (auto simp: breaker_inv_def dom_def)
  with None show ?thesis by (simp add: begin_at_def allow_at_def)
next
  case (Some x)
  have fin: "is_finite x" "is_finite (br_cooldown b)"
    using Some assms(1,2) by (auto simp: finite_times_def breaker_inv_def)
  have nn: "\<not> is_nan (now - x)" using assms(3) fin by (simp add: minus_finite)
  have "\<not> now - x < br_cooldown b \<longleftrightarrow> br_cooldown b \<le> now - x"
    using nn fin by (intro f64_not_less) (auto simp: is_finite_not_nan)
  moreover have "now - x \<le> later - x" using assms fin by (intro minus_mono_left)
  ultimately show ?thesis
    using Some by (auto simp: begin_at_def allow_at_def intro: f64_le_trans)
qed

theorem availability_agrees_and_persists_witness:
  "fst (begin_at breaker_default [] (Fin 1)) \<noteq> None \<and> allow_at breaker_default [] (Fin 2)"
proof -
  have "breaker_inv breaker_default" "finite_times breaker_default"
    unfolding breaker_default_def
    by (intro breaker_inv_new, simp add: u64_max_def, simp add: finite_times_def breaker_new_def)
  moreover have "allow_at breaker_default [] (Fin 1)"
    by (simp add: allow_at_def breaker_default_def breaker_new_def)
  ultimately show ?thesis
    using availability_agrees_and_persists [of breaker_default "Fin 1" "Fin 2" "[]"] by simp
qed

section \<open>Single flight\<close>

text \<open>
  The contract of a gate that hands out at most one probe: while a probe is outstanding nothing is
  granted, granting does not disturb other targets' probes, and a grant of a probe starts one.
\<close>

locale probe_gate =
  fixes begin_op :: "'s \<Rightarrow> 't \<Rightarrow> 'n \<Rightarrow> 'a option \<times> 's"
    and probing :: "'s \<Rightarrow> 't \<Rightarrow> bool"
    and probe :: 'a
    and good :: "'s \<Rightarrow> bool"
  assumes no_grant_while_probing: "good s \<Longrightarrow> probing s t \<Longrightarrow> begin_op s t n = (None, s)"
    and probe_starts: "good s \<Longrightarrow> begin_op s t n = (Some probe, s') \<Longrightarrow> probing s' t"
    and begin_keeps_probes: "good s \<Longrightarrow> probing s t \<Longrightarrow> probing (snd (begin_op s t' n)) t"
    and begin_good: "good s \<Longrightarrow> good (snd (begin_op s t n))"
begin

fun begin_all :: "'s \<Rightarrow> ('t \<times> 'n) list \<Rightarrow> 's" where
  "begin_all s [] = s"
| "begin_all s ((t, n) # rs) = begin_all (snd (begin_op s t n)) rs"

lemma begin_all_good: "good s \<Longrightarrow> good (begin_all s rs)"
  by (induction s rs rule: begin_all.induct) (auto intro: begin_good)

lemma begin_all_keeps_probe: "good s \<Longrightarrow> probing s t \<Longrightarrow> probing (begin_all s rs) t"
  by (induction s rs rule: begin_all.induct) (auto intro: begin_keeps_probes begin_good)

lemma single_flight:
  assumes "good s" and "begin_op s t n = (Some probe, s')"
  shows "fst (begin_op (begin_all s' rs) t n') = None"
proof -
  have g: "good s'" using begin_good [OF assms(1), of t n] assms(2) by simp
  have "probing s' t" using assms by (rule probe_starts)
  then have "probing (begin_all s' rs) t" by (rule begin_all_keeps_probe [OF g])
  then show ?thesis using no_grant_while_probing [OF begin_all_good [OF g]] by simp
qed

end

interpretation circuit: probe_gate begin_at "\<lambda>b t. t \<in> br_half_open b" HalfOpen breaker_inv
proof unfold_locales
  fix s t n
  assume "breaker_inv s" "t \<in> br_half_open s"
  then have "t \<in> dom (br_opened_at s)" "t \<in> br_half_open s" by (auto simp: breaker_inv_def)
  then show "begin_at s t n = (None, s)" by (auto simp: begin_at_def)
next
  show "breaker_inv s \<Longrightarrow> breaker_inv (snd (begin_at s t n))" for s t n by (rule begin_at_inv)
qed (auto simp: begin_at_def split: option.splits if_splits)

fun begin_many :: "breaker \<Rightarrow> (str \<times> f64) list \<Rightarrow> breaker" where
  "begin_many b [] = b"
| "begin_many b ((t, now) # rs) = begin_many (snd (begin_at b t now)) rs"

lemma begin_many_eq: "begin_many b rs = circuit.begin_all b rs"
  by (induction b rs rule: begin_many.induct) auto

text \<open>
  Once a half-open probe of a target has been granted, no sequence of further acquisitions, for
  any targets and at any times, yields a second attempt on that target.
\<close>

theorem half_open_single_flight:
  assumes "breaker_inv b" and "begin_at b t now = (Some HalfOpen, b')"
  shows "fst (begin_at (begin_many b' requests) t later) = None"
  unfolding begin_many_eq using assms by (rule circuit.single_flight)

definition open_breaker :: breaker where
  "open_breaker = record_at (breaker_new 1 (Fin 10)) [] False (Fin 0)"

theorem half_open_single_flight_witness:
  "fst (begin_at (begin_many (snd (begin_at open_breaker [] (Fin 10))) [([], Fin 11)]) [] (Fin 50)) = None"
proof (rule half_open_single_flight)
  show "breaker_inv open_breaker"
    unfolding open_breaker_def by (intro record_at_inv breaker_inv_new) simp
  show "begin_at open_breaker [] (Fin 10) = (Some HalfOpen, snd (begin_at open_breaker [] (Fin 10)))"
    by (simp add: open_breaker_def record_at_def breaker_new_def begin_at_def Let_def sat_add_def
        finite_nonneg_or_zero_def f_max_def f64_simps u64_max_def)
qed

section \<open>Delivery plans\<close>

lemma remdups_snoc: "remdups (xs @ [x]) = filter (\<lambda>y. y \<noteq> x) (remdups xs) @ [x]"
  by (induction xs) auto

lemma plan_loop_filter:
  "plan_loop seen br allow ts =
   filter (\<lambda>t. t \<notin> set seen \<and> (case br of None \<Rightarrow> True | Some (b, now) \<Rightarrow> allow_at b t now) \<and> allow t)
     (rev (remdups (rev ts)))"
  by (induction ts arbitrary: seen)
    (auto simp: remdups_snoc rev_filter [symmetric] filter_filter intro!: filter_cong)

lemma position_from_append: "x \<notin> set xs \<Longrightarrow> position_from n x (xs @ x # ys) = Some (n + length xs)"
  by (induction xs arbitrary: n) auto

lemma failover_candidates_ladder:
  assumes "chosen \<notin> set lower" "length lower < u64_max"
  shows "failover_candidates chosen (lower @ chosen # higher) policy =
    (case policy of SameTier \<Rightarrow> [] | Degrade \<Rightarrow> rev lower | Escalate \<Rightarrow> higher)"
  using assms
  by (auto simp: failover_candidates_def position_from_append sat_add_def split: failover_policy.splits)

text \<open>
  The targets tried for a tier of a duplicate-free ladder are the tier's target and then,
  nearest tier first, the tiers below it (degrade), above it (escalate) or none (same tier), without
  the targets whose circuit refuses an attempt and those the caller's filter refuses; each target
  occurs once.
\<close>

theorem delivery_plan_walks_ladder:
  assumes "distinct (lower @ chosen # higher)" and "length lower < u64_max"
    and "validated_now clock = Inr now"
  shows "policy_delivery_plan p clock chosen
      (failover_candidates chosen (lower @ chosen # higher) policy) allow =
    Inr (filter (\<lambda>t. allow_at (rl_breaker p) t now \<and> allow t)
      (chosen # (case policy of SameTier \<Rightarrow> [] | Degrade \<Rightarrow> rev lower | Escalate \<Rightarrow> higher)))"
proof -
  have plan: "delivery_plan chosen cs br allow =
      filter (\<lambda>t. (case br of None \<Rightarrow> True | Some (b, now) \<Rightarrow> allow_at b t now) \<and> allow t) (chosen # cs)"
    if "distinct (chosen # cs)" for cs br
  proof -
    have eq: "rev (remdups (rev (chosen # cs))) = chosen # cs"
      using that by (subst distinct_remdups_id) auto
    show ?thesis unfolding delivery_plan_def plan_loop_filter eq by simp
  qed
  have "distinct (chosen # (case policy of SameTier \<Rightarrow> [] | Degrade \<Rightarrow> rev lower | Escalate \<Rightarrow> higher))"
    using assms(1) by (auto split: failover_policy.splits)
  then show ?thesis
    using assms by (simp add: policy_delivery_plan_def plan failover_candidates_ladder)
qed

definition sample_policy :: reliability_policy where
  "sample_policy = \<lparr>rl_retries = 2, rl_failover = Degrade, rl_breaker_threshold = 1,
     rl_breaker_cooldown_ms = 10000, rl_breaker = breaker_new 1 (Fin 10)\<rparr>"

theorem delivery_plan_walks_ladder_witness:
  "policy_delivery_plan sample_policy (Fin 3) [2] (failover_candidates [2] ([[0], [1]] @ [2] # [[3]]) Degrade)
     (\<lambda>t. t \<noteq> [1]) = Inr [[2], [0]]"
proof -
  have "allow_at (rl_breaker sample_policy) t (Fin 3)" for t
    by (simp add: sample_policy_def breaker_new_def allow_at_def)
  then show ?thesis
    using delivery_plan_walks_ladder
      [of "[[0], [1]]" "[2]" "[[3]]" "Fin 3" "Fin 3" sample_policy Degrade "\<lambda>t. t \<noteq> [1]"]
    by (simp add: validated_now_def less_eq_f64_def u64_max_def)
qed

section \<open>Retry delays\<close>

lemma f64_le_Fin_cases:
  assumes "Fin 0 \<le> x" "x \<le> Fin b"
  shows "is_finite x" "0 \<le> val x" "val x \<le> b"
  using assms by (cases x; auto simp: less_eq_f64_def)+

lemma unit_scaled_bounds:
  assumes "Fin 0 \<le> x" "x \<le> Fin 5" "Fin 0 \<le> y" "y \<le> Fin 1"
  shows "is_finite (x * y) \<and> 0 \<le> val (x * y) \<and> val (x * y) \<le> 5"
proof -
  note x = f64_le_Fin_cases [OF assms(1,2)] and y = f64_le_Fin_cases [OF assms(3,4)]
  have "val x * val y \<le> 5 * 1" using x y by (intro mult_mono) auto
  then have "val x * val y \<le> 5" by simp
  then have "x * y \<le> rnd_f64 False 5" by (simp add: times_finite x y rnd_f64_mono)
  moreover have "rnd_f64 False 5 = Fin 5" by (simp add: rnd_f64_numeral)
  moreover have "Fin 0 \<le> x * y" by (simp add: times_finite x y rnd_f64_nonneg)
  ultimately show ?thesis using f64_le_Fin_cases by simp
qed

lemma retry_slot_bounds:
  assumes "is_finite base" "Fin 0 < base"
  shows "Fin 0 \<le> f_min (base * f64_pow2 n) (Fin 5)" "f_min (base * f64_pow2 n) (Fin 5) \<le> Fin 5"
proof -
  have "Fin 0 \<le> f64_pow2 n" unfolding f64_pow2_def by (rule rnd_f64_nonneg) simp
  then have "Fin 0 \<le> base * f64_pow2 n" using assms by (intro times_nonneg)
  then show "Fin 0 \<le> f_min (base * f64_pow2 n) (Fin 5)" by (auto simp: f_min_def less_eq_f64_def)
  show "f_min (base * f64_pow2 n) (Fin 5) \<le> Fin 5" by (rule f_min_le) simp
qed

lemma RETRY_BASE_bounds: "Fin (1 / 8) \<le> RETRY_BASE_SECONDS" "RETRY_BASE_SECONDS \<le> Fin 1"
proof -
  have "rnd_mag (2 powi (-3)) = (2::rat) powi (-3)" by (rule rnd_mag_powi) simp
  then have "representable (1 / 8)" by (simp add: representable_def power_int_def power_one_over)
  then have "rnd_f64 False (1 / 8) = Fin (1 / 8)" by (rule rnd_f64_representable) simp
  moreover have "rnd_f64 False (1 / 8) \<le> RETRY_BASE_SECONDS" "RETRY_BASE_SECONDS \<le> rnd_f64 False 1"
    unfolding RETRY_BASE_SECONDS_def by (rule rnd_f64_mono, simp)+
  ultimately show "Fin (1 / 8) \<le> RETRY_BASE_SECONDS" "RETRY_BASE_SECONDS \<le> Fin 1"
    by (simp_all add: rnd_f64_numeral)
qed

lemma RETRY_BASE_positive: "Fin 0 < RETRY_BASE_SECONDS"
  using RETRY_BASE_bounds(1) by (rule f64_less_le_trans [rotated]) (simp add: less_f64_def)

lemma RETRY_BASE_finite: "is_finite RETRY_BASE_SECONDS"
  using f64_le_Fin_cases(1) [OF f64_le_trans [OF _ RETRY_BASE_bounds(1)] RETRY_BASE_bounds(2)]
  by (simp add: less_eq_f64_def)

text \<open>
  One delay is produced for each configured retry, and whatever the jitter source returns, NaN
  and infinities included, every delay lies between zero and the five-second cap.
\<close>

theorem retry_delays_bounded:
  "length (retry_delays p jitter) = rl_retries p \<and>
   list_all (\<lambda>d. Fin 0 \<le> d \<and> d \<le> Fin 5) (retry_delays p jitter)"
proof -
  have base: "finite_nonneg_or_zero RETRY_BASE_SECONDS = RETRY_BASE_SECONDS"
    "is_finite RETRY_BASE_SECONDS" "Fin 0 < RETRY_BASE_SECONDS"
    using RETRY_BASE_positive RETRY_BASE_finite
    by (auto simp: finite_nonneg_or_zero_def f_max_def less_f64_def)
  have cap: "finite_nonneg_or_zero RETRY_CAP_SECONDS = Fin 5"
    by (simp add: RETRY_CAP_SECONDS_def finite_nonneg_or_zero_def f_max_def less_f64_def)
  have jit: "Fin 0 \<le> (if is_finite s then f_clamp s (Fin 0) (Fin 1) else Fin 0)"
    "(if is_finite s then f_clamp s (Fin 0) (Fin 1) else Fin 0) \<le> Fin 1" for s
    using f_clamp_bounds [of s "Fin 0" "Fin 1"]
    by (auto simp: less_eq_f64_def is_finite_not_nan)
  show ?thesis
    unfolding retry_delays_def retry_delays_with_def base(1) cap Let_def
    using python_round_le [where k = 5 and p = 6]
      unit_scaled_bounds [OF retry_slot_bounds [OF base(2,3)] jit]
    by (simp add: list_all_iff)
qed

section \<open>Leases\<close>

text \<open>
  The policy together with the leases that are outstanding. A lease leaves the list when it is
  completed or dropped. Completion and dropping read a valid clock: the gateway's clock is the time
  elapsed since start-up.
\<close>

type_synonym lease_state = "reliability_policy \<times> lease list"

inductive lease_step :: "lease_state \<Rightarrow> lease_state \<Rightarrow> bool" where
  Begin: "begin_attempt p clock t = Inr (Some l, p') \<Longrightarrow> lease_step (p, ls) (p', l # ls)"
| Refuse: "begin_attempt p clock t = Inr (None, p') \<Longrightarrow> lease_step (p, ls) (p', ls)"
| Complete: "validated_now clock = Inr now \<Longrightarrow> complete_attempt p clock clock' l succeeded = (r, p') \<Longrightarrow>
    lease_step (p, xs @ l # ys) (p', xs @ ys)"
| Drop: "validated_now clock = Inr now \<Longrightarrow> drop_attempt p clock l = p' \<Longrightarrow>
    lease_step (p, xs @ l # ys) (p', xs @ ys)"

definition lease_inv :: "lease_state \<Rightarrow> bool" where
  "lease_inv st \<longleftrightarrow> breaker_inv (rl_breaker (fst st)) \<and> finite_times (rl_breaker (fst st)) \<and>
     (\<forall>t \<in> br_half_open (rl_breaker (fst st)). (t, HalfOpen) \<in> set (snd st))"

lemma validated_now_finite: "validated_now clock = Inr now \<Longrightarrow> is_finite now"
  by (auto simp: validated_now_def split: if_splits)

lemma finite_times_record: "finite_times b \<Longrightarrow> is_finite now \<Longrightarrow> finite_times (record_at b t ok now)"
  by (auto simp: finite_times_def record_at_def Let_def)

lemma finite_times_begin: "finite_times b \<Longrightarrow> finite_times (snd (begin_at b t now))"
  by (auto simp: finite_times_def begin_at_def split: option.splits)

lemma half_open_record: "br_half_open (record_at b t ok now) = br_half_open b - {t}"
  by (auto simp: record_at_def Let_def)

lemma half_open_begin:
  "begin_at b t now = (r, b') \<Longrightarrow>
   br_half_open b' = (if r = Some HalfOpen then insert t (br_half_open b) else br_half_open b)"
  by (auto simp: begin_at_def split: option.splits if_splits)

lemma begin_attempt_lease_inv:
  assumes "lease_inv (p, ls)" and "begin_attempt p clock t = Inr (g, p')"
  shows "lease_inv (p', (case g of None \<Rightarrow> ls | Some l \<Rightarrow> l # ls))"
proof -
  from assms(2) obtain now r b where step: "validated_now clock = Inr now"
    "begin_at (rl_breaker p) t now = (r, b)" "p' = p\<lparr>rl_breaker := b\<rparr>" "g = map_option (Pair t) r"
    by (auto simp: begin_attempt_def split: sum.splits prod.splits option.splits)
  have "breaker_inv b" "finite_times b"
    using assms(1) begin_at_inv [of "rl_breaker p" t now] finite_times_begin [of "rl_breaker p" t now] step(2)
    by (simp_all add: lease_inv_def)
  then show ?thesis
    using assms(1) step half_open_begin [OF step(2)]
    by (auto simp: lease_inv_def split: option.splits if_splits)
qed

lemma record_lease_inv:
  assumes "lease_inv (p, xs @ l # ys)" and "is_finite now"
  shows "lease_inv (p\<lparr>rl_breaker := record_at (rl_breaker p) (fst l) ok now\<rparr>, xs @ ys)"
  using assms by (cases l) (auto simp: lease_inv_def record_at_inv finite_times_record half_open_record)

lemma lease_step_inv:
  assumes "lease_step s s'" "lease_inv s"
  shows "lease_inv s'"
  using assms
proof (induction rule: lease_step.induct)
  case (Begin p clock t l p' ls)
  then show ?case using begin_attempt_lease_inv by fastforce
next
  case (Refuse p clock t p' ls)
  then show ?case using begin_attempt_lease_inv by fastforce
next
  case (Complete clock now p clock' l succeeded r p' xs ys)
  then show ?case
    by (auto simp: complete_attempt_def intro!: record_lease_inv validated_now_finite)
next
  case (Drop clock now p l p' xs ys)
  show ?case
  proof (cases "snd l = HalfOpen")
    case True
    then show ?thesis
      using Drop
      by (auto simp: drop_attempt_def abandon_at_def intro!: record_lease_inv validated_now_finite)
  next
    case False
    then have "p' = p" using Drop by (simp add: drop_attempt_def)
    then show ?thesis using Drop.prems False by (cases l) (auto simp: lease_inv_def)
  qed
qed

lemma lease_reachable_inv: "lease_step\<^sup>*\<^sup>* s s' \<Longrightarrow> lease_inv s \<Longrightarrow> lease_inv s'"
  by (induction rule: rtranclp_induct) (auto intro: lease_step_inv)

lemma lease_inv_initial:
  assumes "policy_from_config retries threshold cooldown failover = Inr p" "threshold \<le> u64_max"
  shows "lease_inv (p, [])"
  using assms breaker_inv_new [OF assms(2), of cooldown]
  by (auto simp: policy_from_config_def lease_inv_def finite_times_def breaker_new_def
      split: option.splits if_splits)


text \<open>The states of a run on one target: failures, opening time and probe mark, and the leases.\<close>

definition probe_run :: "nat option \<Rightarrow> f64 option \<Rightarrow> bool \<Rightarrow> circuit_attempt list \<Rightarrow> lease_state" where
  "probe_run n opened half ls =
     (sample_policy\<lparr>rl_breaker :=
        \<lparr>br_threshold = 1, br_cooldown = Fin 10, br_failures = Map.empty([1] := n),
         br_opened_at = Map.empty([1] := opened), br_half_open = (if half then {[1]} else {})\<rparr>\<rparr>,
      map (Pair [1]) ls)"

lemma sample_policy_config:
  "policy_from_config 2 1 (Fin 10) (lit ''degrade'') = Inr sample_policy"
  by (simp add: policy_from_config_def sample_policy_def duration_nanos_def parse_failover_def
      lit_def u64_max_def rne_of_int [of "10000000000", simplified])

lemma probe_run_initial: "(sample_policy, []) = probe_run None None False []"
  by (simp add: probe_run_def sample_policy_def breaker_new_def finite_nonneg_or_zero_def
      f_max_def less_f64_def)

lemmas run_simps = probe_run_def begin_attempt_def begin_at_def validated_now_def complete_attempt_def
  record_at_def sample_policy_def f64_simps less_eq_f64_def less_f64_def sat_add_def Let_def

lemma run_begin_closed:
  "lease_step (probe_run None None False ls) (probe_run None None False (Closed # ls))"
  using lease_step.Begin [of "fst (probe_run None None False ls)" "Fin 0" "[1]" "([1], Closed)"
      "fst (probe_run None None False ls)" "map (Pair [1]) ls"]
  by (simp add: run_simps)

lemma run_first_failure:
  "lease_step (probe_run None None False [Closed, Closed])
     (probe_run (Some 1) (Some (Fin 1)) False [Closed])"
  using lease_step.Complete [of "Fin 1" "Fin 1" "fst (probe_run None None False [])" "Fin 1"
      "([1], Closed)" False "Inr ()" "fst (probe_run (Some 1) (Some (Fin 1)) False [])" "[]"
      "[([1], Closed)]"]
  by (simp add: run_simps)

lemma run_probe:
  assumes "opened + 10 = later" "0 \<le> opened" "rnd_f64 False 10 = Fin 10"
  shows "lease_step (probe_run (Some n) (Some (Fin opened)) False ls)
     (probe_run (Some n) (Some (Fin opened)) True (HalfOpen # ls))"
proof -
  have "Fin later - Fin opened = Fin 10" using assms by (auto simp: minus_finite)
  then show ?thesis
    using assms lease_step.Begin [of "fst (probe_run (Some n) (Some (Fin opened)) False ls)" "Fin later"
        "[1]" "([1], HalfOpen)" "fst (probe_run (Some n) (Some (Fin opened)) True ls)" "map (Pair [1]) ls"]
    by (simp add: run_simps)
qed

lemma run_stale_failure:
  "lease_step (probe_run (Some 1) (Some (Fin 1)) True [HalfOpen, Closed])
     (probe_run (Some (Suc 1)) (Some (Fin 12)) False [HalfOpen])"
  using lease_step.Complete [of "Fin 12" "Fin 12" "fst (probe_run (Some 1) (Some (Fin 1)) True [])"
      "Fin 12" "([1], Closed)" False "Inr ()" "fst (probe_run (Some (Suc 1)) (Some (Fin 12)) False [])"
      "[([1], HalfOpen)]" "[]"]
  by (simp add: run_simps u64_max_def)


text \<open>
  C7. A half-open lease does not own its target's only probe. An attempt granted while the circuit
  was closed may still be running when it opens; when such an attempt fails during a later probe, it
  clears the probe mark, and after the next cooldown a second probe is granted while the first is
  outstanding.
\<close>

theorem two_probes_can_be_outstanding:
  "\<exists>p0 p t. policy_from_config 2 1 (Fin 10) (lit ''degrade'') = Inr p0 \<and>
     lease_step\<^sup>*\<^sup>* (p0, []) (p, [(t, HalfOpen), (t, HalfOpen)])"
proof -
  have "lease_step\<^sup>*\<^sup>* (sample_policy, []) (probe_run None None False [Closed])"
    unfolding probe_run_initial using run_begin_closed by blast
  also note run_begin_closed [of "[Closed]"]
  also note run_first_failure
  also have "lease_step (probe_run (Some 1) (Some (Fin 1)) False [Closed])
      (probe_run (Some 1) (Some (Fin 1)) True [HalfOpen, Closed])"
    by (rule run_probe [of _ 11]) (simp_all add: rnd_f64_numeral)
  also note run_stale_failure
  also have "lease_step (probe_run (Some (Suc 1)) (Some (Fin 12)) False [HalfOpen])
      (probe_run (Some (Suc 1)) (Some (Fin 12)) True [HalfOpen, HalfOpen])"
    by (rule run_probe [of _ 22]) (simp_all add: rnd_f64_numeral)
  finally show ?thesis
    using sample_policy_config by (auto simp: probe_run_def)
qed

end
