(* ===== verification/Deployments.thy ===== *)
theory Deployments
  imports Breaker Contracts Sorting
begin

text \<open>
  Interchangeable deployments behind one model alias: the configured models and the weighted rotation
  of \<open>wayfinder-gateway/src/lib.rs\<close>, the eligibility of concrete targets, and the observation store and
  ordering strategies of \<open>deployment_selection.rs\<close>. Whether an endpoint's literal host is loopback or
  on a private network rests on the URL library and is a parameter. The clock is read once per
  operation; a poisoned lock is not modelled.
\<close>

section \<open>Configured models\<close>

datatype provider_kind = OpenAiCompatible | Anthropic | AppleFoundationModels | CodexAppServer

fun provider_kind_as_str :: "provider_kind \<Rightarrow> str" where
  "provider_kind_as_str OpenAiCompatible = lit ''openai-compatible''"
| "provider_kind_as_str Anthropic = lit ''anthropic''"
| "provider_kind_as_str AppleFoundationModels = lit ''apple-foundation-models''"
| "provider_kind_as_str CodexAppServer = lit ''codex-app-server''"

datatype provider_tier = LocalTier

datatype selection_strategy = Weighted | Latency | Throughput | Availability | Cost | Capacity

fun strategy_as_str :: "selection_strategy \<Rightarrow> str" where
  "strategy_as_str Weighted = lit ''weighted''"
| "strategy_as_str Latency = lit ''latency''"
| "strategy_as_str Throughput = lit ''throughput''"
| "strategy_as_str Availability = lit ''availability''"
| "strategy_as_str Cost = lit ''cost''"
| "strategy_as_str Capacity = lit ''capacity''"

record selection_policy =
  sel_strategy :: selection_strategy
  sel_max_cost_per_1k :: "f64 option"
  sel_observation_ttl :: f64

definition selection_policy_default :: selection_policy where
  "selection_policy_default = \<lparr>sel_strategy = Weighted, sel_max_cost_per_1k = None, sel_observation_ttl = Fin 60\<rparr>"

record configured_deployment =
  cd_id :: str
  cd_endpoint :: str
  cd_provider_model :: str
  cd_api_key_env :: "str option"
  cd_key_ready :: bool
  cd_weight :: u64
  cd_cost_per_1k :: "f64 option"

record configured_model =
  cm_name :: str
  cm_endpoint :: str
  cm_provider_model :: str
  cm_provider :: provider_kind
  cm_tier :: "provider_tier option"
  cm_api_key_env :: "str option"
  cm_key_ready :: bool
  cm_base_key_ready :: bool
  cm_cost_per_1k :: "f64 option"
  cm_fallbacks :: "str list"
  cm_context_window :: "u64 option"
  cm_deployments :: "configured_deployment list"
  cm_deployment_selection :: selection_policy
  cm_deployment_id :: "str option"

definition deployment_new :: "str \<Rightarrow> str \<Rightarrow> str \<Rightarrow> str option \<Rightarrow> bool \<Rightarrow> u64 \<Rightarrow> configured_deployment" where
  "deployment_new i endpoint provider_model api_key_env key_ready weight =
     \<lparr>cd_id = i, cd_endpoint = endpoint, cd_provider_model = provider_model, cd_api_key_env = api_key_env,
      cd_key_ready = (api_key_env = None \<or> key_ready), cd_weight = max weight 1, cd_cost_per_1k = None\<rparr>"

text \<open>A price is kept only when it is a finite non-negative number.\<close>

definition usable_cost :: "f64 option \<Rightarrow> f64 option" where
  "usable_cost c = (case c of None \<Rightarrow> None | Some x \<Rightarrow> if is_finite x \<and> Fin 0 \<le> x then Some x else None)"

definition deployment_with_cost :: "f64 option \<Rightarrow> configured_deployment \<Rightarrow> configured_deployment" where
  "deployment_with_cost c d = d\<lparr>cd_cost_per_1k := usable_cost c\<rparr>"

definition model_new :: "str \<Rightarrow> str \<Rightarrow> str \<Rightarrow> str option \<Rightarrow> bool \<Rightarrow> configured_model" where
  "model_new name endpoint provider_model api_key_env key_ready =
     (let base = (api_key_env = None \<or> key_ready) in
      \<lparr>cm_name = name, cm_endpoint = endpoint, cm_provider_model = provider_model,
       cm_provider = OpenAiCompatible, cm_tier = None, cm_api_key_env = api_key_env, cm_key_ready = base,
       cm_base_key_ready = base, cm_cost_per_1k = None, cm_fallbacks = [], cm_context_window = None,
       cm_deployments = [], cm_deployment_selection = selection_policy_default, cm_deployment_id = None\<rparr>)"

definition model_with_cost :: "f64 option \<Rightarrow> configured_model \<Rightarrow> configured_model" where
  "model_with_cost c m = m\<lparr>cm_cost_per_1k := usable_cost c\<rparr>"

definition with_deployments :: "configured_deployment list \<Rightarrow> configured_model \<Rightarrow> configured_model" where
  "with_deployments ds m =
     m\<lparr>cm_key_ready := (cm_key_ready m \<or> list_ex cd_key_ready ds), cm_deployments := ds\<rparr>"

definition for_deployment :: "configured_model \<Rightarrow> configured_deployment \<Rightarrow> configured_model" where
  "for_deployment m d =
     m\<lparr>cm_endpoint := cd_endpoint d, cm_provider_model := cd_provider_model d,
       cm_api_key_env := cd_api_key_env d, cm_key_ready := cd_key_ready d,
       cm_cost_per_1k := (case cd_cost_per_1k d of None \<Rightarrow> cm_cost_per_1k m | Some c \<Rightarrow> Some c),
       cm_deployments := [], cm_deployment_id := Some (cd_id d)\<rparr>"

definition deployment_targets :: "configured_model \<Rightarrow> configured_deployment list" where
  "deployment_targets m =
     deployment_new (lit ''default'') (cm_endpoint m) (cm_provider_model m) (cm_api_key_env m) (cm_base_key_ready m) 1 #
     cm_deployments m"

definition delivery_id :: "configured_model \<Rightarrow> str" where
  "delivery_id m =
     (case cm_deployment_id m of None \<Rightarrow> cm_name m | Some d \<Rightarrow> cm_name m @ lit ''#'' @ d)"

section \<open>Weighted rotation\<close>

definition find_model :: "str \<Rightarrow> configured_model list \<Rightarrow> configured_model option" where
  "find_model alias models = List.find (\<lambda>m. cm_name m = alias) models"

text \<open>The index of the target whose weight interval contains the slot; the first one when none does.\<close>

fun slot_target :: "nat \<Rightarrow> u64 list \<Rightarrow> u64 \<Rightarrow> nat" where
  "slot_target i [] remaining = 0"
| "slot_target i (w # ws) remaining =
     (if remaining < w then i else slot_target (Suc i) ws (remaining - w))"

text \<open>
  The cursors are a map from aliases; the weights are summed without overflow because a pool has at
  most 33 targets of weight at most 100.
\<close>

definition deployment_candidates ::
  "configured_model list \<Rightarrow> str \<Rightarrow> (str \<times> u64) list \<Rightarrow> configured_model list \<times> (str \<times> u64) list" where
  "deployment_candidates models alias cursors =
     (case find_model alias models of
        None \<Rightarrow> ([], cursors)
      | Some m \<Rightarrow>
          let targets = deployment_targets m in
          if length targets \<le> 1 then ([m], cursors)
          else
            let total_weight = sum_list (map cd_weight targets);
                cursor = (case map_of cursors alias of None \<Rightarrow> 0 | Some c \<Rightarrow> c);
                start = slot_target 0 (map cd_weight targets) (cursor mod total_weight)
            in (map (\<lambda>offset. for_deployment m (targets ! ((start + offset) mod length targets)))
                  [0..<length targets],
                bt_insert alias (sat_add cursor 1) cursors))"

section \<open>Eligible targets\<close>

definition model_is_proven_local :: "(str \<Rightarrow> bool) \<Rightarrow> configured_model \<Rightarrow> bool" where
  "model_is_proven_local loopback m \<longleftrightarrow>
     (cm_provider m = AppleFoundationModels \<and> cm_tier m = Some LocalTier) \<or>
     (cm_provider m = OpenAiCompatible \<and> loopback (cm_endpoint m))"

definition model_execution_boundary :: "(str \<Rightarrow> bool) \<Rightarrow> (str \<Rightarrow> bool) \<Rightarrow> configured_model \<Rightarrow> execution_boundary" where
  "model_execution_boundary loopback local_network m =
     (if model_is_proven_local loopback m then OnDevice
      else if cm_provider m = OpenAiCompatible \<and> local_network (cm_endpoint m) then LocalNetwork
      else Hosted)"

definition no_modalities :: modality_capabilities where
  "no_modalities = \<lparr>mc_embeddings = False, mc_image_generation = False, mc_audio_input = False,
     mc_audio_output = False, mc_batch = False\<rparr>"

definition model_capabilities :: "configured_model \<Rightarrow> destination_capabilities" where
  "model_capabilities m =
     \<lparr>dc_text = True, dc_streaming = True, dc_image_input = False,
      dc_tools = (case cm_provider m of
          OpenAiCompatible \<Rightarrow> True | Anthropic \<Rightarrow> True | AppleFoundationModels \<Rightarrow> False | CodexAppServer \<Rightarrow> False),
      dc_modalities = no_modalities\<rparr>"

definition destination_of :: "(str \<Rightarrow> bool) \<Rightarrow> (str \<Rightarrow> bool) \<Rightarrow> configured_model \<Rightarrow> destination_snapshot" where
  "destination_of loopback local_network m =
     \<lparr>ds_id = cm_name m, ds_provider_id = provider_kind_as_str (cm_provider m), ds_model_id = cm_provider_model m,
      ds_display_name = cm_name m,
      ds_route_tier = (case cm_tier m of None \<Rightarrow> cm_name m | Some LocalTier \<Rightarrow> lit ''local''),
      ds_execution_boundary = model_execution_boundary loopback local_network m,
      ds_readiness = (if cm_key_ready m then Ready else Unavailable),
      ds_billing_class = (case cm_provider m of
          AppleFoundationModels \<Rightarrow> BillOnDevice | CodexAppServer \<Rightarrow> BillSubscription
        | OpenAiCompatible \<Rightarrow> BillApiMetered | Anthropic \<Rightarrow> BillApiMetered),
      ds_context_window = cm_context_window m, ds_capabilities = model_capabilities m,
      ds_automatic_eligible = True\<rparr>"

definition assess_model ::
  "(str \<Rightarrow> bool) \<Rightarrow> (str \<Rightarrow> bool) \<Rightarrow> routing_request \<Rightarrow> configured_model \<Rightarrow> candidate_assessment" where
  "assess_model loopback local_network request m =
     (let a = assess_destination request (destination_of loopback local_network m)
      in a\<lparr>ca_exclusions := filter (\<lambda>r. r \<noteq> ContextWindowUnknown) (ca_exclusions a)\<rparr>)"

definition target_eligible ::
  "(str \<Rightarrow> bool) \<Rightarrow> (str \<Rightarrow> bool) \<Rightarrow> routing_request \<Rightarrow> bool \<Rightarrow> u64 \<Rightarrow> configured_model \<Rightarrow> bool" where
  "target_eligible loopback local_network request offline prompt_estimate m \<longleftrightarrow>
     is_eligible (assess_model loopback local_network request m) \<and>
     (\<not> offline \<or> model_is_proven_local loopback m) \<and> precheck_ok prompt_estimate (cm_context_window m)"

definition eligible_deployment_targets ::
  "(str \<Rightarrow> bool) \<Rightarrow> (str \<Rightarrow> bool) \<Rightarrow> configured_model list \<Rightarrow> routing_request \<Rightarrow> bool \<Rightarrow> u64 \<Rightarrow>
   configured_model list" where
  "eligible_deployment_targets loopback local_network targets request offline prompt_estimate =
     filter (target_eligible loopback local_network request offline prompt_estimate) targets"

definition configured_deployment_targets :: "configured_model list \<Rightarrow> str \<Rightarrow> configured_model list" where
  "configured_deployment_targets models alias =
     (case find_model alias models of
        None \<Rightarrow> []
      | Some m \<Rightarrow> map (for_deployment m) (deployment_targets m))"

definition has_eligible_deployment_target ::
  "(str \<Rightarrow> bool) \<Rightarrow> (str \<Rightarrow> bool) \<Rightarrow> configured_model list \<Rightarrow> str \<Rightarrow> routing_request \<Rightarrow> bool \<Rightarrow> u64 \<Rightarrow> bool" where
  "has_eligible_deployment_target loopback local_network models alias request offline prompt_estimate =
     list_ex (target_eligible loopback local_network request offline prompt_estimate)
       (configured_deployment_targets models alias)"

section \<open>Observations\<close>

definition MAX_SIGNAL_KEYS :: nat where "MAX_SIGNAL_KEYS = 1024"

definition MAX_SAMPLES_PER_KEY :: nat where "MAX_SAMPLES_PER_KEY = 32"

definition MAX_SIGNAL_ID_BYTES :: nat where "MAX_SIGNAL_ID_BYTES = 128"

definition OVERFLOW_SIGNAL_ID :: str where "OVERFLOW_SIGNAL_ID = lit ''__other__''"

record deployment_observation =
  do_latency_seconds :: "f64 option"
  do_ttft_seconds :: "f64 option"
  do_throughput :: "f64 option"
  do_success :: bool
  do_rate_limited :: bool
  do_capacity_pressure :: "f64 option"

definition observation_success :: "f64 \<Rightarrow> f64 option \<Rightarrow> f64 option \<Rightarrow> deployment_observation" where
  "observation_success latency ttft throughput =
     \<lparr>do_latency_seconds = Some latency, do_ttft_seconds = ttft, do_throughput = throughput,
      do_success = True, do_rate_limited = False, do_capacity_pressure = Some (Fin 0)\<rparr>"

definition observation_failure :: "f64 option \<Rightarrow> nat option \<Rightarrow> deployment_observation" where
  "observation_failure latency status =
     \<lparr>do_latency_seconds = latency, do_ttft_seconds = None, do_throughput = None, do_success = False,
      do_rate_limited = (status = Some 429),
      do_capacity_pressure =
        (case status of
           None \<Rightarrow> Some (Fin (1 / 2))
         | Some c \<Rightarrow> if c = 429 \<or> c = 503 then Some (Fin 1)
                     else if 500 \<le> c \<and> c \<le> 599 then Some (Fin (1 / 2)) else Some (Fin (1 / 4)))\<rparr>"

record timed_observation =
  to_observed_at :: f64
  to_observation :: deployment_observation

type_synonym signal_store = "(str \<times> timed_observation list) list"

definition bad_sample :: "f64 option \<Rightarrow> bool" where
  "bad_sample v = (case v of None \<Rightarrow> False | Some x \<Rightarrow> \<not> is_finite x \<or> x < Fin 0)"

definition sanitize_observation :: "deployment_observation \<Rightarrow> deployment_observation option" where
  "sanitize_observation ob =
     (if list_ex bad_sample [do_latency_seconds ob, do_ttft_seconds ob, do_throughput ob, do_capacity_pressure ob]
      then None
      else Some (ob\<lparr>do_capacity_pressure := map_option (\<lambda>v. f_min v (Fin 1)) (do_capacity_pressure ob)\<rparr>))"

text \<open>\<open>char::is_control\<close> is the Unicode category \<open>Cc\<close>.\<close>

definition signal_char :: "nat \<Rightarrow> bool" where
  "signal_char c \<longleftrightarrow> \<not> (c < 32 \<or> (127 \<le> c \<and> c \<le> 159)) \<or> c = 10"

definition bounded_signal_id :: "str \<Rightarrow> str" where
  "bounded_signal_id v = (if str_len v \<le> MAX_SIGNAL_ID_BYTES \<and> list_all signal_char v then v else OVERFLOW_SIGNAL_ID)"

definition bounded_clock :: "f64 \<Rightarrow> f64" where
  "bounded_clock v = (if is_finite v then f_max v (Fin 0) else Fin 0)"

definition observe_signal :: "f64 \<Rightarrow> str \<Rightarrow> deployment_observation \<Rightarrow> signal_store \<Rightarrow> signal_store" where
  "observe_signal clock deployment ob store =
     (case sanitize_observation ob of
        None \<Rightarrow> store
      | Some ob' \<Rightarrow>
          let key = bounded_signal_id deployment; now = bounded_clock clock in
          if map_of store key = None \<and> MAX_SIGNAL_KEYS \<le> length store then store
          else
            let samples = (case map_of store key of None \<Rightarrow> [] | Some xs \<Rightarrow> xs) @
                          [\<lparr>to_observed_at = now, to_observation = ob'\<rparr>]
            in bt_insert key (drop (length samples - MAX_SAMPLES_PER_KEY) samples) store)"

record signal_summary =
  su_latency_seconds :: f64
  su_ttft_seconds :: "f64 option"
  su_throughput :: "f64 option"
  su_availability :: f64
  su_rate_limit_rate :: f64
  su_capacity_pressure :: f64

text \<open>The values a field takes over the samples; the source adds them up and counts them in one loop.\<close>

definition field_values :: "(deployment_observation \<Rightarrow> f64 option) \<Rightarrow> timed_observation list \<Rightarrow> f64 list" where
  "field_values f xs = List.map_filter (\<lambda>x. f (to_observation x)) xs"

definition mean :: "f64 list \<Rightarrow> f64" where
  "mean vs = f_sum (Fin 0) vs div f64_of_nat (length vs)"

definition mean_option :: "f64 list \<Rightarrow> f64 option" where
  "mean_option vs = (if vs = [] then None else Some (mean vs))"

definition signal_summary_of :: "f64 \<Rightarrow> str \<Rightarrow> f64 \<Rightarrow> signal_store \<Rightarrow> signal_summary option" where
  "signal_summary_of clock deployment ttl store =
     (if \<not> is_finite ttl \<or> ttl \<le> Fin 0 then None
      else
        let now = bounded_clock clock in
        case map_of store (bounded_signal_id deployment) of
          None \<Rightarrow> None
        | Some all \<Rightarrow>
            let xs = filter (\<lambda>x. to_observed_at x \<le> now \<and> now - to_observed_at x \<le> ttl) all;
                latency = field_values do_latency_seconds xs;
                capacity = field_values do_capacity_pressure xs
            in if xs = [] \<or> latency = [] \<or> capacity = [] then None
               else Some \<lparr>su_latency_seconds = mean latency,
                          su_ttft_seconds = mean_option (field_values do_ttft_seconds xs),
                          su_throughput = mean_option (field_values do_throughput xs),
                          su_availability =
                            f64_of_nat (length (filter (\<lambda>x. do_success (to_observation x)) xs)) div f64_of_nat (length xs),
                          su_rate_limit_rate =
                            f64_of_nat (length (filter (\<lambda>x. do_rate_limited (to_observation x)) xs)) div f64_of_nat (length xs),
                          su_capacity_pressure = mean capacity\<rparr>)"

section \<open>Selection\<close>

definition F64_MAX :: f64 where
  "F64_MAX = Fin ((2 ^ 53 - 1) * 2 ^ 971)"

text \<open>\<open>total_cmp(a, b).then_with(rest)\<close>, as \<open>not greater\<close>.\<close>

definition total_then :: "f64 \<Rightarrow> f64 \<Rightarrow> bool \<Rightarrow> bool" where
  "total_then a b rest = (if a = b then rest else total_le a b)"

definition compare_cost :: "configured_model \<Rightarrow> configured_model \<Rightarrow> bool" where
  "compare_cost l r =
     (let c = \<lambda>m. (case cm_cost_per_1k m of None \<Rightarrow> F64_MAX | Some x \<Rightarrow> x)
      in total_then (c l) (c r) (delivery_id l \<le> delivery_id r))"

definition apply_price_ceiling :: "selection_policy \<Rightarrow> configured_model list \<Rightarrow> configured_model list" where
  "apply_price_ceiling policy candidates =
     (case sel_max_cost_per_1k policy of
        None \<Rightarrow> candidates
      | Some cap \<Rightarrow>
          filter (\<lambda>m. case cm_cost_per_1k m of None \<Rightarrow> False | Some c \<Rightarrow> is_finite c \<and> c \<le> cap) candidates)"

definition opt_or :: "f64 \<Rightarrow> f64 option \<Rightarrow> f64" where
  "opt_or d v = (case v of None \<Rightarrow> d | Some x \<Rightarrow> x)"

fun strategy_le :: "selection_strategy \<Rightarrow> signal_summary \<Rightarrow> signal_summary \<Rightarrow> bool \<Rightarrow> bool" where
  "strategy_le Latency l r rest =
     total_then (su_latency_seconds l) (su_latency_seconds r)
       (total_then (opt_or F64_MAX (su_ttft_seconds l)) (opt_or F64_MAX (su_ttft_seconds r)) rest)"
| "strategy_le Throughput l r rest =
     total_then (opt_or (Fin 0) (su_throughput r)) (opt_or (Fin 0) (su_throughput l)) rest"
| "strategy_le Availability l r rest =
     total_then (su_availability r) (su_availability l)
       (total_then (su_rate_limit_rate l) (su_rate_limit_rate r) rest)"
| "strategy_le Capacity l r rest = total_then (su_capacity_pressure l) (su_capacity_pressure r) rest"
| "strategy_le Weighted l r rest = rest"
| "strategy_le Cost l r rest = rest"

fun signal_ready :: "selection_strategy \<Rightarrow> signal_summary \<Rightarrow> bool" where
  "signal_ready Latency s = is_finite (su_latency_seconds s)"
| "signal_ready Throughput s = (case su_throughput s of None \<Rightarrow> False | Some v \<Rightarrow> is_finite v)"
| "signal_ready Availability s = is_finite (su_availability s)"
| "signal_ready Capacity s = is_finite (su_capacity_pressure s)"
| "signal_ready Weighted s = True"
| "signal_ready Cost s = True"

definition signal_le ::
  "selection_policy \<Rightarrow> f64 \<Rightarrow> signal_store \<Rightarrow> configured_model \<Rightarrow> configured_model \<Rightarrow> bool" where
  "signal_le policy clock store l r =
     (case signal_summary_of clock (delivery_id l) (sel_observation_ttl policy) store of
        None \<Rightarrow> delivery_id l \<le> delivery_id r
      | Some ls \<Rightarrow>
          (case signal_summary_of clock (delivery_id r) (sel_observation_ttl policy) store of
             None \<Rightarrow> delivery_id l \<le> delivery_id r
           | Some rs \<Rightarrow> strategy_le (sel_strategy policy) ls rs (delivery_id l \<le> delivery_id r)))"

record deployment_selection =
  sl_targets :: "configured_model list"
  sl_reason :: str

definition select_deployments ::
  "selection_policy \<Rightarrow> f64 \<Rightarrow> signal_store \<Rightarrow> configured_model list \<Rightarrow> deployment_selection" where
  "select_deployments policy clock store all =
     (let candidates = apply_price_ceiling policy all in
      if candidates = [] then \<lparr>sl_targets = [], sl_reason = lit ''price-ceiling-blocked''\<rparr>
      else if length candidates \<le> 1 \<or> sel_strategy policy = Weighted
      then \<lparr>sl_targets = candidates,
            sl_reason = (if sel_max_cost_per_1k policy \<noteq> None then lit ''weighted-price-ceiling'' else lit ''weighted'')\<rparr>
      else if sel_strategy policy = Cost then
        (if list_all (\<lambda>m. cm_cost_per_1k m \<noteq> None) candidates
         then \<lparr>sl_targets = sort_by compare_cost candidates, sl_reason = lit ''cost''\<rparr>
         else \<lparr>sl_targets = candidates, sl_reason = lit ''weighted-cost-unknown''\<rparr>)
      else if \<not> list_all (\<lambda>m. case signal_summary_of clock (delivery_id m) (sel_observation_ttl policy) store of
                              None \<Rightarrow> False | Some s \<Rightarrow> signal_ready (sel_strategy policy) s) candidates
      then \<lparr>sl_targets = candidates, sl_reason = lit ''weighted-stale''\<rparr>
      else \<lparr>sl_targets = sort_by (signal_le policy clock store) candidates,
            sl_reason = strategy_as_str (sel_strategy policy)\<rparr>)"

section \<open>Rotation follows the weights\<close>

lemma slot_target_range:
  "remaining < sum_list ws \<Longrightarrow> i \<le> slot_target i ws remaining \<and> slot_target i ws remaining < i + length ws"
  by (induction i ws remaining rule: slot_target.induct) fastforce+

lemma map_add_upt': "map (\<lambda>k. w + k) [0..<n] = [w..<w + n]"
  using map_add_upt [of w n] by (simp add: add.commute)

lemma slots_by_weight:
  "map (slot_target i ws) [0..<sum_list ws] = concat (map2 (\<lambda>j w. replicate w j) [i..<i + length ws] ws)"
proof (induction ws arbitrary: i)
  case (Cons w ws)
  have "[0..<w + sum_list ws] = [0..<w] @ map (\<lambda>k. w + k) [0..<sum_list ws]"
    by (simp only: upt_add_eq_append [of 0, simplified] map_add_upt')
  then have "map (slot_target i (w # ws)) [0..<sum_list (w # ws)] =
      map (slot_target i (w # ws)) [0..<w] @ map (\<lambda>k. slot_target i (w # ws) (w + k)) [0..<sum_list ws]"
    by simp
  also have "map (slot_target i (w # ws)) [0..<w] = replicate w i"
    by (intro nth_equalityI) auto
  also have "map (\<lambda>k. slot_target i (w # ws) (w + k)) [0..<sum_list ws] = map (slot_target (Suc i) ws) [0..<sum_list ws]"
    by simp
  also have "\<dots> = concat (map2 (\<lambda>j w. replicate w j) [Suc i..<Suc i + length ws] ws)"
    by (rule Cons.IH)
  also have "replicate w i @ \<dots> = concat (map2 (\<lambda>j w. replicate w j) (i # [Suc i..<Suc i + length ws]) (w # ws))"
    by simp
  also have "i # [Suc i..<Suc i + length ws] = [i..<i + length (w # ws)]"
    using upt_conv_Cons [of i "i + length (w # ws)"] by simp
  finally show ?case .
qed simp

lemma mod_rotation: "0 < n \<Longrightarrow> mset (map (\<lambda>k. (c + k) mod n) [0..<n]) = mset [0..<n]"
proof -
  assume n: "0 < n"
  have "map (\<lambda>k. (c + k) mod n) [0..<n] = rotate c [0..<n]"
    using n by (intro nth_equalityI) (simp_all add: nth_rotate add.commute)
  moreover have "mset (rotate1 xs) = mset xs" for xs :: "nat list" by (cases xs) simp_all
  then have "mset (rotate c xs) = mset xs" for xs :: "nat list" by (induction c) simp_all
  ultimately show ?thesis by simp
qed

text \<open>The candidate lists of successive calls for one alias.\<close>

fun rotations :: "nat \<Rightarrow> configured_model list \<Rightarrow> str \<Rightarrow> (str \<times> u64) list \<Rightarrow> configured_model list list" where
  "rotations 0 models alias cursors = []"
| "rotations (Suc n) models alias cursors =
     (case deployment_candidates models alias cursors of
        (ts, cursors') \<Rightarrow> ts # rotations n models alias cursors')"

lemma rotations_heads:
  assumes m: "find_model alias models = Some m" and many: "1 < length (deployment_targets m)"
    and c: "(case map_of cursors alias of None \<Rightarrow> 0 | Some c \<Rightarrow> c) = c" "c + n \<le> u64_max"
  defines "ts \<equiv> deployment_targets m" and "ws \<equiv> map cd_weight (deployment_targets m)"
  shows "rotations n models alias cursors =
    map (\<lambda>k. map (\<lambda>offset. for_deployment m (ts ! ((slot_target 0 ws ((c + k) mod sum_list ws) + offset) mod length ts)))
      [0..<length ts]) [0..<n]"
  using c
proof (induction n arbitrary: cursors c)
  case (Suc n)
  let ?call = "\<lambda>k. map (\<lambda>offset. for_deployment m
      (ts ! ((slot_target 0 ws ((c + k) mod sum_list ws) + offset) mod length ts))) [0..<length ts]"
  have call: "deployment_candidates models alias cursors = (?call 0, bt_insert alias (Suc c) cursors)"
    using m many Suc.prems by (simp add: deployment_candidates_def Let_def ts_def ws_def sat_add_def)
  have "rotations n models alias (bt_insert alias (Suc c) cursors) = map (\<lambda>k. ?call (Suc k)) [0..<n]"
    using Suc.IH [of "bt_insert alias (Suc c) cursors" "Suc c"] Suc.prems(2) by (simp add: map_of_bt_insert)
  moreover have "map ?call [0..<Suc n] = ?call 0 # map (\<lambda>k. ?call (Suc k)) [0..<n]"
    by (simp only: map_upt_Suc)
  ultimately show ?case by (simp only: rotations.simps call prod.case)
qed simp

lemma map_nth_map: "map (\<lambda>k. f (xs ! k)) [0..<length xs] = map f xs"
  by (intro nth_equalityI) simp_all

lemma rotated_targets:
  assumes "0 < length ts"
  shows "mset (map (\<lambda>offset. f (ts ! ((start + offset) mod length ts))) [0..<length ts]) = mset (map f ts)"
proof -
  have "mset (map (\<lambda>offset. f (ts ! ((start + offset) mod length ts))) [0..<length ts]) =
      image_mset (\<lambda>k. f (ts ! k)) (mset (map (\<lambda>offset. (start + offset) mod length ts) [0..<length ts]))"
    by (simp add: image_mset.compositionality comp_def)
  also have "\<dots> = image_mset (\<lambda>k. f (ts ! k)) (mset [0..<length ts])"
    by (simp only: mod_rotation [OF assms])
  also have "\<dots> = mset (map f ts)"
    by (simp only: mset_map [symmetric] map_nth_map)
  finally show ?thesis .
qed

text \<open>
  Weighted rotation. Every call for an alias with several deployments lists each of its targets
  once, and over as many successive calls as the weights add up to, starting anywhere, the targets
  offered first are exactly each target as often as its weight.
\<close>

theorem rotation_follows_weights:
  assumes "find_model alias models = Some m" "1 < length (deployment_targets m)"
    and "(case map_of cursors alias of None \<Rightarrow> 0 | Some c \<Rightarrow> c) + sum_list (map cd_weight (deployment_targets m)) \<le> u64_max"
  shows "mset (map hd (rotations (sum_list (map cd_weight (deployment_targets m))) models alias cursors)) =
      mset (concat (map (\<lambda>d. replicate (cd_weight d) (for_deployment m d)) (deployment_targets m))) \<and>
    list_all (\<lambda>ts. mset ts = mset (map (for_deployment m) (deployment_targets m)))
      (rotations (sum_list (map cd_weight (deployment_targets m))) models alias cursors)"
proof -
  let ?ts = "deployment_targets m" let ?ws = "map cd_weight ?ts" let ?n = "sum_list ?ws"
  define c where "c = (case map_of cursors alias of None \<Rightarrow> 0 | Some c \<Rightarrow> c)"
  let ?slot = "\<lambda>k. slot_target 0 ?ws ((c + k) mod ?n)"
  have runs: "rotations ?n models alias cursors =
      map (\<lambda>k. map (\<lambda>offset. for_deployment m (?ts ! ((?slot k + offset) mod length ?ts))) [0..<length ?ts]) [0..<?n]"
    using assms(3) by (intro rotations_heads [OF assms(1,2)]) (simp_all add: c_def)
  have pos: "0 < ?n" by (simp add: deployment_targets_def deployment_new_def)
  have "map hd (rotations ?n models alias cursors) = map (\<lambda>k. for_deployment m (?ts ! ?slot k)) [0..<?n]"
  proof -
    have "?slot k < length ?ts" for k
      using slot_target_range [of "(c + k) mod ?n" ?ws 0] pos by simp
    moreover have "hd (map f [0..<length ?ts]) = f 0" for f :: "nat \<Rightarrow> configured_model"
      using upt_conv_Cons [of 0 "length ?ts"] by (simp add: deployment_targets_def)
    ultimately show ?thesis by (simp add: runs comp_def)
  qed
  also have "mset \<dots> = image_mset (\<lambda>k. for_deployment m (?ts ! slot_target 0 ?ws k)) (mset (map (\<lambda>k. (c + k) mod ?n) [0..<?n]))"
    by (simp add: image_mset.compositionality comp_def)
  also have "\<dots> = mset (map (\<lambda>j. for_deployment m (?ts ! j)) (map (slot_target 0 ?ws) [0..<?n]))"
    by (simp only: mod_rotation [OF pos]) (simp add: image_mset.compositionality comp_def)
  also have "map (slot_target 0 ?ws) [0..<?n] = concat (map2 (\<lambda>j w. replicate w j) [0..<length ?ts] ?ws)"
    using slots_by_weight [of 0 ?ws] by simp
  also have "map (\<lambda>j. for_deployment m (?ts ! j)) \<dots> = concat (map (\<lambda>d. replicate (cd_weight d) (for_deployment m d)) ?ts)"
    by (simp add: map_concat comp_def case_prod_beta) (intro arg_cong [where f = concat] nth_equalityI, simp_all)
  finally have "mset (map hd (rotations ?n models alias cursors)) =
      mset (concat (map (\<lambda>d. replicate (cd_weight d) (for_deployment m d)) ?ts))" .
  moreover have "list_all (\<lambda>ts. mset ts = mset (map (for_deployment m) ?ts)) (rotations ?n models alias cursors)"
  proof -
    have "0 < length ?ts" by (simp add: deployment_targets_def)
    from rotated_targets [of ?ts "for_deployment m", OF this] show ?thesis
      unfolding runs list_all_iff by auto
  qed
  ultimately show ?thesis by blast
qed

definition sample_pool :: configured_model where
  "sample_pool = with_deployments [deployment_new [101] [] [] None True 2] (model_new [109] [] [] None True)"

theorem rotation_follows_weights_witness:
  "1 < length (deployment_targets sample_pool) \<and>
   mset (map hd (rotations 3 [sample_pool] [109] [])) =
     {#for_deployment sample_pool (deployment_targets sample_pool ! 0),
       for_deployment sample_pool (deployment_targets sample_pool ! 1),
       for_deployment sample_pool (deployment_targets sample_pool ! 1)#}"
proof -
  have ts: "deployment_targets sample_pool =
      [deployment_new (lit ''default'') [] [] None True 1, deployment_new [101] [] [] None True 2]"
    by (simp add: deployment_targets_def sample_pool_def with_deployments_def model_new_def Let_def)
  have "find_model [109] [sample_pool] = Some sample_pool"
    by (simp add: find_model_def sample_pool_def with_deployments_def model_new_def Let_def)
  moreover have "replicate 2 x = [x, x]" for x :: configured_model by (simp add: numeral_2_eq_2)
  ultimately show ?thesis
    using rotation_follows_weights [of "[109]" "[sample_pool]" sample_pool "[]"]
    by (simp add: ts deployment_new_def u64_max_def numeral_3_eq_3 del: rotations.simps)
qed

section \<open>Selection orders and never invents\<close>

lemma total_then_trans:
  "total_then a b p \<Longrightarrow> total_then b c q \<Longrightarrow> (p \<Longrightarrow> q \<Longrightarrow> r) \<Longrightarrow> total_then a c r"
  by (auto simp: total_then_def split: if_splits dest: total_le_antisym total_le_trans)

lemma total_then_linear: "p \<or> q \<Longrightarrow> total_then a b p \<or> total_then b a q"
  using total_le_linear [of a b] by (auto simp: total_then_def)

lemma strategy_le_trans:
  assumes ab: "strategy_le k a b p" and bc: "strategy_le k b c q" and pq: "p \<Longrightarrow> q \<Longrightarrow> r"
  shows "strategy_le k a c r"
proof (cases k)
  case Latency
  then show ?thesis
    using total_then_trans [OF ab [unfolded Latency strategy_le.simps] bc [unfolded Latency strategy_le.simps]
        total_then_trans] pq by simp
next
  case Throughput
  then show ?thesis
    using total_then_trans [OF bc [unfolded Throughput strategy_le.simps] ab [unfolded Throughput strategy_le.simps]] pq
    by simp
next
  case Availability
  have "total_then (su_rate_limit_rate b) (su_rate_limit_rate c) q \<Longrightarrow>
      total_then (su_rate_limit_rate a) (su_rate_limit_rate b) p \<Longrightarrow>
      total_then (su_rate_limit_rate a) (su_rate_limit_rate c) r"
    using pq by (blast intro: total_then_trans)
  then show ?thesis
    using total_then_trans [OF bc [unfolded Availability strategy_le.simps] ab [unfolded Availability strategy_le.simps]]
      Availability by simp
next
  case Capacity
  then show ?thesis
    using total_then_trans [OF ab [unfolded Capacity strategy_le.simps] bc [unfolded Capacity strategy_le.simps]] pq
    by simp
qed (use assms in simp_all)

lemma strategy_le_linear: "p \<or> q \<Longrightarrow> strategy_le k a b p \<or> strategy_le k b a q"
  by (cases k) (auto intro!: total_then_linear)

lemma compare_cost_order:
  "compare_cost x y \<or> compare_cost y x" "compare_cost x y \<Longrightarrow> compare_cost y z \<Longrightarrow> compare_cost x z"
proof -
  show "compare_cost x y \<or> compare_cost y x"
    unfolding compare_cost_def Let_def by (intro total_then_linear) (rule linear)
  show "compare_cost x y \<Longrightarrow> compare_cost y z \<Longrightarrow> compare_cost x z"
    unfolding compare_cost_def Let_def by (erule (1) total_then_trans) (rule order.trans)
qed

lemma signal_le_order:
  assumes "\<And>m. m \<in> set ms \<Longrightarrow> signal_summary_of clock (delivery_id m) (sel_observation_ttl policy) store \<noteq> None"
    and "x \<in> set ms" "y \<in> set ms" "z \<in> set ms"
  shows "signal_le policy clock store x y \<or> signal_le policy clock store y x"
    "signal_le policy clock store x y \<Longrightarrow> signal_le policy clock store y z \<Longrightarrow> signal_le policy clock store x z"
proof -
  obtain sx sy sz where s: "signal_summary_of clock (delivery_id x) (sel_observation_ttl policy) store = Some sx"
    "signal_summary_of clock (delivery_id y) (sel_observation_ttl policy) store = Some sy"
    "signal_summary_of clock (delivery_id z) (sel_observation_ttl policy) store = Some sz"
    using assms(1) [OF assms(2)] assms(1) [OF assms(3)] assms(1) [OF assms(4)] by blast
  show "signal_le policy clock store x y \<or> signal_le policy clock store y x"
    unfolding signal_le_def s option.case by (intro strategy_le_linear) (rule linear)
  show "signal_le policy clock store x y \<Longrightarrow> signal_le policy clock store y z \<Longrightarrow> signal_le policy clock store x z"
    unfolding signal_le_def s option.case by (erule (1) strategy_le_trans) (rule order.trans)
qed

text \<open>
  Selecting among deployments only reorders: the targets are a permutation of the candidates the
  price ceiling admits. When the reason given is the cost, or a strategy based on signals, they are in
  the order of that strategy, with equal targets in the order of their identifiers; for every other
  reason they keep the rotation's order.
\<close>

theorem selection_reorders:
  "mset (sl_targets (select_deployments policy clock store candidates)) = mset (apply_price_ceiling policy candidates) \<and>
    (if sl_reason (select_deployments policy clock store candidates) = lit ''cost''
     then sorted_wrt compare_cost (sl_targets (select_deployments policy clock store candidates))
     else if sl_reason (select_deployments policy clock store candidates) \<in>
         {lit ''latency'', lit ''throughput'', lit ''availability'', lit ''capacity''}
     then sorted_wrt (signal_le policy clock store) (sl_targets (select_deployments policy clock store candidates))
     else sl_targets (select_deployments policy clock store candidates) = apply_price_ceiling policy candidates)"
proof -
  let ?c = "apply_price_ceiling policy candidates"
  let ?fresh = "list_all (\<lambda>m. case signal_summary_of clock (delivery_id m) (sel_observation_ttl policy) store of
      None \<Rightarrow> False | Some s \<Rightarrow> signal_ready (sel_strategy policy) s) ?c"
  have cost: "sorted_wrt compare_cost (sort_by compare_cost ?c)"
    by (rule sorted_sort_by) (use compare_cost_order in blast)+
  have signals: "sorted_wrt (signal_le policy clock store) (sort_by (signal_le policy clock store) ?c)" if ?fresh
  proof -
    have some: "\<And>m. m \<in> set ?c \<Longrightarrow> signal_summary_of clock (delivery_id m) (sel_observation_ttl policy) store \<noteq> None"
      using that by (force simp: list_all_iff split: option.splits)
    show ?thesis by (rule sorted_sort_by) (use signal_le_order [OF some] in blast)+
  qed
  show ?thesis
    using cost signals
    by (cases "sel_strategy policy") (auto simp: select_deployments_def Let_def)
qed

text \<open>
  Whatever is selected for a request lies inside it: every target of an alias that survives the
  eligibility filter and the selection has its credential, executes within the boundary the request's
  privacy posture permits, is proven local when the request is offline, fits the prompt estimate into
  its context window when it declares one, and costs no more than the alias's price ceiling.
\<close>

theorem selected_targets_are_safe:
  assumes "t \<in> set (sl_targets (select_deployments policy clock store
      (eligible_deployment_targets loopback local_network
        (fst (deployment_candidates models alias cursors)) request offline prompt_estimate)))"
  shows "cm_key_ready t \<and>
    permits (rq_privacy_posture request) (model_execution_boundary loopback local_network t) \<and>
    (offline \<longrightarrow> model_execution_boundary loopback local_network t = OnDevice) \<and>
    precheck_ok prompt_estimate (cm_context_window t) \<and>
    (\<forall>cap. sel_max_cost_per_1k policy = Some cap \<longrightarrow> (\<exists>c. cm_cost_per_1k t = Some c \<and> c \<le> cap)) \<and>
    cm_name t = alias"
proof -
  let ?eligible = "eligible_deployment_targets loopback local_network
      (fst (deployment_candidates models alias cursors)) request offline prompt_estimate"
  have "set (sl_targets (select_deployments policy clock store ?eligible)) = set (apply_price_ceiling policy ?eligible)"
    by (auto simp: select_deployments_def Let_def)
  then have t: "t \<in> set (apply_price_ceiling policy ?eligible)" using assms by simp
  then have el: "target_eligible loopback local_network request offline prompt_estimate t"
    and cand: "t \<in> set (fst (deployment_candidates models alias cursors))"
    by (auto simp: apply_price_ceiling_def eligible_deployment_targets_def split: option.splits)
  have "filter (\<lambda>r. r \<noteq> ContextWindowUnknown)
      (ca_exclusions (assess_destination request (destination_of loopback local_network t))) = []"
    using el by (simp add: target_eligible_def is_eligible_def assess_model_def Let_def)
  then have "cm_key_ready t" "permits (rq_privacy_posture request) (model_execution_boundary loopback local_network t)"
    by (auto simp: assess_destination_def Let_def destination_of_def split: if_splits)
  moreover have "cm_name t = alias"
    using cand
    by (auto simp: deployment_candidates_def find_model_def Let_def for_deployment_def find_Some_iff
        split: option.splits if_splits)
  ultimately show ?thesis
    using el t by (auto simp: target_eligible_def model_execution_boundary_def apply_price_ceiling_def
        split: option.splits)
qed

definition sample_request :: routing_request where
  "sample_request = \<lparr>rq_schema_version = 1, rq_request_id = [49], rq_prompt = [], rq_privacy_posture = OnDeviceOnly,
     rq_requirements = \<lparr>rr_context_tokens = None, rr_image_input = False, rr_tools = True, rr_streaming = True,
       rr_surface = SurfaceText\<rparr>\<rparr>"

theorem selected_targets_are_safe_witness:
  "for_deployment sample_pool (deployment_targets sample_pool ! 0) \<in>
     set (sl_targets (select_deployments selection_policy_default (Fin 0) []
       (eligible_deployment_targets (\<lambda>e. e = []) (\<lambda>e. False)
         (fst (deployment_candidates [sample_pool] [109] [])) sample_request True 10))) \<and>
   permits OnDeviceOnly (model_execution_boundary (\<lambda>e. e = []) (\<lambda>e. False)
     (for_deployment sample_pool (deployment_targets sample_pool ! 0)))"
proof -
  have "for_deployment sample_pool (deployment_targets sample_pool ! 0) \<in>
     set (sl_targets (select_deployments selection_policy_default (Fin 0) []
       (eligible_deployment_targets (\<lambda>e. e = []) (\<lambda>e. False)
         (fst (deployment_candidates [sample_pool] [109] [])) sample_request True 10)))"
    by (simp add: select_deployments_def selection_policy_default_def apply_price_ceiling_def Let_def
        eligible_deployment_targets_def deployment_candidates_def find_model_def sample_pool_def with_deployments_def
        model_new_def deployment_targets_def deployment_new_def for_deployment_def target_eligible_def
        is_eligible_def assess_model_def assess_destination_def destination_of_def model_execution_boundary_def
        model_is_proven_local_def model_capabilities_def sample_request_def precheck_ok_def)
  with selected_targets_are_safe [OF this] show ?thesis by (simp add: sample_request_def)
qed

section \<open>The observation store stays bounded\<close>

definition signals_bounded :: "signal_store \<Rightarrow> bool" where
  "signals_bounded store \<longleftrightarrow> sorted_keys store \<and> length store \<le> MAX_SIGNAL_KEYS \<and>
     list_all (\<lambda>(k, xs). str_len k \<le> MAX_SIGNAL_ID_BYTES \<and> length xs \<le> MAX_SAMPLES_PER_KEY) store"

lemma bounded_signal_id_len: "str_len (bounded_signal_id v) \<le> MAX_SIGNAL_ID_BYTES"
  by (simp add: bounded_signal_id_def OVERFLOW_SIGNAL_ID_def MAX_SIGNAL_ID_BYTES_def str_len_def len_utf8_def)

lemma list_all_bt_insert: "list_all P m \<Longrightarrow> P (k, v) \<Longrightarrow> list_all P (bt_insert k v m)"
  by (induction k v m rule: bt_insert.induct) auto

lemma observe_signal_bounded:
  assumes "signals_bounded store"
  shows "signals_bounded (observe_signal clock deployment ob store)"
  using assms bounded_signal_id_len [of deployment]
  by (auto simp: observe_signal_def signals_bounded_def Let_def length_bt_insert map_of_eq_None_iff [symmetric] sorted_keys_bt_insert
      intro!: list_all_bt_insert split: option.splits)

text \<open>
  The observation store is bounded: whatever is observed, for whatever deployment names and clock
  readings, it holds at most 1024 keys of at most 128 bytes with at most 32 samples each.
\<close>

theorem signal_store_bounded:
  "signals_bounded (fold (\<lambda>(clock, deployment, ob). observe_signal clock deployment ob) observations [])"
proof -
  have "signals_bounded store \<Longrightarrow>
      signals_bounded (fold (\<lambda>(clock, deployment, ob). observe_signal clock deployment ob) observations store)" for store
    by (induction observations arbitrary: store) (auto simp: observe_signal_bounded)
  then show ?thesis by (simp add: signals_bounded_def)
qed

end
