(* ===== verification/Outcome_Policy.thy ===== *)
theory Outcome_Policy
  imports Recent Deployments
begin

text \<open>
  Review-only threshold proposals of \<open>wayfinder-gateway/src/outcome_policy.rs\<close>: the classification of a
  workspace's labelled receipts and the threshold they justify. The constant texts of the report
  (schema, retention, limitations) and its human-readable reason are not modelled. The theory proves
  that a proposal escalates every local answer its user rejected and never widens local routing.
\<close>

datatype boundary_class = LocalClass | HostedClass

record outcome_policy_report =
  op_workspace_id :: str
  op_disposition :: str
  op_current_tiers :: "tier list"
  op_proposed_tiers :: "tier list"
  op_current_threshold :: "f64 option"
  op_proposed_threshold :: "f64 option"
  op_labelled :: u64
  op_actionable_local :: u64
  op_local_successes :: u64
  op_local_negatives :: u64
  op_confounded_cross_boundary :: u64
  op_hosted_selected :: u64
  op_non_scored :: u64
  op_unknown_boundary :: u64
  op_reclassified_local_successes :: u64

definition selected_boundary :: "configured_model list \<Rightarrow> str \<Rightarrow> boundary_class option" where
  "selected_boundary models name =
     map_option (\<lambda>m. if cm_tier m = Some LocalTier then LocalClass else HostedClass) (find_model name models)"

fun actual_boundary :: "execution_boundary \<Rightarrow> boundary_class" where
  "actual_boundary OnDevice = LocalClass"
| "actual_boundary LocalNetwork = LocalClass"
| "actual_boundary Hosted = HostedClass"

definition unsupported_report :: "str \<Rightarrow> routing_config \<Rightarrow> outcome_policy_report" where
  "unsupported_report workspace routing =
     \<lparr>op_workspace_id = workspace, op_disposition = lit ''unsupported-policy'', op_current_tiers = rc_tiers routing,
      op_proposed_tiers = [], op_current_threshold = None, op_proposed_threshold = None, op_labelled = 0,
      op_actionable_local = 0, op_local_successes = 0, op_local_negatives = 0, op_confounded_cross_boundary = 0,
      op_hosted_selected = 0, op_non_scored = 0, op_unknown_boundary = 0, op_reclassified_local_successes = 0\<rparr>"

definition supported_policy :: "routing_config \<Rightarrow> configured_model list \<Rightarrow> bool" where
  "supported_policy routing models \<longleftrightarrow>
     rc_classifier routing = None \<and>
     (case rc_tiers routing of
        [lower, upper] \<Rightarrow>
          feq (tr_min_score lower) (Fin 0) \<and> is_finite (tr_min_score upper) \<and>
          \<not> tr_min_score upper \<le> tr_min_score lower \<and>
          selected_boundary models (tr_model lower) = Some LocalClass \<and>
          selected_boundary models (tr_model upper) = Some HostedClass
      | _ \<Rightarrow> False)"

text \<open>One retained receipt of the workspace; the scores are pushed in order.\<close>

definition label_step ::
  "configured_model list \<Rightarrow> tier \<Rightarrow> recent_entry \<Rightarrow> outcome_policy_report \<times> f64 list \<times> f64 list \<Rightarrow>
   outcome_policy_report \<times> f64 list \<times> f64 list" where
  "label_step models lower e s =
     (case s of (r, negative_scores, successful_scores) \<Rightarrow>
        case re_user_outcome e of
          None \<Rightarrow> (r, negative_scores, successful_scores)
        | Some label \<Rightarrow>
            let r = r\<lparr>op_labelled := sat_add (op_labelled r) 1\<rparr> in
            if \<not> scored e then (r\<lparr>op_non_scored := sat_add (op_non_scored r) 1\<rparr>, negative_scores, successful_scores)
            else
              case (selected_boundary models (re_model e), map_option actual_boundary (re_execution_boundary e)) of
                (None, _) \<Rightarrow> (r\<lparr>op_unknown_boundary := sat_add (op_unknown_boundary r) 1\<rparr>, negative_scores, successful_scores)
              | (Some _, None) \<Rightarrow> (r\<lparr>op_unknown_boundary := sat_add (op_unknown_boundary r) 1\<rparr>, negative_scores, successful_scores)
              | (Some selected, Some actual) \<Rightarrow>
                  if selected \<noteq> actual
                  then (r\<lparr>op_confounded_cross_boundary := sat_add (op_confounded_cross_boundary r) 1\<rparr>, negative_scores, successful_scores)
                  else if re_model e \<noteq> tr_model lower
                  then (r\<lparr>op_hosted_selected := sat_add (op_hosted_selected r) 1\<rparr>, negative_scores, successful_scores)
                  else
                    let r = r\<lparr>op_actionable_local := sat_add (op_actionable_local r) 1\<rparr> in
                    (case label of
                       USuccess \<Rightarrow> (r\<lparr>op_local_successes := sat_add (op_local_successes r) 1\<rparr>,
                                     negative_scores, successful_scores @ [re_score e])
                     | _ \<Rightarrow> (r\<lparr>op_local_negatives := sat_add (op_local_negatives r) 1\<rparr>,
                             negative_scores @ [re_score e], successful_scores)))"

definition threshold_of :: "tier \<Rightarrow> tier \<Rightarrow> f64 list \<Rightarrow> f64" where
  "threshold_of lower upper negative_scores =
     f_clamp (fold (\<lambda>x acc. f_min acc x) (filter is_finite negative_scores) (tr_min_score upper))
       (tr_min_score lower) (tr_min_score upper)"

definition proposal ::
  "tier \<Rightarrow> tier \<Rightarrow> outcome_policy_report \<times> f64 list \<times> f64 list \<Rightarrow> outcome_policy_report" where
  "proposal lower upper s =
     (case s of (r, negative_scores, successful_scores) \<Rightarrow>
        if op_labelled r = 0 then r\<lparr>op_disposition := lit ''insufficient-evidence''\<rparr>
        else if op_actionable_local r = 0 then r\<lparr>op_disposition := lit ''no-actionable-local-evidence''\<rparr>
        else if negative_scores = [] then r\<lparr>op_disposition := lit ''retain''\<rparr>
        else
          let threshold = threshold_of lower upper negative_scores in
          if tr_min_score upper \<le> threshold then r\<lparr>op_disposition := lit ''retain''\<rparr>
          else
            let threshold = python_round threshold 6
            in r\<lparr>op_reclassified_local_successes :=
                   length (filter (\<lambda>x. threshold \<le> x \<and> x < tr_min_score upper) successful_scores),
                 op_disposition := lit ''propose-narrower-local-range'',
                 op_proposed_threshold := Some threshold,
                 op_proposed_tiers := [lower, upper\<lparr>tr_min_score := threshold\<rparr>]\<rparr>)"

definition propose_local_threshold ::
  "str \<Rightarrow> routing_config \<Rightarrow> configured_model list \<Rightarrow> recent_entry list \<Rightarrow> outcome_policy_report" where
  "propose_local_threshold workspace routing models entries =
     (if \<not> supported_policy routing models then unsupported_report workspace routing
      else
        let lower = rc_tiers routing ! 0;
            upper = rc_tiers routing ! 1;
            r = (unsupported_report workspace routing)\<lparr>op_current_threshold := Some (tr_min_score upper)\<rparr>
        in proposal lower upper
             (fold (label_step models lower) (filter (\<lambda>e. re_workspace e = Some workspace) entries) (r, [], [])))"

section \<open>Proposals narrow local routing to what was rejected\<close>

text \<open>A scored local answer of the lower tier that its user corrected or called a failure.\<close>

definition rejected_local :: "configured_model list \<Rightarrow> tier \<Rightarrow> recent_entry \<Rightarrow> bool" where
  "rejected_local models lower e \<longleftrightarrow>
     (re_user_outcome e = Some UCorrection \<or> re_user_outcome e = Some UFailure) \<and> scored e \<and>
     selected_boundary models (re_model e) \<noteq> None \<and>
     selected_boundary models (re_model e) = map_option actual_boundary (re_execution_boundary e) \<and>
     re_model e = tr_model lower"

lemma label_step_negatives:
  "fst (snd (label_step models lower e s)) =
     fst (snd s) @ (if rejected_local models lower e then [re_score e] else [])"
  by (cases s) (auto simp: label_step_def rejected_local_def Let_def split: option.splits user_outcome.splits)

lemma fold_label_negatives:
  "fst (snd (fold (label_step models lower) es s)) =
     fst (snd s) @ map re_score (filter (rejected_local models lower) es)"
  by (induction es arbitrary: s) (simp_all add: label_step_negatives)

lemma label_step_threshold: "op_proposed_threshold (fst (label_step models lower e s)) = op_proposed_threshold (fst s)"
  by (cases s) (auto simp: label_step_def Let_def split: option.splits user_outcome.splits)

lemma fold_label_threshold:
  "op_proposed_threshold (fst (fold (label_step models lower) es s)) = op_proposed_threshold (fst s)"
  by (induction es arbitrary: s) (simp_all add: label_step_threshold)

lemma f_min_facts:
  assumes "\<not> is_nan x" "\<not> is_nan y"
  shows "f_min x y \<le> x" "f_min x y \<le> y" "f_min x y = x \<or> f_min x y = y"
  using assms by (auto simp: f_min_def f64_le_refl f64_not_less intro: f64_less_imp_le)

lemma fold_f_min:
  assumes "\<not> is_nan acc" "\<forall>x\<in>set xs. \<not> is_nan x"
  shows "fold (\<lambda>x acc. f_min acc x) xs acc \<in> insert acc (set xs)"
    and "\<forall>x\<in>insert acc (set xs). fold (\<lambda>x acc. f_min acc x) xs acc \<le> x"
proof -
  have "fold (\<lambda>x acc. f_min acc x) xs acc \<in> insert acc (set xs) \<and>
      (\<forall>x\<in>insert acc (set xs). fold (\<lambda>x acc. f_min acc x) xs acc \<le> x)"
    using assms
  proof (induction xs arbitrary: acc)
    case (Cons y xs)
    have nn: "\<not> is_nan (f_min acc y)" using Cons.prems by (simp add: f_min_def)
    show ?case
      using Cons.IH [OF nn] Cons.prems f_min_facts [of acc y] by (auto intro: f64_le_trans)
  qed (simp add: f64_le_refl)
  then show "fold (\<lambda>x acc. f_min acc x) xs acc \<in> insert acc (set xs)"
    and "\<forall>x\<in>insert acc (set xs). fold (\<lambda>x acc. f_min acc x) xs acc \<le> x" by blast+
qed

text \<open>For scores that are not below the lower tier's cut, the threshold is the least of them or the current one.\<close>

lemma threshold_is_least:
  assumes "is_finite (tr_min_score upper)" "feq (tr_min_score lower) (Fin 0)" "\<not> tr_min_score upper \<le> tr_min_score lower"
    and xs: "\<forall>x\<in>set xs. is_finite x \<and> Fin 0 \<le> x"
  shows "threshold_of lower upper xs \<in> insert (tr_min_score upper) (set xs)"
    and "\<forall>x\<in>set xs. threshold_of lower upper xs \<le> x"
proof -
  let ?u = "tr_min_score upper" and ?l = "tr_min_score lower"
  let ?m = "fold (\<lambda>x acc. f_min acc x) xs ?u"
  have m: "?m \<in> insert ?u (set xs)" "\<forall>x\<in>insert ?u (set xs). ?m \<le> x"
    using assms by (intro fold_f_min; simp add: is_finite_not_nan)+
  have "?l \<le> x" if "x \<in> insert ?u (set xs)" for x
    using that assms by (auto simp: feq_def less_eq_f64_def is_finite_not_nan is_finite_rank)
  then have "\<not> ?m < ?l" "\<not> ?u < ?m"
    using m by (auto dest: f64_less_asym)
  then have "threshold_of lower upper xs = ?m"
    using xs by (simp add: threshold_of_def f_clamp_def filter_True)
  then show "threshold_of lower upper xs \<in> insert ?u (set xs)" "\<forall>x\<in>set xs. threshold_of lower upper xs \<le> x"
    using m by simp_all
qed

lemma recommend_two_tiers:
  "recommend_tier x [lower, upper] =
     Some (if tr_min_score lower \<le> x \<and> tr_min_score upper \<le> x then tr_model upper else tr_model lower)"
  by (simp add: recommend_tier_def)

text \<open>
  A proposed threshold is the least score of a rejected local receipt of the workspace, and lies below
  the current one.
\<close>

lemma proposal_threshold:
  assumes "op_proposed_threshold (propose_local_threshold workspace routing models entries) = Some t"
    and tiers: "rc_tiers routing = [lower, upper]"
    and scores: "\<forall>e\<in>set entries. Fin 0 \<le> re_score e \<and> re_score e \<le> Fin 1 \<and> python_round (re_score e) 6 = re_score e"
  shows "t < tr_min_score upper"
    and "op_proposed_tiers (propose_local_threshold workspace routing models entries) = [lower, upper\<lparr>tr_min_score := t\<rparr>]"
    and "e \<in> set entries \<Longrightarrow> re_workspace e = Some workspace \<Longrightarrow> rejected_local models lower e \<Longrightarrow> t \<le> re_score e"
    and "feq (tr_min_score lower) (Fin 0)" "tr_model lower \<noteq> tr_model upper"
proof -
  have supported: "supported_policy routing models"
    using assms(1) by (cases "supported_policy routing models")
      (auto simp: propose_local_threshold_def unsupported_report_def)
  define es where "es = filter (\<lambda>e. re_workspace e = Some workspace) entries"
  define r0 where "r0 = (unsupported_report workspace routing)\<lparr>op_current_threshold := Some (tr_min_score upper)\<rparr>"
  define xs where "xs = map re_score (filter (rejected_local models lower) es)"
  obtain r ns ss where run: "fold (label_step models lower) es (r0, [], []) = (r, ns, ss)"
    by (cases "fold (label_step models lower) es (r0, [], [])") auto
  have ns: "ns = xs" using fold_label_negatives [of models lower es "(r0, [], [])"] by (simp add: run xs_def)
  have r0: "op_proposed_threshold r0 = None" by (simp add: r0_def unsupported_report_def)
  have none: "op_proposed_threshold r = None"
    using fold_label_threshold [of models lower es "(r0, [], [])"] r0 by (simp add: run)
  let ?t = "threshold_of lower upper xs"
  have eq: "propose_local_threshold workspace routing models entries = proposal lower upper (r, xs, ss)"
    using supported tiers by (simp add: propose_local_threshold_def es_def [symmetric] r0_def [symmetric] run ns)
  then have t: "t = python_round ?t 6" "\<not> tr_min_score upper \<le> ?t"
    "op_proposed_tiers (proposal lower upper (r, xs, ss)) = [lower, upper\<lparr>tr_min_score := t\<rparr>]"
    using assms(1) none by (auto simp: proposal_def Let_def split: if_splits)
  have policy: "feq (tr_min_score lower) (Fin 0)" "is_finite (tr_min_score upper)"
    "\<not> tr_min_score upper \<le> tr_min_score lower" "tr_model lower \<noteq> tr_model upper"
    using supported tiers by (auto simp: supported_policy_def)
  have fin: "is_finite x" if "Fin 0 \<le> x" "x \<le> Fin 1" for x
    using that by (cases x) (auto simp: less_eq_f64_def)
  have xs: "\<forall>x\<in>set xs. is_finite x \<and> Fin 0 \<le> x \<and> python_round x 6 = x"
    using scores fin by (auto simp: xs_def es_def)
  then have least: "?t \<in> insert (tr_min_score upper) (set xs)" "\<forall>x\<in>set xs. ?t \<le> x"
    using threshold_is_least [OF policy(2,1,3), of xs] by auto
  have in_xs: "?t \<in> set xs"
    using least(1) t(2) policy(2) by (auto simp: f64_le_refl is_finite_not_nan)
  then have tt: "t = ?t" using xs t(1) by auto
  have less: "t < tr_min_score upper"
    using t(2) policy(2) xs in_xs tt f64_not_less [of t "tr_min_score upper"] by (auto simp: is_finite_not_nan)
  show "op_proposed_tiers (propose_local_threshold workspace routing models entries) = [lower, upper\<lparr>tr_min_score := t\<rparr>]"
    using t(3) eq by simp
  show "t \<le> re_score e" if "e \<in> set entries" "re_workspace e = Some workspace" "rejected_local models lower e"
    using least(2) tt that by (auto simp: xs_def es_def)
  show "t < tr_min_score upper" "feq (tr_min_score lower) (Fin 0)" "tr_model lower \<noteq> tr_model upper"
    by (fact less policy(1,4))+
qed

text \<open>
  A threshold proposal is sound for scores the scorer can produce (in the unit interval and
  unchanged by rounding to six decimals): the proposed cut is below the current one, the tiers are
  otherwise unchanged, every local answer of the workspace that its user corrected or called a failure
  would have been routed to the hosted tier, and no score routed to the hosted tier today is routed
  locally by the proposal.
\<close>

theorem proposal_escalates_rejected:
  assumes "op_proposed_threshold (propose_local_threshold workspace routing models entries) = Some t"
    and tiers: "rc_tiers routing = [lower, upper]"
    and scores: "\<forall>e\<in>set entries. Fin 0 \<le> re_score e \<and> re_score e \<le> Fin 1 \<and> python_round (re_score e) 6 = re_score e"
  shows "t < tr_min_score upper \<and>
    op_proposed_tiers (propose_local_threshold workspace routing models entries) = [lower, upper\<lparr>tr_min_score := t\<rparr>] \<and>
    (\<forall>e\<in>set entries. re_workspace e = Some workspace \<and> rejected_local models lower e \<longrightarrow>
       recommend_tier (re_score e) [lower, upper\<lparr>tr_min_score := t\<rparr>] = Some (tr_model upper)) \<and>
    (\<forall>x. recommend_tier x [lower, upper] = Some (tr_model upper) \<longrightarrow>
       recommend_tier x [lower, upper\<lparr>tr_min_score := t\<rparr>] = Some (tr_model upper))"
proof -
  note p = proposal_threshold [OF assms]
  have low: "tr_min_score lower \<le> x" if "Fin 0 \<le> x" for x
    using that p(4) by (auto simp: feq_def less_eq_f64_def)
  have "recommend_tier (re_score e) [lower, upper\<lparr>tr_min_score := t\<rparr>] = Some (tr_model upper)"
    if "e \<in> set entries" "re_workspace e = Some workspace" "rejected_local models lower e" for e
    using p(3) [OF that] low scores that by (auto simp: recommend_two_tiers)
  moreover have "t \<le> x" if "tr_min_score upper \<le> x" for x
    using f64_less_imp_le [OF p(1)] that by (rule f64_le_trans)
  ultimately show ?thesis
    using p(1,2,5) by (auto simp: recommend_two_tiers split: if_splits)
qed

section \<open>A worked proposal\<close>

lemma scaled20_half: "scaled20 (1 / 2) = 50000000000000000000"
  using rne_of_int [of 50000000000000000000] by (simp add: scaled20_def)

lemma python_round_half: "python_round (Fin (1 / 2)) 6 = Fin (1 / 2)"
proof -
  have "rne (500000 :: rat) = 500000" using rne_of_int [of 500000] by simp
  then show ?thesis
  using python_round_digits [of "Fin (1 / 2)" 6] 
  by (simp add: scaled20_half u64_max_def f64_of_nat_exact f64_simps rnd_f64_half)
qed

definition sample_tiers :: routing_config where
  "sample_tiers = routing_config_default\<lparr>rc_tiers := [tier_new (Fin 0) (lit ''l''), tier_new (Fin 1) (lit ''h'')]\<rparr>"

definition sample_models :: "configured_model list" where
  "sample_models =
     [(model_new (lit ''l'') [] [] None True)\<lparr>cm_tier := Some LocalTier\<rparr>, model_new (lit ''h'') [] [] None True]"

definition sample_receipt :: recent_entry where
  "sample_receipt =
     \<lparr>re_request_id = [], re_model = lit ''l'', re_score = Fin (1 / 2), re_mode = lit ''scored'', re_policy_version = None,
      re_snapshot_id = None, re_policy_profile = None, re_served_by = Some (lit ''l''),
      re_execution_boundary = Some OnDevice, re_outcome = Some RSucceeded, re_user_outcome = Some UCorrection,
      re_http_status = Some 200, re_error_type = None, re_ts = Fin 0, re_cost = None, re_key = None,
      re_workspace = Some (lit ''w''), re_cache = None\<rparr>"

lemma sample_proposal:
  "op_proposed_threshold (propose_local_threshold (lit ''w'') sample_tiers sample_models [sample_receipt]) = Some (Fin (1 / 2))"
proof -
  have "supported_policy sample_tiers sample_models"
    by (simp add: supported_policy_def sample_tiers_def sample_models_def routing_config_default_def tier_new_def
      selected_boundary_def find_model_def model_new_def feq_def)
  moreover have "fold (label_step sample_models (tier_new (Fin 0) (lit ''l''))) [sample_receipt] (r, [], []) =
     (r\<lparr>op_labelled := sat_add (op_labelled r) 1, op_actionable_local := sat_add (op_actionable_local r) 1,
        op_local_negatives := sat_add (op_local_negatives r) 1\<rparr>, [Fin (1 / 2)], [])" for r
    by (simp add: label_step_def sample_receipt_def sample_models_def selected_boundary_def find_model_def model_new_def
       scored_def tier_new_def)
  moreover have "threshold_of (tier_new (Fin 0) (lit ''l'')) (tier_new (Fin 1) (lit ''h'')) [Fin (1 / 2)] = Fin (1 / 2)"
    by (simp add: threshold_of_def tier_new_def f_min_def f_clamp_def)
  ultimately show ?thesis
    by (simp add: propose_local_threshold_def proposal_def  sample_tiers_def sample_receipt_def unsupported_report_def python_round_half
        sat_add_def tier_new_def Let_def)
qed

theorem proposal_escalates_rejected_witness:
  "op_proposed_threshold (propose_local_threshold (lit ''w'') sample_tiers sample_models [sample_receipt]) =
     Some (Fin (1 / 2)) \<and>
   (\<exists>lower upper. rc_tiers sample_tiers = [lower, upper] \<and>
      recommend_tier (re_score sample_receipt) [lower, upper] = Some (tr_model lower) \<and>
      recommend_tier (re_score sample_receipt) [lower, upper\<lparr>tr_min_score := Fin (1 / 2)\<rparr>] = Some (tr_model upper))"
proof -
  let ?l = "tier_new (Fin 0) (lit ''l'')" and ?u = "tier_new (Fin 1) (lit ''h'')"
  have tiers: "rc_tiers sample_tiers = [?l, ?u]" by (simp add: sample_tiers_def)
  have scores: "\<forall>e\<in>set [sample_receipt]. Fin 0 \<le> re_score e \<and> re_score e \<le> Fin 1 \<and> python_round (re_score e) 6 = re_score e"
    by (simp add: sample_receipt_def python_round_half)
  have "rejected_local sample_models ?l sample_receipt" "re_workspace sample_receipt = Some (lit ''w'')"
    by (simp_all add: rejected_local_def sample_receipt_def sample_models_def selected_boundary_def find_model_def
        model_new_def scored_def tier_new_def)
  then have "recommend_tier (re_score sample_receipt) [?l, ?u\<lparr>tr_min_score := Fin (1 / 2)\<rparr>] = Some (tr_model ?u)"
    using proposal_escalates_rejected [OF sample_proposal tiers scores] by auto
  moreover have "recommend_tier (re_score sample_receipt) [?l, ?u] = Some (tr_model ?l)"
    by (simp add: recommend_two_tiers sample_receipt_def tier_new_def)
  ultimately show ?thesis using sample_proposal tiers by blast
qed

end
