(* ===== verification/Score_Bounds.thy ===== *)
theory Score_Bounds
  imports Scoring
begin

text \<open>
  Error analysis of the scalar score. The total weight and the accumulated score add the same eleven
  terms in different orders, so in binary64 their quotient can exceed one; the theory bounds the
  relative error of both sums and concludes that the published score, rounded to two decimals, never
  leaves the unit interval.
\<close>

section \<open>Relative error of one addition\<close>

definition uro :: rat where
  "uro = 1 / 2 ^ 53"

lemma uro_bounds: "0 < uro" "uro < 1"
  by (simp_all add: uro_def)

lemma rnd_mag_rel_normal:
  assumes "0 < z" and "- 1022 \<le> flog2 z"
  shows "\<bar>rnd_mag z - z\<bar> \<le> z * uro"
proof -
  let ?U = "(2::rat) powi ulp_exp z"
  have e: "ulp_exp z = flog2 z - 52" using assms(2) by (simp add: ulp_exp_def)
  have U: "0 < ?U" by simp
  have "\<bar>of_int (rne (z / ?U)) - z / ?U\<bar> \<le> 1 / 2" by (rule rne_nearest)
  then have "\<bar>of_int (rne (z / ?U)) - z / ?U\<bar> * ?U \<le> 1 / 2 * ?U"
    using U by (intro mult_right_mono) auto
  moreover have "\<bar>of_int (rne (z / ?U)) - z / ?U\<bar> * ?U = \<bar>rnd_mag z - z\<bar>"
  proof -
    have "\<bar>of_int (rne (z / ?U)) - z / ?U\<bar> * ?U = \<bar>(of_int (rne (z / ?U)) - z / ?U) * ?U\<bar>"
      by (simp add: abs_mult)
    then show ?thesis by (simp add: rnd_mag_def left_diff_distrib)
  qed
  moreover have "1 / 2 * ?U \<le> z * uro"
  proof -
    have "?U = 2 powi flog2 z * (1 / 2 ^ 52)"
      unfolding e by (simp add: power_int_diff)
    also have "\<dots> \<le> z * (1 / 2 ^ 52)"
      using flog2_bounds(1) [OF assms(1)] by (intro mult_right_mono) auto
    finally show ?thesis by (simp add: uro_def)
  qed
  ultimately show ?thesis by simp
qed

definition grid :: "rat \<Rightarrow> bool" where
  "grid z \<longleftrightarrow> (\<exists>n::int. z = of_int n * 2 powi (- 1074))"

lemma grid_add: "grid x \<Longrightarrow> grid y \<Longrightarrow> grid (x + y)"
  unfolding grid_def by (metis distrib_right of_int_add)

lemma grid_representable:
  assumes "representable x" and "0 \<le> x"
  shows "grid x"
proof (cases "x = 0")
  case True
  then show ?thesis by (auto simp: grid_def intro: exI [of _ 0])
next
  case False
  with assms have "rnd_mag x = x" by (simp add: representable_def)
  then have x: "x = of_int (rne (x / 2 powi ulp_exp x)) * 2 powi ulp_exp x"
    by (simp add: rnd_mag_def)
  have "0 \<le> ulp_exp x + 1074" by (simp add: ulp_exp_def)
  then have "of_int (2 ^ nat (ulp_exp x + 1074)) * (2::rat) powi (- 1074) =
      2 powi (ulp_exp x + 1074 + - 1074)"
    by (simp only: powi2_int [symmetric] powi2_mult)
  also have "ulp_exp x + 1074 + - 1074 = ulp_exp x" by simp
  finally have "x = of_int (rne (x / 2 powi ulp_exp x)) *
      (of_int (2 ^ nat (ulp_exp x + 1074)) * 2 powi (- 1074))"
    using x by (simp only:)
  then have "x = of_int (rne (x / 2 powi ulp_exp x) * 2 ^ nat (ulp_exp x + 1074)) * 2 powi (- 1074)"
    by (simp only: of_int_mult mult.assoc)
  then show ?thesis unfolding grid_def by (rule exI)
qed

lemma rnd_mag_rel_grid:
  assumes "0 < z" and "grid z"
  shows "\<bar>rnd_mag z - z\<bar> \<le> z * uro"
proof (cases "- 1022 \<le> flog2 z")
  case True
  then show ?thesis using assms(1) by (intro rnd_mag_rel_normal)
next
  case False
  then have "ulp_exp z = - 1074" by (simp add: ulp_exp_def)
  then have "rnd_mag z = z"
    using assms(2) by (auto simp: grid_def intro: rnd_mag_exact)
  then show ?thesis using assms(1) uro_bounds by simp
qed

section \<open>Sums\<close>

text \<open>A finite, representable and non-negative summand.\<close>

definition amount :: "f64 \<Rightarrow> bool" where
  "amount x \<longleftrightarrow> is_finite x \<and> wf_f64 x \<and> 0 \<le> val x"

lemma amount_zero [simp]: "amount (Fin 0)"
  by (simp add: amount_def representable_def)

lemma amount_grid: "amount x \<Longrightarrow> grid (val x)"
  by (cases x) (auto simp: amount_def intro: grid_representable grid_representable [of 0] simp: representable_def)

lemma amount_plus_bounds:
  assumes "amount x" "amount y" "is_finite (x + y)"
  shows "amount (x + y)"
    and "(val x + val y) * (1 - uro) \<le> val (x + y)"
    and "val (x + y) \<le> (val x + val y) * (1 + uro)"
proof -
  let ?z = "val x + val y"
  have fin: "is_finite x" "is_finite y" and nonneg: "0 \<le> val x" "0 \<le> val y"
    using assms by (auto simp: amount_def)
  have sum: "x + y = rnd_f64 (x = NZero \<and> y = NZero) ?z" using fin by (simp add: plus_finite)
  have wf: "wf_f64 (x + y)" unfolding sum by (rule wf_rnd_f64)
  have "amount (x + y) \<and> ?z * (1 - uro) \<le> val (x + y) \<and> val (x + y) \<le> ?z * (1 + uro)"
  proof (cases "?z = 0")
    case True
    then show ?thesis using wf by (simp add: sum rnd_f64_zero amount_def)
  next
    case False
    then have z: "0 < ?z" using nonneg by simp
    have "grid ?z" using assms(1,2) by (intro grid_add amount_grid)
    then have err: "\<bar>rnd_mag ?z - ?z\<bar> \<le> ?z * uro" using z by (intro rnd_mag_rel_grid)
    have m: "0 \<le> rnd_mag ?z" using z by (intro rnd_mag_nonneg) simp
    have v: "val (x + y) = rnd_mag ?z"
      using assms(3) z by (auto simp: sum rnd_f64_pos split: if_splits)
    show ?thesis
      using err m wf assms(3) unfolding amount_def v
      by (simp add: distrib_left right_diff_distrib abs_le_iff)
  qed
  then show "amount (x + y)" "?z * (1 - uro) \<le> val (x + y)" "val (x + y) \<le> ?z * (1 + uro)"
    by auto
qed

lemma f_sum_infinite: "\<not> is_finite acc \<Longrightarrow> \<not> is_finite (f_sum acc xs)"
proof (induction xs arbitrary: acc)
  case (Cons x xs)
  then have "\<not> is_finite (acc + x)" by (cases acc; cases x) (auto simp: plus_f64_def)
  with Cons.IH show ?case by simp
qed simp

lemma f_sum_bounds:
  assumes "amount acc" and "\<forall>x\<in>set xs. amount x" and "is_finite (f_sum acc xs)"
  shows "amount (f_sum acc xs) \<and>
    (val acc + sum_list (map val xs)) * (1 - uro) ^ length xs \<le> val (f_sum acc xs) \<and>
    val (f_sum acc xs) \<le> (val acc + sum_list (map val xs)) * (1 + uro) ^ length xs"
  using assms
proof (induction xs arbitrary: acc)
  case (Cons x xs)
  let ?t = "sum_list (map val xs)" and ?n = "length xs"
  have fin: "is_finite (acc + x)" using Cons.prems(3) f_sum_infinite by fastforce
  note step = amount_plus_bounds [OF Cons.prems(1) _ fin]
  have ax: "amount x" using Cons.prems(2) by simp
  have t: "0 \<le> ?t" using Cons.prems(2) by (auto simp: amount_def intro!: sum_list_nonneg)
  have IH: "amount (f_sum (acc + x) xs)"
    "(val (acc + x) + ?t) * (1 - uro) ^ ?n \<le> val (f_sum (acc + x) xs)"
    "val (f_sum (acc + x) xs) \<le> (val (acc + x) + ?t) * (1 + uro) ^ ?n"
    using Cons.IH [OF step(1) [OF ax]] Cons.prems(2,3) by auto
  have lo: "(val acc + val x + ?t) * (1 - uro) \<le> val (acc + x) + ?t"
    using step(2) [OF ax] mult_nonneg_nonneg [OF t less_imp_le [OF uro_bounds(1)]]
    by (simp add: algebra_simps)
  have hi: "val (acc + x) + ?t \<le> (val acc + val x + ?t) * (1 + uro)"
    using step(3) [OF ax] mult_nonneg_nonneg [OF t less_imp_le [OF uro_bounds(1)]]
    by (simp add: algebra_simps)
  have pw: "0 \<le> (1 - uro) ^ ?n" "0 \<le> (1 + uro) ^ ?n" using uro_bounds by simp_all
  have "(val acc + val x + ?t) * (1 - uro) ^ Suc ?n \<le> val (f_sum (acc + x) xs)"
    using mult_right_mono [OF lo pw(1)] IH(2) unfolding power_Suc mult.assoc [symmetric] by (rule order.trans)
  moreover have "val (f_sum (acc + x) xs) \<le> (val acc + val x + ?t) * (1 + uro) ^ Suc ?n"
    using IH(3) mult_right_mono [OF hi pw(2)] unfolding power_Suc mult.assoc [symmetric] by (rule order.trans)
  ultimately show ?case using IH(1) by (simp add: add.assoc)
qed simp

lemma f_sum_finite:
  assumes "amount acc" "\<forall>x\<in>set xs. amount x \<and> val x \<le> 2 powi 1000"
    and "val acc \<le> 2 powi (1000 + int k)" and "k + length xs \<le> 23"
  shows "is_finite (f_sum acc xs)"
  using assms
proof (induction xs arbitrary: acc k)
  case Nil
  then show ?case by (simp add: amount_def)
next
  case (Cons x xs)
  let ?z = "val acc + val x" and ?B = "(2::rat) powi (1000 + int (Suc k))"
  have x: "amount x" "val x \<le> 2 powi 1000" using Cons.prems(2) by auto
  have "(2::rat) powi 1000 \<le> 2 powi (1000 + int k)" by (simp only: powi2_le_iff)
  then have z: "?z \<le> ?B"
    using x(2) Cons.prems(3) powi2_mult [of 1 "1000 + int k"] by (simp add: algebra_simps)
  have B: "rnd_mag ?B = ?B" by (intro rnd_mag_powi) simp
  have "?B \<le> 2 powi 1023" using Cons.prems(4) by (simp only: powi2_le_iff) simp
  also have "\<dots> < (2::rat) powi 1024" by (simp only: powi2_less_iff)
  finally have Blt: "?B < 2 ^ 1024" by (simp only: power_int_numeral)
  have sum: "acc + x = rnd_f64 (acc = NZero \<and> x = NZero) ?z"
    using Cons.prems(1) x by (simp add: plus_finite amount_def)
  have "is_finite (acc + x) \<and> val (acc + x) \<le> ?B"
  proof (cases "?z = 0")
    case True
    then show ?thesis by (simp add: sum rnd_f64_zero)
  next
    case False
    then have pos: "0 < ?z" using Cons.prems(1) x by (simp add: amount_def)
    then have "rnd_mag ?z \<le> ?B" using rnd_mag_mono [OF pos z] B by simp
    then show ?thesis using Blt pos by (auto simp: sum rnd_f64_pos)
  qed
  moreover have "amount (acc + x)"
    using calculation amount_plus_bounds(1) [OF Cons.prems(1) x(1)] by blast
  ultimately show ?case
    using Cons.IH [of "acc + x" "Suc k"] Cons.prems(2,4) by simp
qed

section \<open>The score\<close>

text \<open>What the configuration loader accepts as a weight, bounded away from the overflow threshold.\<close>

definition valid_weights :: "weights \<Rightarrow> bool" where
  "valid_weights w \<longleftrightarrow> length w = 11 \<and> (\<forall>x\<in>set w. amount x \<and> val x \<le> 2 powi 1000)"

lemma weights_at_amount: "valid_weights w \<Longrightarrow> amount (weights_at w i) \<and> val (weights_at w i) \<le> 2 powi 1000"
  by (auto simp: valid_weights_def weights_at_def)

lemma fold_plus_f_sum: "fold (\<lambda>i acc. acc + g i) is acc = f_sum acc (map g is)"
  by (induction "is" arbitrary: acc) auto

lemma total_weight_f_sum: "total_weight w = f_sum (Fin 0) (map (weights_at w) WEIGHT_SUM_ORDER)"
  by (simp add: total_weight_def fold_plus_f_sum)

lemma accumulated_f_sum:
  "accumulated_score f w = f_sum (Fin 0) (map (\<lambda>i. weights_at w i * normalized_features f ! i) [0..<11])"
  by (simp add: accumulated_score_def fold_plus_f_sum)

lemma normalized_range:
  assumes "i < 11" and "features_bounded f"
  shows "is_finite (normalized_features f ! i)" "0 \<le> val (normalized_features f ! i)"
    "val (normalized_features f ! i) \<le> 1"
proof -
  let ?x = "f64_of_nat (features_list f ! i) div (SATURATION ! i)"
  have n: "normalized_features f ! i = f_min ?x (Fin 1)"
    using assms(1) by (simp add: normalized_features_def)
  have "\<forall>s\<in>set SATURATION. is_finite s \<and> 0 < val s" by (simp add: SATURATION_def)
  moreover have "i < length SATURATION" using assms(1) by (simp add: SATURATION_def)
  ultimately have s: "is_finite (SATURATION ! i)" "0 < val (SATURATION ! i)" by simp_all
  have "features_list f ! i \<in> set (features_list f)"
    using assms(1) by (intro nth_mem) (simp add: features_list_def)
  then have "features_list f ! i \<le> 2 ^ 64"
    using assms(2) by (auto simp: features_bounded_def u64_max_def)
  then have fin: "is_finite (f64_of_nat (features_list f ! i))" by (rule f64_of_nat_finite)
  have "0 \<le> val (f64_of_nat (features_list f ! i))"
    using f64_of_nat_nonneg [of "features_list f ! i"] fin by (simp add: f64_le_finite)
  then have "Fin 0 \<le> ?x" "\<not> is_nan ?x"
    using fin s by (simp_all add: divide_finite rnd_f64_nonneg)
  then show "is_finite (normalized_features f ! i)" "0 \<le> val (normalized_features f ! i)"
    "val (normalized_features f ! i) \<le> 1"
    unfolding n f_min_def
    by (cases ?x; simp add: less_eq_f64_def less_f64_def split: if_splits)+
qed

lemma product_bounds:
  assumes "valid_weights w" "i < 11" "features_bounded f"
  shows "amount (weights_at w i * normalized_features f ! i)"
    and "val (weights_at w i * normalized_features f ! i) \<le> val (weights_at w i)"
proof -
  let ?w = "weights_at w i" and ?n = "normalized_features f ! i"
  have w: "amount ?w" using weights_at_amount [OF assms(1)] by simp
  have n: "is_finite ?n" "0 \<le> val ?n" "val ?n \<le> 1" using normalized_range [OF assms(2,3)] by auto
  have p: "?w * ?n = rnd_f64 (is_sign_negative ?w \<noteq> is_sign_negative ?n) (val ?w * val ?n)"
    using w n by (simp add: times_finite amount_def)
  have nonneg: "0 \<le> val ?w * val ?n" using w n by (simp add: amount_def)
  have "val ?w * val ?n \<le> val ?w" using w n mult_left_le [of "val ?n" "val ?w"] by (simp add: amount_def)
  then have "?w * ?n \<le> rnd_f64 False (val ?w)" unfolding p by (rule rnd_f64_mono)
  moreover have "rnd_f64 False (val ?w) = Fin (val ?w)"
    using w rnd_f64_representable [of "val ?w" False]
    by (cases ?w; cases "val ?w = 0") (simp_all add: amount_def rnd_f64_zero f64_zero_def)
  ultimately have le: "?w * ?n \<le> Fin (val ?w)" by simp
  moreover have ge: "Fin 0 \<le> ?w * ?n" unfolding p using nonneg by (rule rnd_f64_nonneg)
  ultimately have fin: "is_finite (?w * ?n)"
    by (cases "?w * ?n") (auto simp: less_eq_f64_def)
  moreover have "wf_f64 (?w * ?n)" unfolding p by simp
  ultimately show "amount (?w * ?n)" "val (?w * ?n) \<le> val ?w"
    using le ge by (simp_all add: amount_def f64_le_finite)
qed

lemma ratio_bound: "(1 + uro) ^ 11 \<le> (1 + 1 / 256) * (1 - uro) ^ 11"
  by (simp add: uro_def power_divide field_simps)

lemma rnd_f64_257_256: "rnd_f64 s (1 + 1 / 256) = Fin (1 + 1 / 256)"
proof -
  have "flog2 (257 / 256) = 0" by (rule flog2_unique) simp_all
  then have "rnd_mag (257 / 256) = 257 / 256"
    by (intro rnd_mag_exact [of _ "257 * 2 ^ 44"]) (simp add: ulp_exp_def)
  then have "representable (257 / 256)" by (simp add: representable_def)
  then have "rnd_f64 s (257 / 256) = Fin (257 / 256)" by (rule rnd_f64_representable) simp
  then show ?thesis by simp
qed

text \<open>The two sums of a score: both are finite amounts, and the weighted one hardly exceeds the other.\<close>

lemma score_sums:
  assumes "valid_weights w" and "features_bounded f"
  shows "is_finite (total_weight w)" "is_finite (accumulated_score f w)"
    "amount (total_weight w)" "amount (accumulated_score f w)"
    "val (accumulated_score f w) \<le> (1 + 1 / 256) * val (total_weight w)"
proof -
  let ?ws = "map (weights_at w) WEIGHT_SUM_ORDER"
  let ?ps = "map (\<lambda>i. weights_at w i * normalized_features f ! i) [0..<11]"
  let ?S = "sum_list (map val ?ws)"
  have ws: "\<forall>x\<in>set ?ws. amount x \<and> val x \<le> 2 powi 1000"
    using weights_at_amount [OF assms(1)] by auto
  have ps: "\<forall>x\<in>set ?ps. amount x \<and> val x \<le> 2 powi 1000"
  proof -
    have "amount (weights_at w i * normalized_features f ! i) \<and>
        val (weights_at w i * normalized_features f ! i) \<le> 2 powi 1000" if "i < 11" for i
      using product_bounds [OF assms(1) that assms(2)] weights_at_amount [OF assms(1), of i]
      by (blast intro: order.trans)
    then show ?thesis by auto
  qed
  have len: "length ?ws = 11" "length ?ps = 11" by (simp_all add: WEIGHT_SUM_ORDER_def)
  have finT: "is_finite (total_weight w)" and finA: "is_finite (accumulated_score f w)"
    unfolding total_weight_f_sum accumulated_f_sum
    using ws ps len by (auto intro!: f_sum_finite [where k = 0])
  have T: "amount (total_weight w)" "?S * (1 - uro) ^ 11 \<le> val (total_weight w)"
    using f_sum_bounds [of "Fin 0" ?ws] ws finT len unfolding total_weight_f_sum by auto
  have perm: "?S = sum_list (map (\<lambda>i. val (weights_at w i)) [0..<11])"
    by (simp add: WEIGHT_SUM_ORDER_def upt_0_11)
  have "sum_list (map val ?ps) \<le> sum_list (map (\<lambda>i. val (weights_at w i)) [0..<11])"
    unfolding map_map comp_def
    by (rule sum_list_mono) (use product_bounds(2) [OF assms(1) _ assms(2)] in auto)
  then have "sum_list (map val ?ps) \<le> ?S" using perm by simp
  then have "sum_list (map val ?ps) * (1 + uro) ^ 11 \<le> ?S * (1 + uro) ^ 11"
    using uro_bounds by (intro mult_right_mono) auto
  moreover have A: "amount (accumulated_score f w)"
    "val (accumulated_score f w) \<le> sum_list (map val ?ps) * (1 + uro) ^ 11"
    using f_sum_bounds [of "Fin 0" ?ps] ps finA len unfolding accumulated_f_sum by auto
  ultimately have up: "val (accumulated_score f w) \<le> ?S * (1 + uro) ^ 11" by linarith
  have S: "0 \<le> ?S" using ws by (auto simp: amount_def intro!: sum_list_nonneg)
  have "?S * (1 + uro) ^ 11 \<le> (1 + 1 / 256) * (?S * (1 - uro) ^ 11)"
    using mult_left_mono [OF ratio_bound S] by (simp add: mult.left_commute)
  also have "\<dots> \<le> (1 + 1 / 256) * val (total_weight w)" using T(2) by (intro mult_left_mono) auto
  finally have le: "val (accumulated_score f w) \<le> (1 + 1 / 256) * val (total_weight w)"
    using up by linarith
  show "is_finite (total_weight w)" "is_finite (accumulated_score f w)"
    "amount (total_weight w)" "amount (accumulated_score f w)"
    "val (accumulated_score f w) \<le> (1 + 1 / 256) * val (total_weight w)"
    by (fact finT finA T(1) A(1) le)+
qed

text \<open>
  C2. For every bounded feature vector and every weight vector the loader can produce (finite,
  non-negative, below the overflow range), the published score is a number in the closed unit
  interval, although the two sums it divides are accumulated in different orders.
\<close>

theorem scalar_score_unit_interval:
  assumes "valid_weights w" and "features_bounded f"
  shows "Fin 0 \<le> scalar_score f w \<and> scalar_score f w \<le> Fin 1"
proof (cases "feq (total_weight w) (Fin 0)")
  case True
  then show ?thesis by (simp add: scalar_score_def)
next
  case False
  note sums = score_sums [OF assms]
  have pos: "0 < val (total_weight w)"
    using False sums(3) by (cases "total_weight w") (auto simp: feq_def amount_def)
  let ?q = "accumulated_score f w div total_weight w"
  have q: "?q = rnd_f64 (is_sign_negative (accumulated_score f w) \<noteq> is_sign_negative (total_weight w))
      (val (accumulated_score f w) / val (total_weight w))"
    using sums(1,2) pos by (simp add: divide_finite)
  have "val (accumulated_score f w) / val (total_weight w) \<le> 1 + 1 / 256"
    using sums(5) pos by (simp add: pos_divide_le_eq)
  then have hi: "?q \<le> Fin (1 + 1 / 256)"
    unfolding q rnd_f64_257_256 [of False, symmetric] by (rule rnd_f64_mono)
  have lo: "Fin 0 \<le> ?q" unfolding q using sums(4) pos by (intro rnd_f64_nonneg) (simp add: amount_def)
  have "is_finite ?q" using lo hi by (cases ?q) (auto simp: less_eq_f64_def)
  with lo hi have "0 \<le> val ?q" "val ?q \<le> 1 + 1 / 256" by (simp_all add: f64_le_finite)
  then show ?thesis
    using False python_round_range [OF \<open>is_finite ?q\<close>] by (simp add: scalar_score_def)
qed

theorem scalar_score_unit_interval_witness:
  "Fin 0 \<le> scalar_score features_zero weights_default \<and>
   scalar_score features_zero weights_default \<le> Fin 1"
proof (rule scalar_score_unit_interval)
  have "(3::rat) \<le> 2 powi 1000" by simp
  moreover have "representable (3 / 2)"
    using rnd_mag_exact [of "3 / 2" "3 * 2 ^ 51"] flog2_unique [of 0 "3 / 2"]
    by (simp add: representable_def ulp_exp_def)
  ultimately show "valid_weights weights_default"
    using representable_int [of 1] representable_int [of 2] representable_int [of 3]
      representable_int [of 0]
    by (simp add: valid_weights_def weights_default_def amount_def)
  show "features_bounded features_zero"
    by (simp add: features_bounded_simps features_zero_def)
qed

end
