(* ===== verification/Decision_Policy.thy ===== *)
theory Decision_Policy
  imports Score_Bounds Json
begin

text \<open>
  The per-request routing policy of \<open>wayfinder-gateway/src/decision_policy.rs\<close>: the text a request is
  scored on, pins and slash directives, header overrides, body-scoped tuning and the sticky
  conversation tier. The messages of errors are reduced to the place they name. The standard library's
  Unicode lower-casing is the argument \<open>lower\<close>; the compiled patterns of the scorer are those of
  \<open>Text_Features\<close>.
\<close>

section \<open>Numbers in headers\<close>

text \<open>\<open>str::parse\<close> of \<open>u64\<close>: an optional plus sign and at least one digit, without overflow.\<close>

definition parse_u64 :: "str \<Rightarrow> u64 option" where
  "parse_u64 s =
     (let digits = (case s of c # cs \<Rightarrow> if c = 43 then cs else s | [] \<Rightarrow> [])
      in if digits = [] then None else parse_digits_from 0 digits)"

definition digits_value :: "str \<Rightarrow> nat" where
  "digits_value s = fold (\<lambda>c acc. acc * 10 + (c - 48)) s 0"

definition split_sign :: "str \<Rightarrow> bool \<times> str" where
  "split_sign s = (case s of c # cs \<Rightarrow> if c = 45 then (True, cs) else if c = 43 then (False, cs) else (False, s) | [] \<Rightarrow> (False, []))"

text \<open>The exponent part: nothing, or \<open>e\<close> with an optional sign and at least one digit.\<close>

definition parse_exponent :: "str \<Rightarrow> int option" where
  "parse_exponent s =
     (case s of
        [] \<Rightarrow> Some 0
      | c # cs \<Rightarrow>
          if c \<noteq> 101 \<and> c \<noteq> 69 then None
          else (case split_sign cs of (negative, digits) \<Rightarrow>
                  if digits = [] \<or> list_ex (\<lambda>d. \<not> is_ascii_digit d) digits then None
                  else Some (if negative then - int (digits_value digits) else int (digits_value digits))))"

text \<open>\<open>str::parse\<close> of \<open>f64\<close>: the decimal number, correctly rounded, or a special value.\<close>

definition parse_f64 :: "str \<Rightarrow> f64 option" where
  "parse_f64 s =
     (case split_sign s of (negative, body) \<Rightarrow>
        let word = to_ascii_lowercase body in
        if word = lit ''inf'' \<or> word = lit ''infinity'' then Some (f64_inf negative)
        else if word = lit ''nan'' then Some NaN
        else
          let whole = takeWhile is_ascii_digit body;
              rest = dropWhile is_ascii_digit body;
              fraction = (case rest of c # cs \<Rightarrow> if c = 46 then takeWhile is_ascii_digit cs else [] | [] \<Rightarrow> []);
              tail = (case rest of c # cs \<Rightarrow> if c = 46 then dropWhile is_ascii_digit cs else rest | [] \<Rightarrow> [])
          in if whole = [] \<and> fraction = [] then None
             else case parse_exponent tail of
               None \<Rightarrow> None
             | Some e \<Rightarrow>
                 let m = of_nat (digits_value (whole @ fraction)) * 10 powi (e - int (length fraction))
                 in Some (rnd_f64 negative (if negative then - m else m)))"

section \<open>The scored text\<close>

definition THRESHOLD_HEADER :: str where "THRESHOLD_HEADER = lit ''x-wayfinder-threshold''"
definition ROUTE_ON_HEADER :: str where "ROUTE_ON_HEADER = lit ''x-wayfinder-route-on''"
definition STICKY_HEADER :: str where "STICKY_HEADER = lit ''x-wayfinder-sticky''"
definition STICKY_COOLDOWN_HEADER :: str where "STICKY_COOLDOWN_HEADER = lit ''x-wayfinder-sticky-cooldown''"
definition MAX_LEXICON_TERMS :: nat where "MAX_LEXICON_TERMS = 2000"
definition AUTO_MODEL :: str where "AUTO_MODEL = lit ''auto''"
definition PREFER_LOW :: str where "PREFER_LOW = lit ''prefer-local''"
definition PREFER_HIGH :: str where "PREFER_HIGH = lit ''prefer-hosted''"
definition PREFER_HIGH_ALIAS :: str where "PREFER_HIGH_ALIAS = lit ''prefer-cloud''"

datatype route_on = Turn | LastUser | User | All

fun route_on_as_str :: "route_on \<Rightarrow> str" where
  "route_on_as_str Turn = lit ''turn''"
| "route_on_as_str LastUser = lit ''last_user''"
| "route_on_as_str User = lit ''user''"
| "route_on_as_str All = lit ''all''"

definition route_on_parse :: "str \<Rightarrow> route_on option" where
  "route_on_parse v =
     (if v = lit ''turn'' then Some Turn else if v = lit ''last_user'' then Some LastUser
      else if v = lit ''user'' then Some User else if v = lit ''all'' then Some All else None)"

datatype tuning_error =
    TuningNotObject
  | TuningWeightsNotObject
  | TuningUnknownFeature str
  | TuningBadWeight str
  | TuningLexiconNotObject
  | TuningBadTerms str
  | TuningTooManyTerms str

datatype policy_error =
    BadHeader str
  | ThresholdRequiresBinary
  | PolicyMissingTiers
  | PolicyCore core_error
  | BadTuning tuning_error

text \<open>\<open>join\<close> with a line feed.\<close>

fun join_lines :: "str list \<Rightarrow> str" where
  "join_lines [] = []"
| "join_lines [x] = x"
| "join_lines (x # y # zs) = x @ [10] @ join_lines (y # zs)"

definition message_text :: "(str \<times> json) list \<Rightarrow> str option" where
  "message_text m =
     (case map_of m (lit ''content'') of
        Some (JString v) \<Rightarrow> Some v
      | Some (JArray parts) \<Rightarrow>
          let texts = List.map_filter (\<lambda>part. Option.bind (jget part (lit ''text'')) as_str) parts
          in if texts = [] then None else Some (join_lines texts)
      | _ \<Rightarrow> None)"

definition has_role :: "str \<Rightarrow> (str \<times> json) list \<Rightarrow> bool" where
  "has_role role m \<longleftrightarrow> Option.bind (map_of m (lit ''role'')) as_str = Some role"

definition last_user :: "(str \<times> json) list list \<Rightarrow> (str \<times> json) list option" where
  "last_user ms = List.find (has_role (lit ''user'')) (rev ms)"

definition opt_list :: "'a option \<Rightarrow> 'a list" where
  "opt_list x = (case x of None \<Rightarrow> [] | Some y \<Rightarrow> [y])"

fun in_scope :: "route_on \<Rightarrow> (str \<times> json) list list \<Rightarrow> (str \<times> json) list list" where
  "in_scope All ms = ms"
| "in_scope User ms = filter (has_role (lit ''user'')) ms"
| "in_scope LastUser ms = opt_list (last_user ms)"
| "in_scope Turn ms = filter (has_role (lit ''system'')) ms @ opt_list (last_user ms)"

definition extract_prompt :: "json \<Rightarrow> route_on \<Rightarrow> str" where
  "extract_prompt messages scope =
     (case as_array messages of
        None \<Rightarrow> []
      | Some values \<Rightarrow>
          let typed = List.map_filter as_object values;
              chosen = in_scope scope typed;
              chosen' = (if chosen = [] \<and> typed \<noteq> [] \<and> scope \<noteq> All then [last typed] else chosen)
          in join_lines (List.map_filter message_text chosen'))"

section \<open>Pins and directives\<close>

definition tier_directives :: "routing_config \<Rightarrow> bool" where
  "tier_directives routing \<longleftrightarrow> rc_classifier routing = None \<and> rc_tiers routing \<noteq> []"

definition resolve_pin :: "json \<Rightarrow> routing_config \<Rightarrow> str list \<Rightarrow> str option" where
  "resolve_pin model_field routing configured_names =
     (case as_str model_field of
        None \<Rightarrow> None
      | Some value \<Rightarrow>
          let name = trim value in
          if name = [] \<or> name = AUTO_MODEL then None
          else if tier_directives routing \<and> name = PREFER_LOW then Some (tr_model (hd (rc_tiers routing)))
          else if tier_directives routing \<and> (name = PREFER_HIGH \<or> name = PREFER_HIGH_ALIAS)
          then Some (tr_model (last (rc_tiers routing)))
          else if name \<in> set configured_names then Some name else None)"

record slash_resolution =
  sr_pin :: "str option"
  sr_messages :: json

definition user_text :: "json \<Rightarrow> str option" where
  "user_text m =
     (if Option.bind (jget m (lit ''role'')) as_str = Some (lit ''user'') then Option.bind (jget m (lit ''content'')) as_str
      else None)"

text \<open>The greatest index whose element satisfies the predicate.\<close>

definition last_index :: "('a \<Rightarrow> bool) \<Rightarrow> 'a list \<Rightarrow> nat option" where
  "last_index P xs = List.find (\<lambda>i. P (xs ! i)) (rev [0..<length xs])"

text \<open>The pin a token names: \<open>None\<close> when it names nothing, \<open>Some None\<close> for the automatic choice.\<close>

definition directive_pin :: "routing_config \<Rightarrow> str list \<Rightarrow> str \<Rightarrow> str option option" where
  "directive_pin routing configured_names token =
     (if token = AUTO_MODEL then Some None
      else if tier_directives routing \<and> token = PREFER_LOW then Some (Some (tr_model (hd (rc_tiers routing))))
      else if tier_directives routing \<and> (token = PREFER_HIGH \<or> token = PREFER_HIGH_ALIAS)
      then Some (Some (tr_model (last (rc_tiers routing))))
      else if token \<in> set configured_names then Some (Some token) else None)"

definition resolve_slash_directive :: "json \<Rightarrow> routing_config \<Rightarrow> str list \<Rightarrow> slash_resolution option" where
  "resolve_slash_directive messages routing configured_names =
     (case as_array messages of
        None \<Rightarrow> None
      | Some values \<Rightarrow>
     (case last_index (\<lambda>m. user_text m \<noteq> None) values of
        None \<Rightarrow> None
      | Some i \<Rightarrow>
     (case (as_object (values ! i), user_text (values ! i)) of
        (Some members, Some content) \<Rightarrow>
          (case trim_start content of
             [] \<Rightarrow> None
           | c # after_slash \<Rightarrow>
               if c \<noteq> 47 \<or> after_slash = [] then None
               else
                 let token = takeWhile (\<lambda>x. \<not> is_whitespace x) after_slash;
                     remainder = trim_start (dropWhile (\<lambda>x. \<not> is_whitespace x) after_slash)
                 in if token = [] then None
                    else case directive_pin routing configured_names token of
                      None \<Rightarrow> None
                    | Some pin \<Rightarrow>
                        Some \<lparr>sr_pin = pin,
                              sr_messages = JArray (values[i := JObject (ix_insert (lit ''content'') (JString remainder) members)])\<rparr>)
      | _ \<Rightarrow> None)))"

section \<open>Header overrides\<close>

definition parse_threshold_header :: "str option \<Rightarrow> (policy_error, f64 option) result" where
  "parse_threshold_header v =
     (case v of
        None \<Rightarrow> Inr None
      | Some s \<Rightarrow>
          (case parse_f64 (trim s) of
             None \<Rightarrow> Inl (BadHeader THRESHOLD_HEADER)
           | Some t \<Rightarrow>
               if \<not> is_finite t \<or> \<not> (Fin 0 \<le> t \<and> t \<le> Fin 1) then Inl (BadHeader THRESHOLD_HEADER)
               else Inr (Some t)))"

definition threshold_tiers :: "routing_config \<Rightarrow> f64 \<Rightarrow> (policy_error, tier list) result" where
  "threshold_tiers routing threshold =
     (if rc_classifier routing \<noteq> None \<or> length (rc_tiers routing) \<noteq> 2 then Inl ThresholdRequiresBinary
      else Inr [tier_new (Fin 0) (tr_model (rc_tiers routing ! 0)), tier_new threshold (tr_model (rc_tiers routing ! 1))])"

definition present :: "str option \<Rightarrow> str option" where
  "present v = (case v of None \<Rightarrow> None | Some s \<Rightarrow> if trim s = [] then None else Some s)"

definition parse_route_on_header :: "(str \<Rightarrow> str) \<Rightarrow> str option \<Rightarrow> (policy_error, route_on option) result" where
  "parse_route_on_header lower v =
     (case present v of
        None \<Rightarrow> Inr None
      | Some s \<Rightarrow>
          (case route_on_parse (lower (trim s)) of
             None \<Rightarrow> Inl (BadHeader ROUTE_ON_HEADER)
           | Some r \<Rightarrow> Inr (Some r)))"

definition resolve_sticky :: "(str \<Rightarrow> str) \<Rightarrow> str option \<Rightarrow> bool \<Rightarrow> (policy_error, bool) result" where
  "resolve_sticky lower v default_value =
     (case present v of
        None \<Rightarrow> Inr default_value
      | Some s \<Rightarrow>
          let word = lower (trim s) in
          if word \<in> set (map lit [''1'', ''true'', ''yes'', ''on'']) then Inr True
          else if word \<in> set (map lit [''0'', ''false'', ''no'', ''off'']) then Inr False
          else Inl (BadHeader STICKY_HEADER))"

definition resolve_sticky_cooldown :: "str option \<Rightarrow> u64 \<Rightarrow> (policy_error, u64) result" where
  "resolve_sticky_cooldown v default_value =
     (case present v of
        None \<Rightarrow> Inr default_value
      | Some s \<Rightarrow>
          (case parse_u64 (trim s) of None \<Rightarrow> Inl (BadHeader STICKY_COOLDOWN_HEADER) | Some n \<Rightarrow> Inr n))"

section \<open>Body-scoped tuning\<close>

fun override_weights :: "(str \<times> json) list \<Rightarrow> weights \<Rightarrow> (tuning_error, weights) result" where
  "override_weights [] w = Inr w"
| "override_weights ((name, v) # m) w =
     (if weights_get w name = None then Inl (TuningUnknownFeature name)
      else case as_f64 v of
        None \<Rightarrow> Inl (TuningBadWeight name)
      | Some x \<Rightarrow>
          if \<not> is_finite x \<or> x < Fin 0 then Inl (TuningBadWeight name)
          else override_weights m (snd (weights_set w name x)))"

fun clean_terms :: "(str \<Rightarrow> str) \<Rightarrow> str \<Rightarrow> json list \<Rightarrow> (tuning_error, str list) result" where
  "clean_terms lower key [] = Inr []"
| "clean_terms lower key (v # vs) =
     (case as_str v of
        None \<Rightarrow> Inl (TuningBadTerms key)
      | Some s \<Rightarrow>
          (case clean_terms lower key vs of
             Inl e \<Rightarrow> Inl e
           | Inr ts \<Rightarrow> let t = lower (trim s) in Inr (if t = [] then ts else t # ts)))"

definition parse_tuning_terms :: "(str \<Rightarrow> str) \<Rightarrow> json \<Rightarrow> str \<Rightarrow> (tuning_error, str list) result" where
  "parse_tuning_terms lower v key =
     (case as_array v of
        None \<Rightarrow> Inl (TuningBadTerms key)
      | Some terms \<Rightarrow>
          (case clean_terms lower key terms of
             Inl e \<Rightarrow> Inl e
           | Inr ts \<Rightarrow>
               let cleaned = sort (remdups ts) in
               if MAX_LEXICON_TERMS < length cleaned then Inl (TuningTooManyTerms key) else Inr cleaned))"

definition override_terms :: "(str \<Rightarrow> str) \<Rightarrow> (str \<times> json) list \<Rightarrow> str \<Rightarrow> str list \<Rightarrow> (tuning_error, str list) result" where
  "override_terms lower raw key current =
     (case map_of raw key of None \<Rightarrow> Inr current | Some v \<Rightarrow> parse_tuning_terms lower v key)"

definition override_lexicon :: "(str \<Rightarrow> str) \<Rightarrow> json option \<Rightarrow> lexicon \<Rightarrow> (tuning_error, lexicon) result" where
  "override_lexicon lower v l =
     (case v of
        None \<Rightarrow> Inr (lexicon_new (lx_reasoning_terms l) (lx_constraint_terms l))
      | Some v \<Rightarrow>
          (case as_object v of
             None \<Rightarrow> Inl TuningLexiconNotObject
           | Some raw \<Rightarrow>
               (case override_terms lower raw (lit ''reasoning_terms'') (lx_reasoning_terms l) of
                  Inl e \<Rightarrow> Inl e
                | Inr rs \<Rightarrow>
                    (case override_terms lower raw (lit ''constraint_terms'') (lx_constraint_terms l) of
                       Inl e \<Rightarrow> Inl e
                     | Inr cs \<Rightarrow> Inr (lexicon_new rs cs)))))"

definition apply_scoring_overrides ::
  "(str \<Rightarrow> str) \<Rightarrow> routing_config \<Rightarrow> json option \<Rightarrow> (policy_error, routing_config) result" where
  "apply_scoring_overrides lower routing override_value =
     (case override_value of
        None \<Rightarrow> Inr routing
      | Some v \<Rightarrow>
          (case as_object v of
             None \<Rightarrow> Inl (BadTuning TuningNotObject)
           | Some m \<Rightarrow>
               (case (case map_of m (lit ''weights'') of
                        None \<Rightarrow> Inr (rc_weights routing)
                      | Some raw \<Rightarrow>
                          (case as_object raw of
                             None \<Rightarrow> Inl TuningWeightsNotObject
                           | Some ws \<Rightarrow> override_weights ws (rc_weights routing))) of
                  Inl e \<Rightarrow> Inl (BadTuning e)
                | Inr weights \<Rightarrow>
                    (case override_lexicon lower (map_of m (lit ''lexicon'')) (rc_lexicon routing) of
                       Inl e \<Rightarrow> Inl (BadTuning e)
                     | Inr lexicon \<Rightarrow>
                         Inr \<lparr>rc_weights = weights, rc_tiers = rc_tiers routing,
                              rc_classifier = rc_classifier routing, rc_lexicon = lexicon\<rparr>))))"

section \<open>Sticky conversations\<close>

definition tier_rank :: "str \<Rightarrow> tier list \<Rightarrow> nat option" where
  "tier_rank model tiers = position_from 0 model (map tr_model tiers)"

definition json_role :: "str \<Rightarrow> json \<Rightarrow> bool" where
  "json_role role m \<longleftrightarrow> Option.bind (jget m (lit ''role'')) as_str = Some role"

definition turn_rank ::
  "compiled_patterns \<Rightarrow> json list \<Rightarrow> routing_config \<Rightarrow> tier list \<Rightarrow> json \<Rightarrow> (policy_error, nat) result" where
  "turn_rank pats systems routing tiers message =
     (case score_complexity pats (extract_prompt (JArray (systems @ [message])) Turn) routing of
        Inl e \<Rightarrow> Inl (PolicyCore e)
      | Inr score \<Rightarrow>
          (case recommend_tier (cs_score score) tiers of
             None \<Rightarrow> Inl PolicyMissingTiers
           | Some model \<Rightarrow> Inr (case tier_rank model tiers of None \<Rightarrow> 0 | Some k \<Rightarrow> k)))"

fun collect_ranks :: "('a \<Rightarrow> (policy_error, nat) result) \<Rightarrow> 'a list \<Rightarrow> (policy_error, nat list) result" where
  "collect_ranks f [] = Inr []"
| "collect_ranks f (x # xs) =
     (case f x of
        Inl e \<Rightarrow> Inl e
      | Inr k \<Rightarrow> (case collect_ranks f xs of Inl e \<Rightarrow> Inl e | Inr ks \<Rightarrow> Inr (k # ks)))"

fun latch :: "u64 \<Rightarrow> nat \<Rightarrow> u64 \<Rightarrow> nat list \<Rightarrow> nat" where
  "latch cooldown latched calm [] = latched"
| "latch cooldown latched calm (k # ranks) =
     (if latched \<le> k then latch cooldown k 0 ranks
      else
        let calm' = sat_add calm 1 in
        if cooldown \<noteq> 0 \<and> cooldown \<le> calm' then latch cooldown k 0 ranks
        else latch cooldown latched calm' ranks)"

definition conversation_high_water ::
  "compiled_patterns \<Rightarrow> json \<Rightarrow> routing_config \<Rightarrow> tier list \<Rightarrow> u64 \<Rightarrow> (policy_error, str option) result" where
  "conversation_high_water pats messages routing tiers cooldown =
     (if tiers = [] then Inl PolicyMissingTiers
      else case as_array messages of
        None \<Rightarrow> Inr None
      | Some values \<Rightarrow>
          let systems = filter (json_role (lit ''system'')) values in
          case collect_ranks (turn_rank pats systems routing tiers) (filter (json_role (lit ''user'')) values) of
            Inl e \<Rightarrow> Inl e
          | Inr ranks \<Rightarrow>
              if ranks = [] then Inr None
              else
                let k = latch cooldown 0 0 ranks
                in Inr (if k < length tiers then Some (tr_model (tiers ! k)) else None))"

section \<open>The scored text depends on the scope only\<close>

lemma map_filter_append: "List.map_filter f (xs @ ys) = List.map_filter f xs @ List.map_filter f ys"
  by (induction xs) (simp_all add: List.map_filter_simps split: option.splits)

lemma map_filter_objects: "List.map_filter as_object (map JObject ms) = ms"
  by (induction ms) (simp_all add: List.map_filter_simps)

lemma last_user_Some: "last_user ms = Some m \<Longrightarrow> m \<in> set ms \<and> has_role (lit ''user'') m"
  by (auto simp: last_user_def find_Some_iff) (metis nth_mem set_rev length_rev)

text \<open>
  The default scope scores exactly the standing system messages, in order, followed by the latest
  user message: a conversation with a user message is scored as if it consisted of those messages only,
  so earlier turns and answers cannot move the decision.
\<close>

theorem turn_scope_prompt:
  assumes "last_user (List.map_filter as_object values) = Some m"
  shows "extract_prompt (JArray values) Turn =
    extract_prompt (JArray (map JObject (filter (has_role (lit ''system'')) (List.map_filter as_object values) @ [m]))) All"
  using assms by (simp add: extract_prompt_def opt_list_def map_filter_objects Let_def del: map_append)

definition sample_chat :: "json list" where
  "sample_chat =
     [JObject [(lit ''role'', JString (lit ''user'')), (lit ''content'', JString (lit ''old''))],
      JObject [(lit ''role'', JString (lit ''user'')), (lit ''content'', JString (lit ''/auto new''))]]"

theorem turn_scope_prompt_witness:
  "extract_prompt (JArray sample_chat) Turn =
     extract_prompt (JArray [JObject [(lit ''role'', JString (lit ''user'')), (lit ''content'', JString (lit ''/auto new''))]]) All"
  using turn_scope_prompt [of sample_chat "[(lit ''role'', JString (lit ''user'')), (lit ''content'', JString (lit ''/auto new''))]"]
  by (simp add: sample_chat_def last_user_def has_role_def List.map_filter_simps)

section \<open>Directives\<close>

lemma last_index_Some:
  assumes "last_index P xs = Some i"
  shows "i < length xs" "P (xs ! i)" "\<forall>j<length xs. i < j \<longrightarrow> \<not> P (xs ! j)"
proof -
  obtain k where k: "k < length xs" "P (xs ! (rev [0..<length xs] ! k))" "i = rev [0..<length xs] ! k"
    "\<forall>j<k. \<not> P (xs ! (rev [0..<length xs] ! j))"
    using assms by (auto simp: last_index_def find_Some_iff)
  then have i: "i = length xs - Suc k" by (simp add: rev_nth)
  then show "i < length xs" "P (xs ! i)" using k by auto
  show "\<forall>j<length xs. i < j \<longrightarrow> \<not> P (xs ! j)"
  proof (intro allI impI)
    fix j assume j: "j < length xs" "i < j"
    then have "length xs - Suc j < k" using i k(1) by arith
    moreover have "rev [0..<length xs] ! (length xs - Suc j) = j" using j by (simp add: rev_nth)
    ultimately show "\<not> P (xs ! j)" using k(4) by metis
  qed
qed

definition directive_targets :: "routing_config \<Rightarrow> str list \<Rightarrow> str set" where
  "directive_targets routing names = set names \<union> (if tier_directives routing then tr_model ` set (rc_tiers routing) else {})"

lemma directive_pin_target:
  "directive_pin routing names token = Some (Some pin) \<Longrightarrow> pin \<in> directive_targets routing names"
  by (auto simp: directive_pin_def directive_targets_def tier_directives_def split: if_splits)

text \<open>
  A recognised slash directive touches one message only: the latest user message with text content
  begins with a slash and a token, its content becomes the text after them, its other members and every
  other message stay as they were, and the pin is a configured name or, without a classifier, a tier's model.
\<close>

theorem slash_directive_is_local:
  assumes "resolve_slash_directive (JArray values) routing names = Some res"
  shows "\<exists>i members content token remainder.
    i < length values \<and> values ! i = JObject members \<and> user_text (values ! i) = Some content \<and>
    (\<forall>j<length values. i < j \<longrightarrow> user_text (values ! j) = None) \<and>
    trim_start content = 47 # token @ takeWhile is_whitespace (drop (Suc (length token)) (trim_start content)) @ remainder \<and>
    token \<noteq> [] \<and> (\<forall>c\<in>set token. \<not> is_whitespace c) \<and>
    sr_messages res = JArray (values[i := JObject (ix_insert (lit ''content'') (JString remainder) members)]) \<and>
    directive_pin routing names token = Some (sr_pin res) \<and>
    (\<forall>pin. sr_pin res = Some pin \<longrightarrow> pin \<in> directive_targets routing names)"
proof -
  from assms obtain i where i: "last_index (\<lambda>m. user_text m \<noteq> None) values = Some i"
    by (auto simp: resolve_slash_directive_def split: option.splits)
  from assms i obtain members content where m: "as_object (values ! i) = Some members" "user_text (values ! i) = Some content"
    by (auto simp: resolve_slash_directive_def split: option.splits)
  from assms i m obtain after where after: "trim_start content = 47 # after" "after \<noteq> []"
    by (auto simp: resolve_slash_directive_def split: list.splits if_splits)
  define token where "token = takeWhile (\<lambda>x. \<not> is_whitespace x) after"
  define rest where "rest = dropWhile (\<lambda>x. \<not> is_whitespace x) after"
  have res: "token \<noteq> []" "directive_pin routing names token = Some (sr_pin res)"
    "sr_messages res = JArray (values[i := JObject (ix_insert (lit ''content'') (JString (trim_start rest)) members)])"
    using assms i m after
    by (auto simp: resolve_slash_directive_def token_def [symmetric] rest_def [symmetric] Let_def
        split: if_splits option.splits)
  have split: "after = token @ rest" by (simp add: token_def rest_def)
  have "rest = takeWhile is_whitespace rest @ trim_start rest" by (simp add: trim_start_def)
  then have eq: "trim_start content = 47 # token @ takeWhile is_whitespace (drop (Suc (length token)) (trim_start content)) @ trim_start rest"
    using after split by simp
  have "values ! i = JObject members" using m(1) by (cases "values ! i") auto
  moreover have "\<forall>c\<in>set token. \<not> is_whitespace c" by (auto simp: token_def dest: set_takeWhileD)
  moreover have "\<forall>j<length values. i < j \<longrightarrow> user_text (values ! j) = None" using last_index_Some(3) [OF i] by simp
  ultimately show ?thesis
    using last_index_Some(1) [OF i] m(2) eq res directive_pin_target [of routing names token]
    by (intro exI [of _ i] exI [of _ members] exI [of _ content] exI [of _ token] exI [of _ "trim_start rest"]) simp
qed

theorem slash_directive_is_local_witness:
  "\<exists>res. resolve_slash_directive (JArray sample_chat) routing_config_default [] = Some res \<and>
     (\<exists>i members remainder. i < 2 \<and> sample_chat ! i = JObject members \<and>
        sr_messages res = JArray (sample_chat[i := JObject (ix_insert (lit ''content'') (JString remainder) members)]))"
proof -
  have "last_index (\<lambda>m. user_text m \<noteq> None) sample_chat = Some 1"
    by (simp add: last_index_def sample_chat_def user_text_def jget_def)
  then obtain res where res: "resolve_slash_directive (JArray sample_chat) routing_config_default [] = Some res"
    by (simp add: resolve_slash_directive_def sample_chat_def user_text_def jget_def trim_start_def is_whitespace_def
        directive_pin_def AUTO_MODEL_def)
  moreover have "length sample_chat = 2" by (simp add: sample_chat_def)
  ultimately show ?thesis using slash_directive_is_local [OF res] by metis
qed

section \<open>Tuning keeps a routing configuration well formed\<close>

text \<open>Eleven weights, each finite and not negative, and ordered lexicons without repetition.\<close>

definition usable_weight :: "f64 \<Rightarrow> bool" where
  "usable_weight x \<longleftrightarrow> is_finite x \<and> \<not> x < Fin 0"

definition wf_routing :: "routing_config \<Rightarrow> bool" where
  "wf_routing r \<longleftrightarrow> length (rc_weights r) = 11 \<and> list_all usable_weight (rc_weights r) \<and>
     sorted_wrt (<) (lx_reasoning_terms (rc_lexicon r)) \<and> sorted_wrt (<) (lx_constraint_terms (rc_lexicon r))"

lemma override_weights_wf:
  assumes "override_weights m w = Inr w'" "list_all usable_weight w"
  shows "length w' = length w \<and> list_all usable_weight w'"
  using assms
proof (induction m w rule: override_weights.induct)
  case (2 name v m w)
  then show ?case
    by (auto simp: weights_set_def usable_weight_def list_all_length nth_list_update split: if_splits option.splits)
qed simp

lemma strict_sorted_term_set: "sorted_wrt (<) (term_set ts)"
  by (simp add: term_set_def strict_sorted_iff)

lemma override_lexicon_wf:
  "override_lexicon lower v l = Inr l' \<Longrightarrow> sorted_wrt (<) (lx_reasoning_terms l') \<and> sorted_wrt (<) (lx_constraint_terms l')"
  by (auto simp: override_lexicon_def lexicon_new_def strict_sorted_term_set split: option.splits sum.splits)

text \<open>
  C39. Request-scoped tuning keeps a routing configuration well formed: when it is accepted there are
  still eleven finite non-negative weights and duplicate-free ordered lexicons, and the tiers and the
  classifier are those of the configuration, so a request can change the score but not the routes.
\<close>

theorem tuning_keeps_well_formed:
  assumes "apply_scoring_overrides lower routing v = Inr routing'" and "wf_routing routing"
  shows "wf_routing routing' \<and> rc_tiers routing' = rc_tiers routing \<and> rc_classifier routing' = rc_classifier routing"
  using assms override_weights_wf override_lexicon_wf
  by (fastforce simp: apply_scoring_overrides_def wf_routing_def split: option.splits sum.splits)

theorem tuning_keeps_well_formed_witness:
  "\<exists>r. apply_scoring_overrides id (routing_config_default\<lparr>rc_lexicon := lexicon_new [] []\<rparr>) (Some (JObject [])) = Inr r \<and> wf_routing r"
proof -
  let ?r = "routing_config_default\<lparr>rc_lexicon := lexicon_new [] []\<rparr>"
  have wf: "wf_routing ?r"
    by (simp add: wf_routing_def routing_config_default_def weights_default_def usable_weight_def lexicon_new_def
        term_set_def less_f64_def)
  obtain r where r: "apply_scoring_overrides id ?r (Some (JObject [])) = Inr r"
    by (simp add: apply_scoring_overrides_def override_lexicon_def)
  then show ?thesis using tuning_keeps_well_formed [OF r wf] by blast
qed

section \<open>Sticky conversations\<close>

lemma latch_le: "\<forall>k\<in>set ks. k \<le> b \<Longrightarrow> m \<le> b \<Longrightarrow> latch c m calm ks \<le> b"
  by (induction c m calm ks rule: latch.induct) (auto simp: Let_def)

lemma latch_ge_last: "ks \<noteq> [] \<Longrightarrow> last ks \<le> latch c m calm ks"
proof (induction c m calm ks rule: latch.induct)
  case (2 c m calm k ks)
  then show ?case by (cases "ks = []") (auto simp: Let_def)
qed simp

lemma latch_permanent: "latch 0 m calm ks = fold max ks m"
  by (induction ks arbitrary: m calm) (auto simp: Let_def max_def)

lemma collect_ranks_set: "collect_ranks f xs = Inr ks \<Longrightarrow> \<forall>k\<in>set ks. \<exists>x\<in>set xs. f x = Inr k"
  by (induction xs arbitrary: ks) (auto split: sum.splits)

lemma position_from_bound: "position_from i x ys = Some k \<Longrightarrow> k < i + length ys"
  by (induction i x ys rule: position_from.induct) (auto split: if_splits)

lemma turn_rank_bound: "turn_rank pats systems routing tiers message = Inr k \<Longrightarrow> tiers \<noteq> [] \<Longrightarrow> k < length tiers"
  using position_from_bound [of 0 _ "map tr_model tiers"]
  by (auto simp: turn_rank_def tier_rank_def split: sum.splits option.splits)

text \<open>
  C40. Sticky routing holds the high-water mark: when every user turn has a tier, the conversation's tier
  is at least that of its latest user turn and at most the highest of all turns, and with no cooldown
  it is exactly the highest, so a calm follow-up never leaves the model an earlier turn needed.
\<close>

theorem sticky_tier_holds_high_water:
  assumes "tiers \<noteq> []"
    and ranks: "collect_ranks (turn_rank pats (filter (json_role (lit ''system'')) values) routing tiers)
      (filter (json_role (lit ''user'')) values) = Inr ranks"
    and "ranks \<noteq> []"
  shows "\<exists>k<length tiers.
    conversation_high_water pats (JArray values) routing tiers cooldown = Inr (Some (tr_model (tiers ! k))) \<and>
    last ranks \<le> k \<and> k \<le> Max (set ranks) \<and> (cooldown = 0 \<longrightarrow> k = Max (set ranks))"
proof -
  let ?k = "latch cooldown 0 0 ranks"
  have "\<forall>k\<in>set ranks. k < length tiers"
    using collect_ranks_set [OF ranks] turn_rank_bound assms(1) by blast
  moreover have le: "?k \<le> Max (set ranks)" by (intro latch_le) auto
  ultimately have "?k < length tiers"
    using Max_in [of "set ranks"] assms(3) by (meson List.finite_set le_less_trans set_empty)
  moreover have "?k = Max (set ranks)" if "cooldown = 0"
    using that assms(3) Max.set_eq_fold [of "hd ranks" "tl ranks"]
    by (cases ranks) (simp_all add: latch_permanent)
  ultimately show ?thesis
    using le latch_ge_last [OF assms(3), of cooldown 0 0] assms
    by (intro exI [of _ ?k]) (simp add: conversation_high_water_def Let_def)
qed

definition plain_patterns :: patterns where
  "plain_patterns =
     \<lparr>pat_fence = (\<lambda>_. False), pat_heading = (\<lambda>_. None), pat_list = (\<lambda>_. False), pat_table_row = (\<lambda>_. False),
      pat_links = (\<lambda>_. 0), pat_words = (\<lambda>_. []), pat_math = (\<lambda>_. 0)\<rparr>"

lemma single_tier_rank:
  "turn_rank (Inr plain_patterns) systems routing_config_default [tier_new (Fin 0) m] message = Inr 0"
proof -
  have "\<exists>score. score_complexity (Inr plain_patterns) prompt routing_config_default = Inr score" for prompt
    by (simp add: score_complexity_def extract_features_with_lexicon_def routing_config_default_def Let_def
        recommend_tier_def binary_tiers_def)
  then obtain score where "score_complexity (Inr plain_patterns)
      (extract_prompt (JArray (systems @ [message])) Turn) routing_config_default = Inr score" by blast
  then show ?thesis
    by (simp add: turn_rank_def recommend_tier_def tier_rank_def tier_new_def)
qed

lemma collect_ranks_const: "(\<And>x. f x = Inr k) \<Longrightarrow> collect_ranks f xs = Inr (replicate (length xs) k)"
  by (induction xs) simp_all

theorem sticky_tier_holds_high_water_witness:
  "conversation_high_water (Inr plain_patterns) (JArray sample_chat) routing_config_default [tier_new (Fin 0) (lit ''m'')] 0 =
     Inr (Some (lit ''m''))"
proof -
  have users: "filter (json_role (lit ''user'')) sample_chat = sample_chat"
    by (simp add: sample_chat_def json_role_def jget_def)
  have two: "length sample_chat = 2" by (simp add: sample_chat_def)
  have "collect_ranks (turn_rank (Inr plain_patterns) (filter (json_role (lit ''system'')) sample_chat)
      routing_config_default [tier_new (Fin 0) (lit ''m'')]) (filter (json_role (lit ''user'')) sample_chat) =
      Inr (replicate 2 0)"
    unfolding users collect_ranks_const [OF single_tier_rank] two ..
  from sticky_tier_holds_high_water [OF _ this, of 0] show ?thesis by (simp add: tier_new_def)
qed

end
