(* ===== verification/Delivery.thy ===== *)
theory Delivery
  imports Deployments State_Backend Json
begin

text \<open>
  Buffered delivery of a planned request (\<open>deliver_with_reliability\<close> and its helpers in
  \<open>wayfinder-gateway/src/lib.rs\<close>): the walk over the planned aliases, their eligible deployments and the
  retries of each, with the circuit lease of every target.

  The provider call, the clocks, the jitter, sleeping and the fleet-wide circuit of the Redis backend
  are the fields of \<open>delivery_env\<close>. Each of them that the source awaits may also change the gateway's
  shared state, since other requests run in the meantime. A task the source spawns in the background to
  release a fleet lease is run where it is spawned. Metrics are not modelled, and the text of the last
  error is the datum it is built from.
\<close>

section \<open>Errors and responses\<close>

datatype provider_error =
  PInvalidEndpoint | PInvalidClientConfig | PInvalidCredential | PClientBuild | PTransport | PResponseTooLarge nat

datatype apple_delivery_error = AppleUnsupported | AppleNotReady | AppleUnavailable | AppleInvalidRequest | AppleInvalidResponse

datatype anthropic_delivery_error = AnthropicInvalidRequest | AnthropicInvalidResponse

datatype codex_delivery_error =
    CodexUnavailable | CodexAuthenticationRequired | CodexModelUnavailable | CodexBusy | CodexUsageLimitReached
  | CodexInvalidRequest | CodexInvalidResponse | CodexTurnFailed | CodexInterrupted

datatype delivery_error =
    InvalidEndpoint
  | CredentialUnavailable
  | ProviderFailed provider_error
  | AppleFailed apple_delivery_error
  | AnthropicFailed anthropic_delivery_error
  | CodexFailed codex_delivery_error

record buffered_response =
  br_status :: nat
  br_content_type :: str
  br_body :: str

text \<open>The HTTP status and the error type of a fatal delivery error.\<close>

fun fatal_delivery_status :: "delivery_error \<Rightarrow> nat \<times> str" where
  "fatal_delivery_status InvalidEndpoint = (500, lit ''wayfinder_router_misconfigured'')"
| "fatal_delivery_status CredentialUnavailable = (503, lit ''wayfinder_router_not_ready'')"
| "fatal_delivery_status (ProviderFailed e) =
     (case e of
        PInvalidEndpoint \<Rightarrow> (500, lit ''wayfinder_router_misconfigured'')
      | PInvalidCredential \<Rightarrow> (503, lit ''wayfinder_router_not_ready'')
      | _ \<Rightarrow> (502, lit ''wayfinder_router_upstream_error''))"
| "fatal_delivery_status (AppleFailed e) =
     (case e of
        AppleInvalidRequest \<Rightarrow> (400, lit ''wayfinder_router_unsupported_request'')
      | AppleInvalidResponse \<Rightarrow> (502, lit ''wayfinder_router_upstream_error'')
      | _ \<Rightarrow> (503, lit ''wayfinder_router_not_ready''))"
| "fatal_delivery_status (AnthropicFailed e) =
     (case e of
        AnthropicInvalidRequest \<Rightarrow> (400, lit ''wayfinder_router_unsupported_request'')
      | AnthropicInvalidResponse \<Rightarrow> (502, lit ''wayfinder_router_upstream_error''))"
| "fatal_delivery_status (CodexFailed e) =
     (case e of
        CodexUsageLimitReached \<Rightarrow> (429, lit ''wayfinder_router_usage_limited'')
      | CodexBusy \<Rightarrow> (409, lit ''wayfinder_router_busy'')
      | CodexInterrupted \<Rightarrow> (409, lit ''wayfinder_router_interrupted'')
      | CodexInvalidRequest \<Rightarrow> (400, lit ''wayfinder_router_unsupported_request'')
      | CodexInvalidResponse \<Rightarrow> (502, lit ''wayfinder_router_upstream_error'')
      | CodexTurnFailed \<Rightarrow> (502, lit ''wayfinder_router_upstream_error'')
      | _ \<Rightarrow> (503, lit ''wayfinder_router_not_ready''))"

definition first_choice_text :: "json \<Rightarrow> str" where
  "first_choice_text v =
     (case Option.bind (jget v (lit ''choices'')) as_array of
        Some (choice # _) \<Rightarrow>
          (case Option.bind (jget choice (lit ''message'')) (\<lambda>m. Option.bind (jget m (lit ''content'')) as_str) of
             None \<Rightarrow> [] | Some s \<Rightarrow> s)
      | _ \<Rightarrow> [])"

definition status_success :: "nat \<Rightarrow> bool" where
  "status_success status \<longleftrightarrow> 200 \<le> status \<and> status < 300"

definition buffered_observation :: "(str \<Rightarrow> json option) \<Rightarrow> buffered_response \<Rightarrow> f64 \<Rightarrow> deployment_observation" where
  "buffered_observation parse_json response elapsed =
     (let chars = (if contains_str (br_content_type response) (lit ''json'')
                   then Option.bind (parse_json (br_body response))
                          (\<lambda>v. let n = length (first_choice_text v) in if 0 < n then Some n else None)
                   else None);
          throughput = (case chars of None \<Rightarrow> None | Some n \<Rightarrow> if Fin 0 < elapsed then Some (f64_of_nat n div elapsed) else None)
      in if status_success (br_status response) then observation_success elapsed None throughput
         else observation_failure (Some elapsed) (Some (br_status response)))"

section \<open>State and environment\<close>

text \<open>What a request reads of the gateway's immutable snapshot.\<close>

record delivery_gateway =
  gw_models :: "configured_model list"
  gw_loopback :: "str \<Rightarrow> bool"
  gw_local_network :: "str \<Rightarrow> bool"
  gw_parse_json :: "str \<Rightarrow> json option"
  gw_retries :: nat

text \<open>The state shared with other requests: the rotation cursors, the observations and the local circuits.\<close>

record delivery_state =
  dl_cursors :: "(str \<times> u64) list"
  dl_signals :: signal_store
  dl_policy :: reliability_policy

record 'w delivery_env =
  env_send :: "configured_model \<Rightarrow> delivery_state \<times> 'w \<Rightarrow> (f64 \<times> (delivery_error, buffered_response) result) \<times> delivery_state \<times> 'w"
  env_sleep :: "nat \<Rightarrow> delivery_state \<times> 'w \<Rightarrow> delivery_state \<times> 'w"
  env_now :: "delivery_state \<times> 'w \<Rightarrow> f64"
  env_signal_now :: "delivery_state \<times> 'w \<Rightarrow> f64"
  env_jitter :: "delivery_state \<times> 'w \<Rightarrow> nat \<Rightarrow> f64"
  env_health_begin :: "(str \<Rightarrow> str \<Rightarrow> delivery_state \<times> 'w \<Rightarrow> (state_backend_error, bool) result \<times> delivery_state \<times> 'w) option"
  env_health_complete :: "str \<Rightarrow> str \<Rightarrow> bool \<Rightarrow> delivery_state \<times> 'w \<Rightarrow> delivery_state \<times> 'w"
  env_health_release :: "str \<Rightarrow> str \<Rightarrow> delivery_state \<times> 'w \<Rightarrow> delivery_state \<times> 'w"

definition with_policy :: "reliability_policy \<Rightarrow> delivery_state \<times> 'w \<Rightarrow> delivery_state \<times> 'w" where
  "with_policy p s = ((fst s)\<lparr>dl_policy := p\<rparr>, snd s)"

definition observe_deployment ::
  "'w delivery_env \<Rightarrow> str \<Rightarrow> deployment_observation \<Rightarrow> delivery_state \<times> 'w \<Rightarrow> delivery_state \<times> 'w" where
  "observe_deployment env target_id ob s =
     ((fst s)\<lparr>dl_signals := observe_signal (env_signal_now env s) target_id ob (dl_signals (fst s))\<rparr>, snd s)"

definition sleep_retry :: "'w delivery_env \<Rightarrow> f64 \<Rightarrow> delivery_state \<times> 'w \<Rightarrow> delivery_state \<times> 'w" where
  "sleep_retry env seconds s =
     (case duration_nanos seconds of None \<Rightarrow> s | Some n \<Rightarrow> if n = 0 then s else env_sleep env n s)"

section \<open>Leases of an attempt\<close>

text \<open>The local lease, and whether the fleet-wide one is held too.\<close>

type_synonym combined_attempt = "lease \<times> bool"

definition release_shared :: "'w delivery_env \<Rightarrow> str \<Rightarrow> str \<Rightarrow> bool \<Rightarrow> delivery_state \<times> 'w \<Rightarrow> delivery_state \<times> 'w" where
  "release_shared env target probe shared s = (if shared then env_health_release env target probe s else s)"

definition begin_local ::
  "'w delivery_env \<Rightarrow> str \<Rightarrow> str \<Rightarrow> bool \<Rightarrow> delivery_state \<times> 'w \<Rightarrow>
   (reliability_error, combined_attempt option) result \<times> delivery_state \<times> 'w" where
  "begin_local env target probe shared s =
     (case begin_attempt (dl_policy (fst s)) (env_now env s) target of
        Inl e \<Rightarrow> (Inl e, release_shared env target probe shared s)
      | Inr (None, p) \<Rightarrow> (Inr None, release_shared env target probe shared (with_policy p s))
      | Inr (Some l, p) \<Rightarrow> (Inr (Some (l, shared)), with_policy p s))"

definition begin_reliability_attempt ::
  "'w delivery_env \<Rightarrow> str \<Rightarrow> str \<Rightarrow> delivery_state \<times> 'w \<Rightarrow>
   (reliability_error, combined_attempt option) result \<times> delivery_state \<times> 'w" where
  "begin_reliability_attempt env target probe s =
     (case env_health_begin env of
        None \<Rightarrow> begin_local env target probe False s
      | Some begin_health \<Rightarrow>
          (case begin_health target probe s of
             (Inr True, s') \<Rightarrow> begin_local env target probe True s'
           | (Inr False, s') \<Rightarrow> (Inr None, s')
           | (Inl _, s') \<Rightarrow> begin_local env target probe False s'))"

definition complete_combined ::
  "'w delivery_env \<Rightarrow> str \<Rightarrow> combined_attempt \<Rightarrow> bool \<Rightarrow> delivery_state \<times> 'w \<Rightarrow>
   (reliability_error, unit) result \<times> delivery_state \<times> 'w" where
  "complete_combined env probe a succeeded s =
     (case complete_attempt (dl_policy (fst s)) (env_now env s) (env_now env s) (fst a) succeeded of
        (r, p) \<Rightarrow>
          let s' = with_policy p s
          in (r, if snd a then env_health_complete env (fst (fst a)) probe succeeded s' else s'))"

definition release_combined :: "'w delivery_env \<Rightarrow> str \<Rightarrow> combined_attempt \<Rightarrow> delivery_state \<times> 'w \<Rightarrow> delivery_state \<times> 'w" where
  "release_combined env probe a s =
     release_shared env (fst (fst a)) probe (snd a)
       (with_policy (drop_attempt (dl_policy (fst s)) (env_now env s) (fst a)) s)"

section \<open>One target\<close>

datatype delivery_problem =
    NoUpstream
  | NoEligibleDeployment str
  | PriceCeilingExcluded str
  | DeploymentCredentialUnavailable str
  | UpstreamStatus nat
  | ProviderTransport

datatype send_outcome = Answered buffered_response | FatalError delivery_error | GaveUp delivery_problem

text \<open>The attempts at one target: \<open>remaining\<close> retries are left after this one.\<close>

fun send_loop ::
  "delivery_gateway \<Rightarrow> 'w delivery_env \<Rightarrow> configured_model \<Rightarrow> nat \<Rightarrow> f64 list \<Rightarrow> delivery_state \<times> 'w \<Rightarrow>
   send_outcome \<times> delivery_state \<times> 'w" where
  "send_loop gw env target remaining delays s =
     (case env_send env target s of
        ((elapsed, Inr response), s1) \<Rightarrow>
          if \<not> is_retryable (Some (br_status response))
          then (Answered response,
                observe_deployment env (delivery_id target)
                  (if is_auth_failure (Some (br_status response))
                   then observation_failure (Some elapsed) (Some (br_status response))
                   else buffered_observation (gw_parse_json gw) response elapsed) s1)
          else
            (let s2 = observe_deployment env (delivery_id target)
                        (observation_failure (Some elapsed) (Some (br_status response))) s1
             in case remaining of
                  0 \<Rightarrow> (GaveUp (UpstreamStatus (br_status response)), s2)
                | Suc n \<Rightarrow> send_loop gw env target n (tl delays)
                             (case delays of [] \<Rightarrow> s2 | d # _ \<Rightarrow> sleep_retry env d s2))
      | ((elapsed, Inl e), s1) \<Rightarrow>
          (let s2 = observe_deployment env (delivery_id target) (observation_failure (Some elapsed) None) s1
           in if e \<noteq> ProviderFailed PTransport then (FatalError e, s2)
              else case remaining of
                  0 \<Rightarrow> (GaveUp ProviderTransport, s2)
                | Suc n \<Rightarrow> send_loop gw env target n (tl delays)
                             (case delays of [] \<Rightarrow> s2 | d # _ \<Rightarrow> sleep_retry env d s2)))"

declare send_loop.simps [simp del]

record delivery_outcome =
  dy_served_by :: str
  dy_served_by_id :: str
  dy_execution_boundary :: execution_boundary
  dy_selection_reason :: str
  dy_response :: buffered_response

datatype delivery_failure =
    Exhausted delivery_problem
  | Fatal delivery_error
  | Misconfigured str
  | ReliabilityState reliability_error

text \<open>The result of a target: a final result of the delivery, or the next target's turn.\<close>

datatype target_result = Finished "(delivery_failure, delivery_outcome) result" | Continue delivery_problem

definition deliver_target ::
  "delivery_gateway \<Rightarrow> 'w delivery_env \<Rightarrow> str \<Rightarrow> str \<Rightarrow> str \<Rightarrow> configured_model \<Rightarrow> delivery_problem \<Rightarrow>
   delivery_state \<times> 'w \<Rightarrow> target_result \<times> delivery_state \<times> 'w" where
  "deliver_target gw env request_id target_name reason target last_error s =
     (let target_id = delivery_id target in
      if cm_deployment_id target \<noteq> None \<and> \<not> cm_key_ready target
      then (Continue (DeploymentCredentialUnavailable target_id), s)
      else
        case begin_reliability_attempt env target_id request_id s of
          (Inl e, s1) \<Rightarrow> (Finished (Inl (ReliabilityState e)), s1)
        | (Inr None, s1) \<Rightarrow> (Continue last_error, s1)
        | (Inr (Some a), s1) \<Rightarrow>
            (case send_loop gw env target (gw_retries gw)
                    (retry_delays_with (gw_retries gw) RETRY_BASE_SECONDS RETRY_CAP_SECONDS (env_jitter env s1)) s1 of
               (Answered response, s2) \<Rightarrow>
                 (case complete_combined env request_id a (\<not> is_auth_failure (Some (br_status response))) s2 of
                    (Inl e, s3) \<Rightarrow> (Finished (Inl (ReliabilityState e)), s3)
                  | (Inr _, s3) \<Rightarrow>
                      (Finished (Inr \<lparr>dy_served_by = target_name, dy_served_by_id = target_id,
                         dy_execution_boundary = model_execution_boundary (gw_loopback gw) (gw_local_network gw) target,
                         dy_selection_reason = reason, dy_response = response\<rparr>), s3))
             | (FatalError e, s2) \<Rightarrow> (Finished (Inl (Fatal e)), release_combined env request_id a s2)
             | (GaveUp problem, s2) \<Rightarrow>
                 (case complete_combined env request_id a False s2 of
                    (Inl e, s3) \<Rightarrow> (Finished (Inl (ReliabilityState e)), s3)
                  | (Inr _, s3) \<Rightarrow> (Continue problem, s3))))"

fun deliver_targets ::
  "delivery_gateway \<Rightarrow> 'w delivery_env \<Rightarrow> str \<Rightarrow> str \<Rightarrow> str \<Rightarrow> configured_model list \<Rightarrow> delivery_problem \<Rightarrow>
   delivery_state \<times> 'w \<Rightarrow> target_result \<times> delivery_state \<times> 'w" where
  "deliver_targets gw env request_id target_name reason [] last_error s = (Continue last_error, s)"
| "deliver_targets gw env request_id target_name reason (target # targets) last_error s =
     (case deliver_target gw env request_id target_name reason target last_error s of
        (Finished r, s') \<Rightarrow> (Finished r, s')
      | (Continue problem, s') \<Rightarrow> deliver_targets gw env request_id target_name reason targets problem s')"

section \<open>The plan\<close>

definition selection_policy_of :: "configured_model list \<Rightarrow> str \<Rightarrow> selection_policy" where
  "selection_policy_of models alias =
     (case find_model alias models of None \<Rightarrow> selection_policy_default | Some m \<Rightarrow> cm_deployment_selection m)"

text \<open>Rotating the pool of an alias and ordering its eligible members.\<close>

definition take_candidates ::
  "delivery_gateway \<Rightarrow> str \<Rightarrow> delivery_state \<times> 'w \<Rightarrow> configured_model list \<times> delivery_state \<times> 'w" where
  "take_candidates gw alias s =
     (case deployment_candidates (gw_models gw) alias (dl_cursors (fst s)) of
        (ms, cursors) \<Rightarrow> (ms, (fst s)\<lparr>dl_cursors := cursors\<rparr>, snd s))"

definition deliver_alias ::
  "delivery_gateway \<Rightarrow> 'w delivery_env \<Rightarrow> routing_request \<Rightarrow> bool \<Rightarrow> u64 \<Rightarrow> str \<Rightarrow> delivery_problem \<Rightarrow>
   delivery_state \<times> 'w \<Rightarrow> target_result \<times> delivery_state \<times> 'w" where
  "deliver_alias gw env request offline prompt_estimate alias last_error s =
     (case take_candidates gw alias s of
        (configured, s1) \<Rightarrow>
          if configured = [] then (Finished (Inl (Misconfigured alias)), s1)
          else
            let eligible = eligible_deployment_targets (gw_loopback gw) (gw_local_network gw) configured request offline prompt_estimate
            in if eligible = [] then (Continue (NoEligibleDeployment alias), s1)
               else
                 let selection = select_deployments (selection_policy_of (gw_models gw) alias) (env_signal_now env s1)
                                   (dl_signals (fst s1)) eligible
                 in if sl_targets selection = [] then (Continue (PriceCeilingExcluded alias), s1)
                    else deliver_targets gw env (rq_request_id request) alias (sl_reason selection) (sl_targets selection) last_error s1)"

fun deliver_plan ::
  "delivery_gateway \<Rightarrow> 'w delivery_env \<Rightarrow> routing_request \<Rightarrow> bool \<Rightarrow> u64 \<Rightarrow> str list \<Rightarrow> delivery_problem \<Rightarrow>
   delivery_state \<times> 'w \<Rightarrow> (delivery_failure, delivery_outcome) result \<times> delivery_state \<times> 'w" where
  "deliver_plan gw env request offline prompt_estimate [] last_error s = (Inl (Exhausted last_error), s)"
| "deliver_plan gw env request offline prompt_estimate (alias # plan) last_error s =
     (case deliver_alias gw env request offline prompt_estimate alias last_error s of
        (Finished r, s') \<Rightarrow> (r, s')
      | (Continue problem, s') \<Rightarrow> deliver_plan gw env request offline prompt_estimate plan problem s')"

definition deliver_with_reliability ::
  "delivery_gateway \<Rightarrow> 'w delivery_env \<Rightarrow> str list \<Rightarrow> routing_request \<Rightarrow> bool \<Rightarrow> u64 \<Rightarrow> delivery_state \<times> 'w \<Rightarrow>
   (delivery_failure, delivery_outcome) result \<times> delivery_state \<times> 'w" where
  "deliver_with_reliability gw env plan request offline prompt_estimate s =
     deliver_plan gw env request offline prompt_estimate plan NoUpstream s"

section \<open>Whom a delivery calls\<close>

declare split_paired_All [simp del] split_paired_Ex [simp del]

text \<open>
  \<open>sent\<close> reads off the world the targets the provider was called with: a call appends its target and
  nothing else changes the list.
\<close>

definition records_sends :: "'w delivery_env \<Rightarrow> ('w \<Rightarrow> configured_model list) \<Rightarrow> bool" where
  "records_sends env sent \<longleftrightarrow>
     (\<forall>t s. sent (snd (snd (env_send env t s))) = sent (snd s) @ [t]) \<and>
     (\<forall>n s. sent (snd (env_sleep env n s)) = sent (snd s)) \<and>
     (\<forall>begin_health t p s. env_health_begin env = Some begin_health \<longrightarrow>
        sent (snd (snd (begin_health t p s))) = sent (snd s)) \<and>
     (\<forall>t p ok s. sent (snd (env_health_complete env t p ok s)) = sent (snd s)) \<and>
     (\<forall>t p s. sent (snd (env_health_release env t p s)) = sent (snd s))"

lemma records_sendsD:
  assumes "records_sends env sent"
  shows "sent (snd (snd (env_send env t s))) = sent (snd s) @ [t]"
    and "sent (snd (env_sleep env n s)) = sent (snd s)"
    and "env_health_begin env = Some f \<Longrightarrow> sent (snd (snd (f t' p s))) = sent (snd s)"
    and "sent (snd (env_health_complete env t' p ok s)) = sent (snd s)"
    and "sent (snd (env_health_release env t' p s)) = sent (snd s)"
  using assms by (simp_all add: records_sends_def)

lemma records_sends_steps:
  assumes "records_sends env sent"
  shows "sent (snd (observe_deployment env i ob s)) = sent (snd s)"
    and "sent (snd (sleep_retry env d s)) = sent (snd s)"
    and "sent (snd (with_policy p s)) = sent (snd s)"
    and "sent (snd (release_shared env t pr b s)) = sent (snd s)"
    and "sent (snd (release_combined env pr a s)) = sent (snd s)"
    and "sent (snd (snd (complete_combined env pr a ok s))) = sent (snd s)"
  by (auto simp: records_sendsD [OF assms] observe_deployment_def sleep_retry_def with_policy_def release_shared_def
      release_combined_def complete_combined_def Let_def split: option.splits prod.splits)

lemma begin_local_sends:
  "records_sends env sent \<Longrightarrow> sent (snd (snd (begin_local env t pr b s))) = sent (snd s)"
  by (auto simp: begin_local_def records_sends_steps split: sum.splits option.splits prod.splits)

lemma begin_attempt_sends:
  assumes "records_sends env sent"
  shows "sent (snd (snd (begin_reliability_attempt env t pr s))) = sent (snd s)"
proof (cases "env_health_begin env")
  case None
  then show ?thesis using assms by (simp add: begin_reliability_attempt_def begin_local_sends)
next
  case (Some f)
  then have "sent (snd (snd (f t pr s))) = sent (snd s)" by (rule records_sendsD(3) [OF assms])
  then show ?thesis
    using Some begin_local_sends [OF assms]
    by (cases "f t pr s") (auto simp: begin_reliability_attempt_def split: sum.splits bool.splits)
qed

lemma send_loop_sends:
  assumes "records_sends env sent" "send_loop gw env target remaining delays s = (r, s')"
  shows "\<exists>k. 0 < k \<and> k \<le> Suc remaining \<and> sent (snd s') = sent (snd s) @ replicate k target"
  using assms(2)
proof (induction remaining arbitrary: delays s)
  case 0
  then have "sent (snd s') = sent (snd s) @ [target]"
    using assms(1)
    by (subst (asm) send_loop.simps)
      (auto simp: records_sends_steps Let_def split: prod.splits sum.splits if_splits dest!: arg_cong [of _ _ "\<lambda>x. sent (snd (snd x))"]
        simp: records_sendsD)
  then show ?case by (intro exI [of _ 1]) simp
next
  case (Suc n)
  obtain el r1 s1 where send: "env_send env target s = ((el, r1), s1)" by (metis prod.exhaust)
  then have s1: "sent (snd s1) = sent (snd s) @ [target]"
    using records_sendsD(1) [OF assms(1), of target s] by simp
  show ?case
  proof (cases "\<exists>delays s2. send_loop gw env target n delays s2 = (r, s') \<and> sent (snd s2) = sent (snd s1)")
    case True
    then obtain k where "0 < k" "k \<le> Suc n" "sent (snd s') = sent (snd s1) @ replicate k target"
      using Suc.IH by metis
    then show ?thesis using s1 by (intro exI [of _ "Suc k"]) (simp add: replicate_app_Cons_same)
  next
    case False
    then have stop: "send_loop gw env target n delays s2 = (r, s') \<Longrightarrow> sent (snd s2) \<noteq> sent (snd s1)" for delays s2
      by blast
    have "sent (snd s') = sent (snd s1)"
      using Suc.prems send
      by (subst (asm) send_loop.simps)
        (auto simp: records_sends_steps [OF assms(1)] Let_def split: prod.splits sum.splits if_splits list.splits dest!: stop)
    then show ?thesis using s1 by (intro exI [of _ 1]) simp
  qed
qed

lemma send_loop_answer:
  "send_loop gw env target remaining delays s = (Answered response, s') \<Longrightarrow> \<not> is_retryable (Some (br_status response))"
proof (induction remaining arbitrary: delays s)
  case 0
  then show ?case
    by (subst (asm) send_loop.simps) (auto simp: Let_def split: prod.splits sum.splits if_splits)
next
  case (Suc n)
  from Suc.prems Suc.IH show ?case
    by (subst (asm) send_loop.simps) (auto simp: Let_def split: prod.splits sum.splits if_splits)
qed

text \<open>What an outcome says of the last target called.\<close>

definition served :: "delivery_gateway \<Rightarrow> str \<Rightarrow> delivery_outcome \<Rightarrow> configured_model \<Rightarrow> bool" where
  "served gw alias oc t \<longleftrightarrow>
     dy_served_by oc = alias \<and> dy_served_by_id oc = delivery_id t \<and>
     dy_execution_boundary oc = model_execution_boundary (gw_loopback gw) (gw_local_network gw) t \<and>
     \<not> is_retryable (Some (br_status (dy_response oc)))"

lemma deliver_target_sends:
  assumes rec: "records_sends env sent"
    and run: "deliver_target gw env rid alias reason target last_error s = (r, s')"
  shows "\<exists>k\<le>Suc (gw_retries gw). sent (snd s') = sent (snd s) @ replicate k target \<and>
    (\<forall>oc. r = Finished (Inr oc) \<longrightarrow> 0 < k \<and> served gw alias oc target)"
proof (cases "cm_deployment_id target \<noteq> None \<and> \<not> cm_key_ready target")
  case True
  then show ?thesis using run by (intro exI [of _ 0]) (auto simp: deliver_target_def Let_def)
next
  case False
  obtain b s1 where begin_run: "begin_reliability_attempt env (delivery_id target) rid s = (b, s1)" by (meson surj_pair)
  then have s1: "sent (snd s1) = sent (snd s)" using begin_attempt_sends [OF rec] by (metis snd_conv)
  show ?thesis
  proof (cases "\<exists>a. b = Inr (Some a)")
    case True
    then obtain a where a: "b = Inr (Some a)" by blast
    obtain oc s2 where loop: "send_loop gw env target (gw_retries gw)
        (retry_delays_with (gw_retries gw) RETRY_BASE_SECONDS RETRY_CAP_SECONDS (env_jitter env s1)) s1 = (oc, s2)"
      by (meson surj_pair)
    then obtain k where k: "0 < k" "k \<le> Suc (gw_retries gw)" "sent (snd s2) = sent (snd s1) @ replicate k target"
      using send_loop_sends [OF rec] by metis
    have same: "sent (snd s') = sent (snd s2)"
    proof (cases oc)
      case (Answered response)
      let ?c = "complete_combined env rid a (\<not> is_auth_failure (Some (br_status response))) s2"
      have "s' = snd ?c"
        using run False begin_run a loop Answered
        by (cases ?c) (auto simp: deliver_target_def Let_def split: sum.splits)
      then show ?thesis by (simp add: records_sends_steps(6) [OF rec])
    next
      case (FatalError e)
      then show ?thesis
        using run False begin_run a loop by (auto simp: deliver_target_def Let_def records_sends_steps(5) [OF rec])
    next
      case (GaveUp problem)
      let ?c = "complete_combined env rid a False s2"
      have "s' = snd ?c"
        using run False begin_run a loop GaveUp
        by (cases ?c) (auto simp: deliver_target_def Let_def split: sum.splits)
      then show ?thesis by (simp add: records_sends_steps(6) [OF rec])
    qed
    have ans: "\<not> is_retryable (Some (br_status x))" if "oc = Answered x" for x
      using loop that by (metis send_loop_answer)
    have served: "served gw alias oc' target" if "r = Finished (Inr oc')" for oc'
      using run False begin_run a loop that
      by (auto simp: deliver_target_def Let_def served_def ans split: send_outcome.splits sum.splits prod.splits)
    with k s1 same served show ?thesis by (intro exI [of _ k]) auto
  next
    case none: False
    then show ?thesis
      using run False begin_run s1
      by (intro exI [of _ 0]) (auto simp: deliver_target_def Let_def split: sum.splits option.splits)
  qed
qed

lemma deliver_targets_sends:
  assumes rec: "records_sends env sent"
    and "deliver_targets gw env rid alias reason targets last_error s = (r, s')"
  shows "\<exists>ts. sent (snd s') = sent (snd s) @ ts \<and> set ts \<subseteq> set targets \<and>
    length ts \<le> Suc (gw_retries gw) * length targets \<and>
    (\<forall>oc. r = Finished (Inr oc) \<longrightarrow> ts \<noteq> [] \<and> served gw alias oc (last ts))"
  using assms(2)
proof (induction targets arbitrary: last_error s)
  case (Cons t targets)
  obtain r1 s1 where one: "deliver_target gw env rid alias reason t last_error s = (r1, s1)" by (meson surj_pair)
  then obtain k where k: "k \<le> Suc (gw_retries gw)" "sent (snd s1) = sent (snd s) @ replicate k t"
    "\<forall>oc. r1 = Finished (Inr oc) \<longrightarrow> 0 < k \<and> served gw alias oc t"
    using deliver_target_sends [OF rec] by metis
  show ?case
  proof (cases r1)
    case (Finished x)
    then have "r = r1" "s' = s1" using Cons.prems one by auto
    then show ?thesis using k by (intro exI [of _ "replicate k t"]) (auto simp: add_increasing2)
  next
    case (Continue problem)
    then obtain ts where ts: "sent (snd s') = sent (snd s1) @ ts" "set ts \<subseteq> set targets"
      "length ts \<le> Suc (gw_retries gw) * length targets"
      "\<forall>oc. r = Finished (Inr oc) \<longrightarrow> ts \<noteq> [] \<and> served gw alias oc (last ts)"
      using Cons.IH [of problem s1] Cons.prems one by auto
    then show ?thesis using k by (intro exI [of _ "replicate k t @ ts"]) auto
  qed
qed auto

text \<open>The number of deployments behind an alias, the default one included.\<close>

definition pool_size :: "delivery_gateway \<Rightarrow> str \<Rightarrow> nat" where
  "pool_size gw alias = length (configured_deployment_targets (gw_models gw) alias)"

lemma length_deployment_candidates:
  "length (fst (deployment_candidates models alias cursors)) = length (configured_deployment_targets models alias)"
  by (auto simp: deployment_candidates_def configured_deployment_targets_def Let_def deployment_targets_def
      split: option.splits)

lemma length_selected: "length (sl_targets (select_deployments policy clock store ms)) \<le> length ms"
proof -
  have "length (sort_by le xs) = length xs" for le and xs :: "configured_model list"
    using mset_eq_length [OF mset_sort_by] by blast
  moreover have "length (apply_price_ceiling policy ms) \<le> length ms"
    by (simp add: apply_price_ceiling_def split: option.splits)
  ultimately show ?thesis by (auto simp: select_deployments_def Let_def)
qed

text \<open>A target a request may be delivered to under an alias.\<close>

definition deliverable ::
  "delivery_gateway \<Rightarrow> routing_request \<Rightarrow> bool \<Rightarrow> u64 \<Rightarrow> str \<Rightarrow> configured_model \<Rightarrow> bool" where
  "deliverable gw request offline prompt_estimate alias t \<longleftrightarrow>
     cm_key_ready t \<and> cm_name t = alias \<and>
     permits (rq_privacy_posture request) (model_execution_boundary (gw_loopback gw) (gw_local_network gw) t) \<and>
     (offline \<longrightarrow> model_execution_boundary (gw_loopback gw) (gw_local_network gw) t = OnDevice) \<and>
     precheck_ok prompt_estimate (cm_context_window t) \<and>
     (\<forall>cap. sel_max_cost_per_1k (selection_policy_of (gw_models gw) alias) = Some cap \<longrightarrow>
        (\<exists>c. cm_cost_per_1k t = Some c \<and> c \<le> cap))"

text \<open>The branches of an alias, with the candidates, the eligible and the selected targets named.\<close>

lemma deliver_alias_run:
  assumes "deployment_candidates (gw_models gw) alias (dl_cursors (fst s)) = (ms, cursors)"
  shows "deliver_alias gw env request offline prompt_estimate alias last_error s =
    (let s1 = ((fst s)\<lparr>dl_cursors := cursors\<rparr>, snd s);
         eligible = eligible_deployment_targets (gw_loopback gw) (gw_local_network gw) ms request offline prompt_estimate;
         selection = select_deployments (selection_policy_of (gw_models gw) alias) (env_signal_now env s1)
           (dl_signals (fst s1)) eligible
     in if ms = [] then (Finished (Inl (Misconfigured alias)), s1)
        else if eligible = [] then (Continue (NoEligibleDeployment alias), s1)
        else if sl_targets selection = [] then (Continue (PriceCeilingExcluded alias), s1)
        else deliver_targets gw env (rq_request_id request) alias (sl_reason selection) (sl_targets selection) last_error s1)"
  using assms by (simp add: deliver_alias_def take_candidates_def Let_def)

lemmas deliver_alias_branches = deliver_alias_run [unfolded Let_def]

lemma deliver_alias_sends:
  assumes rec: "records_sends env sent"
    and run: "deliver_alias gw env request offline prompt_estimate alias last_error s = (r, s')"
  shows "\<exists>ts. sent (snd s') = sent (snd s) @ ts \<and>
    (\<forall>t\<in>set ts. deliverable gw request offline prompt_estimate alias t) \<and>
    length ts \<le> Suc (gw_retries gw) * pool_size gw alias \<and>
    (\<forall>oc. r = Finished (Inr oc) \<longrightarrow> ts \<noteq> [] \<and> served gw alias oc (last ts))"
proof -
  obtain ms cursors where cand: "deployment_candidates (gw_models gw) alias (dl_cursors (fst s)) = (ms, cursors)"
    by fastforce
  define s1 where "s1 = ((fst s)\<lparr>dl_cursors := cursors\<rparr>, snd s)"
  define eligible where "eligible = eligible_deployment_targets (gw_loopback gw) (gw_local_network gw) ms request offline prompt_estimate"
  define selection where "selection = select_deployments (selection_policy_of (gw_models gw) alias) (env_signal_now env s1)
    (dl_signals (fst s1)) eligible"
  note unfold = deliver_alias_branches [OF cand, of env request offline prompt_estimate last_error,
      folded s1_def, folded eligible_def, folded selection_def]
  have safe: "deliverable gw request offline prompt_estimate alias t" if "t \<in> set (sl_targets selection)" for t
    using selected_targets_are_safe [of t _ _ _ _ _ "gw_models gw" "alias" "dl_cursors (fst s)"] that cand
    unfolding selection_def eligible_def by (auto simp: deliverable_def)
  have size: "length (sl_targets selection) \<le> pool_size gw alias"
  proof -
    have "length eligible \<le> length ms" by (simp add: eligible_def eligible_deployment_targets_def)
    also have "length ms = pool_size gw alias"
      using length_deployment_candidates [of "gw_models gw" "alias" "dl_cursors (fst s)"] cand by (simp add: pool_size_def)
    finally show ?thesis
      using length_selected [of "selection_policy_of (gw_models gw) alias" "env_signal_now env s1" "dl_signals (fst s1)" eligible]
      unfolding selection_def by linarith
  qed
  have "snd s1 = snd s" by (simp add: s1_def)
  show ?thesis
  proof (cases "ms = [] \<or> eligible = [] \<or> sl_targets selection = []")
    case True
    then show ?thesis using run unfold \<open>snd s1 = snd s\<close> by (intro exI [of _ "[]"]) (auto split: if_splits)
  next
    case False
    then obtain ts where ts: "sent (snd s') = sent (snd s1) @ ts" "set ts \<subseteq> set (sl_targets selection)"
      "length ts \<le> Suc (gw_retries gw) * length (sl_targets selection)"
      "\<forall>oc. r = Finished (Inr oc) \<longrightarrow> ts \<noteq> [] \<and> served gw alias oc (last ts)"
      using deliver_targets_sends [OF rec] run unfold by (metis (no_types))
    moreover have "length ts \<le> Suc (gw_retries gw) * pool_size gw alias"
      using ts(3) size mult_le_mono2 le_trans by blast
    ultimately show ?thesis using safe \<open>snd s1 = snd s\<close> by (intro exI [of _ ts]) auto
  qed
qed

lemma deliver_plan_sends:
  assumes rec: "records_sends env sent"
    and "deliver_plan gw env request offline prompt_estimate plan last_error s = (r, s')"
  shows "\<exists>ts. sent (snd s') = sent (snd s) @ ts \<and>
    (\<forall>t\<in>set ts. \<exists>alias\<in>set plan. deliverable gw request offline prompt_estimate alias t) \<and>
    length ts \<le> Suc (gw_retries gw) * sum_list (map (pool_size gw) plan) \<and>
    (\<forall>oc. r = Inr oc \<longrightarrow> ts \<noteq> [] \<and> (\<exists>alias\<in>set plan. served gw alias oc (last ts)))"
  using assms(2)
proof (induction plan arbitrary: last_error s)
  case (Cons a plan)
  obtain r1 s1 where one: "deliver_alias gw env request offline prompt_estimate a last_error s = (r1, s1)"
    by (meson surj_pair)
  then obtain ts1 where ts1: "sent (snd s1) = sent (snd s) @ ts1"
    "\<forall>t\<in>set ts1. deliverable gw request offline prompt_estimate a t"
    "length ts1 \<le> Suc (gw_retries gw) * pool_size gw a"
    "\<forall>oc. r1 = Finished (Inr oc) \<longrightarrow> ts1 \<noteq> [] \<and> served gw a oc (last ts1)"
    using deliver_alias_sends [OF rec] by metis
  show ?case
  proof (cases r1)
    case (Finished x)
    then have "r = x" "s' = s1" using Cons.prems one by auto
    then show ?thesis
      using ts1 Finished by (intro exI [of _ ts1]) (auto simp: add_mult_distrib2 add_increasing2)
  next
    case (Continue problem)
    then obtain ts where ts: "sent (snd s') = sent (snd s1) @ ts"
      "\<forall>t\<in>set ts. \<exists>alias\<in>set plan. deliverable gw request offline prompt_estimate alias t"
      "length ts \<le> Suc (gw_retries gw) * sum_list (map (pool_size gw) plan)"
      "\<forall>oc. r = Inr oc \<longrightarrow> ts \<noteq> [] \<and> (\<exists>alias\<in>set plan. served gw alias oc (last ts))"
      using Cons.IH [of problem s1] Cons.prems one by auto
    then show ?thesis
      using ts1 by (intro exI [of _ "ts1 @ ts"]) (auto simp: add_mult_distrib2)
  qed
qed auto

text \<open>
  C17. Whatever providers answer and however often a request is retried or failed over, its content is
  only ever sent to targets of a planned alias whose credential is ready, whose execution boundary the
  request's privacy posture permits (on the device when it is offline), whose context window admits the
  prompt and whose price is under the alias's ceiling; and a delivered answer reports the target that
  was called last, its boundary, and a status that is not to be retried.
\<close>

theorem delivery_stays_inside:
  assumes "records_sends env sent"
    and "deliver_with_reliability gw env plan request offline prompt_estimate s = (r, s')"
  shows "\<exists>ts. sent (snd s') = sent (snd s) @ ts \<and>
    (\<forall>t\<in>set ts. \<exists>alias\<in>set plan. deliverable gw request offline prompt_estimate alias t) \<and>
    (\<forall>oc. r = Inr oc \<longrightarrow> ts \<noteq> [] \<and> (\<exists>alias\<in>set plan. served gw alias oc (last ts)))"
  using deliver_plan_sends [OF assms(1) assms(2) [unfolded deliver_with_reliability_def]] by blast

text \<open>
  C20. A delivery ends after a bounded number of provider calls: at most one more than the configured
  retries for every deployment behind every planned alias.
\<close>

theorem delivery_attempts_bounded:
  assumes "records_sends env sent"
    and "deliver_with_reliability gw env plan request offline prompt_estimate s = (r, s')"
  shows "length (sent (snd s')) \<le> length (sent (snd s)) + Suc (gw_retries gw) * sum_list (map (pool_size gw) plan)"
  using deliver_plan_sends [OF assms(1) assms(2) [unfolded deliver_with_reliability_def]] by auto

section \<open>No lease is lost\<close>

text \<open>
  \<open>others\<close> reads off the world the leases of concurrent requests. The environment respects the circuits
  when its clock is valid and whatever runs while a call is awaited keeps the lease invariant together
  with the leases this request holds.
\<close>

definition leases_ok :: "('w \<Rightarrow> lease list) \<Rightarrow> lease list \<Rightarrow> delivery_state \<times> 'w \<Rightarrow> bool" where
  "leases_ok others mine s \<longleftrightarrow> lease_inv (dl_policy (fst s), mine @ others (snd s))"

definition respects_leases :: "'w delivery_env \<Rightarrow> ('w \<Rightarrow> lease list) \<Rightarrow> bool" where
  "respects_leases env others \<longleftrightarrow>
     (\<forall>s. validated_now (env_now env s) = Inr (env_now env s)) \<and>
     (\<forall>mine s t. leases_ok others mine s \<longrightarrow> leases_ok others mine (snd (env_send env t s))) \<and>
     (\<forall>mine s n. leases_ok others mine s \<longrightarrow> leases_ok others mine (env_sleep env n s)) \<and>
     (\<forall>mine s f t p. env_health_begin env = Some f \<longrightarrow> leases_ok others mine s \<longrightarrow> leases_ok others mine (snd (f t p s))) \<and>
     (\<forall>mine s t p ok. leases_ok others mine s \<longrightarrow> leases_ok others mine (env_health_complete env t p ok s)) \<and>
     (\<forall>mine s t p. leases_ok others mine s \<longrightarrow> leases_ok others mine (env_health_release env t p s))"

lemma respects_leasesD:
  assumes "respects_leases env others"
  shows "validated_now (env_now env s) = Inr (env_now env s)"
    and "leases_ok others mine s \<Longrightarrow> leases_ok others mine (snd (env_send env t s))"
    and "leases_ok others mine s \<Longrightarrow> leases_ok others mine (env_sleep env n s)"
    and "env_health_begin env = Some f \<Longrightarrow> leases_ok others mine s \<Longrightarrow> leases_ok others mine (snd (f t' p s))"
    and "leases_ok others mine s \<Longrightarrow> leases_ok others mine (env_health_complete env t' p ok s)"
    and "leases_ok others mine s \<Longrightarrow> leases_ok others mine (env_health_release env t' p s)"
  using assms by (simp_all add: respects_leases_def)

lemma leases_ok_same_policy: "dl_policy (fst s') = dl_policy (fst s) \<Longrightarrow> snd s' = snd s \<Longrightarrow> leases_ok others mine s' = leases_ok others mine s"
  by (simp add: leases_ok_def)

lemma leases_ok_with_policy: "leases_ok others mine (with_policy p s) = lease_inv (p, mine @ others (snd s))"
  by (simp add: leases_ok_def with_policy_def)

lemma leases_ok_observe: "leases_ok others mine (observe_deployment env i ob s) = leases_ok others mine s"
  by (rule leases_ok_same_policy) (simp_all add: observe_deployment_def)

lemma send_loop_leases:
  assumes "respects_leases env others" "leases_ok others mine s"
  shows "leases_ok others mine (snd (send_loop gw env target remaining delays s))"
  using assms(2)
proof (induction remaining arbitrary: delays s)
  case 0
  then show ?case
    using respects_leasesD(2) [OF assms(1) 0, of target]
    by (subst send_loop.simps) (auto simp: leases_ok_observe Let_def split: prod.splits sum.splits)
next
  case (Suc n)
  have sleep: "leases_ok others mine x \<Longrightarrow> leases_ok others mine (sleep_retry env d x)" for d x
    by (auto simp: sleep_retry_def intro: respects_leasesD(3) [OF assms(1)] split: option.splits)
  show ?case
    using respects_leasesD(2) [OF assms(1) Suc.prems, of target]
    by (subst send_loop.simps)
      (auto simp: leases_ok_observe Let_def split: prod.splits sum.splits list.splits intro!: Suc.IH sleep)
qed

lemma begin_local_leases:
  assumes "respects_leases env others" "leases_ok others [] s"
    and "begin_local env t pr shared s = (r, s')"
  shows "leases_ok others (case r of Inr (Some a) \<Rightarrow> [fst a] | _ \<Rightarrow> []) s'"
proof -
  have rel: "leases_ok others [] x \<Longrightarrow> leases_ok others [] (release_shared env t pr shared x)" for x
    by (simp add: release_shared_def respects_leasesD(6) [OF assms(1)])
  show ?thesis
  proof (cases "begin_attempt (dl_policy (fst s)) (env_now env s) t")
    case (Inl e)
    then show ?thesis using assms(2,3) by (auto simp: begin_local_def intro: rel)
  next
    case (Inr gp)
    then have "lease_inv (snd gp, (case fst gp of None \<Rightarrow> others (snd s) | Some l \<Rightarrow> l # others (snd s)))"
      using begin_attempt_lease_inv [of "dl_policy (fst s)" "others (snd s)"] assms(2)
      by (cases gp) (auto simp: leases_ok_def)
    then show ?thesis
      using assms(3) Inr
      by (cases gp) (auto simp: begin_local_def leases_ok_with_policy split: option.splits intro!: rel)
  qed
qed

lemma begin_attempt_leases:
  assumes "respects_leases env others" "leases_ok others [] s"
    and "begin_reliability_attempt env t pr s = (r, s')"
  shows "leases_ok others (case r of Inr (Some a) \<Rightarrow> [fst a] | _ \<Rightarrow> []) s'"
proof (cases "env_health_begin env")
  case None
  then show ?thesis using assms begin_local_leases [OF assms(1,2)] by (simp add: begin_reliability_attempt_def)
next
  case (Some f)
  obtain h s1 where h: "f t pr s = (h, s1)" by (meson surj_pair)
  then have s1: "leases_ok others [] s1" using respects_leasesD(4) [OF assms(1) Some assms(2), of t pr] by simp
  have run: "begin_reliability_attempt env t pr s =
      (if h = Inr False then (Inr None, s1) else begin_local env t pr (h = Inr True) s1)"
    using Some h by (simp add: begin_reliability_attempt_def split: sum.splits bool.splits)
  show ?thesis
  proof (cases "h = Inr False")
    case True
    then show ?thesis using assms(3) run s1 by auto
  next
    case False
    then show ?thesis using assms(3) run by (intro begin_local_leases [OF assms(1) s1]) simp
  qed
qed

lemma complete_combined_leases:
  assumes "respects_leases env others" "leases_ok others [fst a] s"
  shows "leases_ok others [] (snd (complete_combined env pr a ok s))" "fst (complete_combined env pr a ok s) = Inr ()"
proof -
  note now = respects_leasesD(1) [OF assms(1), of s]
  let ?p = "(dl_policy (fst s))\<lparr>rl_breaker := record_at (rl_breaker (dl_policy (fst s))) (fst (fst a)) ok (env_now env s)\<rparr>"
  have "leases_ok others [] (with_policy ?p s)"
    using record_lease_inv [of "dl_policy (fst s)" "[]" "fst a" "others (snd s)"] assms(2) [unfolded leases_ok_def]
      validated_now_finite [OF now]
    by (simp add: leases_ok_with_policy)
  then show "leases_ok others [] (snd (complete_combined env pr a ok s))"
    using now by (simp add: complete_combined_def complete_attempt_def Let_def respects_leasesD(5) [OF assms(1)])
  show "fst (complete_combined env pr a ok s) = Inr ()"
    using now by (simp add: complete_combined_def complete_attempt_def Let_def)
qed

lemma release_combined_leases:
  assumes "respects_leases env others" "leases_ok others [fst a] s"
  shows "leases_ok others [] (release_combined env pr a s)"
proof -
  let ?p = "drop_attempt (dl_policy (fst s)) (env_now env s) (fst a)"
  have "lease_step (dl_policy (fst s), [] @ fst a # others (snd s)) (?p, [] @ others (snd s))"
    by (rule lease_step.Drop [OF respects_leasesD(1) [OF assms(1)]]) simp
  then have "leases_ok others [] (with_policy ?p s)"
    using lease_step_inv assms(2) [unfolded leases_ok_def] by (auto simp: leases_ok_with_policy)
  then show ?thesis by (simp add: release_combined_def release_shared_def respects_leasesD(6) [OF assms(1)])
qed

lemma deliver_target_leases:
  assumes "respects_leases env others" "leases_ok others [] s"
  shows "leases_ok others [] (snd (deliver_target gw env rid name reason target last_error s))"
proof (cases "cm_deployment_id target \<noteq> None \<and> \<not> cm_key_ready target")
  case True
  then show ?thesis using assms(2) by (simp add: deliver_target_def Let_def)
next
  case False
  obtain b s1 where begin_run: "begin_reliability_attempt env (delivery_id target) rid s = (b, s1)" by (meson surj_pair)
  note s1 = begin_attempt_leases [OF assms begin_run]
  show ?thesis
  proof (cases "\<exists>a. b = Inr (Some a)")
    case True
    then obtain a where a: "b = Inr (Some a)" by blast
    obtain oc s2 where loop: "send_loop gw env target (gw_retries gw)
        (retry_delays_with (gw_retries gw) RETRY_BASE_SECONDS RETRY_CAP_SECONDS (env_jitter env s1)) s1 = (oc, s2)"
      by (meson surj_pair)
    have s2: "leases_ok others [fst a] s2" using send_loop_leases [OF assms(1)] s1 a loop by (metis sum.case(2) option.case(2) snd_conv)
    note c = complete_combined_leases [OF assms(1) s2, of rid]
    show ?thesis
    proof (cases oc)
      case (Answered x)
      let ?c = "complete_combined env rid a (\<not> is_auth_failure (Some (br_status x))) s2"
      show ?thesis
        using False begin_run a loop Answered c(1) [of "\<not> is_auth_failure (Some (br_status x))"]
        by (cases ?c) (auto simp: deliver_target_def Let_def split: sum.splits)
    next
      case (GaveUp x)
      show ?thesis
        using False begin_run a loop GaveUp c(1) [of False]
        by (cases "complete_combined env rid a False s2") (auto simp: deliver_target_def Let_def split: sum.splits)
    next
      case (FatalError e)
      then show ?thesis
        using False begin_run a loop release_combined_leases [OF assms(1) s2] by (auto simp: deliver_target_def Let_def)
    qed
  next
    case none: False
    then show ?thesis
      using False begin_run s1 by (auto simp: deliver_target_def Let_def split: sum.splits option.splits)
  qed
qed

lemma deliver_targets_leases:
  assumes "respects_leases env others" "leases_ok others [] s"
  shows "leases_ok others [] (snd (deliver_targets gw env rid name reason targets last_error s))"
  using assms(2)
proof (induction targets arbitrary: last_error s)
  case (Cons t targets)
  obtain r s1 where one: "deliver_target gw env rid name reason t last_error s = (r, s1)" by (meson surj_pair)
  then have "leases_ok others [] s1" using deliver_target_leases [OF assms(1) Cons.prems] by (metis snd_conv)
  then show ?case using one by (cases r) (simp_all add: Cons.IH)
qed simp

text \<open>
  C19. No circuit is left without an owner: if the lease invariant holds for the leases of all requests
  when a delivery starts, it holds for the leases of the other requests when it returns, whatever it
  returned. Every half-open probe the delivery took has been completed or given back.
\<close>

theorem delivery_returns_every_lease:
  assumes "respects_leases env others" "leases_ok others [] s"
    and "deliver_with_reliability gw env plan request offline prompt_estimate s = (r, s')"
  shows "leases_ok others [] s'"
proof -
  have "leases_ok others [] (snd (deliver_plan gw env request offline prompt_estimate plan last_error s))" for last_error
    using assms(2)
  proof (induction plan arbitrary: last_error s)
    case (Cons a plan)
    have cursors: "leases_ok others [] (snd (take_candidates gw a s))"
      using Cons.prems by (auto simp: take_candidates_def leases_ok_def split: prod.splits)
    then have "leases_ok others [] (snd (deliver_alias gw env request offline prompt_estimate a last_error s))"
      by (cases "take_candidates gw a s")
        (auto simp: deliver_alias_def Let_def intro!: deliver_targets_leases [OF assms(1)])
    then show ?case
      by (cases "deliver_alias gw env request offline prompt_estimate a last_error s")
        (auto split: target_result.splits intro: Cons.IH)
  qed simp
  then show ?thesis using assms(3) by (metis deliver_with_reliability_def snd_conv)
qed

section \<open>A delivery answers\<close>

text \<open>The readiness flag of a model without extra deployments is that of its own credential.\<close>

definition keys_consistent :: "configured_model list \<Rightarrow> bool" where
  "keys_consistent models \<longleftrightarrow>
     (\<forall>m\<in>set models. cm_deployments m = [] \<longrightarrow> cm_key_ready m = (cm_api_key_env m = None \<or> cm_base_key_ready m))"

lemma keys_consistent_built: "keys_consistent [with_deployments ds (model_with_cost c (model_new name endpoint provider_model env ready))]"
  by (auto simp: keys_consistent_def with_deployments_def model_with_cost_def model_new_def Let_def)

text \<open>
  Whether a circuit of the shared state is open for a target; and a provider that answers at once with a
  status that is not to be retried.
\<close>

definition circuit_closed :: "delivery_state \<times> 'w \<Rightarrow> bool" where
  "circuit_closed s \<longleftrightarrow> br_opened_at (rl_breaker (dl_policy (fst s))) = Map.empty"

definition providers_answer :: "'w delivery_env \<Rightarrow> bool" where
  "providers_answer env \<longleftrightarrow>
     (\<forall>t s. case snd (fst (env_send env t s)) of Inl _ \<Rightarrow> False | Inr x \<Rightarrow> \<not> is_retryable (Some (br_status x))) \<and>
     (\<forall>s. validated_now (env_now env s) = Inr (env_now env s)) \<and> env_health_begin env = None"

lemma send_loop_answers:
  assumes "providers_answer env"
  shows "\<exists>x s'. send_loop gw env t n delays s = (Answered x, s')"
proof -
  obtain el r s1 where send: "env_send env t s = ((el, r), s1)" by (metis prod.exhaust)
  then obtain x where "r = Inr x" "\<not> is_retryable (Some (br_status x))"
    using assms unfolding providers_answer_def by (metis (mono_tags, lifting) fst_conv snd_conv sum.case_eq_if sum.collapse(2))
  then show ?thesis using send by (subst send_loop.simps) simp
qed

lemma deliver_target_answers:
  assumes "providers_answer env" "circuit_closed s" "cm_key_ready t"
  shows "\<exists>oc s'. deliver_target gw env rid name reason t last_error s = (Finished (Inr oc), s')"
proof -
  have now: "validated_now (env_now env x) = Inr (env_now env x)" for x using assms(1) by (simp add: providers_answer_def)
  let ?s1 = "with_policy ((dl_policy (fst s))\<lparr>rl_breaker := rl_breaker (dl_policy (fst s))\<rparr>) s"
  have begin_run: "begin_reliability_attempt env (delivery_id t) rid s = (Inr (Some ((delivery_id t, Closed), False)), ?s1)"
    using assms(1,2)
    by (simp add: begin_reliability_attempt_def providers_answer_def begin_local_def begin_attempt_def now begin_at_def
        circuit_closed_def)
  obtain x s2 where loop: "send_loop gw env t (gw_retries gw)
      (retry_delays_with (gw_retries gw) RETRY_BASE_SECONDS RETRY_CAP_SECONDS (env_jitter env ?s1)) ?s1 = (Answered x, s2)"
    using send_loop_answers [OF assms(1)] by blast
  let ?c = "complete_combined env rid ((delivery_id t, Closed), False) (\<not> is_auth_failure (Some (br_status x))) s2"
  have "fst ?c = Inr ()" by (simp add: complete_combined_def complete_attempt_def now Let_def)
  then show ?thesis
    using assms(3) begin_run loop by (cases ?c) (simp add: deliver_target_def Let_def)
qed

lemma candidates_eligible:
  assumes "keys_consistent (gw_models gw)"
    and "has_eligible_deployment_target (gw_loopback gw) (gw_local_network gw) (gw_models gw) alias request offline est"
  shows "eligible_deployment_targets (gw_loopback gw) (gw_local_network gw)
           (fst (deployment_candidates (gw_models gw) alias cursors)) request offline est \<noteq> []"
proof -
  obtain m where m: "find_model alias (gw_models gw) = Some m"
    using assms(2) by (auto simp: has_eligible_deployment_target_def configured_deployment_targets_def split: option.splits)
  then have mem: "m \<in> set (gw_models gw)" by (auto simp: find_model_def find_Some_iff)
  obtain d where d: "d \<in> set (deployment_targets m)"
    "target_eligible (gw_loopback gw) (gw_local_network gw) request offline est (for_deployment m d)"
    using assms(2) m by (auto simp: has_eligible_deployment_target_def configured_deployment_targets_def list_ex_iff)
  show ?thesis
  proof (cases "length (deployment_targets m) \<le> 1")
    case True
    then have single: "cm_deployments m = []" by (simp add: deployment_targets_def)
    then have "cm_key_ready m = (cm_api_key_env m = None \<or> cm_base_key_ready m)"
      using assms(1) mem by (auto simp: keys_consistent_def)
    moreover from this have "destination_of lb ln (for_deployment m d) = destination_of lb ln m" for lb ln
      using d(1) single
      by (cases "cm_tier m") (simp_all add: destination_of_def deployment_targets_def deployment_new_def for_deployment_def
          model_execution_boundary_def model_is_proven_local_def model_capabilities_def)
    ultimately have "target_eligible (gw_loopback gw) (gw_local_network gw) request offline est m"
      using d single
      by (simp add: target_eligible_def assess_model_def deployment_targets_def deployment_new_def for_deployment_def
          model_is_proven_local_def)
    then show ?thesis using m True by (simp add: eligible_deployment_targets_def deployment_candidates_def Let_def)
  next
    case False
    then have "for_deployment m d \<in> set (fst (deployment_candidates (gw_models gw) alias cursors))"
      using m d(1) mset_eq_setD [OF rotated_targets [of "deployment_targets m" "for_deployment m"]]
      by (simp add: deployment_candidates_def Let_def) (auto simp: deployment_targets_def)
    then show ?thesis using d(2) by (auto simp: eligible_deployment_targets_def filter_empty_conv)
  qed
qed

lemma selected_nonempty:
  assumes "sel_max_cost_per_1k policy = None" "ms \<noteq> []"
  shows "sl_targets (select_deployments policy clock store ms) \<noteq> []"
proof -
  have "sort_by le xs = [] \<longleftrightarrow> xs = []" for le and xs :: "configured_model list"
    using mset_sort_by [of le xs] by (metis mset_zero_iff)
  then show ?thesis using assms by (simp add: select_deployments_def apply_price_ceiling_def Let_def)
qed

text \<open>What the pre-flight check asks of an alias, for one without a price ceiling.\<close>

definition preflight_ok :: "delivery_gateway \<Rightarrow> routing_request \<Rightarrow> bool \<Rightarrow> u64 \<Rightarrow> str \<Rightarrow> bool" where
  "preflight_ok gw request offline est alias \<longleftrightarrow>
     has_eligible_deployment_target (gw_loopback gw) (gw_local_network gw) (gw_models gw) alias request offline est \<and>
     sel_max_cost_per_1k (selection_policy_of (gw_models gw) alias) = None"

lemma deliver_alias_answers:
  assumes "providers_answer env" "circuit_closed s" "find_model alias (gw_models gw) \<noteq> None"
    and "keys_consistent (gw_models gw)"
    and run: "deliver_alias gw env request offline est alias last_error s = (r, s')"
  shows "(\<exists>oc. r = Finished (Inr oc)) \<or>
    (\<not> preflight_ok gw request offline est alias \<and> (\<exists>p. r = Continue p) \<and> circuit_closed s')"
proof -
  obtain ms cursors where cand: "deployment_candidates (gw_models gw) alias (dl_cursors (fst s)) = (ms, cursors)"
    by fastforce
  define s1 where "s1 = ((fst s)\<lparr>dl_cursors := cursors\<rparr>, snd s)"
  define eligible where "eligible = eligible_deployment_targets (gw_loopback gw) (gw_local_network gw) ms request offline est"
  define selection where "selection = select_deployments (selection_policy_of (gw_models gw) alias) (env_signal_now env s1)
    (dl_signals (fst s1)) eligible"
  have closed: "circuit_closed s1" using assms(2) by (simp add: circuit_closed_def s1_def)
  have "ms \<noteq> []"
    using assms(3) length_deployment_candidates [of "gw_models gw" "alias" "dl_cursors (fst s)"] cand
    by (auto simp: configured_deployment_targets_def deployment_targets_def)
  note unfold = deliver_alias_branches [OF cand, of env request offline est last_error,
      folded s1_def, folded eligible_def, folded selection_def, unfolded run, simplified \<open>ms \<noteq> []\<close> if_False]
  have preflight: "eligible \<noteq> [] \<and> sl_targets selection \<noteq> []" if "preflight_ok gw request offline est alias"
    using that candidates_eligible [OF assms(4), of "alias" request offline est "dl_cursors (fst s)"] cand selected_nonempty
    by (simp add: preflight_ok_def eligible_def selection_def)
  show ?thesis
  proof (cases "eligible = [] \<or> sl_targets selection = []")
    case True
    then show ?thesis using unfold closed preflight by (auto split: if_splits)
  next
    case False
    then obtain t ts where t: "sl_targets selection = t # ts" by (cases "sl_targets selection") auto
    then have "t \<in> set (sl_targets (select_deployments (selection_policy_of (gw_models gw) alias) (env_signal_now env s1)
        (dl_signals (fst s1)) (eligible_deployment_targets (gw_loopback gw) (gw_local_network gw)
          (fst (deployment_candidates (gw_models gw) alias (dl_cursors (fst s)))) request offline est)))"
      using cand by (simp add: selection_def eligible_def)
    then have "cm_key_ready t" using selected_targets_are_safe by blast
    then obtain oc s2 where "deliver_target gw env (rq_request_id request) alias (sl_reason selection) t last_error s1 =
        (Finished (Inr oc), s2)"
      using deliver_target_answers [OF assms(1) closed] by blast
    then show ?thesis using unfold False t by simp
  qed
qed


section \<open>A sample delivery\<close>

text \<open>A provider that answers 429 to the first call and 200 afterwards; the world is the list of calls.\<close>

definition sample_env :: "configured_model list delivery_env" where
  "sample_env = \<lparr>env_send = (\<lambda>t s. ((Fin 1, Inr \<lparr>br_status = (if snd s = [] then 429 else 200), br_content_type = [], br_body = []\<rparr>),
       fst s, snd s @ [t])),
     env_sleep = (\<lambda>n s. s), env_now = (\<lambda>s. Fin 0), env_signal_now = (\<lambda>s. Fin 0), env_jitter = (\<lambda>s n. Fin 0),
     env_health_begin = None, env_health_complete = (\<lambda>t p ok s. s), env_health_release = (\<lambda>t p s. s)\<rparr>"

definition steady_env :: "configured_model list delivery_env" where
  "steady_env = sample_env\<lparr>env_send := (\<lambda>t s. ((Fin 1, Inr \<lparr>br_status = 200, br_content_type = [], br_body = []\<rparr>),
       fst s, snd s @ [t]))\<rparr>"

definition sample_gateway :: delivery_gateway where
  "sample_gateway = \<lparr>gw_models = [model_new [109] [] [] None True], gw_loopback = (\<lambda>e. True), gw_local_network = (\<lambda>e. False),
     gw_parse_json = (\<lambda>s. None), gw_retries = 1\<rparr>"

definition sample_delivery :: "delivery_state \<times> configured_model list" where
  "sample_delivery = (\<lparr>dl_cursors = [], dl_signals = [],
     dl_policy = \<lparr>rl_retries = 1, rl_failover = SameTier, rl_breaker_threshold = 5,
       rl_breaker_cooldown_ms = 30000, rl_breaker = breaker_default\<rparr>\<rparr>, [])"

lemma sample_records: "records_sends sample_env (\<lambda>w. w)"
  by (simp add: records_sends_def sample_env_def)

lemma sample_respects: "respects_leases sample_env (\<lambda>w. [])"
  by (auto simp: respects_leases_def sample_env_def leases_ok_def validated_now_def)

lemma sample_leases: "leases_ok (\<lambda>w. []) [] sample_delivery"
proof -
  have "breaker_inv breaker_default" "finite_times breaker_default"
    unfolding breaker_default_def
    by (intro breaker_inv_new, simp add: u64_max_def, simp add: finite_times_def breaker_new_def)
  then show ?thesis by (simp add: leases_ok_def lease_inv_def sample_delivery_def breaker_default_def breaker_new_def)
qed

definition sample_model :: configured_model where
  "sample_model = model_new [109] [] [] None True"

definition sample_run :: "(delivery_failure, delivery_outcome) result \<times> delivery_state \<times> configured_model list" where
  "sample_run = deliver_with_reliability sample_gateway sample_env [[109]] sample_request True 10 sample_delivery"

lemma sample_candidates: "take_candidates sample_gateway [109] sample_delivery = ([sample_model], sample_delivery)"
  by (simp add: take_candidates_def deployment_candidates_def find_model_def sample_gateway_def sample_delivery_def
      sample_model_def model_new_def deployment_targets_def)

lemma sample_target_eligible: "target_eligible (gw_loopback sample_gateway) (gw_local_network sample_gateway) sample_request True 10 sample_model"
  by (simp add: target_eligible_def is_eligible_def assess_model_def assess_destination_def
      destination_of_def model_execution_boundary_def model_is_proven_local_def model_capabilities_def sample_request_def
      precheck_ok_def sample_gateway_def sample_model_def model_new_def)

lemma sample_policy: "selection_policy_of (gw_models sample_gateway) [109] = selection_policy_default"
  by (simp add: selection_policy_of_def sample_gateway_def find_model_def model_new_def)

lemma sample_selected: "sl_targets (select_deployments selection_policy_default c [] [sample_model]) = [sample_model]"
  by (simp add: select_deployments_def selection_policy_default_def apply_price_ceiling_def Let_def)

lemma sample_loop:
  "\<exists>x p. send_loop sample_gateway sample_env sample_model 1 ds sample_delivery =
     (Answered x, (fst sample_delivery)\<lparr>dl_signals := p\<rparr>, [sample_model, sample_model])"
  apply (subst send_loop.simps)
  apply (subst (2) send_loop.simps)
  apply (simp add: sample_env_def sample_delivery_def is_retryable_def RETRYABLE_STATUS_def observe_deployment_def Let_def
      sleep_retry_def split: list.splits option.splits)
  done

lemma sample_target:
  "\<exists>oc s'. deliver_target sample_gateway sample_env rid n reason sample_model p sample_delivery =
     (Finished (Inr oc), s', [sample_model, sample_model])"
proof -
  have "begin_reliability_attempt sample_env (delivery_id sample_model) rid sample_delivery =
      (Inr (Some ((delivery_id sample_model, Closed), False)), sample_delivery)"
    by (simp add: begin_reliability_attempt_def begin_local_def begin_attempt_def validated_now_def begin_at_def sample_env_def
        sample_delivery_def with_policy_def breaker_default_def breaker_new_def)
  moreover have one: "gw_retries sample_gateway = 1" by (simp add: sample_gateway_def)
  moreover obtain x q where "send_loop sample_gateway sample_env sample_model (gw_retries sample_gateway)
      (retry_delays_with (gw_retries sample_gateway) RETRY_BASE_SECONDS RETRY_CAP_SECONDS (env_jitter sample_env sample_delivery))
      sample_delivery = (Answered x, (fst sample_delivery)\<lparr>dl_signals := q\<rparr>, [sample_model, sample_model])"
    using sample_loop [of "retry_delays_with 1 RETRY_BASE_SECONDS RETRY_CAP_SECONDS (env_jitter sample_env sample_delivery)"] one
    by (metis (no_types, lifting))
  ultimately show ?thesis
    by (simp add: deliver_target_def Let_def sample_model_def model_new_def complete_combined_def complete_attempt_def
        validated_now_def sample_env_def with_policy_def)
qed

lemma sample_run_result: "\<exists>oc s'. sample_run = (Inr oc, s', [sample_model, sample_model])"
proof -
  have "dl_signals (fst sample_delivery) = []" by (simp add: sample_delivery_def)
  then show ?thesis
    using sample_target [of "rq_request_id sample_request" "[109]"
        "sl_reason (select_deployments selection_policy_default (env_signal_now sample_env sample_delivery) [] [sample_model])" NoUpstream]
    by (auto simp: sample_run_def deliver_with_reliability_def deliver_alias_def sample_candidates sample_target_eligible
        eligible_deployment_targets_def sample_policy sample_selected Let_def)
qed

theorem delivery_stays_inside_witness:
  "\<exists>oc s'. sample_run = (Inr oc, s', [sample_model, sample_model]) \<and> served sample_gateway [109] oc sample_model \<and>
     deliverable sample_gateway sample_request True 10 [109] sample_model"
proof -
  obtain oc s' where run: "sample_run = (Inr oc, s', [sample_model, sample_model])" using sample_run_result by blast
  then show ?thesis
    using delivery_stays_inside [OF sample_records run [unfolded sample_run_def]] by (auto simp: sample_delivery_def)
qed

theorem delivery_attempts_bounded_witness:
  "length (snd (snd sample_run)) = 2 \<and> 2 \<le> Suc (gw_retries sample_gateway) * sum_list (map (pool_size sample_gateway) [[109]])"
proof -
  obtain oc s' where run: "sample_run = (Inr oc, s', [sample_model, sample_model])" using sample_run_result by blast
  then show ?thesis
    using delivery_attempts_bounded [OF sample_records run [unfolded sample_run_def]] by (simp add: run sample_delivery_def)
qed

theorem delivery_returns_every_lease_witness:
  "leases_ok (\<lambda>w. []) [] sample_delivery \<and> leases_ok (\<lambda>w. []) [] (snd sample_run)"
proof -
  obtain oc s' where run: "sample_run = (Inr oc, s', [sample_model, sample_model])" using sample_run_result by blast
  show ?thesis
    using delivery_returns_every_lease [OF sample_respects sample_leases run [unfolded sample_run_def]]
    by (simp add: run sample_leases)
qed


end
