(* ===== verification/Control_Plane.thy ===== *)
theory Control_Plane
  imports Reload Scoring Json "HOL-Library.Product_Lexorder"
begin

text \<open>
  The policy lifecycle of \<open>wayfinder-gateway/src/control_plane.rs\<close>: administrative identities, policy
  documents and their validation, the resolution of a request to a profile, and the activation and
  rollback of immutable runtime snapshots in the last-good holder of \<open>Reload\<close>.

  The reader and the printer of routing TOML, the JSON serialiser, SHA-256, the UUID generator and the
  audit log are parameters. A runtime snapshot (\<open>AppState\<close>) is what the preparation built, the handles
  that outlive a snapshot, and the policy it is stamped with; the handles are shared references, so what
  happens behind them is not part of a snapshot. A poisoned lock is not modelled.
\<close>

section \<open>Identities and documents\<close>

definition POLICY_SCHEMA_VERSION :: str where "POLICY_SCHEMA_VERSION = lit ''wf-policy-v1''"

definition MAX_ID_BYTES :: nat where "MAX_ID_BYTES = 128"

definition MAX_ROUTING_TOML_BYTES :: nat where "MAX_ROUTING_TOML_BYTES = 65536"

definition MAX_PROFILES :: nat where "MAX_PROFILES = 256"

definition MAX_BINDINGS :: nat where "MAX_BINDINGS = 4096"

definition MAX_ACTIVATION_HISTORY :: nat where "MAX_ACTIVATION_HISTORY = 256"

datatype audit_error =
    AuditLockPoisoned | AuditQueueFull | AuditWorkerUnavailable | AuditIo | AuditShared | AuditMultipleDestinations
  | AuditMetadataTooLarge | AuditSerialization | AuditRuntimeUnavailable

datatype lifecycle_error =
    InvalidIdentifier str
  | UnsupportedSchema str
  | InvalidProfileCount
  | TooManyBindings
  | DuplicateProfile str
  | MissingDefaultProfile
  | UnknownDefaultProfile str
  | UnknownProfile str
  | DuplicateBinding str
  | RoutingDocumentTooLarge
  | InvalidRouting str str
  | NonCanonicalRouting str
  | SerializationFailed
  | AuditFailed audit_error
  | RuntimePreparation str
  | NoRollbackTarget
  | MissingRuntime
  | SnapshotNotInstalled

definition is_ascii_control :: "nat \<Rightarrow> bool" where
  "is_ascii_control c \<longleftrightarrow> c < 32 \<or> c = 127"

text \<open>The bytes of a scalar value beyond ASCII are never ASCII control bytes.\<close>

definition validate_id :: "str \<Rightarrow> str \<Rightarrow> (lifecycle_error, unit) result" where
  "validate_id kind value =
     (if trim value = [] \<or> MAX_ID_BYTES < str_len value \<or> list_ex is_ascii_control value
      then Inl (InvalidIdentifier kind) else Inr ())"

record administrative_identity =
  ai_issuer :: str
  ai_subject :: str

definition identity_new :: "str \<Rightarrow> str \<Rightarrow> (lifecycle_error, administrative_identity) result" where
  "identity_new issuer subject =
     (case validate_id (lit ''administrative issuer'') issuer of
        Inl e \<Rightarrow> Inl e
      | Inr _ \<Rightarrow>
          (case validate_id (lit ''administrative subject'') subject of
             Inl e \<Rightarrow> Inl e
           | Inr _ \<Rightarrow> Inr \<lparr>ai_issuer = issuer, ai_subject = subject\<rparr>))"

definition audit_actor :: "administrative_identity \<Rightarrow> str" where
  "audit_actor i = ai_issuer i @ lit '':'' @ ai_subject i"

record policy_profile =
  pp_id :: str
  pp_routing_toml :: str

datatype binding_kind = Client | Workspace | Key

fun binding_rank :: "binding_kind \<Rightarrow> nat" where
  "binding_rank Client = 0"
| "binding_rank Workspace = 1"
| "binding_rank Key = 2"

lemma binding_rank_eq [simp]: "binding_rank a = binding_rank b \<longleftrightarrow> a = b"
  by (cases a; cases b) simp_all

instantiation binding_kind :: linorder
begin

definition less_eq_binding_kind :: "binding_kind \<Rightarrow> binding_kind \<Rightarrow> bool" where
  "less_eq_binding_kind a b \<longleftrightarrow> binding_rank a \<le> binding_rank b"

definition less_binding_kind :: "binding_kind \<Rightarrow> binding_kind \<Rightarrow> bool" where
  "less_binding_kind a b \<longleftrightarrow> binding_rank a < binding_rank b"

instance
  by standard (auto simp: less_eq_binding_kind_def less_binding_kind_def dest: antisym)

end

record policy_binding =
  pb_kind :: binding_kind
  pb_subject :: str
  pb_profile_id :: str

record policy_document =
  pd_schema_version :: str
  pd_profiles :: "policy_profile list"
  pd_default_profile_id :: "str option"
  pd_bindings :: "policy_binding list"

definition default_profile_id :: "policy_document \<Rightarrow> (lifecycle_error, str) result" where
  "default_profile_id d =
     (case pd_default_profile_id d of
        Some i \<Rightarrow> (case validate_id (lit ''default profile id'') i of Inl e \<Rightarrow> Inl e | Inr _ \<Rightarrow> Inr i)
      | None \<Rightarrow> (case pd_profiles d of [p] \<Rightarrow> Inr (pp_id p) | _ \<Rightarrow> Inl MissingDefaultProfile))"

text \<open>The first loop of the shape check, collecting the profile ids.\<close>

fun check_profiles :: "str list \<Rightarrow> policy_profile list \<Rightarrow> (lifecycle_error, str list) result" where
  "check_profiles ids [] = Inr ids"
| "check_profiles ids (p # ps) =
     (case validate_id (lit ''profile id'') (pp_id p) of
        Inl e \<Rightarrow> Inl e
      | Inr _ \<Rightarrow> if pp_id p \<in> set ids then Inl (DuplicateProfile (pp_id p)) else check_profiles (pp_id p # ids) ps)"

fun check_bindings ::
  "str list \<Rightarrow> (binding_kind \<times> str) list \<Rightarrow> policy_binding list \<Rightarrow> (lifecycle_error, unit) result" where
  "check_bindings ids targets [] = Inr ()"
| "check_bindings ids targets (b # bs) =
     (case validate_id (lit ''binding subject'') (pb_subject b) of
        Inl e \<Rightarrow> Inl e
      | Inr _ \<Rightarrow>
          (case validate_id (lit ''binding profile id'') (pb_profile_id b) of
             Inl e \<Rightarrow> Inl e
           | Inr _ \<Rightarrow>
               if pb_profile_id b \<notin> set ids then Inl (UnknownProfile (pb_profile_id b))
               else if (pb_kind b, pb_subject b) \<in> set targets then Inl (DuplicateBinding (pb_subject b))
               else check_bindings ids ((pb_kind b, pb_subject b) # targets) bs))"

definition validate_shape :: "policy_document \<Rightarrow> (lifecycle_error, unit) result" where
  "validate_shape d =
     (if pd_schema_version d \<noteq> POLICY_SCHEMA_VERSION then Inl (UnsupportedSchema (pd_schema_version d))
      else if pd_profiles d = [] \<or> MAX_PROFILES < length (pd_profiles d) then Inl InvalidProfileCount
      else if MAX_BINDINGS < length (pd_bindings d) then Inl TooManyBindings
      else
        case check_profiles [] (pd_profiles d) of
          Inl e \<Rightarrow> Inl e
        | Inr ids \<Rightarrow>
            (case default_profile_id d of
               Inl e \<Rightarrow> Inl e
             | Inr default_id \<Rightarrow>
                 if default_id \<notin> set ids then Inl (UnknownDefaultProfile default_id)
                 else check_bindings ids [] (pd_bindings d)))"

definition document_new_with_default ::
  "policy_profile list \<Rightarrow> policy_binding list \<Rightarrow> str option \<Rightarrow> (lifecycle_error, policy_document) result" where
  "document_new_with_default profiles bindings default_id =
     (let d = \<lparr>pd_schema_version = POLICY_SCHEMA_VERSION, pd_profiles = profiles,
               pd_default_profile_id = default_id, pd_bindings = bindings\<rparr>
      in case validate_shape d of Inl e \<Rightarrow> Inl e | Inr _ \<Rightarrow> Inr d)"

definition document_new ::
  "policy_profile list \<Rightarrow> policy_binding list \<Rightarrow> (lifecycle_error, policy_document) result" where
  "document_new profiles bindings =
     document_new_with_default profiles bindings
       (case profiles of
          [p] \<Rightarrow> Some (pp_id p)
        | _ \<Rightarrow> map_option pp_id (List.find (\<lambda>p. pp_id p = lit ''default'') profiles))"

text \<open>The reader and the printer of routing-only TOML.\<close>

record routing_format =
  rf_read :: "str \<Rightarrow> (str, routing_config) result"
  rf_print :: "routing_config \<Rightarrow> str"

definition profile_validate :: "routing_format \<Rightarrow> policy_profile \<Rightarrow> (lifecycle_error, routing_config) result" where
  "profile_validate fmt p =
     (case validate_id (lit ''profile id'') (pp_id p) of
        Inl e \<Rightarrow> Inl e
      | Inr _ \<Rightarrow>
          if MAX_ROUTING_TOML_BYTES < str_len (pp_routing_toml p) then Inl RoutingDocumentTooLarge
          else
            (case rf_read fmt (pp_routing_toml p) of
               Inl message \<Rightarrow> Inl (InvalidRouting (pp_id p) message)
             | Inr routing \<Rightarrow>
                 if rf_print fmt routing \<noteq> pp_routing_toml p then Inl (NonCanonicalRouting (pp_id p)) else Inr routing))"

definition profile_new :: "routing_format \<Rightarrow> str \<Rightarrow> routing_config \<Rightarrow> (lifecycle_error, policy_profile) result" where
  "profile_new fmt i routing =
     (let p = \<lparr>pp_id = i, pp_routing_toml = rf_print fmt routing\<rparr>
      in case profile_validate fmt p of Inl e \<Rightarrow> Inl e | Inr _ \<Rightarrow> Inr p)"

section \<open>Drafts and validated versions\<close>

record draft_version =
  dv_version_id :: str
  dv_document :: policy_document
  dv_drafted_by :: administrative_identity

record validated_policy =
  vp_version_id :: str
  vp_document :: policy_document
  vp_drafted_by :: administrative_identity
  vp_routing :: "(str \<times> routing_config) list"
  vp_bindings :: "((binding_kind \<times> str) \<times> str) list"
  vp_default_profile_id :: str

definition draft ::
  "(policy_document \<Rightarrow> nat list option) \<Rightarrow> (nat list \<Rightarrow> nat list) \<Rightarrow> policy_document \<Rightarrow> administrative_identity \<Rightarrow>
   (lifecycle_error, draft_version) result" where
  "draft to_vec digest d actor =
     (case validate_shape d of
        Inl e \<Rightarrow> Inl e
      | Inr _ \<Rightarrow>
          (case to_vec d of
             None \<Rightarrow> Inl SerializationFailed
           | Some encoded \<Rightarrow>
               Inr \<lparr>dv_version_id = lit ''wpv1-'' @ hex_encode (digest encoded), dv_document = d, dv_drafted_by = actor\<rparr>))"

fun read_profiles ::
  "routing_format \<Rightarrow> policy_profile list \<Rightarrow> (str \<times> routing_config) list \<Rightarrow>
   (lifecycle_error, (str \<times> routing_config) list) result" where
  "read_profiles fmt [] m = Inr m"
| "read_profiles fmt (p # ps) m =
     (case profile_validate fmt p of Inl e \<Rightarrow> Inl e | Inr routing \<Rightarrow> read_profiles fmt ps (bt_insert (pp_id p) routing m))"

definition binding_map :: "policy_binding list \<Rightarrow> ((binding_kind \<times> str) \<times> str) list" where
  "binding_map bs = fold (\<lambda>b. bt_insert (pb_kind b, pb_subject b) (pb_profile_id b)) bs []"

definition validate_draft :: "routing_format \<Rightarrow> draft_version \<Rightarrow> (lifecycle_error, validated_policy) result" where
  "validate_draft fmt dv =
     (case validate_shape (dv_document dv) of
        Inl e \<Rightarrow> Inl e
      | Inr _ \<Rightarrow>
          (case read_profiles fmt (pd_profiles (dv_document dv)) [] of
             Inl e \<Rightarrow> Inl e
           | Inr routing \<Rightarrow>
               (case default_profile_id (dv_document dv) of
                  Inl e \<Rightarrow> Inl e
                | Inr default_id \<Rightarrow>
                    Inr \<lparr>vp_version_id = dv_version_id dv, vp_document = dv_document dv, vp_drafted_by = dv_drafted_by dv,
                         vp_routing = routing, vp_bindings = binding_map (pd_bindings (dv_document dv)),
                         vp_default_profile_id = default_id\<rparr>)))"

record binding_context =
  bc_client_id :: "str option"
  bc_workspace_id :: "str option"
  bc_key_id :: "str option"

record resolved_profile =
  rp_profile_id :: str
  rp_binding_kind :: "binding_kind option"
  rp_routing :: routing_config

text \<open>Indexing the routing table panics on an absent profile: \<open>None\<close>.\<close>

fun resolve_in ::
  "validated_policy \<Rightarrow> (binding_kind \<times> str option) list \<Rightarrow> resolved_profile option" where
  "resolve_in vp [] =
     map_option (\<lambda>r. \<lparr>rp_profile_id = vp_default_profile_id vp, rp_binding_kind = None, rp_routing = r\<rparr>)
       (map_of (vp_routing vp) (vp_default_profile_id vp))"
| "resolve_in vp ((kind, None) # subjects) = resolve_in vp subjects"
| "resolve_in vp ((kind, Some subject) # subjects) =
     (case map_of (vp_bindings vp) (kind, subject) of
        None \<Rightarrow> resolve_in vp subjects
      | Some i \<Rightarrow>
          map_option (\<lambda>r. \<lparr>rp_profile_id = i, rp_binding_kind = Some kind, rp_routing = r\<rparr>) (map_of (vp_routing vp) i))"

definition resolve :: "validated_policy \<Rightarrow> binding_context \<Rightarrow> resolved_profile option" where
  "resolve vp ctx =
     resolve_in vp [(Key, bc_key_id ctx), (Workspace, bc_workspace_id ctx), (Client, bc_client_id ctx)]"

section \<open>The lifecycle\<close>

record policy_receipt =
  pr_policy_version :: str
  pr_snapshot_id :: str

text \<open>
  \<open>'c\<close> is what a preparation builds, \<open>'h\<close> the process-lifetime handles, the audit log among them.
\<close>

record ('c, 'h) app_state =
  as_config :: 'c
  as_handles :: 'h
  as_policy :: "validated_policy option"
  as_policy_version :: str
  as_policy_snapshot_id :: str

definition with_policy_receipt :: "policy_receipt \<Rightarrow> ('c, 'h) app_state \<Rightarrow> ('c, 'h) app_state" where
  "with_policy_receipt r s = s\<lparr>as_policy_version := pr_policy_version r, as_policy_snapshot_id := pr_snapshot_id r\<rparr>"

definition with_validated_policy :: "validated_policy \<Rightarrow> ('c, 'h) app_state \<Rightarrow> ('c, 'h) app_state" where
  "with_validated_policy p s = s\<lparr>as_policy := Some p\<rparr>"

definition with_runtime_state_from :: "('c, 'h) app_state \<Rightarrow> ('c, 'h) app_state \<Rightarrow> ('c, 'h) app_state" where
  "with_runtime_state_from previous s = s\<lparr>as_handles := as_handles previous\<rparr>"

record ('c, 'h) policy_lifecycle =
  pl_holder :: "(('c, 'h) app_state, str) last_good"
  pl_active :: policy_receipt
  pl_history :: "policy_receipt list"
  pl_runtimes :: "(str \<times> ('c, 'h) app_state) list"

record 'w control_env =
  ce_uuid :: "'w \<Rightarrow> str \<times> 'w"
  ce_audit :: "str \<Rightarrow> str \<Rightarrow> json option \<Rightarrow> json option \<Rightarrow> policy_receipt \<Rightarrow> 'w \<Rightarrow> (audit_error, unit) result \<times> 'w"

definition new_receipt :: "'w control_env \<Rightarrow> str \<Rightarrow> 'w \<Rightarrow> policy_receipt \<times> 'w" where
  "new_receipt env policy_version w =
     (case ce_uuid env w of
        (u, w') \<Rightarrow> (\<lparr>pr_policy_version = policy_version, pr_snapshot_id = lit ''wps1-'' @ u\<rparr>, w'))"

definition receipt_json :: "policy_receipt \<Rightarrow> json" where
  "receipt_json r = JObject [(lit ''policy_version'', JString (pr_policy_version r)), (lit ''snapshot_id'', JString (pr_snapshot_id r))]"

definition bootstrap ::
  "'w control_env \<Rightarrow> ('h \<Rightarrow> 'h) \<Rightarrow> validated_policy \<Rightarrow> (validated_policy \<Rightarrow> (str, ('c, 'h) app_state) result) \<Rightarrow>
   administrative_identity \<Rightarrow> 'w \<Rightarrow> (lifecycle_error, ('c, 'h) policy_lifecycle) result \<times> 'w" where
  "bootstrap env with_audit_log policy prepare actor w =
     (case new_receipt env (vp_version_id policy) w of
        (receipt, w1) \<Rightarrow>
          (case prepare policy of
             Inl e \<Rightarrow> (Inl (RuntimePreparation e), w1)
           | Inr prepared \<Rightarrow>
               (case ce_audit env (audit_actor actor) (lit ''policy.activate'') None
                       (Some (JObject [(lit ''source'', JString (lit ''bootstrap''))])) receipt w1 of
                  (Inl e, w2) \<Rightarrow> (Inl (AuditFailed e), w2)
                | (Inr _, w2) \<Rightarrow>
                    (let runtime = with_policy_receipt receipt (with_validated_policy policy
                           (prepared\<lparr>as_handles := with_audit_log (as_handles prepared)\<rparr>))
                     in (Inr \<lparr>pl_holder = last_good_new runtime (pr_snapshot_id receipt), pl_active = receipt,
                           pl_history = [], pl_runtimes = bt_insert (pr_snapshot_id receipt) runtime []\<rparr>, w2)))))"

datatype activation_outcome = Activated policy_receipt | ActivationRetained policy_receipt str

text \<open>Installing a snapshot under its id; the loader of the holder returns the given snapshot.\<close>

definition install_snapshot ::
  "str \<Rightarrow> ('c, 'h) app_state \<Rightarrow> (('c, 'h) app_state, str) last_good \<Rightarrow> (('c, 'h) app_state, str) last_good option" where
  "install_snapshot snapshot_id runtime holder =
     (case refresh snapshot_id (\<lambda>u. (Inr runtime :: (str, ('c, 'h) app_state) result, u)) holder () of
        (Reloaded _, holder', _) \<Rightarrow> Some holder'
      | _ \<Rightarrow> None)"

text \<open>The bookkeeping of a successful activation.\<close>

definition remember ::
  "policy_receipt \<Rightarrow> ('c, 'h) app_state \<Rightarrow> (('c, 'h) app_state, str) last_good \<Rightarrow> ('c, 'h) policy_lifecycle \<Rightarrow>
   ('c, 'h) policy_lifecycle" where
  "remember receipt runtime holder pl =
     (let runtimes = bt_insert (pr_snapshot_id receipt) runtime (pl_runtimes pl);
          kept = (if length (pl_history pl) = MAX_ACTIVATION_HISTORY
                  then (tl (pl_history pl), shift_remove (pr_snapshot_id (hd (pl_history pl))) runtimes)
                  else (pl_history pl, runtimes))
      in \<lparr>pl_holder = holder, pl_active = receipt, pl_history = fst kept @ [pl_active pl], pl_runtimes = snd kept\<rparr>)"

definition activate ::
  "'w control_env \<Rightarrow> validated_policy \<Rightarrow> (validated_policy \<Rightarrow> (str, ('c, 'h) app_state) result) \<Rightarrow>
   administrative_identity \<Rightarrow> ('c, 'h) policy_lifecycle \<Rightarrow> 'w \<Rightarrow>
   (lifecycle_error, activation_outcome) result \<times> ('c, 'h) policy_lifecycle \<times> 'w" where
  "activate env policy prepare actor pl w =
     (case new_receipt env (vp_version_id policy) w of
        (receipt, w1) \<Rightarrow>
          (case prepare policy of
             Inl e \<Rightarrow>
               (case ce_audit env (audit_actor actor) (lit ''policy.activate_failed'') None
                       (Some (JObject [(lit ''candidate_policy_version'', JString (pr_policy_version receipt)),
                                       (lit ''candidate_snapshot_id'', JString (pr_snapshot_id receipt)),
                                       (lit ''reason'', JString (lit ''runtime preparation failed''))]))
                       (pl_active pl) w1 of
                  (Inl a, w2) \<Rightarrow> (Inl (AuditFailed a), pl, w2)
                | (Inr _, w2) \<Rightarrow> (Inr (ActivationRetained (pl_active pl) e), pl, w2))
           | Inr prepared \<Rightarrow>
               (let runtime = with_policy_receipt receipt (with_validated_policy policy
                                (with_runtime_state_from (lg_current (pl_holder pl)) prepared))
                in case ce_audit env (audit_actor actor) (lit ''policy.activate'') (Some (receipt_json (pl_active pl))) None
                          receipt w1 of
                     (Inl a, w2) \<Rightarrow> (Inl (AuditFailed a), pl, w2)
                   | (Inr _, w2) \<Rightarrow>
                       (case install_snapshot (pr_snapshot_id receipt) runtime (pl_holder pl) of
                          None \<Rightarrow> (Inl SnapshotNotInstalled, pl, w2)
                        | Some holder \<Rightarrow> (Inr (Activated receipt), remember receipt runtime holder pl, w2)))))"

definition rollback ::
  "'w control_env \<Rightarrow> administrative_identity \<Rightarrow> ('c, 'h) policy_lifecycle \<Rightarrow> 'w \<Rightarrow>
   (lifecycle_error, policy_receipt) result \<times> ('c, 'h) policy_lifecycle \<times> 'w" where
  "rollback env actor pl w =
     (if pl_history pl = [] then (Inl NoRollbackTarget, pl, w)
      else
        let target = last (pl_history pl) in
        case new_receipt env (pr_policy_version target) w of
          (receipt, w1) \<Rightarrow>
            (case map_of (pl_runtimes pl) (pr_snapshot_id target) of
               None \<Rightarrow> (Inl MissingRuntime, pl, w1)
             | Some stored \<Rightarrow>
                 (let runtime = with_policy_receipt receipt (with_runtime_state_from (lg_current (pl_holder pl)) stored)
                  in case ce_audit env (audit_actor actor) (lit ''policy.rollback'') (Some (receipt_json (pl_active pl)))
                            (Some (JObject [(lit ''rolled_back_to'', JString (pr_policy_version target))])) receipt w1 of
                       (Inl a, w2) \<Rightarrow> (Inl (AuditFailed a), pl, w2)
                     | (Inr _, w2) \<Rightarrow>
                         (case install_snapshot (pr_snapshot_id receipt) runtime (pl_holder pl) of
                            None \<Rightarrow> (Inl SnapshotNotInstalled, pl, w2)
                          | Some holder \<Rightarrow>
                              (Inr receipt,
                               \<lparr>pl_holder = holder, pl_active = receipt, pl_history = butlast (pl_history pl),
                                pl_runtimes = shift_remove (pr_snapshot_id (pl_active pl))
                                  (bt_insert (pr_snapshot_id receipt) (lg_current holder) (pl_runtimes pl))\<rparr>, w2)))))"

section \<open>Resolution\<close>

definition binding_key :: "policy_binding \<Rightarrow> binding_kind \<times> str" where
  "binding_key b = (pb_kind b, pb_subject b)"

lemma check_profiles_ok:
  "check_profiles ids ps = Inr ids' \<Longrightarrow>
     set ids' = set ids \<union> pp_id ` set ps \<and> distinct (map pp_id ps) \<and> set ids \<inter> pp_id ` set ps = {}"
proof (induction ps arbitrary: ids)
  case (Cons p ps)
  then have fresh: "pp_id p \<notin> set ids" and step: "check_profiles (pp_id p # ids) ps = Inr ids'"
    by (auto split: sum.splits if_splits)
  then show ?case using Cons.IH [OF step] by auto
qed simp

lemma check_bindings_ok:
  "check_bindings ids targets bs = Inr () \<Longrightarrow>
     pb_profile_id ` set bs \<subseteq> set ids \<and> distinct (map binding_key bs) \<and> set targets \<inter> binding_key ` set bs = {}"
proof (induction bs arbitrary: targets)
  case (Cons b bs)
  then have "pb_profile_id b \<in> set ids" "binding_key b \<notin> set targets"
    and step: "check_bindings ids (binding_key b # targets) bs = Inr ()"
    by (auto simp: binding_key_def split: sum.splits if_splits)
  then show ?case using Cons.IH [OF step] by auto
qed simp

lemma validate_shape_ok:
  assumes "validate_shape d = Inr ()"
  shows "distinct (map pp_id (pd_profiles d))" "distinct (map binding_key (pd_bindings d))"
    "pb_profile_id ` set (pd_bindings d) \<subseteq> pp_id ` set (pd_profiles d)"
    "default_profile_id d = Inr i \<Longrightarrow> i \<in> pp_id ` set (pd_profiles d)"
proof -
  obtain ids where ids: "check_profiles [] (pd_profiles d) = Inr ids" "check_bindings ids [] (pd_bindings d) = Inr ()"
    "\<And>i. default_profile_id d = Inr i \<Longrightarrow> i \<in> set ids"
    using assms by (auto simp: validate_shape_def split: if_splits sum.splits)
  from check_profiles_ok [OF ids(1)] check_bindings_ok [OF ids(2)] ids(3)
  show "distinct (map pp_id (pd_profiles d))" "distinct (map binding_key (pd_bindings d))"
    "pb_profile_id ` set (pd_bindings d) \<subseteq> pp_id ` set (pd_profiles d)"
    "default_profile_id d = Inr i \<Longrightarrow> i \<in> pp_id ` set (pd_profiles d)"
    by auto
qed

lemma read_profiles_other:
  "read_profiles fmt ps m = Inr m' \<Longrightarrow> i \<notin> pp_id ` set ps \<Longrightarrow> map_of m' i = map_of m i"
  by (induction ps arbitrary: m) (auto simp: map_of_bt_insert split: sum.splits)

lemma read_profiles_ok:
  assumes "read_profiles fmt ps m = Inr m'" "distinct (map pp_id ps)" "p \<in> set ps"
  shows "\<exists>r. profile_validate fmt p = Inr r \<and> map_of m' (pp_id p) = Some r"
  using assms
proof (induction ps arbitrary: m)
  case (Cons q ps)
  then obtain r where r: "profile_validate fmt q = Inr r" "read_profiles fmt ps (bt_insert (pp_id q) r m) = Inr m'"
    by (auto split: sum.splits)
  show ?case
  proof (cases "p = q")
    case True
    then show ?thesis using r read_profiles_other [OF r(2), of "pp_id q"] Cons.prems(2) by (auto simp: map_of_bt_insert)
  next
    case False
    then show ?thesis using Cons.IH [OF r(2)] Cons.prems by auto
  qed
qed simp

lemma binding_map_lookup:
  assumes "distinct (map binding_key bs)"
  shows "map_of (binding_map bs) k = map_option pb_profile_id (List.find (\<lambda>b. binding_key b = k) bs)"
proof -
  have "map_of (fold (\<lambda>b. bt_insert (pb_kind b, pb_subject b) (pb_profile_id b)) bs m) k =
      (case List.find (\<lambda>b. binding_key b = k) bs of None \<Rightarrow> map_of m k | Some b \<Rightarrow> Some (pb_profile_id b))" for m
    using assms
  proof (induction bs arbitrary: m)
    case (Cons b bs)
    have "binding_key b \<notin> binding_key ` set bs" using Cons.prems by simp
    then have "List.find (\<lambda>x. binding_key x = binding_key b) bs = None" unfolding find_None_iff by (metis image_eqI)
    then show ?case using Cons by (auto simp: map_of_bt_insert binding_key_def split: option.splits)
  qed simp
  from this [of "[]"] show ?thesis by (simp add: binding_map_def option.case_eq_if map_option_case)
qed

text \<open>The profile a document binds an identity to, read off its list of bindings.\<close>

definition bound_profile :: "policy_document \<Rightarrow> binding_kind \<Rightarrow> str option \<Rightarrow> str option" where
  "bound_profile d kind subject =
     Option.bind subject (\<lambda>s. map_option pb_profile_id (List.find (\<lambda>b. binding_key b = (kind, s)) (pd_bindings d)))"

definition chosen_profile :: "policy_document \<Rightarrow> str \<Rightarrow> binding_context \<Rightarrow> str \<times> binding_kind option" where
  "chosen_profile d default_id ctx =
     (case bound_profile d Key (bc_key_id ctx) of Some i \<Rightarrow> (i, Some Key) | None \<Rightarrow>
      (case bound_profile d Workspace (bc_workspace_id ctx) of Some i \<Rightarrow> (i, Some Workspace) | None \<Rightarrow>
       (case bound_profile d Client (bc_client_id ctx) of Some i \<Rightarrow> (i, Some Client) | None \<Rightarrow> (default_id, None))))"

lemma resolve_in_cons:
  assumes "distinct (map binding_key (pd_bindings d))" "vp_bindings vp = binding_map (pd_bindings d)"
  shows "resolve_in vp ((kind, subject) # subjects) =
    (case bound_profile d kind subject of
       None \<Rightarrow> resolve_in vp subjects
     | Some i \<Rightarrow> map_option (\<lambda>r. \<lparr>rp_profile_id = i, rp_binding_kind = Some kind, rp_routing = r\<rparr>) (map_of (vp_routing vp) i))"
  using assms by (cases subject) (simp_all add: bound_profile_def binding_map_lookup)

lemma resolve_chosen:
  assumes "distinct (map binding_key (pd_bindings d))" "vp_bindings vp = binding_map (pd_bindings d)"
  shows "resolve vp ctx =
    (case chosen_profile d (vp_default_profile_id vp) ctx of
       (i, k) \<Rightarrow> map_option (\<lambda>r. \<lparr>rp_profile_id = i, rp_binding_kind = k, rp_routing = r\<rparr>) (map_of (vp_routing vp) i))"
  by (simp add: resolve_def resolve_in_cons [OF assms] chosen_profile_def split: option.splits)

lemma bound_profile_known: "bound_profile d kind s = Some i \<Longrightarrow> i \<in> pb_profile_id ` set (pd_bindings d)"
  by (auto simp: bound_profile_def bind_eq_Some_conv find_Some_iff)

lemma chosen_profile_known:
  assumes "validate_shape d = Inr ()" "default_profile_id d = Inr default_id"
  shows "fst (chosen_profile d default_id ctx) \<in> pp_id ` set (pd_profiles d)"
  using validate_shape_ok(3,4) [OF assms(1)] assms(2) bound_profile_known [of d]
  by (auto simp: chosen_profile_def split: option.splits)

text \<open>
  C32. Every validated policy resolves every request, without the panic of an absent profile: the most
  specific binding decides, key before workspace before client before the default, and the routing
  returned is the one its profile's text reads as, in canonical form.
\<close>

theorem resolution_is_total:
  assumes "validate_draft fmt dv = Inr vp"
  shows "\<exists>p\<in>set (pd_profiles (dv_document dv)). \<exists>r kind.
    chosen_profile (dv_document dv) (vp_default_profile_id vp) ctx = (pp_id p, kind) \<and>
    resolve vp ctx = Some \<lparr>rp_profile_id = pp_id p, rp_binding_kind = kind, rp_routing = r\<rparr> \<and>
    rf_read fmt (pp_routing_toml p) = Inr r \<and> rf_print fmt r = pp_routing_toml p"
proof -
  let ?d = "dv_document dv"
  have shape: "validate_shape ?d = Inr ()" and read: "read_profiles fmt (pd_profiles ?d) [] = Inr (vp_routing vp)"
    and default_ok: "default_profile_id ?d = Inr (vp_default_profile_id vp)"
    and map: "vp_bindings vp = binding_map (pd_bindings ?d)"
    using assms by (auto simp: validate_draft_def split: sum.splits)
  obtain i k where chosen: "chosen_profile ?d (vp_default_profile_id vp) ctx = (i, k)" by fastforce
  then obtain p where p: "p \<in> set (pd_profiles ?d)" "pp_id p = i"
    using chosen_profile_known [OF shape default_ok, of ctx] by auto
  from read_profiles_ok [OF read validate_shape_ok(1) [OF shape] p(1)]
  obtain r where "profile_validate fmt p = Inr r" "map_of (vp_routing vp) i = Some r" using p(2) by blast
  then show ?thesis
    using p chosen resolve_chosen [OF validate_shape_ok(2) [OF shape] map, of ctx]
    by (auto simp: profile_validate_def split: sum.splits if_splits)
qed

section \<open>Invariant of the lifecycle\<close>

declare lit_Cons [simp del]

definition stamped :: "policy_receipt \<Rightarrow> ('c, 'h) app_state \<Rightarrow> bool" where
  "stamped r s \<longleftrightarrow> as_policy_version s = pr_policy_version r \<and> as_policy_snapshot_id s = pr_snapshot_id r \<and>
     (\<exists>p. as_policy s = Some p \<and> vp_version_id p = pr_policy_version r)"

definition known_receipts :: "('c, 'h) policy_lifecycle \<Rightarrow> policy_receipt list" where
  "known_receipts pl = pl_active pl # pl_history pl"

lemma in_set_known: "pl_active pl \<in> set (known_receipts pl)" "r \<in> set (pl_history pl) \<Longrightarrow> r \<in> set (known_receipts pl)"
  by (simp_all add: known_receipts_def)

definition lifecycle_inv :: "('c, 'h) policy_lifecycle \<Rightarrow> bool" where
  "lifecycle_inv pl \<longleftrightarrow>
     sorted_keys (pl_runtimes pl) \<and> length (pl_history pl) \<le> MAX_ACTIVATION_HISTORY \<and>
     distinct (map pr_snapshot_id (known_receipts pl)) \<and>
     lg_version (pl_holder pl) = pr_snapshot_id (pl_active pl) \<and>
     map_of (pl_runtimes pl) (pr_snapshot_id (pl_active pl)) = Some (lg_current (pl_holder pl)) \<and>
     (\<forall>r\<in>set (known_receipts pl). \<exists>s. map_of (pl_runtimes pl) (pr_snapshot_id r) = Some s \<and> stamped r s)"

text \<open>The next UUID names no snapshot that is still known.\<close>

definition fresh_uuid :: "'w control_env \<Rightarrow> ('c, 'h) policy_lifecycle \<Rightarrow> 'w \<Rightarrow> bool" where
  "fresh_uuid env pl w \<longleftrightarrow>
     lit ''wps1-'' @ fst (ce_uuid env w) \<notin> pr_snapshot_id ` set (known_receipts pl) \<union> fst ` set (pl_runtimes pl)"

lemma install_snapshot_eq:
  "install_snapshot i s holder =
     (if i = lg_version holder then None else Some (holder\<lparr>lg_version := i, lg_current := s\<rparr>))"
  by (simp add: install_snapshot_def refresh_def Let_def)

lemma new_receipt_eq:
  "new_receipt env v w = (\<lparr>pr_policy_version = v, pr_snapshot_id = lit ''wps1-'' @ fst (ce_uuid env w)\<rparr>, snd (ce_uuid env w))"
  by (simp add: new_receipt_def split: prod.splits)

lemma bootstrap_inv: "bootstrap env au policy prepare actor w = (Inr pl, w') \<Longrightarrow> lifecycle_inv pl"
  by (auto simp: bootstrap_def new_receipt_eq lifecycle_inv_def known_receipts_def last_good_new_def stamped_def
      with_policy_receipt_def with_validated_policy_def Let_def split: sum.splits prod.splits)

text \<open>The two successful transitions, as functions of the new receipt and the new snapshot.\<close>

definition activated :: "policy_receipt \<Rightarrow> ('c, 'h) app_state \<Rightarrow> ('c, 'h) policy_lifecycle \<Rightarrow> ('c, 'h) policy_lifecycle" where
  "activated r s pl = remember r s ((pl_holder pl)\<lparr>lg_version := pr_snapshot_id r, lg_current := s\<rparr>) pl"

definition rolled_back :: "policy_receipt \<Rightarrow> ('c, 'h) app_state \<Rightarrow> ('c, 'h) policy_lifecycle \<Rightarrow> ('c, 'h) policy_lifecycle" where
  "rolled_back r s pl =
     \<lparr>pl_holder = (pl_holder pl)\<lparr>lg_version := pr_snapshot_id r, lg_current := s\<rparr>, pl_active = r,
      pl_history = butlast (pl_history pl),
      pl_runtimes = shift_remove (pr_snapshot_id (pl_active pl)) (bt_insert (pr_snapshot_id r) s (pl_runtimes pl))\<rparr>"

definition next_snapshot ::
  "policy_receipt \<Rightarrow> validated_policy \<Rightarrow> ('c, 'h) app_state \<Rightarrow> ('c, 'h) app_state \<Rightarrow> ('c, 'h) app_state" where
  "next_snapshot r policy current prepared =
     with_policy_receipt r (with_validated_policy policy (with_runtime_state_from current prepared))"

text \<open>An activation either changes nothing or is acknowledged by the audit log and installs its snapshot.\<close>

lemma activate_cases:
  assumes "activate env policy prepare actor pl w = (res, pl', w')"
  obtains "pl' = pl" "\<And>rc. res \<noteq> Inr (Activated rc)"
  | rc prepared w1 where "rc = fst (new_receipt env (vp_version_id policy) w)" "prepare policy = Inr prepared"
      "ce_audit env (audit_actor actor) (lit ''policy.activate'') (Some (receipt_json (pl_active pl))) None rc w1 = (Inr (), w')"
      "res = Inr (Activated rc)" "pr_snapshot_id rc \<noteq> lg_version (pl_holder pl)"
      "pl' = activated rc (next_snapshot rc policy (lg_current (pl_holder pl)) prepared) pl"
proof -
  define rc where "rc = fst (new_receipt env (vp_version_id policy) w)"
  define w1 where "w1 = snd (new_receipt env (vp_version_id policy) w)"
  have rc: "new_receipt env (vp_version_id policy) w = (rc, w1)" by (simp add: rc_def w1_def)
  show ?thesis
  proof (cases "prepare policy")
    case (Inl e)
    then show ?thesis using assms rc by (intro that(1)) (auto simp: activate_def split: prod.splits sum.splits)
  next
    case (Inr prepared)
    obtain a w2 where a: "ce_audit env (audit_actor actor) (lit ''policy.activate'') (Some (receipt_json (pl_active pl))) None rc w1 = (a, w2)"
      by fastforce
    show ?thesis
    proof (cases "a = Inr () \<and> pr_snapshot_id rc \<noteq> lg_version (pl_holder pl)")
      case True
      then show ?thesis
        using assms rc Inr a
        by (intro that(2) [OF rc_def Inr]) (auto simp: activate_def install_snapshot_eq activated_def next_snapshot_def Let_def)
    next
      case False
      then show ?thesis
        using assms rc Inr a by (intro that(1)) (auto simp: activate_def install_snapshot_eq Let_def split: sum.splits if_splits)
    qed
  qed
qed

lemma rollback_cases:
  assumes "rollback env actor pl w = (res, pl', w')"
  obtains "pl' = pl" "\<And>rc. res \<noteq> Inr rc"
  | rc stored w1 where "pl_history pl \<noteq> []" "rc = fst (new_receipt env (pr_policy_version (last (pl_history pl))) w)"
      "map_of (pl_runtimes pl) (pr_snapshot_id (last (pl_history pl))) = Some stored"
      "ce_audit env (audit_actor actor) (lit ''policy.rollback'') (Some (receipt_json (pl_active pl)))
        (Some (JObject [(lit ''rolled_back_to'', JString (pr_policy_version (last (pl_history pl))))])) rc w1 = (Inr (), w')"
      "res = Inr rc"
      "pl' = rolled_back rc (with_policy_receipt rc (with_runtime_state_from (lg_current (pl_holder pl)) stored)) pl"
proof -
  let ?t = "last (pl_history pl)"
  define rc where "rc = fst (new_receipt env (pr_policy_version ?t) w)"
  define w1 where "w1 = snd (new_receipt env (pr_policy_version ?t) w)"
  have rc: "new_receipt env (pr_policy_version ?t) w = (rc, w1)" by (simp add: rc_def w1_def)
  obtain a w2 where a: "ce_audit env (audit_actor actor) (lit ''policy.rollback'') (Some (receipt_json (pl_active pl)))
        (Some (JObject [(lit ''rolled_back_to'', JString (pr_policy_version ?t))])) rc w1 = (a, w2)"
    by fastforce
  show ?thesis
  proof (cases "pl_history pl \<noteq> [] \<and> map_of (pl_runtimes pl) (pr_snapshot_id ?t) \<noteq> None \<and> a = Inr () \<and>
      pr_snapshot_id rc \<noteq> lg_version (pl_holder pl)")
    case True
    then obtain stored where "map_of (pl_runtimes pl) (pr_snapshot_id ?t) = Some stored" by blast
    then show ?thesis
      using assms rc a True
      by (intro that(2) [OF _ rc_def, of stored]) (auto simp: rollback_def install_snapshot_eq rolled_back_def Let_def)
  next
    case False
    then show ?thesis
      using assms rc a
      by (intro that(1)) (auto simp: rollback_def install_snapshot_eq Let_def split: sum.splits if_splits option.splits)
  qed
qed

lemma activated_inv:
  assumes "lifecycle_inv pl" "pr_snapshot_id r \<notin> pr_snapshot_id ` set (known_receipts pl)" "stamped r s"
  shows "lifecycle_inv (activated r s pl)"
proof (cases "length (pl_history pl) = MAX_ACTIVATION_HISTORY")
  case True
  then obtain h hs where h: "pl_history pl = h # hs" by (cases "pl_history pl") (auto simp: MAX_ACTIVATION_HISTORY_def)
  show ?thesis
    using assms True h
    by (auto simp: lifecycle_inv_def activated_def remember_def known_receipts_def map_of_bt_insert map_of_shift_remove
        sorted_keys_bt_insert sorted_keys_shift_remove image_iff)
next
  case False
  then show ?thesis
    using assms
    by (auto simp: lifecycle_inv_def activated_def remember_def known_receipts_def map_of_bt_insert sorted_keys_bt_insert Let_def image_iff)
qed

lemma rolled_back_inv:
  assumes "lifecycle_inv pl" "pl_history pl \<noteq> []" "pr_snapshot_id r \<notin> pr_snapshot_id ` set (known_receipts pl)" "stamped r s"
  shows "lifecycle_inv (rolled_back r s pl)"
proof -
  obtain hs t where h: "pl_history pl = hs @ [t]" using assms(2) by (metis append_butlast_last_id)
  then show ?thesis
    using assms
    by (auto simp: lifecycle_inv_def rolled_back_def known_receipts_def map_of_bt_insert map_of_shift_remove
        sorted_keys_bt_insert sorted_keys_shift_remove image_iff)
qed

lemma activate_inv:
  assumes "lifecycle_inv pl" "fresh_uuid env pl w" "activate env policy prepare actor pl w = (res, pl', w')"
  shows "lifecycle_inv pl'"
  using assms(3)
proof (cases rule: activate_cases)
  case (2 rc prepared w1)
  then show ?thesis
    using assms(1,2) by (auto intro!: activated_inv simp: fresh_uuid_def new_receipt_eq stamped_def next_snapshot_def
        with_policy_receipt_def with_validated_policy_def)
qed (use assms(1) in simp)

lemma rollback_inv:
  assumes "lifecycle_inv pl" "fresh_uuid env pl w" "rollback env actor pl w = (res, pl', w')"
  shows "lifecycle_inv pl'"
  using assms(3)
proof (cases rule: rollback_cases)
  case (2 rc stored w1)
  then have "stamped (last (pl_history pl)) stored"
    using assms(1) by (metis in_set_known(2) last_in_set lifecycle_inv_def option.inject)
  then show ?thesis
    using 2 assms(1,2) by (auto intro!: rolled_back_inv simp: fresh_uuid_def new_receipt_eq stamped_def
        with_policy_receipt_def with_runtime_state_from_def)
qed (use assms(1) in simp)

text \<open>
  The states a controller reaches: a bootstrap, then activations and rollbacks in any order, with the
  world outside moving between them. UUIDs are fresh.
\<close>

inductive lifecycle_run :: "'w control_env \<Rightarrow> ('c, 'h) policy_lifecycle \<Rightarrow> 'w \<Rightarrow> bool" for env where
  Boot: "bootstrap env au policy prepare actor w = (Inr pl, w') \<Longrightarrow> lifecycle_run env pl w'"
| Activate: "lifecycle_run env pl w \<Longrightarrow> fresh_uuid env pl w \<Longrightarrow>
    activate env policy prepare actor pl w = (res, pl', w') \<Longrightarrow> lifecycle_run env pl' w'"
| Rollback: "lifecycle_run env pl w \<Longrightarrow> fresh_uuid env pl w \<Longrightarrow>
    rollback env actor pl w = (res', pl', w') \<Longrightarrow> lifecycle_run env pl' w'"
| Elapse: "lifecycle_run env pl w \<Longrightarrow> lifecycle_run env pl w'"

lemma lifecycle_run_inv: "lifecycle_run env pl w \<Longrightarrow> lifecycle_inv pl"
  by (induction rule: lifecycle_run.induct) (blast intro: bootstrap_inv activate_inv rollback_inv)+

definition audit_accepts :: "'w control_env \<Rightarrow> bool" where
  "audit_accepts env \<longleftrightarrow> (\<forall>actor action b a r w. fst (ce_audit env actor action b a r w) = Inr ())"

lemma rollback_runs:
  assumes "lifecycle_inv pl" "pl_history pl \<noteq> []" "fresh_uuid env pl w" "audit_accepts env"
  obtains rc s w' where "map_of (pl_runtimes pl) (pr_snapshot_id (last (pl_history pl))) = Some s"
    "stamped (last (pl_history pl)) s" "rc = fst (new_receipt env (pr_policy_version (last (pl_history pl))) w)"
    "rollback env actor pl w =
      (Inr rc, rolled_back rc (with_policy_receipt rc (with_runtime_state_from (lg_current (pl_holder pl)) s)) pl, w')"
proof -
  let ?t = "last (pl_history pl)" and ?n = "new_receipt env (pr_policy_version (last (pl_history pl))) w"
  obtain s where s: "map_of (pl_runtimes pl) (pr_snapshot_id ?t) = Some s" "stamped ?t s"
    using assms(1,2) by (force simp: lifecycle_inv_def known_receipts_def)
  obtain w2 where a: "ce_audit env (audit_actor actor) (lit ''policy.rollback'') (Some (receipt_json (pl_active pl)))
      (Some (JObject [(lit ''rolled_back_to'', JString (pr_policy_version ?t))])) (fst ?n) (snd ?n) = (Inr (), w2)"
    using assms(4) unfolding audit_accepts_def by (metis prod.collapse)
  have "pr_snapshot_id (fst ?n) \<noteq> lg_version (pl_holder pl)"
    using assms(1,3) by (auto simp: lifecycle_inv_def fresh_uuid_def known_receipts_def new_receipt_eq)
  then show ?thesis
    using that [OF s refl, of w2] assms(2) s(1) a by (simp add: rollback_def install_snapshot_eq rolled_back_def Let_def split_beta)
qed

text \<open>
  C33. Rollback always works. In every state a controller can reach with an activation to undo, and with
  the audit log accepting the record, rolling back installs the snapshot of the preceding activation
  under a new id: its policy version and its configuration serve again, with the handles of the
  current snapshot. The stored snapshot is never missing, whatever was activated, evicted or rolled back
  before, and the history stays within its limit.
\<close>

theorem rollback_always_works:
  assumes "lifecycle_run env pl w" "pl_history pl \<noteq> []" "fresh_uuid env pl w" "audit_accepts env"
  shows "\<exists>rc pl' w' s. rollback env actor pl w = (Inr rc, pl', w') \<and>
    map_of (pl_runtimes pl) (pr_snapshot_id (last (pl_history pl))) = Some s \<and>
    pr_policy_version rc = pr_policy_version (last (pl_history pl)) \<and>
    as_policy_version s = pr_policy_version rc \<and>
    pl_active pl' = rc \<and> pl_history pl' = butlast (pl_history pl) \<and> length (pl_history pl) \<le> MAX_ACTIVATION_HISTORY \<and>
    lg_current (pl_holder pl') = s\<lparr>as_handles := as_handles (lg_current (pl_holder pl)),
      as_policy_version := pr_policy_version rc, as_policy_snapshot_id := pr_snapshot_id rc\<rparr>"
proof -
  note inv = lifecycle_run_inv [OF assms(1)]
  obtain rc s w' where run: "map_of (pl_runtimes pl) (pr_snapshot_id (last (pl_history pl))) = Some s"
    "stamped (last (pl_history pl)) s" "rc = fst (new_receipt env (pr_policy_version (last (pl_history pl))) w)"
    "rollback env actor pl w =
      (Inr rc, rolled_back rc (with_policy_receipt rc (with_runtime_state_from (lg_current (pl_holder pl)) s)) pl, w')"
    by (rule rollback_runs [OF inv assms(2-4)])
  then show ?thesis
    using inv
    by (simp add: rolled_back_def with_policy_receipt_def with_runtime_state_from_def stamped_def new_receipt_eq lifecycle_inv_def)
qed

text \<open>
  No policy changes without a record. An activation or a rollback either leaves the lifecycle exactly
  as it was, or the audit log acknowledged the record of the very receipt that is now active, and the
  holder serves a snapshot stamped with it.
\<close>

theorem changes_are_audited:
  assumes "lifecycle_run env pl w" "fresh_uuid env pl w"
    and "snd (activate env policy prepare actor pl w) = (pl', w') \<or> snd (rollback env actor pl w) = (pl', w')"
  shows "pl' = pl \<or>
    (\<exists>action b a w1. ce_audit env (audit_actor actor) action b a (pl_active pl') w1 = (Inr (), w') \<and>
       pl_active pl' \<noteq> pl_active pl \<and> stamped (pl_active pl') (lg_current (pl_holder pl')))"
proof -
  note inv = lifecycle_run_inv [OF assms(1)]
  have serves: "lifecycle_inv pl' \<Longrightarrow> stamped (pl_active pl') (lg_current (pl_holder pl'))"
    using in_set_known(1) [of pl'] by (auto simp: lifecycle_inv_def)
  have new: "rc \<noteq> pl_active pl" if "rc = fst (new_receipt env v w)" for rc v
  proof -
    have "pr_snapshot_id rc \<noteq> pr_snapshot_id (pl_active pl)"
      using that assms(2) by (auto simp: fresh_uuid_def known_receipts_def new_receipt_eq)
    then show ?thesis by auto
  qed
  from assms(3) show ?thesis
  proof
    assume "snd (activate env policy prepare actor pl w) = (pl', w')"
    then obtain res where run: "activate env policy prepare actor pl w = (res, pl', w')" by (metis prod.collapse)
    from run show ?thesis
    proof (cases rule: activate_cases)
      case (2 rc prepared w1)
      then show ?thesis using new serves [OF activate_inv [OF inv assms(2) run]] by (auto simp: activated_def remember_def Let_def)
    qed simp
  next
    assume "snd (rollback env actor pl w) = (pl', w')"
    then obtain res where run: "rollback env actor pl w = (res, pl', w')" by (metis prod.collapse)
    from run show ?thesis
    proof (cases rule: rollback_cases)
      case (2 rc stored w1)
      then show ?thesis using new serves [OF rollback_inv [OF inv assms(2) run]] by (auto simp: rolled_back_def)
    qed simp
  qed
qed

section \<open>Activating and rolling back\<close>

lemma keys_shift_remove: "fst ` set (shift_remove k m) = fst ` set m - {k}"
  by (auto simp: shift_remove_def)

lemma length_card_keys: "sorted_keys m \<Longrightarrow> length m = card (fst ` set m)"
  using distinct_card [of "map fst m"] sorted_keys_distinct [of m] by (simp add: distinct_keys_def)

text \<open>What a rollback leaves of the activation it undoes.\<close>

lemma rollback_after_activate:
  assumes inv: "lifecycle_inv pl" and fresh: "fresh_uuid env pl w"
    and act: "activate env policy prepare actor pl w = (Inr (Activated rc), pl1, w1)"
    and fresh1: "fresh_uuid env pl1 w2" and audit: "audit_accepts env"
  obtains rc2 w3 prepared where "pl1 = activated rc (next_snapshot rc policy (lg_current (pl_holder pl)) prepared) pl"
    "rollback env actor2 pl1 w2 =
      (Inr rc2, rolled_back rc2 (with_policy_receipt rc2 (with_runtime_state_from (lg_current (pl_holder pl1)) (lg_current (pl_holder pl)))) pl1, w3)"
    "pr_policy_version rc2 = pr_policy_version (pl_active pl)" "pr_snapshot_id rc \<notin> fst ` set (pl_runtimes pl)"
    "pr_snapshot_id rc2 \<notin> fst ` set (pl_runtimes pl1)"
proof -
  from act obtain prepared where pl1: "pl1 = activated rc (next_snapshot rc policy (lg_current (pl_holder pl)) prepared) pl"
    and rc: "rc = fst (new_receipt env (vp_version_id policy) w)"
    by (cases rule: activate_cases) auto
  have target: "last (pl_history pl1) = pl_active pl" "pl_history pl1 \<noteq> []"
    by (simp_all add: pl1 activated_def remember_def Let_def)
  have inv1: "lifecycle_inv pl1" by (rule activate_inv [OF inv fresh act])
  have "pr_snapshot_id (pl_active pl) \<noteq> pr_snapshot_id rc"
    using fresh by (auto simp: rc fresh_uuid_def known_receipts_def new_receipt_eq)
  moreover have "pr_snapshot_id (pl_active pl) \<notin> pr_snapshot_id ` set (pl_history pl)"
    using inv by (simp add: lifecycle_inv_def known_receipts_def)
  ultimately have stored: "map_of (pl_runtimes pl1) (pr_snapshot_id (pl_active pl)) = Some (lg_current (pl_holder pl))"
    using inv
    by (cases "pl_history pl") (auto simp: pl1 activated_def remember_def Let_def map_of_bt_insert map_of_shift_remove
        lifecycle_inv_def MAX_ACTIVATION_HISTORY_def)
  obtain rc2 s w3 where undo: "map_of (pl_runtimes pl1) (pr_snapshot_id (last (pl_history pl1))) = Some s"
    "rc2 = fst (new_receipt env (pr_policy_version (last (pl_history pl1))) w2)"
    "rollback env actor2 pl1 w2 =
      (Inr rc2, rolled_back rc2 (with_policy_receipt rc2 (with_runtime_state_from (lg_current (pl_holder pl1)) s)) pl1, w3)"
    by (rule rollback_runs [OF inv1 target(2) fresh1 audit]) blast
  show ?thesis
    using that [OF pl1, of rc2 w3] undo target stored fresh fresh1 by (auto simp: fresh_uuid_def rc new_receipt_eq)
qed

text \<open>
  A rollback undoes an activation: the policy version, the policy and the configuration served
  before it are served again, and the history is the one from before, less the receipt that fell out
  when it was full.
\<close>

theorem rollback_undoes_activation:
  assumes "lifecycle_run env pl w" "fresh_uuid env pl w"
    and "activate env policy prepare actor pl w = (Inr (Activated rc), pl1, w1)"
    and "fresh_uuid env pl1 w2" "audit_accepts env"
  shows "\<exists>rc2 pl2 w3. rollback env actor2 pl1 w2 = (Inr rc2, pl2, w3) \<and>
    pr_policy_version (pl_active pl2) = pr_policy_version (pl_active pl) \<and>
    as_policy (lg_current (pl_holder pl2)) = as_policy (lg_current (pl_holder pl)) \<and>
    as_config (lg_current (pl_holder pl2)) = as_config (lg_current (pl_holder pl)) \<and>
    pl_history pl2 = (if length (pl_history pl) = MAX_ACTIVATION_HISTORY then tl (pl_history pl) else pl_history pl)"
proof -
  obtain rc2 w3 prepared where run: "pl1 = activated rc (next_snapshot rc policy (lg_current (pl_holder pl)) prepared) pl"
    "rollback env actor2 pl1 w2 = (Inr rc2, rolled_back rc2 (with_policy_receipt rc2
      (with_runtime_state_from (lg_current (pl_holder pl1)) (lg_current (pl_holder pl)))) pl1, w3)"
    "pr_policy_version rc2 = pr_policy_version (pl_active pl)"
    by (rule rollback_after_activate [OF lifecycle_run_inv [OF assms(1)] assms(2-5)]) blast
  then show ?thesis
    by (auto simp: rolled_back_def activated_def remember_def Let_def with_policy_receipt_def with_runtime_state_from_def)
qed

text \<open>
  C34. Snapshots of superseded receipts are never dropped. Activating a policy and rolling it back leaves
  the history as it was but one snapshot more in the table of runtimes, although its id is neither
  active nor in the history: repeating the two grows the table without bound.
\<close>

theorem rollback_leaks_a_snapshot:
  assumes "lifecycle_run env pl w" "fresh_uuid env pl w"
    and "activate env policy prepare actor pl w = (Inr (Activated rc), pl1, w1)"
    and "fresh_uuid env pl1 w2" "audit_accepts env" "length (pl_history pl) < MAX_ACTIVATION_HISTORY"
  shows "\<exists>rc2 pl2 w3. rollback env actor2 pl1 w2 = (Inr rc2, pl2, w3) \<and> pl_history pl2 = pl_history pl \<and>
    length (pl_runtimes pl2) = Suc (length (pl_runtimes pl)) \<and>
    pr_snapshot_id (pl_active pl) \<in> fst ` set (pl_runtimes pl2) \<and>
    pr_snapshot_id (pl_active pl) \<notin> pr_snapshot_id ` set (known_receipts pl2)"
proof -
  note inv = lifecycle_run_inv [OF assms(1)]
  obtain rc2 w3 prepared where run: "pl1 = activated rc (next_snapshot rc policy (lg_current (pl_holder pl)) prepared) pl"
    "rollback env actor2 pl1 w2 = (Inr rc2, rolled_back rc2 (with_policy_receipt rc2
      (with_runtime_state_from (lg_current (pl_holder pl1)) (lg_current (pl_holder pl)))) pl1, w3)"
    "pr_snapshot_id rc \<notin> fst ` set (pl_runtimes pl)" "pr_snapshot_id rc2 \<notin> fst ` set (pl_runtimes pl1)"
    by (rule rollback_after_activate [OF inv assms(2-5)]) blast
  let ?pl2 = "rolled_back rc2 (with_policy_receipt rc2
      (with_runtime_state_from (lg_current (pl_holder pl1)) (lg_current (pl_holder pl)))) pl1"
  have sorted: "sorted_keys (pl_runtimes pl)" and held: "pr_snapshot_id (pl_active pl) \<in> fst ` set (pl_runtimes pl)"
    using inv by (auto simp: lifecycle_inv_def dest!: map_of_Some_in_keys)
  have runtimes: "pl_runtimes pl1 = bt_insert (pr_snapshot_id rc) (next_snapshot rc policy (lg_current (pl_holder pl)) prepared) (pl_runtimes pl)"
    and active: "pl_active pl1 = rc" and history: "pl_history pl1 = pl_history pl @ [pl_active pl]"
    using assms(6) by (simp_all add: run(1) activated_def remember_def Let_def)
  have drop_a: "insert b (insert a K) - {a} = insert b K" if "a \<notin> K" "b \<noteq> a" for a b and K :: "str set"
    using that by auto
  have keys: "fst ` set (pl_runtimes ?pl2) = insert (pr_snapshot_id rc2) (fst ` set (pl_runtimes pl))"
    using run(3,4) by (simp add: rolled_back_def active keys_shift_remove keys_bt_insert runtimes drop_a)
  have "sorted_keys (pl_runtimes ?pl2)"
    using sorted by (simp add: rolled_back_def runtimes sorted_keys_bt_insert sorted_keys_shift_remove)
  then have "length (pl_runtimes ?pl2) = Suc (length (pl_runtimes pl))"
    using run(4) by (simp add: length_card_keys sorted keys) (simp add: runtimes keys_bt_insert)
  moreover have "pr_snapshot_id (pl_active pl) \<notin> pr_snapshot_id ` set (known_receipts ?pl2)"
  proof -
    have "pr_snapshot_id rc2 \<noteq> pr_snapshot_id (pl_active pl)" using held run(4) unfolding runtimes keys_bt_insert by (metis insertI2)
    then show ?thesis using inv by (auto simp: known_receipts_def rolled_back_def history lifecycle_inv_def)
  qed
  ultimately show ?thesis using run(2) held keys by (simp add: rolled_back_def history)
qed

section \<open>Samples\<close>

definition sample_format :: routing_format where
  "sample_format = \<lparr>rf_read = (\<lambda>t. Inr routing_config_default), rf_print = (\<lambda>r. [])\<rparr>"

definition sample_actor :: administrative_identity where
  "sample_actor = \<lparr>ai_issuer = [105], ai_subject = [115]\<rparr>"

text \<open>Two profiles, the key \<open>k\<close> bound to the second one and the first one the default.\<close>

definition sample_document :: policy_document where
  "sample_document = \<lparr>pd_schema_version = POLICY_SCHEMA_VERSION,
     pd_profiles = [\<lparr>pp_id = [97], pp_routing_toml = []\<rparr>, \<lparr>pp_id = [98], pp_routing_toml = []\<rparr>],
     pd_default_profile_id = Some [97],
     pd_bindings = [\<lparr>pb_kind = Key, pb_subject = [107], pb_profile_id = [98]\<rparr>]\<rparr>"

definition sample_draft :: draft_version where
  "sample_draft = \<lparr>dv_version_id = [118], dv_document = sample_document, dv_drafted_by = sample_actor\<rparr>"

lemma sample_ids: "validate_id k [97] = Inr ()" "validate_id k [98] = Inr ()" "validate_id k [107] = Inr ()"
  by (simp_all add: validate_id_def trim_def is_whitespace_def MAX_ID_BYTES_def str_len_def len_utf8_def is_ascii_control_def)

lemma sample_validates: "validate_draft sample_format sample_draft =
    Inr \<lparr>vp_version_id = [118], vp_document = sample_document, vp_drafted_by = sample_actor,
      vp_routing = [([97], routing_config_default), ([98], routing_config_default)],
      vp_bindings = [((Key, [107]), [98])], vp_default_profile_id = [97]\<rparr>"
  by (simp add: validate_draft_def sample_draft_def sample_document_def validate_shape_def MAX_PROFILES_def MAX_BINDINGS_def
      default_profile_id_def sample_ids profile_validate_def MAX_ROUTING_TOML_BYTES_def str_len_def sample_format_def
      binding_map_def)

theorem resolution_is_total_witness:
  "\<exists>vp rp. validate_draft sample_format sample_draft = Inr vp \<and>
     resolve vp \<lparr>bc_client_id = None, bc_workspace_id = Some [119], bc_key_id = Some [107]\<rparr> = Some rp \<and>
     rp_profile_id rp = [98] \<and> rp_binding_kind rp = Some Key"
  using resolution_is_total [OF sample_validates, of "\<lparr>bc_client_id = None, bc_workspace_id = Some [119], bc_key_id = Some [107]\<rparr>"]
    sample_validates
  by (auto simp: chosen_profile_def bound_profile_def sample_draft_def sample_document_def binding_key_def)

text \<open>A world that counts UUIDs, and an audit log that accepts everything.\<close>

definition sample_control :: "nat control_env" where
  "sample_control = \<lparr>ce_uuid = (\<lambda>w. (replicate w 48, Suc w)), ce_audit = (\<lambda>actor action b a r w. (Inr (), w))\<rparr>"

definition sample_policy_version :: validated_policy where
  "sample_policy_version = \<lparr>vp_version_id = [118], vp_document = sample_document, vp_drafted_by = sample_actor,
     vp_routing = [], vp_bindings = [], vp_default_profile_id = [97]\<rparr>"

definition sample_prepare :: "nat \<Rightarrow> validated_policy \<Rightarrow> (str, (nat, unit) app_state) result" where
  "sample_prepare c p = Inr \<lparr>as_config = c, as_handles = (), as_policy = None, as_policy_version = [], as_policy_snapshot_id = []\<rparr>"

definition sample_boot :: "(nat, unit) policy_lifecycle" where
  "sample_boot = (case bootstrap sample_control (\<lambda>h. h) sample_policy_version (sample_prepare 1) sample_actor 0 of
     (Inr pl, w) \<Rightarrow> pl | (Inl e, w) \<Rightarrow> undefined)"

definition sample_active :: "(nat, unit) policy_lifecycle" where
  "sample_active = fst (snd (activate sample_control sample_policy_version (sample_prepare 2) sample_actor sample_boot 1))"

lemma sample_audit: "audit_accepts sample_control"
  by (simp add: audit_accepts_def sample_control_def)

lemmas sample_defs = sample_control_def sample_policy_version_def sample_prepare_def new_receipt_def last_good_new_def Let_def
  with_policy_receipt_def with_validated_policy_def with_runtime_state_from_def

lemma sample_bootstrap: "bootstrap sample_control (\<lambda>h. h) sample_policy_version (sample_prepare 1) sample_actor 0 = (Inr sample_boot, 1)"
  by (simp add: sample_boot_def bootstrap_def sample_defs)

lemma sample_boot_run: "lifecycle_run sample_control sample_boot 1"
  by (rule lifecycle_run.Boot [OF sample_bootstrap])

lemma sample_boot_eq: "pl_active sample_boot = \<lparr>pr_policy_version = [118], pr_snapshot_id = lit ''wps1-''\<rparr>"
    "pl_history sample_boot = []" "map fst (pl_runtimes sample_boot) = [lit ''wps1-'']"
    "lg_version (pl_holder sample_boot) = lit ''wps1-''"
  by (simp_all add: sample_boot_def bootstrap_def sample_defs)

lemma sample_boot_fresh: "fresh_uuid sample_control sample_boot 1"
  using arg_cong [OF sample_boot_eq(3), of set]
  by (simp add: fresh_uuid_def known_receipts_def sample_boot_eq(1,2) sample_control_def)

lemma sample_activation:
  "\<exists>rc. activate sample_control sample_policy_version (sample_prepare 2) sample_actor sample_boot 1 = (Inr (Activated rc), sample_active, 2) \<and>
     pr_snapshot_id rc = lit ''wps1-'' @ [48]"
  by (simp add: sample_active_def activate_def install_snapshot_eq sample_boot_eq sample_defs numeral_2_eq_2)

lemma sample_active_fresh: "fresh_uuid sample_control sample_active 2"
proof -
  obtain rc where rc: "activate sample_control sample_policy_version (sample_prepare 2) sample_actor sample_boot 1 = (Inr (Activated rc), sample_active, 2)"
    "pr_snapshot_id rc = lit ''wps1-'' @ [48]"
    using sample_activation by blast
  from rc(1) obtain p where active: "sample_active = activated rc (next_snapshot rc sample_policy_version (lg_current (pl_holder sample_boot)) p) sample_boot"
    by (cases rule: activate_cases) auto
  have "fst ` set (pl_runtimes sample_boot) = {lit ''wps1-''}" using arg_cong [OF sample_boot_eq(3), of set] by simp
  then show ?thesis
    by (simp add: active rc(2) fresh_uuid_def known_receipts_def activated_def remember_def MAX_ACTIVATION_HISTORY_def sample_boot_eq
        sample_control_def keys_bt_insert numeral_2_eq_2)
qed

lemma sample_active_run: "lifecycle_run sample_control sample_active 2"
  using sample_activation lifecycle_run.Activate [OF sample_boot_run sample_boot_fresh] by blast

lemma sample_active_history: "pl_history sample_active = [pl_active sample_boot]"
  by (simp add: sample_active_def activate_def install_snapshot_eq sample_boot_eq sample_defs remember_def MAX_ACTIVATION_HISTORY_def)

theorem rollback_always_works_witness:
  "\<exists>rc pl w. rollback sample_control sample_actor sample_active 2 = (Inr rc, pl, w) \<and> pr_policy_version rc = [118]"
  using rollback_always_works [OF sample_active_run _ sample_active_fresh sample_audit, of sample_actor]
  by (auto simp: sample_active_history sample_boot_eq)

theorem changes_are_audited_witness:
  "pl_active sample_active \<noteq> pl_active sample_boot \<and> stamped (pl_active sample_active) (lg_current (pl_holder sample_active))"
proof -
  have "snd (activate sample_control sample_policy_version (sample_prepare 2) sample_actor sample_boot 1) = (sample_active, 2)"
    using sample_activation by auto
  moreover have "sample_active \<noteq> sample_boot" using sample_active_history sample_boot_eq(2) by auto
  ultimately show ?thesis using changes_are_audited [OF sample_boot_run sample_boot_fresh] by blast
qed

theorem rollback_undoes_activation_witness:
  "\<exists>rc pl w. rollback sample_control sample_actor sample_active 2 = (Inr rc, pl, w) \<and>
     as_config (lg_current (pl_holder pl)) = as_config (lg_current (pl_holder sample_boot)) \<and> pl_history pl = []"
proof -
  obtain rc where "activate sample_control sample_policy_version (sample_prepare 2) sample_actor sample_boot 1 = (Inr (Activated rc), sample_active, 2)"
    using sample_activation by blast
  from rollback_undoes_activation [OF sample_boot_run sample_boot_fresh this sample_active_fresh sample_audit, of sample_actor]
  show ?thesis by (auto simp: sample_boot_eq MAX_ACTIVATION_HISTORY_def)
qed

theorem rollback_leaks_a_snapshot_witness:
  "\<exists>rc pl w. rollback sample_control sample_actor sample_active 2 = (Inr rc, pl, w) \<and> pl_history pl = [] \<and> length (pl_runtimes pl) = 2"
proof -
  obtain rc where act: "activate sample_control sample_policy_version (sample_prepare 2) sample_actor sample_boot 1 = (Inr (Activated rc), sample_active, 2)"
    using sample_activation by blast
  have "length (pl_runtimes sample_boot) = 1" using arg_cong [OF sample_boot_eq(3), of length] by simp
  with rollback_leaks_a_snapshot [OF sample_boot_run sample_boot_fresh act sample_active_fresh sample_audit, of sample_actor]
  show ?thesis by (auto simp: sample_boot_eq MAX_ACTIVATION_HISTORY_def)
qed

end
