(* ===== verification/Operator_Auth.thy ===== *)
theory Operator_Auth
  imports Access
begin

text \<open>
  Authorization of the operator surface (\<open>wayfinder-gateway/src/operator_auth.rs\<close>): bearer tokens,
  validation of the claims of an RS256 token, the bounded fetch of the signing keys and the cache that
  keeps them, and the middleware in front of the operator routes.

  Parameters, in \<open>token_codec\<close>: base64url, the derived decoders of JSON documents and RSA verification. In
  \<open>operator_env\<close>: the two clocks, the HTTP client, and waiting for the refresh lock, during which other
  requests may refresh the cache. Instants and durations are nanoseconds.
\<close>

section \<open>Configuration\<close>

definition JWKS_CACHE_TTL :: nat where "JWKS_CACHE_TTL = 300 * 10 ^ 9"

definition JWKS_REFRESH_COOLDOWN :: nat where "JWKS_REFRESH_COOLDOWN = 5 * 10 ^ 9"

definition MAX_TOKEN_BYTES :: nat where "MAX_TOKEN_BYTES = 16 * 1024"

definition MAX_JWKS_KEYS :: nat where "MAX_JWKS_KEYS = 64"

definition MAX_JWKS_BYTES :: nat where "MAX_JWKS_BYTES = 256 * 1024"

definition MAX_JWK_COMPONENT_BYTES :: nat where "MAX_JWK_COMPONENT_BYTES = 1024"

definition CLOCK_SKEW_SECONDS :: f64 where "CLOCK_SKEW_SECONDS = Fin 60"

datatype operator_mode = Oidc | Both

datatype operator_config_error = MissingConfiguration | ClientFailed | InvalidJwksUrl

datatype operator_failure = Unauthorized | Forbidden | Unavailable

record operator_authenticator =
  oa_mode :: operator_mode
  oa_issuer :: str
  oa_audience :: str
  oa_jwks_url :: str
  oa_admin_claim :: str

record auth_config =
  ac_mode :: str
  ac_issuer :: "str option"
  ac_audience :: "str option"
  ac_jwks_url :: "str option"
  ac_admin_claim :: str

text \<open>What the URL library says of an address.\<close>

record parsed_url =
  pu_scheme :: str
  pu_loopback_host :: bool
  pu_username :: str
  pu_password :: "str option"
  pu_fragment :: "str option"

definition configured :: "str option \<Rightarrow> (operator_config_error, str) result" where
  "configured v = (case v of None \<Rightarrow> Inl MissingConfiguration | Some s \<Rightarrow> if s = [] then Inl MissingConfiguration else Inr s)"

definition jwks_url_ok :: "parsed_url \<Rightarrow> bool" where
  "jwks_url_ok u \<longleftrightarrow>
     (pu_scheme u = lit ''https'' \<or> (pu_scheme u = lit ''http'' \<and> pu_loopback_host u)) \<and>
     pu_username u = [] \<and> pu_password u = None \<and> pu_fragment u = None"

definition authenticator_from_config ::
  "(str \<Rightarrow> parsed_url option) \<Rightarrow> bool \<Rightarrow> auth_config \<Rightarrow> (operator_config_error, operator_authenticator option) result" where
  "authenticator_from_config parse_url client_builds c =
     (let mode = (if ac_mode c = lit ''oidc'' then Some Oidc else if ac_mode c = lit ''both'' then Some Both else None) in
      case mode of
        None \<Rightarrow> Inr None
      | Some m \<Rightarrow>
          (case configured (ac_issuer c) of
             Inl e \<Rightarrow> Inl e
           | Inr issuer \<Rightarrow>
               (case configured (ac_audience c) of
                  Inl e \<Rightarrow> Inl e
                | Inr audience \<Rightarrow>
                    (case configured (ac_jwks_url c) of
                       Inl e \<Rightarrow> Inl e
                     | Inr url \<Rightarrow>
                         (case parse_url url of
                            None \<Rightarrow> Inl InvalidJwksUrl
                          | Some u \<Rightarrow>
                              if \<not> jwks_url_ok u then Inl InvalidJwksUrl
                              else if \<not> client_builds then Inl ClientFailed
                              else Inr (Some \<lparr>oa_mode = m, oa_issuer = issuer, oa_audience = audience,
                                     oa_jwks_url = url, oa_admin_claim = ac_admin_claim c\<rparr>))))))"

section \<open>Tokens and claims\<close>

record jwt_header =
  jh_alg :: str
  jh_kid :: str

record jwk_document =
  jd_kid :: str
  jd_kty :: str
  jd_alg :: "str option"
  jd_use :: "str option"
  jd_n :: str
  jd_e :: str

record rsa_jwk =
  rk_kid :: str
  rk_modulus :: "nat list"
  rk_exponent :: "nat list"

record token_codec =
  tc_base64url :: "str \<Rightarrow> nat list option"
  tc_header :: "nat list \<Rightarrow> jwt_header option"
  tc_claims :: "nat list \<Rightarrow> json option"
  tc_jwks :: "nat list \<Rightarrow> jwk_document list option"
  tc_rsa_verify :: "nat list \<Rightarrow> nat list \<Rightarrow> str \<Rightarrow> nat list \<Rightarrow> bool"

text \<open>\<open>str::split_once\<close> and \<open>str::split\<close> on a character.\<close>

fun split_once_char :: "nat \<Rightarrow> str \<Rightarrow> (str \<times> str) option" where
  "split_once_char c [] = None"
| "split_once_char c (x # xs) =
     (if x = c then Some ([], xs) else map_option (\<lambda>(a, b). (x # a, b)) (split_once_char c xs))"

fun split_char :: "nat \<Rightarrow> str \<Rightarrow> str list" where
  "split_char c [] = [[]]"
| "split_char c (x # xs) =
     (if x = c then [] # split_char c xs
      else case split_char c xs of [] \<Rightarrow> [[x]] | s # ss \<Rightarrow> (x # s) # ss)"

definition bearer_token :: "str option \<Rightarrow> str option" where
  "bearer_token authorization =
     Option.bind authorization (\<lambda>a.
       case split_once_char 32 (trim a) of
         None \<Rightarrow> None
       | Some (scheme, token) \<Rightarrow>
           if to_ascii_lowercase scheme = lit ''bearer'' \<and> trim token \<noteq> [] then Some (trim token) else None)"

definition decode_json :: "token_codec \<Rightarrow> (nat list \<Rightarrow> 'a option) \<Rightarrow> str \<Rightarrow> (operator_failure, 'a) result" where
  "decode_json codec from_slice segment =
     (case Option.bind (tc_base64url codec segment) from_slice of None \<Rightarrow> Inl Unauthorized | Some v \<Rightarrow> Inr v)"

definition numeric_value :: "json \<Rightarrow> f64 option" where
  "numeric_value v = (case as_f64 v of Some x \<Rightarrow> Some x | None \<Rightarrow> map_option f64_of_nat (as_u64 v))"

definition numeric_claim :: "json \<Rightarrow> str \<Rightarrow> (operator_failure, f64) result" where
  "numeric_claim claims name =
     (case Option.bind (jget claims name) numeric_value of
        None \<Rightarrow> Inl Unauthorized
      | Some x \<Rightarrow> if is_finite x then Inr x else Inl Unauthorized)"

fun claim_value_allows :: "json \<Rightarrow> bool" where
  "claim_value_allows (JBool b) = b"
| "claim_value_allows (JString s) \<longleftrightarrow> to_ascii_lowercase s \<in> {lit ''true'', lit ''admin'', lit ''operator''}"
| "claim_value_allows (JArray xs) = list_ex claim_value_allows xs"
| "claim_value_allows _ = False"

definition claim_allows_operator :: "json option \<Rightarrow> bool" where
  "claim_allows_operator v = (case v of None \<Rightarrow> False | Some x \<Rightarrow> claim_value_allows x)"

definition audience_matches :: "str \<Rightarrow> json \<Rightarrow> bool" where
  "audience_matches audience claims =
     (case jget claims (lit ''aud'') of
        Some (JString v) \<Rightarrow> v = audience
      | Some (JArray vs) \<Rightarrow> list_ex (\<lambda>v. as_str v = Some audience) vs
      | _ \<Rightarrow> False)"

definition validate_claims :: "operator_authenticator \<Rightarrow> f64 \<Rightarrow> json \<Rightarrow> (operator_failure, str) result" where
  "validate_claims oa now claims =
     (if Option.bind (jget claims (lit ''iss'')) as_str \<noteq> Some (oa_issuer oa) then Inl Unauthorized
      else if \<not> audience_matches (oa_audience oa) claims then Inl Unauthorized
      else
        case numeric_claim claims (lit ''exp'') of
          Inl e \<Rightarrow> Inl e
        | Inr expires \<Rightarrow>
            if expires \<le> now then Inl Unauthorized
            else if (case jget claims (lit ''nbf'') of
                       None \<Rightarrow> False
                     | Some v \<Rightarrow> (case numeric_value v of None \<Rightarrow> True | Some nb \<Rightarrow> now + CLOCK_SKEW_SECONDS < nb))
            then Inl Unauthorized
            else
              case Option.bind (jget claims (lit ''sub'')) as_str of
                None \<Rightarrow> Inl Unauthorized
              | Some subject \<Rightarrow>
                  if subject = [] then Inl Unauthorized
                  else if \<not> claim_allows_operator (jget claims (oa_admin_claim oa)) then Inl Forbidden
                  else Inr subject)"

definition try_from_document :: "token_codec \<Rightarrow> jwk_document \<Rightarrow> rsa_jwk option" where
  "try_from_document codec d =
     (if jd_kty d \<noteq> lit ''RSA'' \<or> jd_kid d = [] \<or> 128 < str_len (jd_kid d) \<or>
         (case jd_alg d of None \<Rightarrow> False | Some a \<Rightarrow> a \<noteq> lit ''RS256'') \<or>
         (case jd_use d of None \<Rightarrow> False | Some u \<Rightarrow> u \<noteq> lit ''sig'')
      then None
      else
        case (tc_base64url codec (jd_n d), tc_base64url codec (jd_e d)) of
          (Some n, Some e) \<Rightarrow>
            if n = [] \<or> e = [] \<or> MAX_JWK_COMPONENT_BYTES < length n \<or> MAX_JWK_COMPONENT_BYTES < length e then None
            else Some \<lparr>rk_kid = jd_kid d, rk_modulus = n, rk_exponent = e\<rparr>
        | _ \<Rightarrow> None)"

section \<open>The key cache\<close>

record cached_keys =
  ck_fetched :: nat
  ck_keys :: "rsa_jwk list"

record auth_state =
  st_keys :: "cached_keys option"
  st_refresh_attempted :: "nat option"

text \<open>A response of the key endpoint: its status, its declared length and its chunks.\<close>

record jwks_response =
  jr_status :: nat
  jr_content_length :: "u64 option"
  jr_chunks :: "(unit, nat list) result list"

record 'w operator_env =
  oe_instant :: "'w \<Rightarrow> nat"
  oe_unix_seconds :: "'w \<Rightarrow> f64"
  oe_fetch :: "str \<Rightarrow> 'w \<Rightarrow> jwks_response option \<times> 'w"
  oe_lock :: "auth_state \<times> 'w \<Rightarrow> auth_state \<times> 'w"

definition validate_jwks_content_length :: "u64 option \<Rightarrow> (operator_failure, unit) result" where
  "validate_jwks_content_length length_header =
     (case length_header of None \<Rightarrow> Inr () | Some n \<Rightarrow> if MAX_JWKS_BYTES < n then Inl Unavailable else Inr ())"

definition append_jwks_chunk :: "nat list \<Rightarrow> nat list \<Rightarrow> (operator_failure, nat list) result" where
  "append_jwks_chunk buffer chunk =
     (if MAX_JWKS_BYTES < sat_add (length buffer) (length chunk) then Inl Unavailable else Inr (buffer @ chunk))"

fun read_chunks :: "nat list \<Rightarrow> (unit, nat list) result list \<Rightarrow> (operator_failure, nat list) result" where
  "read_chunks buffer [] = Inr buffer"
| "read_chunks buffer (Inl _ # cs) = Inl Unavailable"
| "read_chunks buffer (Inr chunk # cs) =
     (case append_jwks_chunk buffer chunk of Inl e \<Rightarrow> Inl e | Inr b \<Rightarrow> read_chunks b cs)"

text \<open>The keys of a response, or why it is refused.\<close>

definition keys_of_response :: "token_codec \<Rightarrow> jwks_response option \<Rightarrow> (operator_failure, rsa_jwk list) result" where
  "keys_of_response codec response =
     (case response of
        None \<Rightarrow> Inl Unavailable
      | Some r \<Rightarrow>
          if \<not> (200 \<le> jr_status r \<and> jr_status r < 300) then Inl Unavailable
          else
            case validate_jwks_content_length (jr_content_length r) of
              Inl e \<Rightarrow> Inl e
            | Inr _ \<Rightarrow>
                (case read_chunks [] (jr_chunks r) of
                   Inl e \<Rightarrow> Inl e
                 | Inr encoded \<Rightarrow>
                     (case tc_jwks codec encoded of
                        None \<Rightarrow> Inl Unavailable
                      | Some documents \<Rightarrow>
                          if MAX_JWKS_KEYS < length documents then Inl Unavailable
                          else
                            let keys = List.map_filter (try_from_document codec) documents
                            in if keys = [] then Inl Unavailable else Inr keys)))"

definition refresh_keys ::
  "operator_authenticator \<Rightarrow> token_codec \<Rightarrow> 'w operator_env \<Rightarrow> auth_state \<times> 'w \<Rightarrow>
   (operator_failure, unit) result \<times> auth_state \<times> 'w" where
  "refresh_keys oa codec env s =
     (case oe_fetch env (oa_jwks_url oa) (snd s) of
        (response, w) \<Rightarrow>
          (case keys_of_response codec response of
             Inl e \<Rightarrow> (Inl e, fst s, w)
           | Inr keys \<Rightarrow> (Inr (), (fst s)\<lparr>st_keys := Some \<lparr>ck_fetched = oe_instant env w, ck_keys = keys\<rparr>\<rparr>, w)))"

definition matching_keys :: "str \<Rightarrow> rsa_jwk list \<Rightarrow> rsa_jwk list option" where
  "matching_keys kid keys = (let ks = filter (\<lambda>k. rk_kid k = kid) keys in if ks = [] then None else Some ks)"

definition cached_keys_for :: "'w operator_env \<Rightarrow> str \<Rightarrow> auth_state \<times> 'w \<Rightarrow> rsa_jwk list option" where
  "cached_keys_for env kid s =
     (case st_keys (fst s) of
        None \<Rightarrow> None
      | Some c \<Rightarrow> if oe_instant env (snd s) - ck_fetched c < JWKS_CACHE_TTL then matching_keys kid (ck_keys c) else None)"

definition keys_for ::
  "operator_authenticator \<Rightarrow> token_codec \<Rightarrow> 'w operator_env \<Rightarrow> str \<Rightarrow> auth_state \<times> 'w \<Rightarrow>
   (operator_failure, rsa_jwk list) result \<times> auth_state \<times> 'w" where
  "keys_for oa codec env kid s =
     (case cached_keys_for env kid s of
        Some ks \<Rightarrow> (Inr ks, s)
      | None \<Rightarrow>
          let s1 = oe_lock env s in
          case cached_keys_for env kid s1 of
            Some ks \<Rightarrow> (Inr ks, s1)
          | None \<Rightarrow>
              if (case st_refresh_attempted (fst s1) of
                    None \<Rightarrow> False
                  | Some attempted \<Rightarrow> oe_instant env (snd s1) - attempted < JWKS_REFRESH_COOLDOWN)
              then (Inl (if st_keys (fst s1) \<noteq> None then Unauthorized else Unavailable), s1)
              else
                let s2 = ((fst s1)\<lparr>st_refresh_attempted := Some (oe_instant env (snd s1))\<rparr>, snd s1) in
                case refresh_keys oa codec env s2 of
                  (Inl e, s3) \<Rightarrow> (Inl e, s3)
                | (Inr _, s3) \<Rightarrow>
                    (case Option.bind (st_keys (fst s3)) (\<lambda>c. matching_keys kid (ck_keys c)) of
                       None \<Rightarrow> (Inl Unauthorized, s3)
                     | Some ks \<Rightarrow> (Inr ks, s3)))"

section \<open>Verification\<close>

definition signed_by :: "token_codec \<Rightarrow> str \<Rightarrow> nat list \<Rightarrow> rsa_jwk \<Rightarrow> bool" where
  "signed_by codec signed signature key = tc_rsa_verify codec (rk_modulus key) (rk_exponent key) signed signature"

definition verify_token ::
  "operator_authenticator \<Rightarrow> token_codec \<Rightarrow> 'w operator_env \<Rightarrow> str \<Rightarrow> auth_state \<times> 'w \<Rightarrow>
   (operator_failure, str) result \<times> auth_state \<times> 'w" where
  "verify_token oa codec env token s =
     (if MAX_TOKEN_BYTES < str_len token then (Inl Unauthorized, s)
      else
        case split_char 46 token of
          [header_segment, claims_segment, signature_segment] \<Rightarrow>
            if header_segment = [] \<or> claims_segment = [] \<or> signature_segment = [] \<or>
               MAX_TOKEN_BYTES < str_len header_segment \<or> MAX_TOKEN_BYTES < str_len claims_segment \<or>
               MAX_TOKEN_BYTES < str_len signature_segment
            then (Inl Unauthorized, s)
            else
              (case decode_json codec (tc_header codec) header_segment of
                 Inl e \<Rightarrow> (Inl e, s)
               | Inr header \<Rightarrow>
                   if jh_alg header \<noteq> lit ''RS256'' \<or> jh_kid header = [] \<or> 128 < str_len (jh_kid header)
                   then (Inl Unauthorized, s)
                   else
                     (case decode_json codec (tc_claims codec) claims_segment of
                        Inl e \<Rightarrow> (Inl e, s)
                      | Inr claims \<Rightarrow>
                          (case validate_claims oa (oe_unix_seconds env (snd s)) claims of
                             Inl e \<Rightarrow> (Inl e, s)
                           | Inr actor \<Rightarrow>
                               (case tc_base64url codec signature_segment of
                                  None \<Rightarrow> (Inl Unauthorized, s)
                                | Some signature \<Rightarrow>
                                    (case keys_for oa codec env (jh_kid header) s of
                                       (Inl e, s1) \<Rightarrow> (Inl e, s1)
                                     | (Inr keys, s1) \<Rightarrow>
                                         if list_ex (signed_by codec (header_segment @ lit ''.'' @ claims_segment) signature) keys
                                         then (Inr actor, s1) else (Inl Unauthorized, s1))))))
        | _ \<Rightarrow> (Inl Unauthorized, s))"

definition authorize ::
  "operator_authenticator \<Rightarrow> token_codec \<Rightarrow> 'w operator_env \<Rightarrow> str option \<Rightarrow> str option \<Rightarrow> auth_state \<times> 'w \<Rightarrow>
   (operator_failure, str) result \<times> auth_state \<times> 'w" where
  "authorize oa codec env authorization virtual_key_actor s =
     (case virtual_key_actor of
        Some actor \<Rightarrow>
          if oa_mode oa = Both then (Inr (lit ''vkey:'' @ actor), s)
          else (case bearer_token authorization of None \<Rightarrow> (Inl Unauthorized, s) | Some t \<Rightarrow> verify_token oa codec env t s)
      | None \<Rightarrow> (case bearer_token authorization of None \<Rightarrow> (Inl Unauthorized, s) | Some t \<Rightarrow> verify_token oa codec env t s))"

section \<open>The middleware\<close>

text \<open>The identity of a virtual key in front of the operator routes.\<close>

definition operator_virtual_key :: "digest \<Rightarrow> access_policy option \<Rightarrow> str option \<Rightarrow> str option" where
  "operator_virtual_key sha256 policy authorization =
     Option.bind policy (\<lambda>p.
       if requires_authentication p then Option.bind (authenticate sha256 p authorization) (grant_key_id p) else None)"

datatype middleware_result = Forwarded "str option" | Refused nat str bool

fun failure_response :: "operator_failure \<Rightarrow> nat \<times> str \<times> bool \<times> str" where
  "failure_response Unauthorized = (401, lit ''wayfinder_router_operator_unauthorized'', True, lit ''unauthorized'')"
| "failure_response Forbidden = (403, lit ''wayfinder_router_operator_forbidden'', False, lit ''forbidden'')"
| "failure_response Unavailable = (503, lit ''wayfinder_router_operator_auth_unavailable'', False, lit ''unavailable'')"

text \<open>\<open>audit\<close> records a refusal with its path and reason and says whether it was persisted.\<close>

definition operator_middleware ::
  "digest \<Rightarrow> operator_authenticator option \<Rightarrow> token_codec \<Rightarrow> 'w operator_env \<Rightarrow> (str \<Rightarrow> str \<Rightarrow> 'w \<Rightarrow> bool \<times> 'w) \<Rightarrow>
   access_policy option \<Rightarrow> str option \<Rightarrow> str \<Rightarrow> auth_state \<times> 'w \<Rightarrow> middleware_result \<times> auth_state \<times> 'w" where
  "operator_middleware sha256 authenticator codec env audit policy authorization path s =
     (case authenticator of
        None \<Rightarrow> (Forwarded None, s)
      | Some oa \<Rightarrow>
          (case authorize oa codec env authorization (operator_virtual_key sha256 policy authorization) s of
             (Inr actor, s1) \<Rightarrow> (Forwarded (Some actor), s1)
           | (Inl failure, s1) \<Rightarrow>
               (case failure_response failure of
                  (status, error_type, challenge, reason) \<Rightarrow>
                    (case audit path reason (snd s1) of
                       (False, w) \<Rightarrow> (Refused 503 (lit ''wayfinder_router_audit_unavailable'') False, fst s1, w)
                     | (True, w) \<Rightarrow> (Refused status error_type challenge, fst s1, w)))))"

section \<open>Who is let through\<close>

fun join_char :: "nat \<Rightarrow> str list \<Rightarrow> str" where
  "join_char c [] = []"
| "join_char c [s] = s"
| "join_char c (s # ss) = s @ c # join_char c ss"

lemma split_char_ne [simp]: "split_char c s \<noteq> []"
  by (induction s) (auto split: list.splits)

lemma join_split_char: "join_char c (split_char c s) = s"
proof (induction s)
  case (Cons x xs)
  then show ?case by (cases "split_char c xs"; cases "tl (split_char c xs)") auto
qed simp

text \<open>The claims a token must make, in the form the checks are documented in.\<close>

definition claims_grant :: "operator_authenticator \<Rightarrow> f64 \<Rightarrow> json \<Rightarrow> str \<Rightarrow> bool" where
  "claims_grant oa now claims actor \<longleftrightarrow>
     Option.bind (jget claims (lit ''iss'')) as_str = Some (oa_issuer oa) \<and>
     audience_matches (oa_audience oa) claims \<and>
     (\<exists>expires. numeric_claim claims (lit ''exp'') = Inr expires \<and> \<not> expires \<le> now) \<and>
     (\<forall>v. jget claims (lit ''nbf'') = Some v \<longrightarrow> (\<exists>nb. numeric_value v = Some nb \<and> \<not> now + CLOCK_SKEW_SECONDS < nb)) \<and>
     Option.bind (jget claims (lit ''sub'')) as_str = Some actor \<and> actor \<noteq> [] \<and>
     claim_allows_operator (jget claims (oa_admin_claim oa))"

lemma validate_claims_iff: "validate_claims oa now claims = Inr actor \<longleftrightarrow> claims_grant oa now claims actor"
  by (auto simp: validate_claims_def claims_grant_def simp del: lit_Cons split: sum.splits option.splits)

text \<open>A token that proves an identity with a key of the cache.\<close>

definition proves_identity :: "operator_authenticator \<Rightarrow> token_codec \<Rightarrow> f64 \<Rightarrow> rsa_jwk list \<Rightarrow> str \<Rightarrow> str \<Rightarrow> bool" where
  "proves_identity oa codec now keys token actor \<longleftrightarrow>
     (\<exists>h c g header claims signature key.
        token = h @ lit ''.'' @ c @ lit ''.'' @ g \<and>
        Option.bind (tc_base64url codec h) (tc_header codec) = Some header \<and> jh_alg header = lit ''RS256'' \<and>
        Option.bind (tc_base64url codec c) (tc_claims codec) = Some claims \<and> claims_grant oa now claims actor \<and>
        tc_base64url codec g = Some signature \<and> key \<in> set keys \<and> rk_kid key = jh_kid header \<and>
        tc_rsa_verify codec (rk_modulus key) (rk_exponent key) (h @ lit ''.'' @ c) signature)"

lemma matching_keys_in: "matching_keys kid keys = Some ks \<Longrightarrow> set ks \<subseteq> {k \<in> set keys. rk_kid k = kid}"
  by (auto simp: matching_keys_def Let_def split: if_splits)

lemma cached_keys_for_in:
  "cached_keys_for env kid s = Some ks \<Longrightarrow>
     \<exists>c. st_keys (fst s) = Some c \<and> oe_instant env (snd s) - ck_fetched c < JWKS_CACHE_TTL \<and>
       set ks \<subseteq> {k \<in> set (ck_keys c). rk_kid k = kid}"
  by (auto simp: cached_keys_for_def dest!: matching_keys_in split: option.splits if_splits)

lemma keys_for_in:
  assumes "keys_for oa codec env kid s = (Inr ks, s')"
  shows "\<exists>c. st_keys (fst s') = Some c \<and> oe_instant env (snd s') - ck_fetched c < JWKS_CACHE_TTL \<and>
    set ks \<subseteq> {k \<in> set (ck_keys c). rk_kid k = kid}"
proof (cases "cached_keys_for env kid s")
  case (Some ks')
  then show ?thesis using assms cached_keys_for_in by (fastforce simp: keys_for_def)
next
  case None
  note first = this
  show ?thesis
  proof (cases "cached_keys_for env kid (oe_lock env s)")
    case (Some ks')
    then show ?thesis using assms first cached_keys_for_in by (fastforce simp: keys_for_def Let_def)
  next
    case None
    define s2 where "s2 = ((fst (oe_lock env s))\<lparr>st_refresh_attempted := Some (oe_instant env (snd (oe_lock env s)))\<rparr>, snd (oe_lock env s))"
    obtain r s3 where r: "refresh_keys oa codec env s2 = (r, s3)" by (meson surj_pair)
    have run: "r = Inr ()" "s' = s3" "Option.bind (st_keys (fst s3)) (\<lambda>c. matching_keys kid (ck_keys c)) = Some ks"
      using assms first None r by (auto simp: keys_for_def Let_def s2_def split: if_splits sum.splits option.splits)
    then obtain keys w where "fst s3 = (fst s2)\<lparr>st_keys := Some \<lparr>ck_fetched = oe_instant env w, ck_keys = keys\<rparr>\<rparr>" "snd s3 = w"
      using r by (auto simp: refresh_keys_def split: prod.splits sum.splits)
    then show ?thesis using run by (auto simp: JWKS_CACHE_TTL_def dest: matching_keys_in)
  qed
qed

lemma verify_token_proves:
  assumes "verify_token oa codec env token s = (Inr actor, s')"
  shows "\<exists>c. st_keys (fst s') = Some c \<and> oe_instant env (snd s') - ck_fetched c < JWKS_CACHE_TTL \<and>
    proves_identity oa codec (oe_unix_seconds env (snd s)) (ck_keys c) token actor"
proof -
  obtain h c g where seg: "split_char 46 token = [h, c, g]"
    using assms by (auto simp: verify_token_def split: if_splits list.splits)
  obtain header claims signature keys where ok:
    "Option.bind (tc_base64url codec h) (tc_header codec) = Some header" "jh_alg header = lit ''RS256''"
    "Option.bind (tc_base64url codec c) (tc_claims codec) = Some claims"
    "validate_claims oa (oe_unix_seconds env (snd s)) claims = Inr actor" "tc_base64url codec g = Some signature"
    "keys_for oa codec env (jh_kid header) s = (Inr keys, s')"
    "list_ex (signed_by codec (h @ lit ''.'' @ c) signature) keys"
    using assms seg
    by (auto simp: verify_token_def decode_json_def simp del: lit_Cons split: if_splits option.splits sum.splits prod.splits)
  obtain cache where cache: "st_keys (fst s') = Some cache" "oe_instant env (snd s') - ck_fetched cache < JWKS_CACHE_TTL"
    "set keys \<subseteq> {k \<in> set (ck_keys cache). rk_kid k = jh_kid header}"
    using keys_for_in [OF ok(6)] by blast
  obtain key where key: "key \<in> set keys" "signed_by codec (h @ lit ''.'' @ c) signature key"
    using ok(7) by (auto simp: list_ex_iff)
  have token: "token = h @ lit ''.'' @ c @ lit ''.'' @ g"
    using join_split_char [of 46 token] seg by simp
  have "proves_identity oa codec (oe_unix_seconds env (snd s)) (ck_keys cache) token actor"
    unfolding proves_identity_def
    by (rule exI [of _ h], rule exI [of _ c], rule exI [of _ g], rule exI [of _ header], rule exI [of _ claims],
        rule exI [of _ signature], rule exI [of _ key])
      (use token ok cache(3) key in \<open>auto simp: validate_claims_iff [symmetric] signed_by_def simp del: lit_Cons\<close>)
  then show ?thesis using cache by blast
qed

text \<open>A failed authorization is refused; only the audit log moves the world on.\<close>

lemma middleware_refuses:
  assumes "authorize oa codec env authorization (operator_virtual_key sha256 policy authorization) s = (Inl e, s1)"
  obtains status kind challenge reason where
    "operator_middleware sha256 (Some oa) codec env audit policy authorization path s =
       (Refused status kind challenge, fst s1, snd (audit path reason (snd s1)))"
proof -
  obtain status kind challenge reason where f: "failure_response e = (status, kind, challenge, reason)"
    by (metis prod_cases4)
  obtain ok w where audit: "audit path reason (snd s1) = (ok, w)" by (meson surj_pair)
  show ?thesis
  proof (cases ok)
    case True
    then show ?thesis using assms f audit by (intro that [of status kind challenge reason]) (simp add: operator_middleware_def)
  next
    case False
    then show ?thesis
      using assms f audit by (intro that [of 503 _ False reason]) (simp add: operator_middleware_def)
  qed
qed


section \<open>The key endpoint is not flooded\<close>

text \<open>
  \<open>fetches\<close> reads off the world the instants at which the key endpoint was asked, newest first. The
  environment is well behaved when a fetch, and nothing else of this request, extends it, and when
  the other requests that run while this one waits for the lock keep the spacing.
\<close>

fun spaced :: "nat list \<Rightarrow> bool" where
  "spaced (t # u # ts) \<longleftrightarrow> u + JWKS_REFRESH_COOLDOWN \<le> t \<and> spaced (u # ts)"
| "spaced _ \<longleftrightarrow> True"

definition refresh_spaced :: "('w \<Rightarrow> nat list) \<Rightarrow> auth_state \<times> 'w \<Rightarrow> bool" where
  "refresh_spaced fetches s \<longleftrightarrow>
     spaced (fetches (snd s)) \<and>
     st_refresh_attempted (fst s) = (case fetches (snd s) of [] \<Rightarrow> None | t # _ \<Rightarrow> Some t)"

definition logs_fetches ::
  "'w operator_env \<Rightarrow> (str \<Rightarrow> str \<Rightarrow> 'w \<Rightarrow> bool \<times> 'w) \<Rightarrow> ('w \<Rightarrow> nat list) \<Rightarrow> bool" where
  "logs_fetches env audit fetches \<longleftrightarrow>
     (\<forall>url w. fetches (snd (oe_fetch env url w)) = oe_instant env w # fetches w) \<and>
     (\<forall>s. refresh_spaced fetches s \<longrightarrow> refresh_spaced fetches (oe_lock env s)) \<and>
     (\<forall>path reason w. fetches (snd (audit path reason w)) = fetches w)"

lemma refresh_keys_spaced:
  assumes "logs_fetches env audit fetches"
    and "refresh_spaced fetches s" "\<forall>t. st_refresh_attempted (fst s) = Some t \<longrightarrow> t + JWKS_REFRESH_COOLDOWN \<le> oe_instant env (snd s)"
  shows "refresh_spaced fetches (snd (refresh_keys oa codec env
    ((fst s)\<lparr>st_refresh_attempted := Some (oe_instant env (snd s))\<rparr>, snd s)))"
proof -
  obtain resp w where fetch: "oe_fetch env (oa_jwks_url oa) (snd s) = (resp, w)" by fastforce
  then have "fetches w = oe_instant env (snd s) # fetches (snd s)"
    using assms(1) by (metis logs_fetches_def snd_conv)
  moreover have "spaced (oe_instant env (snd s) # fetches (snd s))"
    using assms(2,3) by (cases "fetches (snd s)") (auto simp: refresh_spaced_def)
  ultimately show ?thesis by (simp add: refresh_keys_def refresh_spaced_def fetch split: sum.splits)
qed

lemma keys_for_spaced:
  assumes "logs_fetches env audit fetches" "refresh_spaced fetches s"
  shows "refresh_spaced fetches (snd (keys_for oa codec env kid s))"
proof -
  let ?s1 = "oe_lock env s"
  let ?s2 = "((fst ?s1)\<lparr>st_refresh_attempted := Some (oe_instant env (snd ?s1))\<rparr>, snd ?s1)"
  let ?cool = "case st_refresh_attempted (fst ?s1) of None \<Rightarrow> False
    | Some attempted \<Rightarrow> oe_instant env (snd ?s1) - attempted < JWKS_REFRESH_COOLDOWN"
  have s1: "refresh_spaced fetches ?s1" using assms unfolding logs_fetches_def by blast
  have "refresh_spaced fetches (snd (refresh_keys oa codec env ?s2))" if "\<not> ?cool"
    using that by (intro refresh_keys_spaced [OF assms(1) s1]) (auto simp: JWKS_REFRESH_COOLDOWN_def)
  then show ?thesis
    using assms(2) s1
    by (cases "refresh_keys oa codec env ?s2") (auto simp: keys_for_def Let_def split: option.splits sum.splits)
qed

lemma authorize_spaced:
  assumes "logs_fetches env audit fetches" "refresh_spaced fetches s"
  shows "refresh_spaced fetches (snd (authorize oa codec env authorization key s))"
proof -
  have keys: "refresh_spaced fetches s1" if "keys_for oa codec env kid s = (r, s1)" for kid r s1
    using keys_for_spaced [OF assms, of oa codec kid] that by simp
  have "refresh_spaced fetches (snd (verify_token oa codec env token s))" for token
    using assms(2) by (auto simp: verify_token_def simp del: lit_Cons intro: keys split: if_splits list.splits sum.splits option.splits prod.splits)
  then show ?thesis using assms(2) by (auto simp: authorize_def split: option.splits)
qed

text \<open>The operator requests of a process one after the other.\<close>

definition serve_operators ::
  "digest \<Rightarrow> operator_authenticator \<Rightarrow> token_codec \<Rightarrow> 'w operator_env \<Rightarrow> (str \<Rightarrow> str \<Rightarrow> 'w \<Rightarrow> bool \<times> 'w) \<Rightarrow>
   access_policy option \<Rightarrow> (str option \<times> str) list \<Rightarrow> auth_state \<times> 'w \<Rightarrow> auth_state \<times> 'w" where
  "serve_operators sha256 oa codec env audit policy requests s =
     fold (\<lambda>(authorization, path) s. snd (operator_middleware sha256 (Some oa) codec env audit policy authorization path s)) requests s"

text \<open>
  Whatever tokens are presented, the key endpoint is asked at most once in five seconds: any two
  successive fetches caused by a sequence of operator requests are a cooldown apart, also when other requests
  refresh the cache while one waits for the lock.
\<close>

theorem key_fetches_are_spaced:
  assumes "logs_fetches env audit fetches" "refresh_spaced fetches s"
  shows "spaced (fetches (snd (serve_operators sha256 oa codec env audit policy requests s)))"
proof -
  have "refresh_spaced fetches (serve_operators sha256 oa codec env audit policy requests s)"
    using assms(2) unfolding serve_operators_def
  proof (induction requests arbitrary: s)
    case (Cons r requests)
    obtain authorization path where r: "r = (authorization, path)" by fastforce
    obtain a s1 where a: "authorize oa codec env authorization (operator_virtual_key sha256 policy authorization) s = (a, s1)" by (meson surj_pair)
    then have s1: "refresh_spaced fetches s1" using authorize_spaced [OF assms(1) Cons.prems] by (metis snd_conv)
    have log: "fetches (snd (audit p q w)) = fetches w" for p q w using assms(1) unfolding logs_fetches_def by blast
    have "refresh_spaced fetches (snd (operator_middleware sha256 (Some oa) codec env audit policy authorization path s))"
    proof (cases a)
      case (Inl e)
      from middleware_refuses [OF a [unfolded Inl], of audit path] obtain status kind challenge reason where
        "operator_middleware sha256 (Some oa) codec env audit policy authorization path s =
           (Refused status kind challenge, fst s1, snd (audit path reason (snd s1)))" .
      then show ?thesis using s1 log by (simp add: refresh_spaced_def)
    next
      case (Inr x)
      then show ?thesis using a s1 by (simp add: operator_middleware_def)
    qed
    then show ?case using Cons.IH by (simp add: r)
  qed simp
  then show ?thesis by (simp add: refresh_spaced_def)
qed

section \<open>Samples\<close>

text \<open>
  Base64 is the identity, every header names RS256 and the key \<open>k\<close>, the claims are fixed and a signature
  verifies when it equals the modulus of its key; the world is the list of fetch instants.
\<close>

definition sample_authenticator :: operator_authenticator where
  "sample_authenticator = \<lparr>oa_mode = Oidc, oa_issuer = [105], oa_audience = [97], oa_jwks_url = [], oa_admin_claim = [114]\<rparr>"

definition sample_claims :: json where
  "sample_claims = JObject [(lit ''iss'', JString [105]), (lit ''aud'', JArray [JString [98], JString [97]]),
     (lit ''exp'', JNumber \<lparr>num_text = [57], num_f64 = Some (Fin 9), num_u64 = Some 9, num_i64 = Some 9\<rparr>),
     (lit ''sub'', JString [111]), ([114], JArray [JString (lit ''Admin'')])]"

definition sample_codec :: token_codec where
  "sample_codec = \<lparr>tc_base64url = Some, tc_header = (\<lambda>b. Some \<lparr>jh_alg = lit ''RS256'', jh_kid = [107]\<rparr>),
     tc_claims = (\<lambda>b. Some sample_claims),
     tc_jwks = (\<lambda>b. Some [\<lparr>jd_kid = [107], jd_kty = lit ''RSA'', jd_alg = None, jd_use = None, jd_n = [109], jd_e = [101]\<rparr>]),
     tc_rsa_verify = (\<lambda>n e signed signature. signature = n)\<rparr>"

definition sample_operator_env :: "nat list operator_env" where
  "sample_operator_env = \<lparr>oe_instant = (\<lambda>w. JWKS_REFRESH_COOLDOWN * length w), oe_unix_seconds = (\<lambda>w. Fin 1),
     oe_fetch = (\<lambda>url w. (Some \<lparr>jr_status = 200, jr_content_length = None, jr_chunks = []\<rparr>, JWKS_REFRESH_COOLDOWN * length w # w)),
     oe_lock = (\<lambda>s. s)\<rparr>"

definition sample_state :: "auth_state \<times> nat list" where
  "sample_state = (\<lparr>st_keys = None, st_refresh_attempted = None\<rparr>, [])"

definition sample_bearer :: str where "sample_bearer = lit ''Bearer h.c.m''"

lemma sample_token: "bearer_token (Some sample_bearer) = Some (lit ''h.c.m'')"
  by (simp add: bearer_token_def sample_bearer_def trim_def is_whitespace_def to_ascii_lowercase_def)

lemma sample_valid: "validate_claims sample_authenticator (Fin 1) sample_claims = Inr [111]"
  by (simp add: validate_claims_def sample_claims_def sample_authenticator_def jget_def audience_matches_def numeric_claim_def
      numeric_value_def claim_allows_operator_def to_ascii_lowercase_def less_eq_f64_def)

lemma sample_keys:
  "\<exists>s. keys_for sample_authenticator sample_codec sample_operator_env [107] sample_state =
     (Inr [\<lparr>rk_kid = [107], rk_modulus = [109], rk_exponent = [101]\<rparr>], s)"
  by (simp add: keys_for_def cached_keys_for_def sample_state_def sample_operator_env_def refresh_keys_def keys_of_response_def
      validate_jwks_content_length_def sample_codec_def try_from_document_def str_len_def len_utf8_def MAX_JWK_COMPONENT_BYTES_def
      MAX_JWKS_KEYS_def matching_keys_def List.map_filter_def Let_def)

lemma sample_forwarded:
  "fst (operator_middleware (\<lambda>b. []) (Some sample_authenticator) sample_codec sample_operator_env (\<lambda>p q w. (True, w)) None
     (Some sample_bearer) [] sample_state) = Forwarded (Some [111])"
proof -
  have unix: "oe_unix_seconds sample_operator_env w = Fin 1" for w by (simp add: sample_operator_env_def)
  have parts: "split_char 46 (lit ''h.c.m'') = [[104], [99], [109]]" by simp
  obtain s where keys: "keys_for sample_authenticator sample_codec sample_operator_env [107] sample_state =
     (Inr [\<lparr>rk_kid = [107], rk_modulus = [109], rk_exponent = [101]\<rparr>], s)"
    using sample_keys by blast
  have "tc_base64url sample_codec g = Some g" "tc_header sample_codec b = Some \<lparr>jh_alg = lit ''RS256'', jh_kid = [107]\<rparr>"
    "tc_claims sample_codec b = Some sample_claims" "tc_rsa_verify sample_codec n e m g = (g = n)" for g b n e m
    by (simp_all add: sample_codec_def)
  then have "verify_token sample_authenticator sample_codec sample_operator_env (lit ''h.c.m'') sample_state = (Inr [111], s)"
    using keys sample_valid
    by (simp add: verify_token_def parts MAX_TOKEN_BYTES_def str_len_def len_utf8_def decode_json_def signed_by_def unix del: lit_Cons)
      (simp add: len_utf8_def)
  then show ?thesis
    by (simp add: operator_middleware_def authorize_def operator_virtual_key_def sample_token del: lit_Cons)
qed


theorem key_fetches_are_spaced_witness:
  "spaced (snd (serve_operators (\<lambda>b. []) sample_authenticator sample_codec sample_operator_env (\<lambda>p q w. (True, w)) None
     [(Some sample_bearer, []), (Some (lit ''Bearer x''), [])] sample_state))"
  by (rule key_fetches_are_spaced [where fetches = "\<lambda>w. w"])
    (simp_all add: logs_fetches_def sample_operator_env_def refresh_spaced_def sample_state_def)

end
