(* ===== verification/Admission.thy ===== *)
theory Admission
  imports Prelude
begin

text \<open>
  Bounded admission of concurrent deliveries (\<open>wayfinder-gateway/src/admission.rs\<close>). The semaphores of
  the async runtime are a parameter, \<open>semaphore_ops\<close>; what the policy relies on is the documented counting
  behaviour \<open>counting_semaphore\<close>. A request that waits is split at its await: \<open>acquire_start\<close> is what runs
  before it, \<open>acquire_finish\<close> what runs after it, and between the two other requests run. The runtime may
  hand a released permit to a waiter at once; letting a newcomer take it first, as the step relation
  also does, only adds interleavings. Durations are nanoseconds.
\<close>

definition DEFAULT_MAX_IN_FLIGHT :: nat where "DEFAULT_MAX_IN_FLIGHT = 32"

definition DEFAULT_MAX_QUEUED :: nat where "DEFAULT_MAX_QUEUED = 64"

definition DEFAULT_QUEUE_TIMEOUT :: nat where "DEFAULT_QUEUE_TIMEOUT = 2 * 10 ^ 9"

datatype admission_error =
  InvalidInFlightLimit | InvalidQueueLimit | InvalidQueueTimeout | QueueFull | QueueTimedOut | AdmissionUnavailable | SharedLimit

text \<open>
  \<open>sem_take\<close> is a successful immediate acquisition, \<open>sem_grant\<close> the runtime serving a waiter,
  \<open>sem_release\<close> the drop of a permit.
\<close>

record 's semaphore_ops =
  sem_new :: "nat \<Rightarrow> 's"
  sem_available :: "'s \<Rightarrow> nat"
  sem_take :: "'s \<Rightarrow> 's option"
  sem_grant :: "'s \<Rightarrow> 's option"
  sem_release :: "'s \<Rightarrow> 's"
  sem_max_permits :: nat

record 's admission_policy =
  ad_in_flight :: 's
  ad_queue :: 's
  ad_max_in_flight :: nat
  ad_max_queued :: nat
  ad_queue_timeout :: nat

definition admission_new ::
  "'s semaphore_ops \<Rightarrow> nat \<Rightarrow> nat \<Rightarrow> nat \<Rightarrow> (admission_error, 's admission_policy) result" where
  "admission_new sem max_in_flight max_queued queue_timeout =
     (if max_in_flight = 0 \<or> sem_max_permits sem < max_in_flight then Inl InvalidInFlightLimit
      else if sem_max_permits sem < max_queued then Inl InvalidQueueLimit
      else if 0 < max_queued \<and> queue_timeout = 0 then Inl InvalidQueueTimeout
      else Inr \<lparr>ad_in_flight = sem_new sem max_in_flight, ad_queue = sem_new sem max_queued,
             ad_max_in_flight = max_in_flight, ad_max_queued = max_queued, ad_queue_timeout = queue_timeout\<rparr>)"

definition admission_default :: "'s semaphore_ops \<Rightarrow> 's admission_policy" where
  "admission_default sem =
     \<lparr>ad_in_flight = sem_new sem DEFAULT_MAX_IN_FLIGHT, ad_queue = sem_new sem DEFAULT_MAX_QUEUED,
      ad_max_in_flight = DEFAULT_MAX_IN_FLIGHT, ad_max_queued = DEFAULT_MAX_QUEUED, ad_queue_timeout = DEFAULT_QUEUE_TIMEOUT\<rparr>"

datatype acquire_progress = Admitted | Waiting

definition acquire_start ::
  "'s semaphore_ops \<Rightarrow> 's admission_policy \<Rightarrow> (admission_error, acquire_progress) result \<times> 's admission_policy" where
  "acquire_start sem p =
     (case sem_take sem (ad_in_flight p) of
        Some s \<Rightarrow> (Inr Admitted, p\<lparr>ad_in_flight := s\<rparr>)
      | None \<Rightarrow>
          (case sem_take sem (ad_queue p) of
             None \<Rightarrow> (Inl QueueFull, p)
           | Some q \<Rightarrow> (Inr Waiting, p\<lparr>ad_queue := q\<rparr>)))"

text \<open>How the await ends: a permit, the deadline, or a closed semaphore. The queue permit is dropped in every case.\<close>

datatype wait_outcome = Permit | Deadline | Closed

definition acquire_finish ::
  "'s semaphore_ops \<Rightarrow> wait_outcome \<Rightarrow> 's admission_policy \<Rightarrow>
   ((admission_error, unit) result \<times> 's admission_policy) option" where
  "acquire_finish sem outcome p =
     (let p' = p\<lparr>ad_queue := sem_release sem (ad_queue p)\<rparr> in
      case outcome of
        Permit \<Rightarrow> map_option (\<lambda>s. (Inr (), p'\<lparr>ad_in_flight := s\<rparr>)) (sem_grant sem (ad_in_flight p))
      | Deadline \<Rightarrow> Some (Inl QueueTimedOut, p')
      | Closed \<Rightarrow> Some (Inl AdmissionUnavailable, p'))"

definition drop_permit :: "'s semaphore_ops \<Rightarrow> 's admission_policy \<Rightarrow> 's admission_policy" where
  "drop_permit sem p = p\<lparr>ad_in_flight := sem_release sem (ad_in_flight p)\<rparr>"

definition in_flight :: "'s semaphore_ops \<Rightarrow> 's admission_policy \<Rightarrow> nat" where
  "in_flight sem p = sat_sub (ad_max_in_flight p) (sem_available sem (ad_in_flight p))"

definition queued :: "'s semaphore_ops \<Rightarrow> 's admission_policy \<Rightarrow> nat" where
  "queued sem p = sat_sub (ad_max_queued p) (sem_available sem (ad_queue p))"

section \<open>Requests in flight\<close>

definition counting_semaphore :: "'s semaphore_ops \<Rightarrow> bool" where
  "counting_semaphore sem \<longleftrightarrow>
     (\<forall>n. sem_available sem (sem_new sem n) = n) \<and>
     (\<forall>s. sem_take sem s = None \<longleftrightarrow> sem_available sem s = 0) \<and>
     (\<forall>s s'. sem_take sem s = Some s' \<longrightarrow> Suc (sem_available sem s') = sem_available sem s) \<and>
     (\<forall>s s'. sem_grant sem s = Some s' \<longrightarrow> Suc (sem_available sem s') = sem_available sem s) \<and>
     (\<forall>s. sem_available sem (sem_release sem s) = Suc (sem_available sem s))"

text \<open>The policy with the requests that wait and those that are being delivered.\<close>

type_synonym ('s, 'r) admission_state = "'s admission_policy \<times> 'r list \<times> 'r list"

inductive admission_step ::
  "'s semaphore_ops \<Rightarrow> ('s, 'r) admission_state \<Rightarrow> ('s, 'r) admission_state \<Rightarrow> bool" for sem where
  Enter: "acquire_start sem p = (Inr Admitted, p') \<Longrightarrow> admission_step sem (p, waiting, running) (p', waiting, r # running)"
| Queue: "acquire_start sem p = (Inr Waiting, p') \<Longrightarrow> admission_step sem (p, waiting, running) (p', waiting @ [r], running)"
| Reject: "acquire_start sem p = (Inl e, p') \<Longrightarrow> admission_step sem (p, waiting, running) (p', waiting, running)"
| Serve: "acquire_finish sem Permit p = Some (Inr (), p') \<Longrightarrow>
    admission_step sem (p, ws @ r # vs, running) (p', ws @ vs, r # running)"
| GiveUp: "acquire_finish sem outcome p = Some (Inl e, p') \<Longrightarrow>
    admission_step sem (p, ws @ r # vs, running) (p', ws @ vs, running)"
| Done: "admission_step sem (p, waiting, ws @ r # vs) (drop_permit sem p, waiting, ws @ vs)"

inductive_cases admission_stepE: "admission_step sem (p, waiting, running) st"

inductive admission_reachable :: "'s semaphore_ops \<Rightarrow> ('s, 'r) admission_state \<Rightarrow> bool" for sem where
  Start: "admission_new sem m q t = Inr p \<Longrightarrow> admission_reachable sem (p, [], [])"
| Default: "admission_reachable sem (admission_default sem, [], [])"
| Step: "admission_reachable sem st \<Longrightarrow> admission_step sem st st' \<Longrightarrow> admission_reachable sem st'"

text \<open>Every permit is free or held by exactly one request.\<close>

definition permits_conserved :: "'s semaphore_ops \<Rightarrow> ('s, 'r) admission_state \<Rightarrow> bool" where
  "permits_conserved sem st \<longleftrightarrow>
     (case st of (p, waiting, running) \<Rightarrow>
        sem_available sem (ad_in_flight p) + length running = ad_max_in_flight p \<and>
        sem_available sem (ad_queue p) + length waiting = ad_max_queued p)"

lemma counting_semaphoreD:
  assumes "counting_semaphore sem"
  shows "sem_available sem (sem_new sem n) = n"
    and "sem_take sem s = None \<longleftrightarrow> sem_available sem s = 0"
    and "sem_take sem s = Some s' \<Longrightarrow> Suc (sem_available sem s') = sem_available sem s"
    and "sem_grant sem s = Some s' \<Longrightarrow> Suc (sem_available sem s') = sem_available sem s"
    and "sem_available sem (sem_release sem s) = Suc (sem_available sem s)"
  using assms by (simp_all add: counting_semaphore_def)

lemma admission_step_conserves:
  assumes "counting_semaphore sem" "admission_step sem st st'" "permits_conserved sem st"
  shows "permits_conserved sem st'"
  using assms(2,3)
  by (induction rule: admission_step.induct)
    (auto simp: permits_conserved_def acquire_start_def acquire_finish_def drop_permit_def Let_def counting_semaphoreD(5) [OF assms(1)]
      dest!: counting_semaphoreD(3,4) [OF assms(1)] split: option.splits wait_outcome.splits)

lemma admission_reachable_conserves:
  assumes "counting_semaphore sem"
  shows "admission_reachable sem st \<Longrightarrow> permits_conserved sem st"
proof (induction rule: admission_reachable.induct)
  case (Start m q t p)
  then show ?case
    by (auto simp: permits_conserved_def admission_new_def counting_semaphoreD(1) [OF assms] split: if_splits)
next
  case Default
  then show ?case by (simp add: permits_conserved_def admission_default_def counting_semaphoreD(1) [OF assms])
next
  case (Step st st')
  then show ?case using admission_step_conserves [OF assms] by blast
qed


text \<open>A semaphore that is its number of free permits.\<close>

definition counter :: "nat semaphore_ops" where
  "counter = \<lparr>sem_new = (\<lambda>n. n), sem_available = (\<lambda>s. s), sem_take = (\<lambda>s. if s = 0 then None else Some (s - 1)),
     sem_grant = (\<lambda>s. if s = 0 then None else Some (s - 1)), sem_release = Suc, sem_max_permits = 1000\<rparr>"


end
