(* ===== verification/Anthropic_Messages.thy ===== *)
theory Anthropic_Messages
  imports Pricing
begin

text \<open>
  Translation between the Anthropic Messages and the OpenAI Chat Completions shapes, buffered:
  \<open>wayfinder-providers/src/anthropic.rs\<close> (a Messages client in front of the gateway) and
  \<open>anthropic_native.rs\<close> (a Messages provider behind it). JSON text is written and read by a library, the
  parameters \<open>to_string\<close> and \<open>from_str\<close>. Object literals are lists of members in source order.
\<close>

section \<open>JSON helpers\<close>

definition json_u64 :: "u64 \<Rightarrow> json" where
  "json_u64 n = JNumber \<lparr>num_text = dec_digits n, num_f64 = Some (f64_of_nat n), num_u64 = Some n,
     num_i64 = (if int n \<le> i64_max then Some (int n) else None)\<rparr>"

definition member :: "(str \<times> json) list \<Rightarrow> string \<Rightarrow> json option" where
  "member m name = map_of m (lit name)"

definition member_str :: "(str \<times> json) list \<Rightarrow> string \<Rightarrow> str option" where
  "member_str m name = Option.bind (member m name) as_str"

definition or_empty_string :: "json option \<Rightarrow> json" where
  "or_empty_string v = (case v of None \<Rightarrow> JString [] | Some x \<Rightarrow> x)"

definition obj :: "(string \<times> json) list \<Rightarrow> json" where
  "obj m = JObject (map (\<lambda>(k, v). (lit k, v)) m)"

definition jstr :: "string \<Rightarrow> json" where
  "jstr s = JString (lit s)"

text \<open>\<open>Vec::join\<close> with a separator.\<close>

fun join_str :: "str \<Rightarrow> str list \<Rightarrow> str" where
  "join_str sep [] = []"
| "join_str sep [s] = s"
| "join_str sep (s # t # ts) = s @ sep @ join_str sep (t # ts)"

section \<open>A Messages client\<close>

fun truthy :: "json \<Rightarrow> bool" where
  "truthy JNull = False"
| "truthy (JBool b) = b"
| "truthy (JNumber n) = (case num_f64 n of None \<Rightarrow> False | Some x \<Rightarrow> \<not> feq x (Fin 0))"
| "truthy (JString s) = (s \<noteq> [])"
| "truthy (JArray xs) = (xs \<noteq> [])"
| "truthy (JObject m) = (m \<noteq> [])"

fun block_text :: "json \<Rightarrow> str option" where
  "block_text (JString t) = Some t"
| "block_text (JObject m) = member_str m ''text''"
| "block_text _ = None"

fun flatten_text :: "json option \<Rightarrow> str" where
  "flatten_text (Some (JString t)) = t"
| "flatten_text (Some (JArray blocks)) = join_str [10] (List.map_filter block_text blocks)"
| "flatten_text _ = []"

text \<open>The scanner that pads one-digit exponents outside strings.\<close>

definition sign_and_digits :: "str \<Rightarrow> str \<times> str \<times> str" where
  "sign_and_digits s =
     (let (sign, rest) = (case s of c # cs \<Rightarrow> if c = 43 \<or> c = 45 then ([c], cs) else ([], s) | [] \<Rightarrow> ([], []))
      in (sign, takeWhile is_ascii_digit rest, dropWhile is_ascii_digit rest))"

lemma sign_and_digits_shorter: "sign_and_digits s = (sign, digits, rest) \<Longrightarrow> length rest \<le> length s"
  by (auto simp: sign_and_digits_def Let_def split: list.splits if_splits prod.splits)
    (metis le_SucI length_dropWhile_le order_trans)+

function pad_exponents_from :: "bool \<Rightarrow> bool \<Rightarrow> str \<Rightarrow> str" where
  "pad_exponents_from in_string escaped [] = []"
| "pad_exponents_from in_string escaped (b # bs) =
     (if in_string then
        b # (if escaped then pad_exponents_from True False bs
             else if b = 92 then pad_exponents_from True True bs
             else if b = 34 then pad_exponents_from False False bs
             else pad_exponents_from True False bs)
      else if b = 34 then 34 # pad_exponents_from True escaped bs
      else if b \<noteq> 101 \<and> b \<noteq> 69 then b # pad_exponents_from False escaped bs
      else
        (case sign_and_digits bs of
           (sign, digits, rest) \<Rightarrow>
             101 # sign @ (if length digits = 1 then 48 # digits else digits) @ pad_exponents_from False escaped rest))"
  by pat_completeness auto

termination pad_exponents_from
  by (relation "measure (\<lambda>(_, _, s). length s)") (auto dest: sign_and_digits_shorter [OF sym])

definition pad_python_exponents :: "str \<Rightarrow> str" where
  "pad_python_exponents encoded = pad_exponents_from False False encoded"

definition python_compact_json :: "(json \<Rightarrow> str option) \<Rightarrow> json \<Rightarrow> str" where
  "python_compact_json to_string v =
     pad_python_exponents
       (concat (map (\<lambda>c. if c \<le> 126 then [c] else concat (map unicode_escape (utf16_units c)))
         (case to_string v of None \<Rightarrow> lit ''{}'' | Some s \<Rightarrow> s)))"

definition translate_tool :: "(str \<times> json) list \<Rightarrow> json" where
  "translate_tool tool =
     obj [(''type'', jstr ''function''),
          (''function'', JObject
             ([(lit ''name'', or_empty_string (member tool ''name'')),
               (lit ''parameters'', (case member tool ''input_schema'' of
                  None \<Rightarrow> JObject [] | Some v \<Rightarrow> if truthy v then v else JObject []))] @
              (case member_str tool ''description'' of
                 None \<Rightarrow> [] | Some d \<Rightarrow> if d = [] then [] else [(lit ''description'', JString d)])))]"

definition translate_tool_choice :: "json \<Rightarrow> json" where
  "translate_tool_choice choice =
     (case choice of
        JString _ \<Rightarrow> choice
      | JObject m \<Rightarrow>
          (let kind = member_str m ''type'' in
           if kind = Some (lit ''auto'') then jstr ''auto''
           else if kind = Some (lit ''any'') then jstr ''required''
           else if kind = Some (lit ''none'') then jstr ''none''
           else if kind = Some (lit ''tool'') then
             (case member m ''name'' of
                None \<Rightarrow> jstr ''auto''
              | Some name \<Rightarrow>
                  if truthy name then obj [(''type'', jstr ''function''), (''function'', obj [(''name'', name)])]
                  else jstr ''auto'')
           else jstr ''auto'')
      | _ \<Rightarrow> jstr ''auto'')"

text \<open>The texts, the tool calls and the tool results of the blocks of a message.\<close>

definition call_of_block :: "(json \<Rightarrow> str option) \<Rightarrow> (str \<times> json) list \<Rightarrow> json" where
  "call_of_block to_string block =
     obj [(''id'', or_empty_string (member block ''id'')), (''type'', jstr ''function''),
          (''function'', obj [(''name'', or_empty_string (member block ''name'')),
             (''arguments'', JString (python_compact_json to_string
                (case member block ''input'' of None \<Rightarrow> JObject [] | Some v \<Rightarrow> if truthy v then v else JObject [])))])]"

definition result_of_block :: "(str \<times> json) list \<Rightarrow> json" where
  "result_of_block block =
     obj [(''role'', jstr ''tool''), (''tool_call_id'', or_empty_string (member block ''tool_use_id'')),
          (''content'', JString (flatten_text (member block ''content'')))]"

definition take_block ::
  "(json \<Rightarrow> str option) \<Rightarrow> (str \<times> json) list \<Rightarrow> str list \<times> json list \<times> json list \<Rightarrow> str list \<times> json list \<times> json list" where
  "take_block to_string block acc =
     (case acc of (texts, calls, results) \<Rightarrow>
        let kind = member_str block ''type'' in
        if kind = Some (lit ''text'') then
          ((case member_str block ''text'' of None \<Rightarrow> texts | Some t \<Rightarrow> texts @ [t]), calls, results)
        else if kind = Some (lit ''tool_use'') then (texts, calls @ [call_of_block to_string block], results)
        else if kind = Some (lit ''tool_result'') then (texts, calls, results @ [result_of_block block])
        else (texts, calls, results))"

definition translate_message :: "(json \<Rightarrow> str option) \<Rightarrow> (str \<times> json) list \<Rightarrow> json list" where
  "translate_message to_string m =
     (let role = (case member m ''role'' of None \<Rightarrow> JNull | Some r \<Rightarrow> r) in
      case member m ''content'' of
        None \<Rightarrow> []
      | Some (JString t) \<Rightarrow> [obj [(''role'', role), (''content'', JString t)]]
      | Some (JArray blocks) \<Rightarrow>
          (case fold (take_block to_string) (List.map_filter as_object blocks) ([], [], []) of
             (texts, calls, results) \<Rightarrow>
               results @
               (if as_str role = Some (lit ''assistant'') then
                  (if texts \<noteq> [] \<or> calls \<noteq> []
                   then [JObject ([(lit ''role'', jstr ''assistant''),
                                   (lit ''content'', if texts = [] then JNull else JString (join_str [10] texts))] @
                                  (if calls = [] then [] else [(lit ''tool_calls'', JArray calls)]))]
                   else [])
                else if texts \<noteq> [] then [obj [(''role'', role), (''content'', JString (join_str [10] texts))]]
                else []))
      | Some _ \<Rightarrow> [])"

definition keep_member :: "(str \<times> json) list \<Rightarrow> string \<Rightarrow> (str \<times> json) list" where
  "keep_member body name = (case member body name of None \<Rightarrow> [] | Some v \<Rightarrow> [(lit name, v)])"

definition anthropic_to_openai_request :: "(json \<Rightarrow> str option) \<Rightarrow> json \<Rightarrow> json" where
  "anthropic_to_openai_request to_string v =
     (let body = (case as_object v of None \<Rightarrow> [] | Some m \<Rightarrow> m);
          system = flatten_text (member body ''system'')
      in JObject
           ([(lit ''model'', case member body ''model'' of None \<Rightarrow> jstr ''auto'' | Some m \<Rightarrow> m),
             (lit ''messages'', JArray
                ((if system = [] then [] else [obj [(''role'', jstr ''system''), (''content'', JString system)]]) @
                 (case Option.bind (member body ''messages'') as_array of
                    None \<Rightarrow> []
                  | Some ms \<Rightarrow> concat (map (translate_message to_string) (List.map_filter as_object ms)))))] @
            keep_member body ''max_tokens'' @ keep_member body ''temperature'' @ keep_member body ''top_p'' @
            (case member body ''stop_sequences'' of
               None \<Rightarrow> [] | Some s \<Rightarrow> if truthy s then [(lit ''stop'', s)] else []) @
            (case member body ''stream'' of None \<Rightarrow> [] | Some s \<Rightarrow> if truthy s then [(lit ''stream'', JBool True)] else []) @
            (case member body ''tools'' of
               Some (JArray ts) \<Rightarrow>
                 if ts = [] then [] else [(lit ''tools'', JArray (map translate_tool (List.map_filter as_object ts)))]
             | _ \<Rightarrow> []) @
            (case member body ''tool_choice'' of
               None \<Rightarrow> [] | Some c \<Rightarrow> if c = JNull then [] else [(lit ''tool_choice'', translate_tool_choice c)])))"

definition estimate_text_tokens :: "str \<Rightarrow> u64" where
  "estimate_text_tokens t = (if t = [] then 0 else max (length t div 4) 1)"

definition stop_reason :: "json option \<Rightarrow> str" where
  "stop_reason reason =
     (let r = Option.bind reason as_str in
      if r = Some (lit ''length'') then lit ''max_tokens''
      else if r = Some (lit ''tool_calls'') \<or> r = Some (lit ''function_call'') then lit ''tool_use''
      else lit ''end_turn'')"

definition response_usage :: "(str \<times> json) list \<Rightarrow> str \<Rightarrow> str \<Rightarrow> u64 \<times> u64" where
  "response_usage response prompt completion =
     (case Option.bind (member response ''usage'') as_object of
        None \<Rightarrow> (estimate_text_tokens prompt, estimate_text_tokens completion)
      | Some usage \<Rightarrow>
          (case (Option.bind (member usage ''prompt_tokens'') as_u64, Option.bind (member usage ''completion_tokens'') as_u64) of
             (Some i, Some out) \<Rightarrow> (i, out)
           | _ \<Rightarrow> (estimate_text_tokens prompt, estimate_text_tokens completion)))"

definition call_arguments :: "(str \<times> json) list \<Rightarrow> str" where
  "call_arguments call =
     (case Option.bind (Option.bind (member call ''function'') as_object) (\<lambda>f. member_str f ''arguments'') of
        None \<Rightarrow> [] | Some a \<Rightarrow> a)"

definition block_of_call :: "(str \<Rightarrow> json option) \<Rightarrow> nat \<times> (str \<times> json) list \<Rightarrow> json" where
  "block_of_call from_str ic =
     (case ic of (index, call) \<Rightarrow>
        obj [(''type'', jstr ''tool_use''),
             (''id'', (case member call ''id'' of
                Some v \<Rightarrow> if truthy v then v else JString (lit ''toolu_'' @ dec_digits index)
              | None \<Rightarrow> JString (lit ''toolu_'' @ dec_digits index))),
             (''name'', or_empty_string (Option.bind (Option.bind (member call ''function'') as_object) (\<lambda>f. member f ''name''))),
             (''input'', (case from_str (call_arguments call) of None \<Rightarrow> JObject [] | Some v \<Rightarrow> v))])"

definition openai_to_anthropic_response :: "(str \<Rightarrow> json option) \<Rightarrow> json \<Rightarrow> str \<Rightarrow> str \<Rightarrow> str \<Rightarrow> json" where
  "openai_to_anthropic_response from_str v model message_id prompt_text =
     (let response = (case as_object v of None \<Rightarrow> [] | Some m \<Rightarrow> m);
          choice = Option.bind (Option.bind (Option.bind (member response ''choices'') as_array)
                     (\<lambda>cs. case cs of [] \<Rightarrow> None | c # _ \<Rightarrow> Some c)) as_object;
          message = Option.bind (Option.bind choice (\<lambda>c. member c ''message'')) as_object;
          texts = (case Option.bind message (\<lambda>m. member_str m ''content'') of None \<Rightarrow> [] | Some t \<Rightarrow> t);
          calls = (case Option.bind (Option.bind message (\<lambda>m. member m ''tool_calls'')) as_array of
                     None \<Rightarrow> [] | Some cs \<Rightarrow> List.map_filter as_object cs);
          content = (if texts = [] then [] else [obj [(''type'', jstr ''text''), (''text'', JString texts)]]) @
                    map (block_of_call from_str) (zip [0..<length calls] calls);
          usage = response_usage response prompt_text (texts @ concat (map call_arguments calls))
      in obj [(''id'', JString message_id), (''type'', jstr ''message''), (''role'', jstr ''assistant''), (''model'', JString model),
              (''content'', JArray (if content = [] then [obj [(''type'', jstr ''text''), (''text'', JString [])]] else content)),
              (''stop_reason'', JString (stop_reason (Option.bind choice (\<lambda>c. member c ''finish_reason'')))),
              (''stop_sequence'', JNull),
              (''usage'', obj [(''input_tokens'', json_u64 (fst usage)), (''output_tokens'', json_u64 (snd usage))])])"

definition anthropic_error :: "nat \<Rightarrow> str \<Rightarrow> json" where
  "anthropic_error status message =
     obj [(''type'', jstr ''error''),
          (''error'', obj [(''type'', jstr
             (if status \<in> {400, 402, 422} then ''invalid_request_error'' else if status = 401 then ''authentication_error''
              else if status = 403 then ''permission_error'' else if status = 404 then ''not_found_error''
              else if status = 413 then ''request_too_large'' else if status = 429 then ''rate_limit_error''
              else if status = 503 then ''overloaded_error'' else ''api_error'')),
            (''message'', JString message)])]"

section \<open>Reading the values back\<close>

lemma json_u64_value [simp]: "as_u64 (json_u64 n) = Some n"
  by (simp add: json_u64_def)

lemma obj_simps [simp]:
  "as_object (obj m) = Some (map (\<lambda>(k, v). (lit k, v)) m)" "as_array (obj m) = None" "as_str (obj m) = None"
  "as_str (jstr t) = Some (lit t)" "as_object (jstr t) = None" "as_array (jstr t) = None"
  by (simp_all add: obj_def jstr_def)

end
