(* ===== verification/Anthropic_Native.thy ===== *)
theory Anthropic_Native
  imports Anthropic_Messages Sse
begin

text \<open>
  A Messages provider behind the gateway: \<open>wayfinder-providers/src/anthropic_native.rs\<close>. An OpenAI
  request becomes a Messages request, a Messages answer, buffered or streamed, becomes an OpenAI one.
  JSON text is read and written by a library, the parameters \<open>from_str\<close> and \<open>to_string\<close>.
\<close>

section \<open>Results\<close>

definition ok_or :: "'e \<Rightarrow> 'a option \<Rightarrow> ('e, 'a) result" where
  "ok_or e v = (case v of None \<Rightarrow> Inl e | Some x \<Rightarrow> Inr x)"

definition and_then :: "('e, 'a) result \<Rightarrow> ('a \<Rightarrow> ('e, 'b) result) \<Rightarrow> ('e, 'b) result" where
  "and_then r f = (case r of Inl e \<Rightarrow> Inl e | Inr x \<Rightarrow> f x)"

fun try_map :: "('a \<Rightarrow> ('e, 'b) result) \<Rightarrow> 'a list \<Rightarrow> ('e, 'b list) result" where
  "try_map f [] = Inr []"
| "try_map f (x # xs) = and_then (f x) (\<lambda>y. and_then (try_map f xs) (\<lambda>ys. Inr (y # ys)))"

fun try_fold :: "('a \<Rightarrow> 's \<Rightarrow> ('e, 's) result) \<Rightarrow> 'a list \<Rightarrow> 's \<Rightarrow> ('e, 's) result" where
  "try_fold f [] s = Inr s"
| "try_fold f (x # xs) s = and_then (f x s) (try_fold f xs)"

lemma ok_or_Inr [simp]: "ok_or e v = Inr x \<longleftrightarrow> v = Some x"
  by (cases v) (auto simp: ok_or_def)

lemma ok_or_simps [simp]: "ok_or e None = Inl e" "ok_or e (Some x) = Inr x"
  by (simp_all add: ok_or_def)

lemma and_then_Inr: "and_then r f = Inr y \<longleftrightarrow> (\<exists>x. r = Inr x \<and> f x = Inr y)"
  by (cases r) (auto simp: and_then_def)

lemma and_then_simps [simp]: "and_then (Inr x) f = f x" "and_then (Inl e) f = Inl e"
  by (simp_all add: and_then_def)

lemma try_map_Inr: "try_map f xs = Inr ys \<longleftrightarrow> list_all2 (\<lambda>x y. f x = Inr y) xs ys"
  by (induction xs arbitrary: ys) (auto simp: and_then_Inr list_all2_Cons1)

lemma try_fold_append: "try_fold f (xs @ ys) s = and_then (try_fold f xs s) (try_fold f ys)"
  by (induction xs arbitrary: s) (auto simp: and_then_def split: sum.splits)

section \<open>Requests\<close>

definition DEFAULT_MAX_TOKENS :: u64 where
  "DEFAULT_MAX_TOKENS = 4096"

definition MAX_TOOL_CALLS :: nat where
  "MAX_TOOL_CALLS = 64"

datatype anthropic_native_error = InvalidRequest | InvalidResponse | StreamError sse_decode_error

definition non_empty :: "str option \<Rightarrow> str option" where
  "non_empty v = Option.bind v (\<lambda>s. if s = [] then None else Some s)"

definition text_part :: "json \<Rightarrow> (anthropic_native_error, str) result" where
  "text_part part =
     and_then (ok_or InvalidRequest (as_object part)) (\<lambda>m.
       if member_str m ''type'' \<noteq> Some (lit ''text'') then Inl InvalidRequest
       else ok_or InvalidRequest (member_str m ''text''))"

fun text_content :: "json option \<Rightarrow> (anthropic_native_error, str) result" where
  "text_content None = Inr []"
| "text_content (Some JNull) = Inr []"
| "text_content (Some (JString t)) = Inr t"
| "text_content (Some (JArray parts)) = and_then (try_map text_part parts) (\<lambda>texts. Inr (join_str [10] texts))"
| "text_content (Some _) = Inl InvalidRequest"

text \<open>The content of the last message is extended when it has the same role; otherwise a message is added.
  Only the first member of each name is one: names are distinct in an object.\<close>

definition push_message :: "str \<Rightarrow> json list \<Rightarrow> json list \<Rightarrow> json list" where
  "push_message role blocks messages =
     (if blocks = [] then messages
      else
        let fresh = messages @ [obj [(''role'', JString role), (''content'', JArray blocks)]] in
        if messages = [] then fresh
        else (case as_object (last messages) of
                None \<Rightarrow> fresh
              | Some m \<Rightarrow>
                  if member_str m ''role'' = Some role then
                    (case Option.bind (member m ''content'') as_array of
                       None \<Rightarrow> fresh
                     | Some content \<Rightarrow> butlast messages @ [JObject (ix_insert (lit ''content'') (JArray (content @ blocks)) m)])
                  else fresh))"

definition translate_openai_tool :: "json \<Rightarrow> (anthropic_native_error, json) result" where
  "translate_openai_tool v =
     and_then (ok_or InvalidRequest (as_object v)) (\<lambda>tool.
     if member_str tool ''type'' \<noteq> Some (lit ''function'') then Inl InvalidRequest
     else
       and_then (ok_or InvalidRequest (Option.bind (member tool ''function'') as_object)) (\<lambda>func.
       and_then (ok_or InvalidRequest (non_empty (member_str func ''name''))) (\<lambda>name.
       let input_schema = (case member func ''parameters'' of
                             None \<Rightarrow> obj [(''type'', jstr ''object''), (''properties'', JObject [])] | Some v \<Rightarrow> v) in
       if as_object input_schema = None then Inl InvalidRequest
       else Inr (JObject ([(lit ''name'', JString name), (lit ''input_schema'', input_schema)] @
                          (case member_str func ''description'' of
                             None \<Rightarrow> [] | Some d \<Rightarrow> [(lit ''description'', JString d)]))))))"

fun native_tool_choice :: "json \<Rightarrow> (anthropic_native_error, (str \<times> json) list) result" where
  "native_tool_choice (JString choice) =
     (if choice = lit ''auto'' then Inr [(lit ''type'', jstr ''auto'')]
      else if choice = lit ''required'' then Inr [(lit ''type'', jstr ''any'')]
      else if choice = lit ''none'' then Inr [(lit ''type'', jstr ''none'')]
      else Inl InvalidRequest)"
| "native_tool_choice (JObject choice) =
     (if member_str choice ''type'' = Some (lit ''function'') then
        and_then (ok_or InvalidRequest (non_empty
            (Option.bind (Option.bind (member choice ''function'') as_object) (\<lambda>f. member_str f ''name''))))
          (\<lambda>name. Inr [(lit ''type'', jstr ''tool''), (lit ''name'', JString name)])
      else Inl InvalidRequest)"
| "native_tool_choice _ = Inl InvalidRequest"

definition tool_use_of_call :: "(str \<Rightarrow> json option) \<Rightarrow> json \<Rightarrow> (anthropic_native_error, json) result" where
  "tool_use_of_call from_str v =
     and_then (ok_or InvalidRequest (as_object v)) (\<lambda>call.
     if member_str call ''type'' \<noteq> Some (lit ''function'') then Inl InvalidRequest
     else
       and_then (ok_or InvalidRequest (non_empty (member_str call ''id''))) (\<lambda>ident.
       and_then (ok_or InvalidRequest (Option.bind (member call ''function'') as_object)) (\<lambda>func.
       and_then (ok_or InvalidRequest (non_empty (member_str func ''name''))) (\<lambda>name.
       and_then (ok_or InvalidRequest (member_str func ''arguments'')) (\<lambda>arguments.
       and_then (ok_or InvalidRequest (from_str arguments)) (\<lambda>input.
       if as_object input = None then Inl InvalidRequest
       else Inr (obj [(''type'', jstr ''tool_use''), (''id'', JString ident), (''name'', JString name), (''input'', input)])))))))"

definition text_blocks :: "str \<Rightarrow> json list" where
  "text_blocks body_text = (if body_text = [] then [] else [obj [(''type'', jstr ''text''), (''text'', JString body_text)]])"

definition translate_assistant_message ::
  "(str \<Rightarrow> json option) \<Rightarrow> (str \<times> json) list \<Rightarrow> (anthropic_native_error, json list) result" where
  "translate_assistant_message from_str message =
     and_then (text_content (member message ''content'')) (\<lambda>body_text.
     case member message ''tool_calls'' of
       None \<Rightarrow> Inr (text_blocks body_text)
     | Some v \<Rightarrow>
         and_then (ok_or InvalidRequest (as_array v)) (\<lambda>calls.
         if MAX_TOOL_CALLS < length calls then Inl InvalidRequest
         else and_then (try_map (tool_use_of_call from_str) calls) (\<lambda>blocks. Inr (text_blocks body_text @ blocks))))"

text \<open>One message of the request: the system blocks and the messages so far.\<close>

definition translate_request_message ::
  "(str \<Rightarrow> json option) \<Rightarrow> json \<Rightarrow> json list \<times> json list \<Rightarrow> (anthropic_native_error, json list \<times> json list) result" where
  "translate_request_message from_str v acc =
     and_then (ok_or InvalidRequest (as_object v)) (\<lambda>message.
     let role = member_str message ''role''; (system, messages) = acc in
     if role = Some (lit ''system'') \<or> role = Some (lit ''developer'') then
       and_then (text_content (member message ''content'')) (\<lambda>body_text. Inr (system @ text_blocks body_text, messages))
     else if role = Some (lit ''user'') then
       and_then (text_content (member message ''content'')) (\<lambda>body_text.
         Inr (system, push_message (lit ''user'') (text_blocks body_text) messages))
     else if role = Some (lit ''assistant'') then
       and_then (translate_assistant_message from_str message) (\<lambda>blocks.
         Inr (system, push_message (lit ''assistant'') blocks messages))
     else if role = Some (lit ''tool'') then
       and_then (ok_or InvalidRequest (non_empty (member_str message ''tool_call_id''))) (\<lambda>tool_use_id.
       and_then (text_content (member message ''content'')) (\<lambda>content.
         Inr (system, push_message (lit ''user'')
                [obj [(''type'', jstr ''tool_result''), (''tool_use_id'', JString tool_use_id), (''content'', JString content)]]
                messages)))
     else Inl InvalidRequest)"

definition UNSUPPORTED_FIELDS :: "string list" where
  "UNSUPPORTED_FIELDS =
     [''audio'', ''frequency_penalty'', ''logprobs'', ''modalities'', ''prediction'', ''presence_penalty'',
      ''response_format'', ''seed'', ''service_tier'', ''top_logprobs'']"

definition request_max_tokens :: "(str \<times> json) list \<Rightarrow> (anthropic_native_error, u64) result" where
  "request_max_tokens body =
     (case (case member body ''max_completion_tokens'' of None \<Rightarrow> member body ''max_tokens'' | Some v \<Rightarrow> Some v) of
        None \<Rightarrow> Inr DEFAULT_MAX_TOKENS
      | Some v \<Rightarrow> (case as_u64 v of None \<Rightarrow> Inl InvalidRequest | Some n \<Rightarrow> if 0 < n then Inr n else Inl InvalidRequest))"

definition stop_sequences :: "(str \<times> json) list \<Rightarrow> (anthropic_native_error, (str \<times> json) list) result" where
  "stop_sequences body =
     (case member body ''stop'' of
        None \<Rightarrow> Inr []
      | Some (JString s) \<Rightarrow> if s \<noteq> [] then Inr [(lit ''stop_sequences'', JArray [JString s])] else Inl InvalidRequest
      | Some (JArray vs) \<Rightarrow>
          if vs \<noteq> [] \<and> list_all (\<lambda>v. \<exists>s \<in> set_option (as_str v). s \<noteq> []) vs
          then Inr [(lit ''stop_sequences'', JArray vs)] else Inl InvalidRequest
      | Some _ \<Rightarrow> Inl InvalidRequest)"

definition request_tools :: "(str \<times> json) list \<Rightarrow> (anthropic_native_error, (str \<times> json) list) result" where
  "request_tools body =
     (case member body ''tools'' of
        None \<Rightarrow> Inr []
      | Some v \<Rightarrow>
          and_then (ok_or InvalidRequest (as_array v)) (\<lambda>tools.
          if MAX_TOOL_CALLS < length tools then Inl InvalidRequest
          else and_then (try_map translate_openai_tool tools) (\<lambda>ts. Inr [(lit ''tools'', JArray ts)])))"

definition request_tool_choice :: "(str \<times> json) list \<Rightarrow> (anthropic_native_error, (str \<times> json) list) result" where
  "request_tool_choice body =
     (let sequential = Option.bind (member body ''parallel_tool_calls'') as_bool = Some False in
      case member body ''tool_choice'' of
        Some v \<Rightarrow>
          and_then (native_tool_choice v) (\<lambda>choice.
            Inr [(lit ''tool_choice'', JObject
              (if sequential then ix_insert (lit ''disable_parallel_tool_use'') (JBool True) choice else choice))])
      | None \<Rightarrow>
          Inr (if sequential
               then [(lit ''tool_choice'', obj [(''type'', jstr ''auto''), (''disable_parallel_tool_use'', JBool True)])]
               else []))"

definition openai_to_anthropic_request ::
  "(str \<Rightarrow> json option) \<Rightarrow> json \<Rightarrow> str \<Rightarrow> bool \<Rightarrow> (anthropic_native_error, json) result" where
  "openai_to_anthropic_request from_str v provider_model streaming =
     and_then (ok_or InvalidRequest (as_object v)) (\<lambda>body.
     if list_ex (\<lambda>f. member body f \<noteq> None) UNSUPPORTED_FIELDS \<or>
        (case Option.bind (member body ''n'') as_u64 of None \<Rightarrow> False | Some count \<Rightarrow> count \<noteq> 1)
     then Inl InvalidRequest
     else
       and_then (request_max_tokens body) (\<lambda>max_tokens.
       and_then (ok_or InvalidRequest (Option.bind (member body ''messages'') as_array)) (\<lambda>raw_messages.
       and_then (try_fold (translate_request_message from_str) raw_messages ([], [])) (\<lambda>(system, messages).
       if messages = [] then Inl InvalidRequest
       else
         and_then (stop_sequences body) (\<lambda>stop.
         and_then (request_tools body) (\<lambda>tools.
         and_then (request_tool_choice body) (\<lambda>choice.
         Inr (JObject
           ([(lit ''model'', JString provider_model), (lit ''max_tokens'', json_u64 max_tokens),
             (lit ''messages'', JArray messages), (lit ''stream'', JBool streaming)] @
            (if system = [] then [] else [(lit ''system'', JArray system)]) @
            keep_member body ''temperature'' @ keep_member body ''top_p'' @ keep_member body ''top_k'' @
            stop @ tools @ choice)))))))))"

section \<open>Buffered responses\<close>

definition openai_finish_reason :: "str option \<Rightarrow> str" where
  "openai_finish_reason reason =
     (if reason = Some (lit ''max_tokens'') then lit ''length''
      else if reason = Some (lit ''tool_use'') then lit ''tool_calls''
      else lit ''stop'')"

definition response_block ::
  "(json \<Rightarrow> str option) \<Rightarrow> json \<Rightarrow> str list \<times> json list \<Rightarrow> (anthropic_native_error, str list \<times> json list) result" where
  "response_block to_string v acc =
     and_then (ok_or InvalidResponse (as_object v)) (\<lambda>block.
     let kind = member_str block ''type''; (texts, tool_calls) = acc in
     if kind = Some (lit ''text'') then
       and_then (ok_or InvalidResponse (member_str block ''text'')) (\<lambda>t. Inr (texts @ [t], tool_calls))
     else if kind = Some (lit ''tool_use'') then
       and_then (ok_or InvalidResponse (member_str block ''id'')) (\<lambda>ident.
       and_then (ok_or InvalidResponse (member_str block ''name'')) (\<lambda>name.
       and_then (ok_or InvalidResponse (member block ''input'')) (\<lambda>input.
       and_then (ok_or InvalidResponse (to_string input)) (\<lambda>arguments.
       Inr (texts, tool_calls @
         [obj [(''id'', JString ident), (''type'', jstr ''function''),
               (''function'', obj [(''name'', JString name), (''arguments'', JString arguments)])]])))))
     else Inl InvalidResponse)"

definition usage_field :: "(str \<times> json) list option \<Rightarrow> string \<Rightarrow> u64" where
  "usage_field usage name =
     (case Option.bind usage (\<lambda>u. Option.bind (member u name) as_u64) of None \<Rightarrow> 0 | Some n \<Rightarrow> n)"

definition anthropic_to_openai_response :: "(json \<Rightarrow> str option) \<Rightarrow> json \<Rightarrow> (anthropic_native_error, json) result" where
  "anthropic_to_openai_response to_string v =
     and_then (ok_or InvalidResponse (as_object v)) (\<lambda>body.
     if member_str body ''type'' \<noteq> Some (lit ''message'') then Inl InvalidResponse
     else
       and_then (ok_or InvalidResponse (Option.bind (member body ''content'') as_array)) (\<lambda>content.
       and_then (try_fold (response_block to_string) content ([], [])) (\<lambda>(texts, tool_calls).
       let usage = Option.bind (member body ''usage'') as_object;
           prompt_tokens = usage_field usage ''input_tokens'';
           completion_tokens = usage_field usage ''output_tokens'' in
       Inr (obj
         [(''id'', case member body ''id'' of None \<Rightarrow> jstr ''msg_anthropic'' | Some i \<Rightarrow> i),
          (''object'', jstr ''chat.completion''), (''created'', json_u64 0),
          (''model'', case member body ''model'' of None \<Rightarrow> JString [] | Some m \<Rightarrow> m),
          (''choices'', JArray [obj
             [(''index'', json_u64 0),
              (''message'', JObject
                 ([(lit ''role'', jstr ''assistant''),
                   (lit ''content'', if texts = [] then JNull else JString (concat texts))] @
                  (if tool_calls = [] then [] else [(lit ''tool_calls'', JArray tool_calls)]))),
              (''finish_reason'', JString (openai_finish_reason (member_str body ''stop_reason'')))]]),
          (''usage'', obj [(''prompt_tokens'', json_u64 prompt_tokens), (''completion_tokens'', json_u64 completion_tokens),
             (''total_tokens'', json_u64 (sat_add prompt_tokens completion_tokens))])]))))"

definition anthropic_to_openai_error :: "json \<Rightarrow> json" where
  "anthropic_to_openai_error body =
     (let detail = (case jget body (lit ''error'') of None \<Rightarrow> body | Some d \<Rightarrow> d) in
      obj [(''error'', obj
        [(''message'', JString (case Option.bind (jget detail (lit ''message'')) as_str of
            None \<Rightarrow> lit ''Anthropic upstream error'' | Some m \<Rightarrow> m)),
         (''type'', JString (case Option.bind (jget detail (lit ''type'')) as_str of
            None \<Rightarrow> lit ''api_error'' | Some t \<Rightarrow> t))])])"

section \<open>Turns alternate\<close>

definition turn :: "str \<times> json list \<Rightarrow> json" where
  "turn p = obj [(''role'', JString (fst p)), (''content'', JArray (snd p))]"

definition push_turn :: "str \<Rightarrow> json list \<Rightarrow> (str \<times> json list) list \<Rightarrow> (str \<times> json list) list" where
  "push_turn role blocks ps =
     (if blocks = [] then ps
      else if ps \<noteq> [] \<and> fst (last ps) = role then butlast ps @ [(role, snd (last ps) @ blocks)]
      else ps @ [(role, blocks)])"

text \<open>The blocks in order, each with the role of its turn.\<close>

definition tagged :: "(str \<times> json list) list \<Rightarrow> (str \<times> json) list" where
  "tagged ps = concat (map (\<lambda>(r, bs). map (Pair r) bs) ps)"

definition alternating :: "(str \<times> json list) list \<Rightarrow> bool" where
  "alternating ps \<longleftrightarrow>
     list_all (\<lambda>(r, bs). (r = lit ''user'' \<or> r = lit ''assistant'') \<and> bs \<noteq> []) ps \<and> successively (\<lambda>p q. fst p \<noteq> fst q) ps"

lemma turn_reads [simp]:
  "as_object (turn p) = Some [(lit ''role'', JString (fst p)), (lit ''content'', JArray (snd p))]"
  by (simp add: turn_def)

lemma push_message_turns: "push_message role blocks (map turn ps) = map turn (push_turn role blocks ps)"
proof (cases "ps = []")
  case False
  then have "last (map turn ps) = turn (last ps)" by (simp add: last_map)
  with False show ?thesis
    by (auto simp: push_message_def push_turn_def Let_def member_str_def member_def map_butlast [symmetric] turn_def obj_def)
qed (simp add: push_message_def push_turn_def Let_def turn_def)

lemma tagged_push_turn: "tagged (push_turn role blocks ps) = tagged ps @ map (Pair role) blocks"
proof (cases "ps = []")
  case False
  then obtain qs q where "ps = qs @ [q]" by (metis append_butlast_last_id)
  then show ?thesis by (cases q) (auto simp: push_turn_def tagged_def)
qed (simp add: push_turn_def tagged_def)

lemma alternating_push_turn:
  assumes "alternating ps" "role = lit ''user'' \<or> role = lit ''assistant''"
  shows "alternating (push_turn role blocks ps)"
proof (cases "ps = []")
  case False
  then obtain qs q where ps: "ps = qs @ [q]" by (metis append_butlast_last_id)
  show ?thesis
    using assms unfolding ps
    by (cases q) (auto simp: push_turn_def alternating_def successively_append_iff simp del: lit_Cons)
qed (use assms in \<open>auto simp: push_turn_def alternating_def simp del: lit_Cons\<close>)

text \<open>The blocks one incoming message contributes.\<close>

definition or_nil :: "('e, 'a list) result \<Rightarrow> 'a list" where
  "or_nil r = (case r of Inl _ \<Rightarrow> [] | Inr xs \<Rightarrow> xs)"

definition message_blocks :: "(str \<Rightarrow> json option) \<Rightarrow> json \<Rightarrow> (str \<times> json) list" where
  "message_blocks from_str v =
     (case as_object v of
        None \<Rightarrow> []
      | Some m \<Rightarrow>
          let role = member_str m ''role''; body_text = or_nil (text_content (member m ''content'')) in
          if role = Some (lit ''user'') then map (Pair (lit ''user'')) (text_blocks body_text)
          else if role = Some (lit ''assistant'')
          then map (Pair (lit ''assistant'')) (or_nil (translate_assistant_message from_str m))
          else if role = Some (lit ''tool'') then
            [(lit ''user'', obj [(''type'', jstr ''tool_result''),
               (''tool_use_id'', or_empty_string (member m ''tool_call_id'')), (''content'', JString body_text)])]
          else [])"

lemma roles_distinct [simp]:
  "lit ''system'' \<noteq> lit ''user''" "lit ''developer'' \<noteq> lit ''user''" "lit ''system'' \<noteq> lit ''assistant''"
  "lit ''developer'' \<noteq> lit ''assistant''" "lit ''system'' \<noteq> lit ''tool''" "lit ''developer'' \<noteq> lit ''tool''"
  "lit ''assistant'' \<noteq> lit ''user''" "lit ''tool'' \<noteq> lit ''user''" "lit ''tool'' \<noteq> lit ''assistant''"
  by simp_all

lemmas roles_distinct_sym [simp] = roles_distinct [symmetric]

lemma non_empty_member: "non_empty (member_str m n) = Some s \<Longrightarrow> or_empty_string (member m n) = JString s"
  by (auto simp: non_empty_def member_str_def or_empty_string_def bind_eq_Some_conv split: if_splits)
    (metis as_str.elims option.distinct(1) option.inject)

lemma translate_request_message_turns:
  assumes "translate_request_message from_str v (system, map turn ps) = Inr (system', messages)" "alternating ps"
  shows "\<exists>qs. messages = map turn qs \<and> alternating qs \<and> tagged qs = tagged ps @ message_blocks from_str v"
proof -
  obtain m where m: "as_object v = Some m" using assms(1) by (auto simp: translate_request_message_def and_then_Inr)
  let ?role = "member_str m ''role''"
  have step: ?thesis if "messages = push_message r bs (map turn ps)" "r = lit ''user'' \<or> r = lit ''assistant''"
    "message_blocks from_str v = map (Pair r) bs" for r bs
    using that alternating_push_turn [OF assms(2)] by (auto simp: push_message_turns tagged_push_turn simp del: lit_Cons)
  consider "?role = Some (lit ''system'') \<or> ?role = Some (lit ''developer'')" | "?role = Some (lit ''user'')"
    | "?role = Some (lit ''assistant'')" | "?role = Some (lit ''tool'')"
    using assms(1) m by (auto simp: translate_request_message_def Let_def split: if_splits simp del: lit_Cons)
  then show ?thesis
  proof cases
    case 1
    then have "messages = map turn ps" "message_blocks from_str v = []"
      using assms(1) m by (auto simp: translate_request_message_def message_blocks_def Let_def and_then_Inr simp del: lit_Cons)
    then show ?thesis using assms(2) by (intro exI [of _ ps]) simp
  next
    case 2
    then show ?thesis
      using assms(1) m
      by (intro step [of "lit ''user''" "text_blocks (or_nil (text_content (member m ''content'')))"])
        (auto simp: translate_request_message_def message_blocks_def Let_def and_then_Inr or_nil_def simp del: lit_Cons)
  next
    case 3
    then show ?thesis
      using assms(1) m
      by (intro step [of "lit ''assistant''" "or_nil (translate_assistant_message from_str m)"])
        (auto simp: translate_request_message_def message_blocks_def Let_def and_then_Inr or_nil_def simp del: lit_Cons)
  next
    case 4
    then show ?thesis
      using assms(1) m
      by (intro step [of "lit ''user''" "[obj [(''type'', jstr ''tool_result''),
               (''tool_use_id'', or_empty_string (member m ''tool_call_id'')),
               (''content'', JString (or_nil (text_content (member m ''content''))))]]"])
        (auto simp: translate_request_message_def message_blocks_def Let_def and_then_Inr or_nil_def non_empty_member
          simp del: lit_Cons)
  qed
qed

lemma translate_request_turns:
  assumes "try_fold (translate_request_message from_str) vs (system, map turn ps) = Inr (system', messages)" "alternating ps"
  shows "\<exists>qs. messages = map turn qs \<and> alternating qs \<and> tagged qs = tagged ps @ concat (map (message_blocks from_str) vs)"
  using assms
proof (induction vs arbitrary: system ps)
  case (Cons v vs)
  then obtain sy ms where "translate_request_message from_str v (system, map turn ps) = Inr (sy, ms)"
    "try_fold (translate_request_message from_str) vs (sy, ms) = Inr (system', messages)"
    by (auto simp: and_then_Inr)
  with translate_request_message_turns [OF this(1) Cons.prems(2)] Cons.IH show ?case by fastforce
qed auto

lemma request_messages:
  assumes "openai_to_anthropic_request from_str v provider_model streaming = Inr out"
  obtains body raw system messages where "as_object v = Some body" "Option.bind (member body ''messages'') as_array = Some raw"
    "try_fold (translate_request_message from_str) raw ([], []) = Inr (system, messages)" "messages \<noteq> []"
    "jget out (lit ''messages'') = Some (JArray messages)"
  using assms
  by (auto simp: openai_to_anthropic_request_def and_then_Inr jget_def split: if_splits prod.splits)

text \<open>C30. The conversation a Messages provider receives. Its turns alternate between user and assistant and
  none is empty, as that protocol requires, and taken together they hold the blocks of every message of
  the OpenAI request, in the order of the request and each under the role it belongs to.\<close>

theorem request_turns_alternate:
  assumes "openai_to_anthropic_request from_str v provider_model streaming = Inr out"
  shows "\<exists>body raw turns. as_object v = Some body \<and> Option.bind (member body ''messages'') as_array = Some raw \<and>
    jget out (lit ''messages'') = Some (JArray (map turn turns)) \<and> turns \<noteq> [] \<and> alternating turns \<and>
    tagged turns = concat (map (message_blocks from_str) raw)"
proof -
  obtain body raw system messages where r: "as_object v = Some body" "Option.bind (member body ''messages'') as_array = Some raw"
    "try_fold (translate_request_message from_str) raw ([], map turn []) = Inr (system, messages)" "messages \<noteq> []"
    "jget out (lit ''messages'') = Some (JArray messages)"
    using request_messages [OF assms] by (metis list.map(1))
  have "alternating []" by (simp add: alternating_def)
  from translate_request_turns [OF r(3) this] obtain turns where "messages = map turn turns" "alternating turns"
    "tagged turns = concat (map (message_blocks from_str) raw)"
    by (auto simp: tagged_def)
  then show ?thesis using r by blast
qed

definition chat_of :: "(string \<times> string) list \<Rightarrow> json" where
  "chat_of ms = obj [(''messages'', JArray (map (\<lambda>(r, t). obj [(''role'', jstr r), (''content'', jstr t)]) ms))]"

theorem request_turns_alternate_witness:
  "\<exists>turns. alternating turns \<and> tagged turns =
     map (\<lambda>(r, t). (lit r, obj [(''type'', jstr ''text''), (''text'', jstr t)]))
       [(''user'', ''a''), (''user'', ''b''), (''assistant'', ''c'')]"
proof -
  let ?v = "chat_of [(''user'', ''a''), (''user'', ''b''), (''assistant'', ''c'')]"
  let ?f = "\<lambda>_. None :: json option"
  have "\<exists>out. openai_to_anthropic_request ?f ?v [] False = Inr out"
    by (simp add: openai_to_anthropic_request_def chat_of_def UNSUPPORTED_FIELDS_def member_def request_max_tokens_def
        translate_request_message_def member_str_def text_blocks_def translate_assistant_message_def push_message_def Let_def
        stop_sequences_def request_tools_def request_tool_choice_def jstr_def obj_def)
  then obtain out where "openai_to_anthropic_request ?f ?v [] False = Inr out" by blast
  from request_turns_alternate [OF this] obtain body raw turns where t: "as_object ?v = Some body"
    "Option.bind (member body ''messages'') as_array = Some raw" "alternating turns"
    "tagged turns = concat (map (message_blocks ?f) raw)" by blast
  have "raw = map (\<lambda>(r, t). obj [(''role'', jstr r), (''content'', jstr t)]) [(''user'', ''a''), (''user'', ''b''), (''assistant'', ''c'')]"
    using t(1,2) by (auto simp: chat_of_def member_def)
  then have "concat (map (message_blocks ?f) raw) = map (\<lambda>(r, t). (lit r, obj [(''type'', jstr ''text''), (''text'', jstr t)]))
       [(''user'', ''a''), (''user'', ''b''), (''assistant'', ''c'')]"
    by (simp add: message_blocks_def member_def member_str_def or_nil_def text_blocks_def translate_assistant_message_def jstr_def)
  then show ?thesis using t by metis
qed

section \<open>A response there and back\<close>

definition block_text_of :: "json \<Rightarrow> str option" where
  "block_text_of v =
     Option.bind (as_object v) (\<lambda>b. if member_str b ''type'' = Some (lit ''text'') then member_str b ''text'' else None)"

definition block_tool_of :: "json \<Rightarrow> (str \<times> str \<times> json) option" where
  "block_tool_of v =
     Option.bind (as_object v) (\<lambda>b.
       if member_str b ''type'' = Some (lit ''tool_use'') then
         Option.bind (member_str b ''id'') (\<lambda>i. Option.bind (member_str b ''name'') (\<lambda>n.
           map_option (\<lambda>x. (i, n, x)) (member b ''input'')))
       else None)"

definition call_json :: "str \<Rightarrow> str \<Rightarrow> str \<Rightarrow> json" where
  "call_json i n arguments =
     obj [(''id'', JString i), (''type'', jstr ''function''),
          (''function'', obj [(''name'', JString n), (''arguments'', JString arguments)])]"

definition tool_use_json :: "nat \<Rightarrow> str \<times> str \<times> json \<Rightarrow> json" where
  "tool_use_json k t =
     (case t of (i, n, x) \<Rightarrow>
        obj [(''type'', jstr ''tool_use''), (''id'', JString (if i = [] then lit ''toolu_'' @ dec_digits k else i)),
             (''name'', JString n), (''input'', x)])"

lemma block_kinds_distinct [simp]: "lit ''tool_use'' \<noteq> lit ''text''" "lit ''text'' \<noteq> lit ''tool_use''"
  by simp_all

lemma response_block_fold:
  assumes "try_fold (response_block ts) cs (texts, calls) = Inr (texts', calls')"
  shows "texts' = texts @ List.map_filter block_text_of cs \<and>
    calls' = calls @ map (\<lambda>(i, n, x). call_json i n (the (ts x))) (List.map_filter block_tool_of cs) \<and>
    (\<forall>(i, n, x) \<in> set (List.map_filter block_tool_of cs). ts x \<noteq> None)"
  using assms
proof (induction cs arbitrary: texts calls)
  case (Cons c cs)
  then obtain tx ca where 1: "response_block ts c (texts, calls) = Inr (tx, ca)"
    "try_fold (response_block ts) cs (tx, ca) = Inr (texts', calls')"
    by (auto simp: and_then_Inr)
  obtain b where b: "as_object c = Some b" using 1(1) by (auto simp: response_block_def and_then_Inr)
  consider t where "block_text_of c = Some t" "block_tool_of c = None" "tx = texts @ [t]" "ca = calls"
    | i n x a where "block_text_of c = None" "block_tool_of c = Some (i, n, x)" "ts x = Some a" "tx = texts"
        "ca = calls @ [call_json i n a]"
    using 1(1) b
    by (auto simp: response_block_def and_then_Inr block_text_of_def block_tool_of_def call_json_def Let_def
        split: if_splits simp del: lit_Cons)
  then show ?case using Cons.IH [OF 1(2)] by cases (auto simp: List.map_filter_simps)
qed (simp add: List.map_filter_simps)

lemma block_of_call_json:
  assumes "from_str a = Some x"
  shows "block_of_call from_str (k, the (as_object (call_json i n a))) = tool_use_json k (i, n, x)"
  using assms
  by (simp add: block_of_call_def call_json_def tool_use_json_def member_def member_str_def call_arguments_def or_empty_string_def)

lemma tool_blocks_back:
  assumes "\<And>x t. ts x = Some t \<Longrightarrow> from_str t = Some x" "\<forall>(i, n, x) \<in> set tools. ts x \<noteq> None"
  shows "map (block_of_call from_str)
      (zip [k..<k + length tools] (map (\<lambda>(i, n, x). the (as_object (call_json i n (the (ts x))))) tools)) =
    map2 tool_use_json [k..<k + length tools] tools"
  using assms(2)
proof (induction tools arbitrary: k)
  case (Cons t tools)
  obtain i n x where t: "t = (i, n, x)" by (cases t)
  then obtain a where "ts x = Some a" using Cons.prems by auto
  then show ?case
    using Cons.IH [of "Suc k"] Cons.prems assms(1) by (simp add: upt_conv_Cons block_of_call_json t del: upt_Suc)
qed simp

lemma map_filter_calls:
  "List.map_filter as_object (map (\<lambda>(i, n, x). call_json i n (a x)) tools) =
    map (\<lambda>(i, n, x). the (as_object (call_json i n (a x)))) tools"
  by (induction tools) (auto simp: List.map_filter_simps call_json_def)

lemma stop_reason_back:
  "stop_reason (Some (JString (openai_finish_reason reason))) =
    (if reason = Some (lit ''max_tokens'') then lit ''max_tokens''
     else if reason = Some (lit ''tool_use'') then lit ''tool_use'' else lit ''end_turn'')"
  by (simp add: stop_reason_def openai_finish_reason_def Let_def)

definition chat_completion :: "json \<Rightarrow> json \<Rightarrow> json \<Rightarrow> json list \<Rightarrow> str \<Rightarrow> u64 \<Rightarrow> u64 \<Rightarrow> json" where
  "chat_completion i m content calls reason prompt_tokens completion_tokens =
     obj [(''id'', i), (''object'', jstr ''chat.completion''), (''created'', json_u64 0), (''model'', m),
          (''choices'', JArray [obj
             [(''index'', json_u64 0),
              (''message'', JObject ([(lit ''role'', jstr ''assistant''), (lit ''content'', content)] @
                  (if calls = [] then [] else [(lit ''tool_calls'', JArray calls)]))),
              (''finish_reason'', JString reason)]]),
          (''usage'', obj [(''prompt_tokens'', json_u64 prompt_tokens), (''completion_tokens'', json_u64 completion_tokens),
             (''total_tokens'', json_u64 (sat_add prompt_tokens completion_tokens))])]"

lemma completion_back:
  assumes "content = JNull \<and> texts = [] \<or> content = JString texts"
  shows "openai_to_anthropic_response from_str (chat_completion i m content calls reason p c) model message_id prompt =
    (let objects = List.map_filter as_object calls;
         blocks = text_blocks texts @ map (block_of_call from_str) (zip [0..<length objects] objects)
     in obj [(''id'', JString message_id), (''type'', jstr ''message''), (''role'', jstr ''assistant''), (''model'', JString model),
             (''content'', JArray (if blocks = [] then [obj [(''type'', jstr ''text''), (''text'', JString [])]] else blocks)),
             (''stop_reason'', JString (stop_reason (Some (JString reason)))), (''stop_sequence'', JNull),
             (''usage'', obj [(''input_tokens'', json_u64 p), (''output_tokens'', json_u64 c)])])"
  using assms
  by (auto simp: openai_to_anthropic_response_def chat_completion_def member_def member_str_def Let_def response_usage_def
      text_blocks_def List.map_filter_simps)

lemma response_completion:
  assumes "anthropic_to_openai_response to_string v = Inr r" "as_object v = Some body"
    "Option.bind (member body ''content'') as_array = Some content"
  obtains i m where "r = chat_completion i m
      (if List.map_filter block_text_of content = [] then JNull else JString (concat (List.map_filter block_text_of content)))
      (map (\<lambda>(i, n, x). call_json i n (the (to_string x))) (List.map_filter block_tool_of content))
      (openai_finish_reason (member_str body ''stop_reason''))
      (usage_field (Option.bind (member body ''usage'') as_object) ''input_tokens'')
      (usage_field (Option.bind (member body ''usage'') as_object) ''output_tokens'')"
    "\<forall>(i, n, x) \<in> set (List.map_filter block_tool_of content). to_string x \<noteq> None"
proof -
  obtain tx calls where fold: "try_fold (response_block to_string) content ([], []) = Inr (tx, calls)"
    using assms by (auto simp: anthropic_to_openai_response_def and_then_Inr split: if_splits prod.splits)
  note f = response_block_fold [OF fold]
  show ?thesis
    using assms fold that f
    by (auto simp: anthropic_to_openai_response_def Let_def chat_completion_def split: if_splits simp del: lit_Cons)
qed

text \<open>C31. A buffered Messages answer translated to the OpenAI shape and back. The text of its text blocks is
  kept as one block, every tool use keeps its id, name and input in order (an empty id is replaced by a
  numbered one), and the token counts and the reasons for stopping that the two protocols share are the
  same again. The JSON library reads back what it writes.\<close>

theorem response_roundtrip:
  assumes "anthropic_to_openai_response to_string v = Inr r"
    and library: "\<And>x t. to_string x = Some t \<Longrightarrow> from_str t = Some x"
    and "as_object v = Some body" and "Option.bind (member body ''content'') as_array = Some content"
    and "texts = concat (List.map_filter block_text_of content)" and "tools = List.map_filter block_tool_of content"
  shows "openai_to_anthropic_response from_str r model message_id prompt =
    obj [(''id'', JString message_id), (''type'', jstr ''message''), (''role'', jstr ''assistant''), (''model'', JString model),
         (''content'', JArray
            (if texts = [] \<and> tools = [] then [obj [(''type'', jstr ''text''), (''text'', JString [])]]
             else text_blocks texts @ map2 tool_use_json [0..<length tools] tools)),
         (''stop_reason'', JString
            (if member_str body ''stop_reason'' = Some (lit ''max_tokens'') then lit ''max_tokens''
             else if member_str body ''stop_reason'' = Some (lit ''tool_use'') then lit ''tool_use'' else lit ''end_turn'')),
         (''stop_sequence'', JNull),
         (''usage'', obj
            [(''input_tokens'', json_u64 (usage_field (Option.bind (member body ''usage'') as_object) ''input_tokens'')),
             (''output_tokens'', json_u64 (usage_field (Option.bind (member body ''usage'') as_object) ''output_tokens''))])]"
proof -
  obtain i m where r: "r = chat_completion i m
      (if List.map_filter block_text_of content = [] then JNull else JString (concat (List.map_filter block_text_of content)))
      (map (\<lambda>(i, n, x). call_json i n (the (to_string x))) tools)
      (openai_finish_reason (member_str body ''stop_reason''))
      (usage_field (Option.bind (member body ''usage'') as_object) ''input_tokens'')
      (usage_field (Option.bind (member body ''usage'') as_object) ''output_tokens'')"
    and tools: "\<forall>(i, n, x) \<in> set tools. to_string x \<noteq> None"
    using response_completion [OF assms(1,3,4)] assms(6) by metis
  note blocks = tool_blocks_back [of to_string from_str tools 0, OF library tools]
  show ?thesis
    unfolding r using assms(5) blocks
    by (subst completion_back [of _ texts])
      (auto simp: Let_def map_filter_calls stop_reason_back text_blocks_def List.map_filter_simps simp del: lit_Cons)
qed

definition sample_message :: "(str \<times> json) list" where
  "sample_message =
     [(lit ''type'', jstr ''message''), (lit ''stop_reason'', jstr ''tool_use''),
      (lit ''content'', JArray [obj [(''type'', jstr ''text''), (''text'', jstr ''hi'')],
         obj [(''type'', jstr ''tool_use''), (''id'', jstr ''t''), (''name'', jstr ''f''), (''input'', JObject [])]])]"

theorem response_roundtrip_witness:
  "\<exists>r. anthropic_to_openai_response (\<lambda>x. if x = JObject [] then Some (lit ''{}'') else None) (JObject sample_message) = Inr r \<and>
    member (the (as_object (openai_to_anthropic_response (\<lambda>_. Some (JObject [])) r [] [] []))) ''content'' =
      Some (JArray [obj [(''type'', jstr ''text''), (''text'', jstr ''hi'')],
         obj [(''type'', jstr ''tool_use''), (''id'', jstr ''t''), (''name'', jstr ''f''), (''input'', JObject [])]])"
proof -
  let ?ts = "\<lambda>x. if x = JObject [] then Some (lit ''{}'') else None"
  let ?c = "[obj [(''type'', jstr ''text''), (''text'', jstr ''hi'')],
         obj [(''type'', jstr ''tool_use''), (''id'', jstr ''t''), (''name'', jstr ''f''), (''input'', JObject [])]]"
  have "\<exists>r. anthropic_to_openai_response ?ts (JObject sample_message) = Inr r"
    by (simp add: anthropic_to_openai_response_def sample_message_def member_str_def member_def response_block_def Let_def)
  then obtain r where r: "anthropic_to_openai_response ?ts (JObject sample_message) = Inr r" by blast
  have content: "Option.bind (member sample_message ''content'') as_array = Some ?c"
    by (simp add: sample_message_def member_def)
  have parts: "lit ''hi'' = concat (List.map_filter block_text_of ?c)"
    "[(lit ''t'', lit ''f'', JObject [])] = List.map_filter block_tool_of ?c"
    by (simp_all add: List.map_filter_simps block_text_of_def block_tool_of_def member_str_def member_def)
  have lib: "(if x = JObject [] then Some (lit ''{}'') else None) = Some t \<Longrightarrow> Some (JObject []) = Some x" for x t
    by (auto split: if_splits)
  note again = response_roundtrip [of ?ts "JObject sample_message" r "\<lambda>_. Some (JObject [])" sample_message ?c "lit ''hi''"
      "[(lit ''t'', lit ''f'', JObject [])]" "[]" "[]" "[]", OF r lib as_object.simps(1) content parts]
  show ?thesis
    by (intro exI [of _ r] conjI r) (simp add: again member_def tool_use_json_def text_blocks_def jstr_def)
qed

end
