(* ===== verification/Utf8.thy ===== *)
theory Utf8
  imports Sse
begin

text \<open>
  UTF-8 text at the boundary of the stream translators: the characters of well-formed bytes, as
  \<open>str::from_utf8\<close> reads them, and the bytes of a text, as \<open>String::into_bytes\<close> writes them.
\<close>

definition is_scalar :: "nat \<Rightarrow> bool" where
  "is_scalar c \<longleftrightarrow> c < 55296 \<or> 57344 \<le> c \<and> c < 1114112"

definition utf8_char :: "nat \<Rightarrow> bytes" where
  "utf8_char c =
     (if c < 128 then [c]
      else if c < 2048 then [192 + c div 64, 128 + c mod 64]
      else if c < 65536 then [224 + c div 4096, 128 + c div 64 mod 64, 128 + c mod 64]
      else [240 + c div 262144, 128 + c div 4096 mod 64, 128 + c div 64 mod 64, 128 + c mod 64])"

definition into_bytes :: "str \<Rightarrow> bytes" where
  "into_bytes s = concat (map utf8_char s)"

fun decode_utf8 :: "bytes \<Rightarrow> str" where
  "decode_utf8 [] = []"
| "decode_utf8 (b # bs) =
     (if b < 128 then b # decode_utf8 bs
      else if b < 224 then
        (case bs of c # rest \<Rightarrow> ((b - 192) * 64 + (c - 128)) # decode_utf8 rest | _ \<Rightarrow> [])
      else if b < 240 then
        (case bs of
           c # d # rest \<Rightarrow> ((b - 224) * 4096 + (c - 128) * 64 + (d - 128)) # decode_utf8 rest
         | _ \<Rightarrow> [])
      else
        (case bs of
           c # d # e # rest \<Rightarrow>
             ((b - 240) * 262144 + (c - 128) * 4096 + (d - 128) * 64 + (e - 128)) # decode_utf8 rest
         | _ \<Rightarrow> []))"

lemma into_bytes_simps [simp]:
  "into_bytes [] = []" "into_bytes (c # s) = utf8_char c @ into_bytes s" "into_bytes (s @ t) = into_bytes s @ into_bytes t"
  by (simp_all add: into_bytes_def)

lemma length_utf8_char: "length (utf8_char c) = len_utf8 c"
  by (simp add: utf8_char_def len_utf8_def)

lemma length_into_bytes [simp]: "length (into_bytes s) = str_len s"
  by (induction s) (simp_all add: str_len_def length_utf8_char)

lemma two_digits: "(c::nat) div 64 * 64 + c mod 64 = c"
  by simp

lemma three_digits: "(c::nat) div 4096 * 4096 + c div 64 mod 64 * 64 + c mod 64 = c"
proof -
  have "c div 64 div 64 = c div 4096" by (simp add: div_mult2_eq [symmetric])
  then have "c div 64 = c div 4096 * 64 + c div 64 mod 64" by (metis two_digits)
  then have "c = (c div 4096 * 64 + c div 64 mod 64) * 64 + c mod 64" by (metis two_digits)
  then show ?thesis by (simp add: add_mult_distrib)
qed

lemma four_digits: "(c::nat) div 262144 * 262144 + c div 4096 mod 64 * 4096 + c div 64 mod 64 * 64 + c mod 64 = c"
proof -
  have "c div 4096 div 64 = c div 262144" by (simp add: div_mult2_eq [symmetric])
  then have "c div 4096 = c div 262144 * 64 + c div 4096 mod 64" by (metis two_digits)
  then have "c = (c div 262144 * 64 + c div 4096 mod 64) * 4096 + c div 64 mod 64 * 64 + c mod 64"
    by (metis three_digits)
  then show ?thesis by (simp add: add_mult_distrib)
qed

lemma utf8_ranges:
  "128 \<le> c \<Longrightarrow> c < 2048 \<Longrightarrow> 2 \<le> c div 64 \<and> c div 64 < 32"
  "c < 65536 \<Longrightarrow> c div 4096 < 16"
  "c < 1114112 \<Longrightarrow> c div 262144 < 5"
  for c :: nat
  by (auto simp: div_less_iff_less_mult less_eq_div_iff_mult_less_eq)

lemma scalar_cases:
  assumes "is_scalar c"
  obtains "c < 128" | "128 \<le> c" "c < 2048" | "2048 \<le> c" "c < 65536" | "65536 \<le> c" "c < 1114112"
  using assms by (force simp: is_scalar_def)

lemma decode_utf8_char:
  assumes "is_scalar c"
  shows "decode_utf8 (utf8_char c @ bs) = c # decode_utf8 bs"
  using assms
proof (cases rule: scalar_cases)
  case 2
  then show ?thesis using utf8_ranges(1) [of c] by (simp add: utf8_char_def)
next
  case 3
  then show ?thesis using utf8_ranges(2) [of c] three_digits [of c] by (simp add: utf8_char_def)
next
  case 4
  then show ?thesis using utf8_ranges(3) [of c] four_digits [of c] by (simp add: utf8_char_def)
qed (simp add: utf8_char_def)

lemma decode_into_bytes: "list_all is_scalar s \<Longrightarrow> decode_utf8 (into_bytes s) = s"
  by (induction s) (simp_all add: decode_utf8_char)

lemma continuation_digit [simp]: "continuation (128 + n mod 64)"
  using mod_less_divisor [of 64 n] unfolding continuation_def by linarith

lemma valid_utf8_char:
  assumes "is_scalar c"
  shows "valid_utf8 (utf8_char c @ bs) = valid_utf8 bs"
  using assms
proof (cases rule: scalar_cases)
  case 2
  then show ?thesis using utf8_ranges(1) [of c] by (simp add: utf8_char_def)
next
  case 3
  note digits = three_digits [of c] mod_less_divisor [of 64 c] mod_less_divisor [of 64 "c div 64"]
  have "c div 64 mod 64 < 32" if "c div 4096 = 13"
    using assms that digits unfolding is_scalar_def by linarith
  moreover have "32 \<le> c div 64 mod 64" if "c div 4096 = 0"
    using 3 that digits by linarith
  ultimately show ?thesis using 3 utf8_ranges(2) [of c] by (auto simp: utf8_char_def)
next
  case 4
  note digits = four_digits [of c] mod_less_divisor [of 64 c] mod_less_divisor [of 64 "c div 64"]
    mod_less_divisor [of 64 "c div 4096"]
  have "c div 4096 mod 64 < 16" if "c div 262144 = 4"
    using 4 that digits by linarith
  moreover have "16 \<le> c div 4096 mod 64" if "c div 262144 = 0"
    using 4 that digits by linarith
  ultimately show ?thesis using 4 utf8_ranges(3) [of c] by (auto simp: utf8_char_def)
qed (simp add: utf8_char_def)

lemma valid_into_bytes: "list_all is_scalar s \<Longrightarrow> valid_utf8 (into_bytes s)"
  by (induction s) (simp_all add: valid_utf8_char)

end
