(* ===== verification/Native_Stream.thy ===== *)
theory Native_Stream
  imports Anthropic_Native Utf8
begin

text \<open>
  The incremental translation of a Messages event stream into OpenAI chunks,
  \<open>AnthropicToOpenAiStream\<close> of \<open>wayfinder-providers/src/anthropic_native.rs\<close>. A frame keeps the JSON value
  it carries beside the text written for it; \<open>frame_bytes\<close> gives what is sent.
\<close>

section \<open>State and frames\<close>

datatype frame = Data json str | Done

definition frame_bytes :: "frame \<Rightarrow> bytes" where
  "frame_bytes f =
     into_bytes (case f of Data _ t \<Rightarrow> lit ''data: '' @ t @ [10, 10] | Done \<Rightarrow> lit ''data: [DONE]'' @ [10, 10])"

definition openai_sse_frame :: "(json \<Rightarrow> str option) \<Rightarrow> json \<Rightarrow> (anthropic_native_error, frame) result" where
  "openai_sse_frame to_string v = and_then (ok_or InvalidResponse (to_string v)) (\<lambda>t. Inr (Data v t))"

datatype active_block = TextBlock | ToolBlock nat bool

record native_stream =
  ns_decoder :: sse_decoder
  ns_id :: str
  ns_model :: str
  ns_input_tokens :: u64
  ns_active :: "(u64 \<times> active_block) list"
  ns_tool_count :: nat
  ns_finish_sent :: bool
  ns_terminal :: bool

definition native_default :: native_stream where
  "native_default =
     \<lparr>ns_decoder = sse_default, ns_id = lit ''msg_anthropic'', ns_model = [], ns_input_tokens = 0, ns_active = [],
      ns_tool_count = 0, ns_finish_sent = False, ns_terminal = False\<rparr>"

type_synonym native_step = "(anthropic_native_error, frame list) result \<times> native_stream"

section \<open>Chunks\<close>

definition chunk_json :: "native_stream \<Rightarrow> json \<Rightarrow> json \<Rightarrow> (string \<times> json) list \<Rightarrow> json" where
  "chunk_json s delta finish_reason usage =
     obj ([(''id'', JString (ns_id s)), (''object'', jstr ''chat.completion.chunk''), (''created'', json_u64 0),
           (''model'', JString (ns_model s)),
           (''choices'', JArray [obj [(''index'', json_u64 0), (''delta'', delta), (''finish_reason'', finish_reason)]])] @ usage)"

definition delta_frame :: "(json \<Rightarrow> str option) \<Rightarrow> native_stream \<Rightarrow> json \<Rightarrow> (anthropic_native_error, frame) result" where
  "delta_frame to_string s delta = openai_sse_frame to_string (chunk_json s delta JNull [])"

definition role_frame :: "(json \<Rightarrow> str option) \<Rightarrow> native_stream \<Rightarrow> (anthropic_native_error, frame) result" where
  "role_frame to_string s = delta_frame to_string s (obj [(''role'', jstr ''assistant'')])"

definition tool_start_delta :: "nat \<Rightarrow> (str \<times> json) list \<Rightarrow> json" where
  "tool_start_delta tool_index block =
     obj [(''tool_calls'', JArray [obj
       [(''index'', json_u64 tool_index), (''id'', case member block ''id'' of None \<Rightarrow> JNull | Some v \<Rightarrow> v),
        (''type'', jstr ''function''),
        (''function'', obj [(''name'', case member block ''name'' of None \<Rightarrow> JNull | Some v \<Rightarrow> v), (''arguments'', jstr '''')])]])]"

definition tool_arguments_delta :: "nat \<Rightarrow> str \<Rightarrow> json" where
  "tool_arguments_delta tool_index partial =
     obj [(''tool_calls'', JArray [obj
       [(''index'', json_u64 tool_index), (''function'', obj [(''arguments'', JString partial)])]])]"

text \<open>A frame in reply, or the error of writing it.\<close>

definition reply :: "(anthropic_native_error, frame) result \<Rightarrow> native_stream \<Rightarrow> native_step" where
  "reply r s = (case r of Inl e \<Rightarrow> (Inl e, s) | Inr f \<Rightarrow> (Inr [f], s))"

definition payload_object :: "json \<Rightarrow> string \<Rightarrow> (str \<times> json) list option" where
  "payload_object payload name = Option.bind (jget payload (lit name)) as_object"

definition payload_index :: "json \<Rightarrow> u64 option" where
  "payload_index payload = Option.bind (jget payload (lit ''index'')) as_u64"

definition str_or :: "string \<Rightarrow> str option \<Rightarrow> str" where
  "str_or d v = (case v of None \<Rightarrow> lit d | Some s \<Rightarrow> s)"

section \<open>Events\<close>

definition on_message_start :: "(json \<Rightarrow> str option) \<Rightarrow> json \<Rightarrow> native_stream \<Rightarrow> native_step" where
  "on_message_start to_string payload s =
     (case payload_object payload ''message'' of
        None \<Rightarrow> (Inl InvalidResponse, s)
      | Some message \<Rightarrow>
          let s' = s\<lparr>ns_id := str_or ''msg_anthropic'' (member_str message ''id''),
                     ns_model := str_or '''' (member_str message ''model''),
                     ns_input_tokens := usage_field (Option.bind (member message ''usage'') as_object) ''input_tokens''\<rparr>
          in reply (role_frame to_string s') s')"

definition on_block_start :: "(json \<Rightarrow> str option) \<Rightarrow> json \<Rightarrow> native_stream \<Rightarrow> native_step" where
  "on_block_start to_string payload s =
     (case (payload_index payload, payload_object payload ''content_block'') of
        (Some index, Some block) \<Rightarrow>
          (if member_str block ''type'' = Some (lit ''text'') then
             (Inr [], s\<lparr>ns_active := bt_insert index TextBlock (ns_active s)\<rparr>)
           else if member_str block ''type'' = Some (lit ''tool_use'') then
             (if MAX_TOOL_CALLS \<le> ns_tool_count s then (Inl InvalidResponse, s)
              else
                let tool_index = ns_tool_count s;
                    s' = s\<lparr>ns_tool_count := ns_tool_count s + 1,
                           ns_active := bt_insert index (ToolBlock tool_index False) (ns_active s)\<rparr>
                in reply (openai_sse_frame to_string (chunk_json s' (tool_start_delta tool_index block) JNull [])) s')
           else (Inl InvalidResponse, s))
      | _ \<Rightarrow> (Inl InvalidResponse, s))"

definition on_block_delta :: "(json \<Rightarrow> str option) \<Rightarrow> json \<Rightarrow> native_stream \<Rightarrow> native_step" where
  "on_block_delta to_string payload s =
     (case (payload_index payload, payload_object payload ''delta'') of
        (Some index, Some delta) \<Rightarrow>
          (case map_of (ns_active s) index of
             Some TextBlock \<Rightarrow>
               (if member_str delta ''type'' = Some (lit ''text_delta'') then
                  (case member_str delta ''text'' of
                     None \<Rightarrow> (Inl InvalidResponse, s)
                   | Some t \<Rightarrow> reply (delta_frame to_string s (obj [(''content'', JString t)])) s)
                else (Inl InvalidResponse, s))
           | Some (ToolBlock tool_index _) \<Rightarrow>
               (if member_str delta ''type'' = Some (lit ''input_json_delta'') then
                  (case member_str delta ''partial_json'' of
                     None \<Rightarrow> (Inl InvalidResponse, s)
                   | Some partial \<Rightarrow>
                       let s' = s\<lparr>ns_active := bt_insert index (ToolBlock tool_index True) (ns_active s)\<rparr>
                       in reply (delta_frame to_string s' (tool_arguments_delta tool_index partial)) s')
                else (Inl InvalidResponse, s))
           | None \<Rightarrow> (Inl InvalidResponse, s))
      | _ \<Rightarrow> (Inl InvalidResponse, s))"

definition on_block_stop :: "(json \<Rightarrow> str option) \<Rightarrow> json \<Rightarrow> native_stream \<Rightarrow> native_step" where
  "on_block_stop to_string payload s =
     (case payload_index payload of
        None \<Rightarrow> (Inl InvalidResponse, s)
      | Some index \<Rightarrow>
          let s' = s\<lparr>ns_active := shift_remove index (ns_active s)\<rparr> in
          case map_of (ns_active s) index of
            Some (ToolBlock tool_index False) \<Rightarrow>
              reply (delta_frame to_string s' (tool_arguments_delta tool_index (lit ''{}''))) s'
          | Some _ \<Rightarrow> (Inr [], s')
          | None \<Rightarrow> (Inl InvalidResponse, s'))"

definition on_message_delta :: "(json \<Rightarrow> str option) \<Rightarrow> json \<Rightarrow> native_stream \<Rightarrow> native_step" where
  "on_message_delta to_string payload s =
     (let reason = Option.bind (payload_object payload ''delta'') (\<lambda>d. member_str d ''stop_reason'');
          output_tokens = usage_field (payload_object payload ''usage'') ''output_tokens'' in
      case openai_sse_frame to_string (chunk_json s (JObject []) (JString (openai_finish_reason reason))
             [(''usage'', obj [(''prompt_tokens'', json_u64 (ns_input_tokens s)), (''completion_tokens'', json_u64 output_tokens),
                (''total_tokens'', json_u64 (sat_add (ns_input_tokens s) output_tokens))])]) of
        Inl e \<Rightarrow> (Inl e, s)
      | Inr f \<Rightarrow> (Inr [f], s\<lparr>ns_finish_sent := True\<rparr>))"

definition on_message_stop :: "(json \<Rightarrow> str option) \<Rightarrow> native_stream \<Rightarrow> native_step" where
  "on_message_stop to_string s =
     (if ns_active s \<noteq> [] then (Inl InvalidResponse, s)
      else if ns_finish_sent s then (Inr [Done], s\<lparr>ns_terminal := True\<rparr>)
      else
        case openai_sse_frame to_string (chunk_json s (JObject []) (jstr ''stop'') []) of
          Inl e \<Rightarrow> (Inl e, s)
        | Inr f \<Rightarrow> (Inr [f, Done], s\<lparr>ns_terminal := True\<rparr>))"

definition on_error :: "(json \<Rightarrow> str option) \<Rightarrow> json \<Rightarrow> native_stream \<Rightarrow> native_step" where
  "on_error to_string payload s =
     (case openai_sse_frame to_string (anthropic_to_openai_error payload) of
        Inl e \<Rightarrow> (Inl e, s)
      | Inr f \<Rightarrow> (Inr [f, Done], s\<lparr>ns_terminal := True\<rparr>))"

definition event_kind :: "sse_event \<Rightarrow> json \<Rightarrow> str" where
  "event_kind e payload =
     (if ev_event e = lit ''message'' then str_or '''' (Option.bind (jget payload (lit ''type'')) as_str)
      else decode_utf8 (ev_event e))"

definition translate_event ::
  "(str \<Rightarrow> json option) \<Rightarrow> (json \<Rightarrow> str option) \<Rightarrow> sse_event \<Rightarrow> native_stream \<Rightarrow> native_step" where
  "translate_event from_str to_string e s =
     (case from_str (decode_utf8 (ev_data e)) of
        None \<Rightarrow> (Inl InvalidResponse, s)
      | Some payload \<Rightarrow>
          let kind = event_kind e payload in
          if kind = lit ''message_start'' then on_message_start to_string payload s
          else if kind = lit ''content_block_start'' then on_block_start to_string payload s
          else if kind = lit ''content_block_delta'' then on_block_delta to_string payload s
          else if kind = lit ''content_block_stop'' then on_block_stop to_string payload s
          else if kind = lit ''message_delta'' then on_message_delta to_string payload s
          else if kind = lit ''message_stop'' then on_message_stop to_string s
          else if kind = lit ''error'' then on_error to_string payload s
          else (Inl InvalidResponse, s))"

fun translate_events ::
  "(str \<Rightarrow> json option) \<Rightarrow> (json \<Rightarrow> str option) \<Rightarrow> sse_event list \<Rightarrow> native_stream \<Rightarrow> native_step" where
  "translate_events from_str to_string [] s = (Inr [], s)"
| "translate_events from_str to_string (e # es) s =
     (if ns_terminal s \<or> ev_event e = lit ''ping'' then translate_events from_str to_string es s
      else
        case translate_event from_str to_string e s of
          (Inl err, s') \<Rightarrow> (Inl err, s')
        | (Inr fs, s') \<Rightarrow>
            (case translate_events from_str to_string es s' of
               (Inl err, s'') \<Rightarrow> (Inl err, s'')
             | (Inr fs', s'') \<Rightarrow> (Inr (fs @ fs'), s'')))"

definition native_push ::
  "(str \<Rightarrow> json option) \<Rightarrow> (json \<Rightarrow> str option) \<Rightarrow> bytes \<Rightarrow> native_stream \<Rightarrow> native_step" where
  "native_push from_str to_string chunk s =
     (case Sse.push (ns_decoder s) chunk of
        (Inl e, d) \<Rightarrow> (Inl (StreamError e), s\<lparr>ns_decoder := d\<rparr>)
      | (Inr es, d) \<Rightarrow> translate_events from_str to_string es (s\<lparr>ns_decoder := d\<rparr>))"

definition native_finish :: "(str \<Rightarrow> json option) \<Rightarrow> (json \<Rightarrow> str option) \<Rightarrow> native_stream \<Rightarrow> native_step" where
  "native_finish from_str to_string s =
     (case Sse.finish (ns_decoder s) of
        (Inl e, d) \<Rightarrow> (Inl (StreamError e), s\<lparr>ns_decoder := d\<rparr>)
      | (Inr es, d) \<Rightarrow>
          (case translate_events from_str to_string es (s\<lparr>ns_decoder := d\<rparr>) of
             (Inl err, s') \<Rightarrow> (Inl err, s')
           | (Inr fs, s') \<Rightarrow> if ns_terminal s' then (Inr fs, s') else (Inl InvalidResponse, s')))"

section \<open>What a client reads\<close>

text \<open>A client takes the delta of the first choice of each chunk: its text, and its tool calls, each either
  announced (with an id) or continued.\<close>

definition frame_delta :: "frame \<Rightarrow> json option" where
  "frame_delta f =
     (case f of
        Done \<Rightarrow> None
      | Data v _ \<Rightarrow>
          Option.bind (Option.bind (jget v (lit ''choices'')) as_array)
            (\<lambda>cs. case cs of [] \<Rightarrow> None | c # _ \<Rightarrow> jget c (lit ''delta'')))"

definition frame_text :: "frame \<Rightarrow> str" where
  "frame_text f = str_or '''' (Option.bind (Option.bind (frame_delta f) (\<lambda>d. jget d (lit ''content''))) as_str)"

definition frame_calls :: "frame \<Rightarrow> (str \<times> json) list list" where
  "frame_calls f =
     (case Option.bind (Option.bind (frame_delta f) (\<lambda>d. jget d (lit ''tool_calls''))) as_array of
        None \<Rightarrow> [] | Some cs \<Rightarrow> List.map_filter as_object cs)"

text \<open>The arguments of the tool calls seen so far; a call out of order is rejected.\<close>

definition take_call :: "(str \<times> json) list \<Rightarrow> str list \<Rightarrow> str list option" where
  "take_call call acc =
     (case Option.bind (member call ''index'') as_u64 of
        None \<Rightarrow> None
      | Some i \<Rightarrow>
          if member call ''id'' \<noteq> None then (if i = length acc then Some (acc @ [[]]) else None)
          else if i < length acc then
            Some (acc[i := acc ! i @ str_or '''' (Option.bind (Option.bind (member call ''function'') as_object)
                                       (\<lambda>f. member_str f ''arguments''))])
          else None)"

fun take_calls :: "(str \<times> json) list list \<Rightarrow> str list \<Rightarrow> str list option" where
  "take_calls [] acc = Some acc"
| "take_calls (c # cs) acc = Option.bind (take_call c acc) (take_calls cs)"

definition client_tools :: "frame list \<Rightarrow> str list \<Rightarrow> str list option" where
  "client_tools fs acc = take_calls (concat (map frame_calls fs)) acc"

lemma take_calls_append: "take_calls (cs @ ds) acc = Option.bind (take_calls cs acc) (take_calls ds)"
  by (induction cs arbitrary: acc) (simp_all split: Option.bind_splits)

lemma client_tools_append: "client_tools (fs @ gs) acc = Option.bind (client_tools fs acc) (client_tools gs)"
  by (simp add: client_tools_def [abs_def] take_calls_append)

lemma client_tools_Nil [simp]: "client_tools [] acc = Some acc"
  by (simp add: client_tools_def)

lemma frame_delta_chunk [simp]: "frame_delta (Data (chunk_json s delta reason usage) t) = Some delta"
  by (simp add: frame_delta_def chunk_json_def jget_def)

lemma frame_delta_Done [simp]: "frame_delta Done = None"
  by (simp add: frame_delta_def)

lemma frame_delta_error [simp]: "frame_delta (Data (anthropic_to_openai_error v) t) = None"
  by (simp add: frame_delta_def anthropic_to_openai_error_def jget_def Let_def)

lemma frame_reads:
  "frame_delta f = Some (tool_start_delta i block) \<Longrightarrow> frame_text f = [] \<and>
     client_tools [f] acc = (if i = length acc then Some (acc @ [[]]) else None)"
  "frame_delta f = Some (tool_arguments_delta i p) \<Longrightarrow> frame_text f = [] \<and>
     client_tools [f] acc = (if i < length acc then Some (acc[i := acc ! i @ p]) else None)"
  "frame_delta f = Some (obj [(''content'', JString t)]) \<Longrightarrow> frame_text f = t \<and> client_tools [f] acc = Some acc"
  "frame_delta f = Some (obj [(''role'', jstr ''assistant'')]) \<Longrightarrow> frame_text f = [] \<and> client_tools [f] acc = Some acc"
  "frame_delta f = Some (JObject []) \<Longrightarrow> frame_text f = [] \<and> client_tools [f] acc = Some acc"
  "frame_delta f = None \<Longrightarrow> frame_text f = [] \<and> client_tools [f] acc = Some acc"
  by (simp_all add: frame_text_def client_tools_def frame_calls_def jget_def tool_start_delta_def tool_arguments_delta_def
      str_or_def take_call_def member_def member_str_def List.map_filter_simps)

lemma openai_sse_frame_Inr: "openai_sse_frame to_string v = Inr f \<longleftrightarrow> (\<exists>t. to_string v = Some t \<and> f = Data v t)"
  by (auto simp: openai_sse_frame_def and_then_Inr)

lemma reply_Inr: "reply r s = (Inr fs, s') \<longleftrightarrow> (\<exists>f. r = Inr f \<and> fs = [f] \<and> s' = s)"
  by (auto simp: reply_def split: sum.splits)

section \<open>The stream of a whole message\<close>

definition closing :: "(str \<Rightarrow> json option) \<Rightarrow> sse_event \<Rightarrow> bool" where
  "closing from_str e =
     (case from_str (decode_utf8 (ev_data e)) of
        None \<Rightarrow> False | Some p \<Rightarrow> event_kind e p = lit ''message_stop'' \<or> event_kind e p = lit ''error'')"

definition event_text :: "(str \<Rightarrow> json option) \<Rightarrow> sse_event \<Rightarrow> str" where
  "event_text from_str e =
     (case from_str (decode_utf8 (ev_data e)) of
        None \<Rightarrow> []
      | Some p \<Rightarrow>
          if event_kind e p = lit ''content_block_delta'' then
            (case payload_object p ''delta'' of
               None \<Rightarrow> []
             | Some d \<Rightarrow> if member_str d ''type'' = Some (lit ''text_delta'') then str_or '''' (member_str d ''text'') else [])
          else [])"

text \<open>The text a provider's events carry up to the end of the message.\<close>

fun message_text :: "(str \<Rightarrow> json option) \<Rightarrow> sse_event list \<Rightarrow> str" where
  "message_text from_str [] = []"
| "message_text from_str (e # es) =
     (if ev_event e = lit ''ping'' then message_text from_str es
      else if closing from_str e then []
      else event_text from_str e @ message_text from_str es)"

definition native_ok :: "str list \<Rightarrow> native_stream \<Rightarrow> bool" where
  "native_ok acc s \<longleftrightarrow>
     length acc = ns_tool_count s \<and> ns_tool_count s \<le> MAX_TOOL_CALLS \<and>
     (\<forall>k i b. (k, ToolBlock i b) \<in> set (ns_active s) \<longrightarrow> i < ns_tool_count s)"

definition step_ok :: "str list \<Rightarrow> str \<Rightarrow> bool \<Rightarrow> frame list \<Rightarrow> native_stream \<Rightarrow> bool" where
  "step_ok acc t closes fs s \<longleftrightarrow>
     concat (map frame_text fs) = t \<and> (\<exists>acc'. client_tools fs acc = Some acc' \<and> native_ok acc' s) \<and>
     ns_terminal s = closes \<and> Done \<notin> set (butlast fs) \<and> (closes \<longleftrightarrow> fs \<noteq> [] \<and> last fs = Done)"

lemma native_ok_active:
  assumes "native_ok acc s" "set m \<subseteq> insert (k, b) (set (ns_active s))" "\<And>i c. b = ToolBlock i c \<Longrightarrow> i < ns_tool_count s"
  shows "native_ok acc (s\<lparr>ns_active := m\<rparr>)"
  using assms by (fastforce simp: native_ok_def)

lemma step_ok_one:
  assumes "frame_text (Data v u) = t" "client_tools [Data v u] acc = Some acc'" "native_ok acc' s" "\<not> ns_terminal s"
  shows "step_ok acc t False [Data v u] s"
  using assms by (simp add: step_ok_def)

lemma step_ok_none: "native_ok acc s \<Longrightarrow> \<not> ns_terminal s \<Longrightarrow> step_ok acc [] False [] s"
  by (simp add: step_ok_def)

lemmas frame_results = reply_Inr role_frame_def delta_frame_def openai_sse_frame_Inr

lemma message_start_ok:
  assumes "native_ok acc s" "\<not> ns_terminal s" "on_message_start ts p s = (Inr fs, s')"
  shows "step_ok acc [] False fs s'"
  using assms frame_reads(4)
  by (fastforce simp: on_message_start_def Let_def frame_results native_ok_def split: option.splits intro!: step_ok_one)

lemma block_start_ok:
  assumes "native_ok acc s" "\<not> ns_terminal s" "on_block_start ts p s = (Inr fs, s')"
  shows "step_ok acc [] False fs s'"
proof -
  obtain k block where k: "payload_index p = Some k" "payload_object p ''content_block'' = Some block"
    using assms(3) by (auto simp: on_block_start_def split: option.splits)
  consider (t) "fs = []" "s' = s\<lparr>ns_active := bt_insert k TextBlock (ns_active s)\<rparr>"
    | (tool) u where "ns_tool_count s < MAX_TOOL_CALLS"
        "s' = s\<lparr>ns_tool_count := ns_tool_count s + 1, ns_active := bt_insert k (ToolBlock (ns_tool_count s) False) (ns_active s)\<rparr>"
        "fs = [Data (chunk_json s' (tool_start_delta (ns_tool_count s) block) JNull []) u]"
    using assms(3) k by (auto simp: on_block_start_def Let_def frame_results split: if_splits)
  then show ?thesis
  proof cases
    case t
    then show ?thesis
      using native_ok_active [OF assms(1) set_bt_insert [of k TextBlock]] assms(2) by (simp add: step_ok_none)
  next
    case tool
    have "native_ok (acc @ [[]]) s'"
      using assms(1) tool set_bt_insert [of k "ToolBlock (ns_tool_count s) False" "ns_active s"]
      by (fastforce simp: native_ok_def)
    moreover have "length acc = ns_tool_count s" using assms(1) by (simp add: native_ok_def)
    ultimately show ?thesis
      unfolding tool(3) using frame_reads(1) [OF frame_delta_chunk] assms(2) tool(2) by (auto intro: step_ok_one)
  qed
qed

lemma block_delta_ok:
  assumes "native_ok acc s" "\<not> ns_terminal s" "on_block_delta ts p s = (Inr fs, s')"
  shows "step_ok acc (case payload_object p ''delta'' of
           None \<Rightarrow> []
         | Some d \<Rightarrow> if member_str d ''type'' = Some (lit ''text_delta'') then str_or '''' (member_str d ''text'') else [])
         False fs s'"
proof -
  obtain k d where k: "payload_index p = Some k" "payload_object p ''delta'' = Some d"
    using assms(3) by (auto simp: on_block_delta_def split: option.splits)
  consider (t) t u where "member_str d ''type'' = Some (lit ''text_delta'')" "member_str d ''text'' = Some t" "s' = s"
      "fs = [Data (chunk_json s (obj [(''content'', JString t)]) JNull []) u]"
    | (tool) i b partial u where "map_of (ns_active s) k = Some (ToolBlock i b)"
        "member_str d ''type'' = Some (lit ''input_json_delta'')"
        "s' = s\<lparr>ns_active := bt_insert k (ToolBlock i True) (ns_active s)\<rparr>"
        "fs = [Data (chunk_json s' (tool_arguments_delta i partial) JNull []) u]"
    using assms(3) k
    by (auto simp: on_block_delta_def Let_def frame_results split: if_splits option.splits active_block.splits simp del: lit_Cons)
  then show ?thesis
  proof cases
    case t
    then show ?thesis
      using k frame_reads(3) [OF frame_delta_chunk] assms by (auto simp: str_or_def simp del: lit_Cons intro: step_ok_one)
  next
    case tool
    have i: "i < length acc" using assms(1) map_of_SomeD [OF tool(1)] by (auto simp: native_ok_def)
    then have "native_ok acc s'"
      unfolding tool(3) using assms(1) by (intro native_ok_active [OF _ set_bt_insert]) (auto simp: native_ok_def)
    then have "native_ok (acc[i := acc ! i @ partial]) s'" by (simp add: native_ok_def)
    moreover have "lit ''input_json_delta'' \<noteq> lit ''text_delta''" by simp
    ultimately show ?thesis
      unfolding tool(4) using k tool(2,3) i frame_reads(2) [OF frame_delta_chunk] assms(2)
      by (auto simp del: lit_Cons intro: step_ok_one)
  qed
qed

lemma block_stop_ok:
  assumes "native_ok acc s" "\<not> ns_terminal s" "on_block_stop ts p s = (Inr fs, s')"
  shows "step_ok acc [] False fs s'"
proof -
  obtain k where k: "payload_index p = Some k" and s': "s' = s\<lparr>ns_active := shift_remove k (ns_active s)\<rparr>"
    using assms(3) by (auto simp: on_block_stop_def Let_def frame_results split: option.splits active_block.splits bool.splits)
  have ok: "native_ok acc s'"
    unfolding s' using assms(1) set_shift_remove [of k "ns_active s"] by (fastforce simp: native_ok_def)
  consider "fs = []"
    | i u where "map_of (ns_active s) k = Some (ToolBlock i False)"
        "fs = [Data (chunk_json s' (tool_arguments_delta i (lit ''{}'')) JNull []) u]"
    using assms(3) k s'
    by (auto simp: on_block_stop_def Let_def frame_results split: option.splits active_block.splits bool.splits)
  then show ?thesis
  proof cases
    case 1
    then show ?thesis using ok assms(2) s' by (simp add: step_ok_none)
  next
    case 2
    have "i < length acc" using assms(1) map_of_SomeD [OF 2(1)] by (auto simp: native_ok_def)
    moreover have "native_ok (acc[i := acc ! i @ lit ''{}'']) s'" using ok by (simp add: native_ok_def)
    ultimately show ?thesis
      unfolding 2(2) using frame_reads(2) [OF frame_delta_chunk] s' assms(2) by (auto intro: step_ok_one)
  qed
qed

lemma message_delta_ok:
  assumes "native_ok acc s" "\<not> ns_terminal s" "on_message_delta ts p s = (Inr fs, s')"
  shows "step_ok acc [] False fs s'"
  using assms frame_reads(5) [OF frame_delta_chunk]
  by (auto simp: on_message_delta_def Let_def frame_results native_ok_def split: sum.splits intro!: step_ok_one)

lemma message_end_ok:
  assumes "native_ok acc s" "on_message_stop ts s = (Inr fs, s') \<or> on_error ts p s = (Inr fs, s')"
  shows "step_ok acc [] True fs s'"
proof -
  have fin: "frame_text Done = []" "frame_calls Done = []"
    using frame_reads(6) [OF frame_delta_Done] by (simp_all add: frame_calls_def)
  have silent: "frame_text f = [] \<and> client_tools [f, Done] acc = Some acc"
    if "frame_delta f = Some (JObject []) \<or> frame_delta f = None" for f
    using that frame_reads(5,6) [of f] fin by (auto simp: client_tools_def)
  have "(fs = [Done] \<or> (\<exists>f. fs = [f, Done] \<and> f \<noteq> Done \<and> (frame_delta f = Some (JObject []) \<or> frame_delta f = None))) \<and>
      s' = s\<lparr>ns_terminal := True\<rparr>"
    using assms(2)
    by (auto simp: on_message_stop_def on_error_def frame_results split: if_splits sum.splits)
  then show ?thesis
    using assms(1) silent fin by (auto simp: step_ok_def native_ok_def client_tools_def)
qed

lemma event_kinds_distinct [simp]:
  "lit ''message_stop'' \<noteq> lit ''content_block_delta''" "lit ''error'' \<noteq> lit ''content_block_delta''"
  "lit ''content_block_delta'' \<noteq> lit ''message_stop''" "lit ''content_block_delta'' \<noteq> lit ''error''"
  "lit ''message_start'' \<noteq> lit ''message_stop''" "lit ''message_start'' \<noteq> lit ''error''"
  "lit ''message_start'' \<noteq> lit ''content_block_delta''"
  "lit ''content_block_start'' \<noteq> lit ''message_stop''" "lit ''content_block_start'' \<noteq> lit ''error''"
  "lit ''content_block_start'' \<noteq> lit ''content_block_delta''"
  "lit ''content_block_stop'' \<noteq> lit ''message_stop''" "lit ''content_block_stop'' \<noteq> lit ''error''"
  "lit ''content_block_stop'' \<noteq> lit ''content_block_delta''"
  "lit ''message_delta'' \<noteq> lit ''message_stop''" "lit ''message_delta'' \<noteq> lit ''error''"
  "lit ''message_delta'' \<noteq> lit ''content_block_delta''"
  by simp_all

lemma translate_event_ok:
  assumes ok: "native_ok acc s" "\<not> ns_terminal s" and step: "translate_event from_str ts e s = (Inr fs, s')"
  shows "step_ok acc (event_text from_str e) (closing from_str e) fs s'"
proof -
  obtain p where p: "from_str (decode_utf8 (ev_data e)) = Some p"
    using step by (auto simp: translate_event_def split: option.splits)
  let ?k = "event_kind e p"
  consider "?k = lit ''message_start''" "on_message_start ts p s = (Inr fs, s')"
    | "?k = lit ''content_block_start''" "on_block_start ts p s = (Inr fs, s')"
    | "?k = lit ''content_block_delta''" "on_block_delta ts p s = (Inr fs, s')"
    | "?k = lit ''content_block_stop''" "on_block_stop ts p s = (Inr fs, s')"
    | "?k = lit ''message_delta''" "on_message_delta ts p s = (Inr fs, s')"
    | "?k = lit ''message_stop'' \<or> ?k = lit ''error''" "on_message_stop ts s = (Inr fs, s') \<or> on_error ts p s = (Inr fs, s')"
    using step p by (auto simp: translate_event_def Let_def split: if_splits simp del: lit_Cons)
  then show ?thesis
    using message_start_ok [OF ok] block_start_ok [OF ok] block_delta_ok [OF ok] block_stop_ok [OF ok]
      message_delta_ok [OF ok] message_end_ok [OF ok(1)]
    by cases (auto simp: event_text_def closing_def p simp del: lit_Cons)
qed

lemma step_ok_append:
  assumes "step_ok acc t False fs s'" "\<And>acc'. native_ok acc' s' \<Longrightarrow> step_ok acc' t' c gs s''"
  shows "step_ok acc (t @ t') c (fs @ gs) s''"
proof -
  obtain acc' where acc': "client_tools fs acc = Some acc'" "native_ok acc' s'"
    using assms(1) by (auto simp: step_ok_def)
  have "Done \<notin> set fs"
    using assms(1) unfolding step_ok_def by (metis append_butlast_last_id in_set_conv_decomp set_ConsD set_append Un_iff empty_iff list.set(1))
  then show ?thesis
    using assms(2) [OF acc'(2)] assms(1) acc'(1)
    by (auto simp: step_ok_def client_tools_append butlast_append)
qed

lemma translate_events_terminal: "ns_terminal s \<Longrightarrow> translate_events from_str ts es s = (Inr [], s)"
  by (induction es) auto

lemma closing_text: "closing from_str e \<Longrightarrow> event_text from_str e = []"
  by (auto simp: event_text_def closing_def split: option.splits simp del: lit_Cons)

lemma translate_events_ok:
  assumes "native_ok acc s" "\<not> ns_terminal s" "translate_events from_str ts es s = (Inr fs, s')"
  shows "step_ok acc (message_text from_str es) (ns_terminal s') fs s'"
  using assms
proof (induction es arbitrary: acc s fs)
  case (Cons e es)
  show ?case
  proof (cases "ev_event e = lit ''ping''")
    case False
    then obtain gs s1 hs where s1: "translate_event from_str ts e s = (Inr gs, s1)"
      and hs: "translate_events from_str ts es s1 = (Inr hs, s')" "fs = gs @ hs"
      using Cons.prems by (auto split: prod.splits sum.splits simp del: lit_Cons)
    note step = translate_event_ok [OF Cons.prems(1,2) s1]
    show ?thesis
    proof (cases "closing from_str e")
      case True
      then have "ns_terminal s1" using step by (simp add: step_ok_def)
      then show ?thesis
        using step hs translate_events_terminal [of s1 from_str ts es] True False
        by (simp add: closing_text del: lit_Cons)
    next
      case live: False
      then have "\<not> ns_terminal s1" using step by (simp add: step_ok_def)
      then show ?thesis
        using step_ok_append [OF _ Cons.IH] step hs live False by (simp del: lit_Cons)
    qed
  qed (use Cons in \<open>auto simp del: lit_Cons\<close>)
qed (simp add: step_ok_none)

text \<open>The translation does not look at the decoder.\<close>

definition with_decoder :: "sse_decoder \<Rightarrow> native_step \<Rightarrow> native_step" where
  "with_decoder d r = (fst r, (snd r)\<lparr>ns_decoder := d\<rparr>)"

lemma chunk_json_decoder [simp]: "chunk_json (s\<lparr>ns_decoder := d\<rparr>) = chunk_json s"
  by (intro ext) (simp add: chunk_json_def)

lemma frames_decoder [simp]:
  "delta_frame ts (s\<lparr>ns_decoder := d\<rparr>) = delta_frame ts s" "role_frame ts (s\<lparr>ns_decoder := d\<rparr>) = role_frame ts s"
  by (simp_all add: fun_eq_iff delta_frame_def role_frame_def)

lemma reply_decoder: "reply r (s\<lparr>ns_decoder := d\<rparr>) = with_decoder d (reply r s)"
  by (simp add: reply_def with_decoder_def split: sum.splits)

lemma step_decoder: "(r, s\<lparr>ns_decoder := d\<rparr>) = with_decoder d (r, s)"
  by (simp add: with_decoder_def)

text \<open>An update of another field commutes with the update of the decoder.\<close>

lemma decoder_updates:
  "s\<lparr>ns_decoder := d, ns_id := i, ns_model := m, ns_input_tokens := n\<rparr> =
     s\<lparr>ns_id := i, ns_model := m, ns_input_tokens := n\<rparr>\<lparr>ns_decoder := d\<rparr>"
  "s\<lparr>ns_decoder := d, ns_active := a\<rparr> = s\<lparr>ns_active := a\<rparr>\<lparr>ns_decoder := d\<rparr>"
  "s\<lparr>ns_decoder := d, ns_tool_count := c, ns_active := a\<rparr> = s\<lparr>ns_tool_count := c, ns_active := a\<rparr>\<lparr>ns_decoder := d\<rparr>"
  "s\<lparr>ns_decoder := d, ns_finish_sent := b\<rparr> = s\<lparr>ns_finish_sent := b\<rparr>\<lparr>ns_decoder := d\<rparr>"
  "s\<lparr>ns_decoder := d, ns_terminal := b\<rparr> = s\<lparr>ns_terminal := b\<rparr>\<lparr>ns_decoder := d\<rparr>"
  for s :: native_stream
  by simp_all

lemma handlers_decoder:
  "on_message_start ts p (s\<lparr>ns_decoder := d\<rparr>) = with_decoder d (on_message_start ts p s)"
  "on_block_start ts p (s\<lparr>ns_decoder := d\<rparr>) = with_decoder d (on_block_start ts p s)"
  "on_block_delta ts p (s\<lparr>ns_decoder := d\<rparr>) = with_decoder d (on_block_delta ts p s)"
  "on_block_stop ts p (s\<lparr>ns_decoder := d\<rparr>) = with_decoder d (on_block_stop ts p s)"
  "on_message_delta ts p (s\<lparr>ns_decoder := d\<rparr>) = with_decoder d (on_message_delta ts p s)"
  "on_message_stop ts (s\<lparr>ns_decoder := d\<rparr>) = with_decoder d (on_message_stop ts s)"
  "on_error ts p (s\<lparr>ns_decoder := d\<rparr>) = with_decoder d (on_error ts p s)"
  subgoal by (simp add: on_message_start_def Let_def decoder_updates reply_decoder step_decoder
        split: option.splits del: lit_Cons native_stream.update_convs)
  subgoal by (simp add: on_block_start_def Let_def decoder_updates reply_decoder step_decoder
        split: option.splits del: lit_Cons native_stream.update_convs)
  subgoal by (simp add: on_block_delta_def Let_def decoder_updates reply_decoder step_decoder
        split: option.splits active_block.splits del: lit_Cons native_stream.update_convs)
  subgoal by (simp add: on_block_stop_def Let_def decoder_updates reply_decoder step_decoder
        split: option.splits active_block.splits bool.splits del: lit_Cons native_stream.update_convs)
  subgoal by (simp add: on_message_delta_def Let_def decoder_updates reply_decoder step_decoder
        split: sum.splits del: lit_Cons native_stream.update_convs)
  subgoal by (simp add: on_message_stop_def Let_def decoder_updates reply_decoder step_decoder
        split: sum.splits del: lit_Cons native_stream.update_convs)
  subgoal by (simp add: on_error_def Let_def decoder_updates reply_decoder step_decoder
        split: sum.splits del: lit_Cons native_stream.update_convs)
  done

lemma translate_event_decoder:
  "translate_event from_str ts e (s\<lparr>ns_decoder := d\<rparr>) = with_decoder d (translate_event from_str ts e s)"
  by (simp add: translate_event_def Let_def handlers_decoder with_decoder_def split: option.splits del: lit_Cons)

lemma translate_events_decoder:
  "translate_events from_str ts es (s\<lparr>ns_decoder := d\<rparr>) = with_decoder d (translate_events from_str ts es s)"
  by (induction es arbitrary: s) (auto simp: translate_event_decoder with_decoder_def split: prod.splits sum.splits simp del: lit_Cons)

lemma translate_events_append:
  "translate_events from_str ts (es @ es') s =
    (case translate_events from_str ts es s of
       (Inl e, s') \<Rightarrow> (Inl e, s')
     | (Inr fs, s') \<Rightarrow>
         (case translate_events from_str ts es' s' of (Inl e, s'') \<Rightarrow> (Inl e, s'') | (Inr fs', s'') \<Rightarrow> (Inr (fs @ fs'), s'')))"
  by (induction es arbitrary: s) (auto split: prod.splits sum.splits simp del: lit_Cons)

end
