(* ===== verification/Provider_Delivery.thy ===== *)
theory Provider_Delivery
  imports Native_Stream Delivery
begin

text \<open>
  How one request reaches one provider: the HTTP clients of \<open>wayfinder-providers/src/openai_compat.rs\<close> and
  \<open>anthropic_native.rs\<close>, and the four deliveries of \<open>wayfinder-gateway/src/delivery.rs\<close> with the dispatcher
  over them. URL parsing, header validity, the transport, the credential source and the local services
  are parameters, the fields of \<open>provider_env\<close>. A delivery gives the request it put on the wire, if any,
  beside its result.
\<close>

section \<open>Endpoints and credentials\<close>

record url =
  url_scheme :: str
  url_host :: "str option"
  url_username :: str
  url_password :: "str option"
  url_query :: "str option"
  url_fragment :: "str option"

record http_request =
  rq_url :: url
  rq_headers :: "(str \<times> bytes) list"
  rq_body :: json

text \<open>The chunks of a response body; \<open>None\<close> is a failure of the transport.\<close>

record http_response =
  rs_status :: nat
  rs_content_type :: "str option"
  rs_content_length :: "u64 option"
  rs_chunks :: "bytes option list"

datatype availability =
  Available | DeviceNotEligible | AppleIntelligenceNotEnabled | ModelNotReady | Unsupported | Unavailable

datatype xpc_error =
    XUnsupportedPlatform | XInvalidRequest | XRequestTooLarge | XMalformedResponse | XResponseTooLarge
  | XUnsupportedVersion | XUnavailable | XTimedOut | XCancelled | XDenied | XGenerationFailed | XInvalidStream

datatype message_role = RoleUser | RoleAssistant

record generate_request =
  gr_request_id :: str
  gr_instructions :: "str option"
  gr_messages :: "(message_role \<times> str) list"
  gr_timeout :: u64

record generate_response =
  ge_request_id :: str
  ge_content :: str

datatype codex_error =
    XcInvalidConfiguration | XcRuntimeUnavailable | XcInvalidRequest | XcRequestTooLarge | XcResponseTooLarge
  | XcMalformedProtocol | XcLineTooLarge | XcCorrelationFailed | XcNotificationQueueFull | XcTimedOut
  | XcRequestRejected | XcBusy | XcAuthenticationRequired | XcUsageLimitReached | XcUnsupportedAuthentication
  | XcLoginFailed | XcLoginCancelled | XcModelUnavailable | XcForbiddenAction | XcTurnFailed | XcInterrupted
  | XcEndOfStream | XcInsecureCredentialStore

datatype chat_role = ChatSystem | ChatDeveloper | ChatUser | ChatAssistant

record chat_request =
  ch_model :: str
  ch_messages :: "(chat_role \<times> str) list"

record chat_response =
  cr_content :: str
  cr_thread_id :: str
  cr_turn_id :: str

record provider_env =
  pe_parse_url :: "str \<Rightarrow> url option"
  pe_header_ok :: "bytes \<Rightarrow> bool"
  pe_resolve :: "str option \<Rightarrow> (unit, bytes option) result"
  pe_propagation :: "(str \<times> bytes) list"
  pe_post :: "http_request \<Rightarrow> http_response option"
  pe_from_slice :: "bytes \<Rightarrow> json option"
  pe_from_str :: "str \<Rightarrow> json option"
  pe_to_string :: "json \<Rightarrow> str option"
  pe_request_id :: str
  pe_availability :: "str \<Rightarrow> (xpc_error, availability) result"
  pe_generate :: "generate_request \<Rightarrow> (xpc_error, generate_response) result"
  pe_task_joined :: bool
  pe_chat :: "chat_request \<Rightarrow> (codex_error, chat_response) result option"

definition trim_end_slashes :: "str \<Rightarrow> str" where
  "trim_end_slashes s = rev (dropWhile (\<lambda>c. c = 47) (rev s))"

definition plain_origin :: "url \<Rightarrow> bool" where
  "plain_origin u \<longleftrightarrow>
     (url_scheme u = lit ''http'' \<or> url_scheme u = lit ''https'') \<and> url_host u \<noteq> None \<and> url_username u = [] \<and>
     url_password u = None \<and> url_query u = None \<and> url_fragment u = None"

definition endpoint_parse :: "provider_env \<Rightarrow> string \<Rightarrow> str \<Rightarrow> (provider_error, url) result" where
  "endpoint_parse env path base_url =
     (if base_url = [] \<or> trim base_url \<noteq> base_url then Inl PInvalidEndpoint
      else case pe_parse_url env (trim_end_slashes base_url @ lit path) of
             None \<Rightarrow> Inl PInvalidEndpoint
           | Some u \<Rightarrow> if plain_origin u then Inr u else Inl PInvalidEndpoint)"

definition openai_endpoint_parse :: "provider_env \<Rightarrow> str \<Rightarrow> (provider_error, url) result" where
  "openai_endpoint_parse env base_url = endpoint_parse env ''/chat/completions'' base_url"

definition anthropic_endpoint_parse :: "provider_env \<Rightarrow> str \<Rightarrow> (provider_error, url) result" where
  "anthropic_endpoint_parse env base_url = endpoint_parse env ''/v1/messages'' base_url"

definition bearer_header :: "provider_env \<Rightarrow> bytes \<Rightarrow> (provider_error, bytes) result" where
  "bearer_header env secret =
     (let value = lit ''Bearer '' @ secret in if pe_header_ok env value then Inr value else Inl PInvalidCredential)"

definition api_key_header :: "provider_env \<Rightarrow> bytes \<Rightarrow> (provider_error, bytes) result" where
  "api_key_header env secret = (if pe_header_ok env secret then Inr secret else Inl PInvalidCredential)"

definition trace_headers :: "provider_env \<Rightarrow> (str \<times> bytes) list" where
  "trace_headers env =
     List.map_filter (\<lambda>name. map_option (Pair name) (map_of (pe_propagation env) name)) [lit ''traceparent'', lit ''tracestate'']"

section \<open>The HTTP clients\<close>

record provider_client_config =
  cc_request_timeout :: u64
  cc_connect_timeout :: u64
  cc_max_response_bytes :: nat

definition default_client_config :: provider_client_config where
  "default_client_config =
     \<lparr>cc_request_timeout = 60000, cc_connect_timeout = 10000, cc_max_response_bytes = 8 * 1024 * 1024\<rparr>"

text \<open>A client keeps its response bound; \<open>built\<close> is whether the HTTP library could build it.\<close>

definition client_new :: "bool \<Rightarrow> provider_client_config \<Rightarrow> (provider_error, nat) result" where
  "client_new built config =
     (if cc_request_timeout config = 0 \<or> cc_connect_timeout config = 0 \<or> cc_max_response_bytes config = 0
      then Inl PInvalidClientConfig
      else if built then Inr (cc_max_response_bytes config) else Inl PClientBuild)"

fun collect_body :: "nat \<Rightarrow> bytes \<Rightarrow> bytes option list \<Rightarrow> (provider_error, bytes) result" where
  "collect_body limit body [] = Inr body"
| "collect_body limit body (None # cs) = Inl PTransport"
| "collect_body limit body (Some c # cs) =
     (case checked_add (length body) (length c) of
        None \<Rightarrow> Inl (PResponseTooLarge limit)
      | Some n \<Rightarrow> if limit < n then Inl (PResponseTooLarge limit) else collect_body limit (body @ c) cs)"

definition bounded_body :: "nat \<Rightarrow> http_response \<Rightarrow> (provider_error, bytes) result" where
  "bounded_body limit r =
     (if (case rs_content_length r of None \<Rightarrow> False | Some n \<Rightarrow> limit < n) then Inl (PResponseTooLarge limit)
      else collect_body limit [] (rs_chunks r))"

definition content_type_or :: "string \<Rightarrow> http_response \<Rightarrow> str" where
  "content_type_or d r = (case rs_content_type r of None \<Rightarrow> lit d | Some t \<Rightarrow> t)"

text \<open>A request is built, then sent: the request on the wire and the response.\<close>

definition openai_request ::
  "provider_env \<Rightarrow> url \<Rightarrow> json \<Rightarrow> bytes option \<Rightarrow> string \<Rightarrow> (provider_error, http_request) result" where
  "openai_request env endpoint body credential accept =
     (let headers = (lit ''accept'', lit accept) # trace_headers env in
      case credential of
        None \<Rightarrow> Inr \<lparr>rq_url = endpoint, rq_headers = headers, rq_body = body\<rparr>
      | Some secret \<Rightarrow>
          and_then (bearer_header env secret) (\<lambda>value.
            Inr \<lparr>rq_url = endpoint, rq_headers = headers @ [(lit ''authorization'', value)], rq_body = body\<rparr>))"

definition anthropic_request ::
  "provider_env \<Rightarrow> url \<Rightarrow> json \<Rightarrow> bytes \<Rightarrow> string \<Rightarrow> (provider_error, http_request) result" where
  "anthropic_request env endpoint body credential accept =
     and_then (api_key_header env credential) (\<lambda>value.
       Inr \<lparr>rq_url = endpoint,
            rq_headers = [(lit ''accept'', lit accept), (lit ''x-api-key'', value), (lit ''anthropic-version'', lit ''2023-06-01'')] @
              trace_headers env,
            rq_body = body\<rparr>)"

definition post_request ::
  "provider_env \<Rightarrow> (provider_error, http_request) result \<Rightarrow> (http_response \<Rightarrow> (provider_error, 'a) result) \<Rightarrow>
   http_request option \<times> (provider_error, 'a) result" where
  "post_request env request k =
     (case request of
        Inl e \<Rightarrow> (None, Inl e)
      | Inr rq \<Rightarrow> (Some rq, case pe_post env rq of None \<Rightarrow> Inl PTransport | Some r \<Rightarrow> k r))"

definition read_buffered :: "nat \<Rightarrow> http_response \<Rightarrow> (provider_error, buffered_response) result" where
  "read_buffered limit r =
     and_then (bounded_body limit r) (\<lambda>body.
       Inr \<lparr>br_status = rs_status r, br_content_type = content_type_or ''application/json'' r, br_body = body\<rparr>)"

record streaming_response =
  st_status :: nat
  st_content_type :: str
  st_items :: "(provider_error, bytes) result list"

definition is_success :: "nat \<Rightarrow> bool" where
  "is_success status \<longleftrightarrow> 200 \<le> status \<and> status < 300"

definition stream_items :: "http_response \<Rightarrow> (provider_error, bytes) result list" where
  "stream_items r = map (\<lambda>c. case c of None \<Rightarrow> Inl PTransport | Some b \<Rightarrow> Inr b) (rs_chunks r)"

definition read_openai_stream :: "http_response \<Rightarrow> (provider_error, streaming_response) result" where
  "read_openai_stream r =
     Inr \<lparr>st_status = rs_status r, st_content_type = content_type_or ''text/event-stream'' r, st_items = stream_items r\<rparr>"

definition read_anthropic_stream :: "nat \<Rightarrow> http_response \<Rightarrow> (provider_error, streaming_response) result" where
  "read_anthropic_stream limit r =
     (let content_type = content_type_or ''text/event-stream'' r in
      if \<not> is_success (rs_status r) then
        and_then (bounded_body limit r) (\<lambda>body.
          Inr \<lparr>st_status = rs_status r, st_content_type = content_type, st_items = [Inr body]\<rparr>)
      else Inr \<lparr>st_status = rs_status r, st_content_type = content_type, st_items = stream_items r\<rparr>)"

section \<open>OpenAI-compatible and Anthropic delivery\<close>

type_synonym 'a sent = "http_request option \<times> (delivery_error, 'a) result"

record delivery_stream =
  ds_status :: nat
  ds_content_type :: str
  ds_items :: "(delivery_error, bytes) result list"

definition provider_result :: "http_request option \<times> (provider_error, 'a) result \<Rightarrow> ('a \<Rightarrow> (delivery_error, 'b) result) \<Rightarrow> 'b sent" where
  "provider_result r k = (fst r, case snd r of Inl e \<Rightarrow> Inl (ProviderFailed e) | Inr x \<Rightarrow> k x)"

definition openai_prepare ::
  "provider_env \<Rightarrow> configured_model \<Rightarrow> json \<Rightarrow> (delivery_error, url \<times> bytes option \<times> (str \<times> json) list) result" where
  "openai_prepare env model body =
     (case openai_endpoint_parse env (cm_endpoint model) of
        Inl _ \<Rightarrow> Inl InvalidEndpoint
      | Inr endpoint \<Rightarrow>
          (case pe_resolve env (cm_api_key_env model) of
             Inl _ \<Rightarrow> Inl CredentialUnavailable
           | Inr credential \<Rightarrow>
               if cm_api_key_env model \<noteq> None \<and> credential = None then Inl CredentialUnavailable
               else case as_object body of
                      None \<Rightarrow> Inl (ProviderFailed PTransport)
                    | Some m \<Rightarrow> Inr (endpoint, credential, ix_insert (lit ''model'') (JString (cm_provider_model model)) m)))"

definition openai_send :: "provider_env \<Rightarrow> nat \<Rightarrow> configured_model \<Rightarrow> json \<Rightarrow> buffered_response sent" where
  "openai_send env limit model body =
     (case openai_prepare env model body of
        Inl e \<Rightarrow> (None, Inl e)
      | Inr (endpoint, credential, m) \<Rightarrow>
          provider_result
            (post_request env (openai_request env endpoint (JObject m) credential ''application/json'') (read_buffered limit))
            Inr)"

definition openai_send_stream :: "provider_env \<Rightarrow> configured_model \<Rightarrow> json \<Rightarrow> delivery_stream sent" where
  "openai_send_stream env model body =
     (case openai_prepare env model body of
        Inl e \<Rightarrow> (None, Inl e)
      | Inr (endpoint, credential, m) \<Rightarrow>
          provider_result
            (post_request env
               (openai_request env endpoint (JObject (ix_insert (lit ''stream'') (JBool True) m)) credential ''text/event-stream'')
               read_openai_stream)
            (\<lambda>r. Inr \<lparr>ds_status = st_status r, ds_content_type = st_content_type r,
                     ds_items = map (map_sum ProviderFailed id) (st_items r)\<rparr>))"

fun map_anthropic_translation :: "anthropic_native_error \<Rightarrow> delivery_error" where
  "map_anthropic_translation InvalidRequest = AnthropicFailed AnthropicInvalidRequest"
| "map_anthropic_translation InvalidResponse = AnthropicFailed AnthropicInvalidResponse"
| "map_anthropic_translation (StreamError _) = AnthropicFailed AnthropicInvalidResponse"

definition translate_anthropic_error_bytes :: "provider_env \<Rightarrow> bytes \<Rightarrow> bytes" where
  "translate_anthropic_error_bytes env body =
     (let v = (case pe_from_slice env body of
                 None \<Rightarrow> obj [(''error'', obj [(''message'', jstr ''Anthropic upstream error'')])] | Some v \<Rightarrow> v) in
      case pe_to_string env (anthropic_to_openai_error v) of
        None \<Rightarrow> lit ''{\"error\":{\"message\":\"Anthropic upstream error\",\"type\":\"api_error\"}}''
      | Some t \<Rightarrow> into_bytes t)"

definition anthropic_prepare ::
  "provider_env \<Rightarrow> configured_model \<Rightarrow> json \<Rightarrow> bool \<Rightarrow> (delivery_error, url \<times> bytes \<times> json) result" where
  "anthropic_prepare env model body streaming =
     (if cm_provider model \<noteq> Anthropic then Inl (AnthropicFailed AnthropicInvalidRequest)
      else case anthropic_endpoint_parse env (cm_endpoint model) of
        Inl _ \<Rightarrow> Inl InvalidEndpoint
      | Inr endpoint \<Rightarrow>
          (case pe_resolve env (cm_api_key_env model) of
             Inr (Some credential) \<Rightarrow>
               (case openai_to_anthropic_request (pe_from_str env) body (cm_provider_model model) streaming of
                  Inl e \<Rightarrow> Inl (map_anthropic_translation e)
                | Inr translated \<Rightarrow> Inr (endpoint, credential, translated))
           | _ \<Rightarrow> Inl CredentialUnavailable))"

definition anthropic_body :: "provider_env \<Rightarrow> buffered_response \<Rightarrow> (delivery_error, bytes) result" where
  "anthropic_body env r =
     (if is_success (br_status r) then
        and_then (ok_or (AnthropicFailed AnthropicInvalidResponse) (pe_from_slice env (br_body r))) (\<lambda>v.
        and_then (case anthropic_to_openai_response (pe_to_string env) v of
                    Inl e \<Rightarrow> Inl (map_anthropic_translation e) | Inr t \<Rightarrow> Inr t) (\<lambda>translated.
        and_then (ok_or (AnthropicFailed AnthropicInvalidResponse) (pe_to_string env translated)) (\<lambda>t. Inr (into_bytes t))))
      else Inr (translate_anthropic_error_bytes env (br_body r)))"

definition anthropic_send :: "provider_env \<Rightarrow> nat \<Rightarrow> configured_model \<Rightarrow> json \<Rightarrow> buffered_response sent" where
  "anthropic_send env limit model body =
     (case anthropic_prepare env model body False of
        Inl e \<Rightarrow> (None, Inl e)
      | Inr (endpoint, credential, translated) \<Rightarrow>
          provider_result
            (post_request env (anthropic_request env endpoint translated credential ''application/json'') (read_buffered limit))
            (\<lambda>r. and_then (anthropic_body env r) (\<lambda>b.
               Inr \<lparr>br_status = br_status r, br_content_type = lit ''application/json'', br_body = b\<rparr>)))"

text \<open>The stream that pulls chunks from the provider and pushes them through the translator.\<close>

fun translated_items ::
  "provider_env \<Rightarrow> (provider_error, bytes) result list \<Rightarrow> native_stream \<Rightarrow> (delivery_error, frame) result list" where
  "translated_items env [] s =
     (case fst (native_finish (pe_from_str env) (pe_to_string env) s) of
        Inl e \<Rightarrow> [Inl (map_anthropic_translation e)]
      | Inr fs \<Rightarrow> map Inr fs)"
| "translated_items env (Inl e # _) s = [Inl (ProviderFailed e)]"
| "translated_items env (Inr chunk # rest) s =
     (case native_push (pe_from_str env) (pe_to_string env) chunk s of
        (Inl e, _) \<Rightarrow> [Inl (map_anthropic_translation e)]
      | (Inr fs, s') \<Rightarrow> map Inr fs @ translated_items env rest s')"

definition anthropic_send_stream :: "provider_env \<Rightarrow> nat \<Rightarrow> configured_model \<Rightarrow> json \<Rightarrow> delivery_stream sent" where
  "anthropic_send_stream env limit model body =
     (case anthropic_prepare env model body True of
        Inl e \<Rightarrow> (None, Inl e)
      | Inr (endpoint, credential, translated) \<Rightarrow>
          provider_result
            (post_request env (anthropic_request env endpoint translated credential ''text/event-stream'') (read_anthropic_stream limit))
            (\<lambda>r. Inr (if \<not> is_success (st_status r)
               then \<lparr>ds_status = st_status r, ds_content_type = lit ''application/json'',
                     ds_items = map (map_sum ProviderFailed (translate_anthropic_error_bytes env)) (st_items r)\<rparr>
               else \<lparr>ds_status = st_status r, ds_content_type = lit ''text/event-stream'',
                     ds_items = map (map_sum id frame_bytes) (translated_items env (st_items r) native_default)\<rparr>)))"

section \<open>Local services\<close>

text \<open>The instructions and the messages of a request for the on-device model.\<close>

definition apple_message ::
  "json \<Rightarrow> str list \<times> (message_role \<times> str) list \<Rightarrow> (delivery_error, str list \<times> (message_role \<times> str) list) result" where
  "apple_message raw acc =
     (let invalid = AppleFailed AppleInvalidRequest; (instructions, messages) = acc in
      and_then (ok_or invalid (Option.bind (jget raw (lit ''role'')) as_str)) (\<lambda>role.
      and_then (ok_or invalid (Option.bind (jget raw (lit ''content'')) as_str)) (\<lambda>content.
      if role = lit ''system'' \<or> role = lit ''developer'' then Inr (instructions @ [content], messages)
      else if role = lit ''user'' then Inr (instructions, messages @ [(RoleUser, content)])
      else if role = lit ''assistant'' then Inr (instructions, messages @ [(RoleAssistant, content)])
      else Inl invalid)))"

definition apple_generate_request :: "json \<Rightarrow> str \<Rightarrow> u64 \<Rightarrow> bool \<Rightarrow> (delivery_error, generate_request) result" where
  "apple_generate_request body request_id timeout streaming =
     (let invalid = AppleFailed AppleInvalidRequest in
      and_then (ok_or invalid (as_object body)) (\<lambda>object.
      if (Option.bind (member object ''stream'') as_bool = Some True) \<noteq> streaming \<or>
         list_ex (\<lambda>f. member object f \<noteq> None) [''tools'', ''tool_choice'', ''response_format'', ''logprobs''] \<or>
         (case Option.bind (member object ''n'') as_u64 of None \<Rightarrow> False | Some n \<Rightarrow> n \<noteq> 1)
      then Inl invalid
      else
        and_then (ok_or invalid (Option.bind (member object ''messages'') as_array)) (\<lambda>raw_messages.
        and_then (try_fold apple_message raw_messages ([], [])) (\<lambda>(instructions, messages).
        Inr \<lparr>gr_request_id = request_id,
             gr_instructions = (if instructions = [] then None else Some (join_str [10, 10] instructions)),
             gr_messages = messages, gr_timeout = timeout\<rparr>))))"

fun map_availability :: "availability \<Rightarrow> (delivery_error, unit) result" where
  "map_availability Available = Inr ()"
| "map_availability ModelNotReady = Inl (AppleFailed AppleNotReady)"
| "map_availability AppleIntelligenceNotEnabled = Inl (AppleFailed AppleNotReady)"
| "map_availability Unsupported = Inl (AppleFailed AppleUnsupported)"
| "map_availability DeviceNotEligible = Inl (AppleFailed AppleUnsupported)"
| "map_availability Unavailable = Inl (AppleFailed AppleUnavailable)"

definition map_xpc_error :: "xpc_error \<Rightarrow> delivery_error" where
  "map_xpc_error e =
     AppleFailed
       (case e of
          XUnsupportedPlatform \<Rightarrow> AppleUnsupported
        | XInvalidRequest \<Rightarrow> AppleInvalidRequest
        | XRequestTooLarge \<Rightarrow> AppleInvalidRequest
        | XUnsupportedVersion \<Rightarrow> AppleInvalidRequest
        | XMalformedResponse \<Rightarrow> AppleInvalidResponse
        | XResponseTooLarge \<Rightarrow> AppleInvalidResponse
        | XInvalidStream \<Rightarrow> AppleInvalidResponse
        | _ \<Rightarrow> AppleUnavailable)"

definition completion_json :: "str \<Rightarrow> str \<Rightarrow> str \<Rightarrow> json" where
  "completion_json ident provider_model content =
     obj [(''id'', JString ident), (''object'', jstr ''chat.completion''), (''created'', json_u64 0),
          (''model'', JString provider_model),
          (''choices'', JArray [obj
             [(''index'', json_u64 0),
              (''message'', obj [(''role'', jstr ''assistant''), (''content'', JString content)]),
              (''finish_reason'', jstr ''stop'')]])]"

definition apple_send :: "provider_env \<Rightarrow> u64 \<Rightarrow> configured_model \<Rightarrow> json \<Rightarrow> (delivery_error, buffered_response) result" where
  "apple_send env timeout model body =
     (if cm_provider model \<noteq> AppleFoundationModels \<or> cm_provider_model model \<noteq> lit ''system-default''
      then Inl (AppleFailed AppleInvalidRequest)
      else
        and_then (apple_generate_request body (pe_request_id env) timeout False) (\<lambda>request.
        if \<not> pe_task_joined env then Inl (AppleFailed AppleUnavailable)
        else
          and_then (map_sum map_xpc_error id (pe_availability env (pe_request_id env))) (\<lambda>availability.
          and_then (map_availability availability) (\<lambda>_.
          and_then (map_sum map_xpc_error id (pe_generate env request)) (\<lambda>generated.
          and_then (ok_or (AppleFailed AppleInvalidResponse)
              (pe_to_string env (completion_json (ge_request_id generated) (cm_provider_model model) (ge_content generated)))) (\<lambda>t.
          Inr \<lparr>br_status = 200, br_content_type = lit ''application/json'', br_body = into_bytes t\<rparr>))))))"

definition codex_message :: "json \<Rightarrow> (delivery_error, chat_role \<times> str) result" where
  "codex_message raw =
     (let invalid = CodexFailed CodexInvalidRequest in
      and_then (ok_or invalid (as_object raw)) (\<lambda>m.
      if length m \<noteq> 2 \<or> member m ''role'' = None \<or> member m ''content'' = None then Inl invalid
      else
        and_then (let role = member_str m ''role'' in
                  if role = Some (lit ''system'') then Inr ChatSystem
                  else if role = Some (lit ''developer'') then Inr ChatDeveloper
                  else if role = Some (lit ''user'') then Inr ChatUser
                  else if role = Some (lit ''assistant'') then Inr ChatAssistant
                  else Inl invalid) (\<lambda>role.
        and_then (ok_or invalid (member_str m ''content'')) (\<lambda>content. Inr (role, content)))))"

definition codex_chat_request :: "json \<Rightarrow> str \<Rightarrow> bool \<Rightarrow> (delivery_error, chat_request) result" where
  "codex_chat_request body provider_model streaming =
     (let invalid = CodexFailed CodexInvalidRequest in
      and_then (ok_or invalid (as_object body)) (\<lambda>object.
      if list_ex (\<lambda>(k, _). k \<notin> {lit ''model'', lit ''messages'', lit ''stream'', lit ''n''}) object then Inl invalid
      else if \<not> (case member object ''stream'' of
                  None \<Rightarrow> \<not> streaming | Some v \<Rightarrow> as_bool v = Some streaming) then Inl invalid
      else if (case member object ''n'' of None \<Rightarrow> False | Some v \<Rightarrow> as_u64 v \<noteq> Some 1) \<or>
              (case member object ''model'' of None \<Rightarrow> False | Some v \<Rightarrow> as_str v = None) then Inl invalid
      else
        and_then (ok_or invalid (Option.bind (Option.bind (member object ''messages'') as_array)
            (\<lambda>ms. if ms = [] then None else Some ms))) (\<lambda>raw_messages.
        and_then (try_map codex_message raw_messages) (\<lambda>messages.
        Inr \<lparr>ch_model = provider_model, ch_messages = messages\<rparr>))))"

definition map_codex_runtime_error :: "codex_error \<Rightarrow> delivery_error" where
  "map_codex_runtime_error e =
     CodexFailed
       (if e \<in> {XcAuthenticationRequired, XcUnsupportedAuthentication, XcLoginFailed, XcLoginCancelled}
        then CodexAuthenticationRequired
        else if e = XcModelUnavailable then CodexModelUnavailable
        else if e = XcBusy then CodexBusy
        else if e = XcUsageLimitReached then CodexUsageLimitReached
        else if e \<in> {XcInvalidRequest, XcRequestTooLarge, XcRequestRejected} then CodexInvalidRequest
        else if e \<in> {XcMalformedProtocol, XcLineTooLarge, XcCorrelationFailed, XcNotificationQueueFull, XcResponseTooLarge,
                     XcForbiddenAction} then CodexInvalidResponse
        else if e = XcTurnFailed then CodexTurnFailed
        else if e = XcInterrupted then CodexInterrupted
        else CodexUnavailable)"

definition CODEX_MAX_RESPONSE_BYTES :: nat where
  "CODEX_MAX_RESPONSE_BYTES = 65536"

definition codex_send :: "provider_env \<Rightarrow> configured_model \<Rightarrow> json \<Rightarrow> (delivery_error, buffered_response) result" where
  "codex_send env model body =
     (let invalid_response = CodexFailed CodexInvalidResponse in
      if cm_provider model \<noteq> CodexAppServer then Inl (CodexFailed CodexInvalidRequest)
      else
        and_then (codex_chat_request body (cm_provider_model model) False) (\<lambda>request.
        and_then (ok_or invalid_response (pe_chat env request)) (\<lambda>result.
        and_then (map_sum map_codex_runtime_error id result) (\<lambda>response.
        and_then (ok_or invalid_response
            (pe_to_string env (completion_json (cr_turn_id response) (cm_provider_model model) (cr_content response)))) (\<lambda>t.
        if CODEX_MAX_RESPONSE_BYTES < length (into_bytes t) then Inl invalid_response
        else Inr \<lparr>br_status = 200, br_content_type = lit ''application/json'', br_body = into_bytes t\<rparr>)))))"

section \<open>Dispatch\<close>

definition provider_send :: "provider_env \<Rightarrow> nat \<Rightarrow> u64 \<Rightarrow> configured_model \<Rightarrow> json \<Rightarrow> buffered_response sent" where
  "provider_send env limit timeout model body =
     (case cm_provider model of
        OpenAiCompatible \<Rightarrow> openai_send env limit model body
      | Anthropic \<Rightarrow> anthropic_send env limit model body
      | AppleFoundationModels \<Rightarrow> (None, apple_send env timeout model body)
      | CodexAppServer \<Rightarrow> (None, codex_send env model body))"

section \<open>What goes out and what comes in\<close>

text \<open>The body of a chat request names the provider's model.\<close>

definition names_model :: "json \<Rightarrow> configured_model \<Rightarrow> bool" where
  "names_model body model \<longleftrightarrow> jget body (lit ''model'') = Some (JString (cm_provider_model model))"

definition carries_key :: "provider_env \<Rightarrow> configured_model \<Rightarrow> (str \<times> bytes) list \<Rightarrow> bool" where
  "carries_key env model headers \<longleftrightarrow>
     (\<exists>key. pe_resolve env (cm_api_key_env model) = Inr (Some key) \<and>
        (if cm_provider model = Anthropic then (lit ''x-api-key'', key) \<in> set headers
         else (lit ''authorization'', lit ''Bearer '' @ key) \<in> set headers))"

lemma endpoint_parse_origin: "endpoint_parse env path base = Inr u \<Longrightarrow> plain_origin u"
  by (auto simp: endpoint_parse_def split: if_splits option.splits)

lemma collect_body_bound: "collect_body limit body cs = Inr b \<Longrightarrow> length body \<le> limit \<Longrightarrow> length b \<le> limit"
  by (induction limit body cs rule: collect_body.induct)
    (auto simp: checked_add_def split: option.splits if_splits)

lemma anthropic_request_model:
  assumes "openai_to_anthropic_request from_str body m streaming = Inr v"
  shows "jget v (lit ''model'') = Some (JString m)"
  using assms
  by (auto simp: openai_to_anthropic_request_def and_then_Inr jget_def split: if_splits prod.splits)

lemma post_request_sent: "fst (post_request env request k) = Some rq \<longleftrightarrow> request = Inr rq"
  by (auto simp: post_request_def split: sum.splits)

lemma openai_request_cases:
  "openai_request env u b cred accept = Inr rq \<Longrightarrow> rq_url rq = u \<and> rq_body rq = b \<and>
    (\<forall>key. cred = Some key \<longrightarrow> (lit ''authorization'', lit ''Bearer '' @ key) \<in> set (rq_headers rq))"
  by (auto simp: openai_request_def Let_def bearer_header_def and_then_Inr split: option.splits if_splits simp del: lit_Cons)

lemma anthropic_request_cases:
  "anthropic_request env u b key accept = Inr rq \<Longrightarrow> rq_url rq = u \<and> rq_body rq = b \<and>
    (lit ''x-api-key'', key) \<in> set (rq_headers rq)"
  by (auto simp: anthropic_request_def api_key_header_def and_then_Inr split: if_splits simp del: lit_Cons)

text \<open>A stream that a client can trust: frames whose tool calls are in order, one end of stream and nothing
  after it, or one error as the last item.\<close>

definition well_ended :: "str list \<Rightarrow> (delivery_error, frame) result list \<Rightarrow> bool" where
  "well_ended acc items \<longleftrightarrow>
     (\<exists>fs tail acc'. items = map Inr fs @ tail \<and> Done \<notin> set (butlast fs) \<and>
        (tail = [] \<and> fs \<noteq> [] \<and> last fs = Done \<or> (\<exists>e. tail = [Inl e])) \<and>
        client_tools fs acc = Some acc' \<and> length acc' \<le> MAX_TOOL_CALLS)"

lemma native_ok_decoder [simp]: "native_ok acc (s\<lparr>ns_decoder := d\<rparr>) = native_ok acc s"
  by (simp add: native_ok_def)

lemma native_push_ok:
  assumes "native_ok acc s" "\<not> ns_terminal s" "native_push from_str ts c s = (Inr fs, s')"
  shows "\<exists>t. step_ok acc t (ns_terminal s') fs s'"
  using assms by (auto simp: native_push_def split: prod.splits sum.splits dest!: translate_events_ok [rotated 2])

lemma native_finish_ok:
  assumes "native_ok acc s" "\<not> ns_terminal s" "native_finish from_str ts s = (Inr fs, s')"
  shows "\<exists>t. step_ok acc t True fs s'"
  using assms
  by (auto simp: native_finish_def split: prod.splits sum.splits if_splits dest!: translate_events_ok [rotated 2])

lemma translated_items_terminal:
  "ns_terminal s \<Longrightarrow> translated_items env us s = [] \<or> (\<exists>e. translated_items env us s = [Inl e])"
  by (induction env us s rule: translated_items.induct)
    (auto simp: native_finish_def native_push_def translate_events_terminal split: prod.splits sum.splits if_splits)

lemma well_ended_error: "native_ok acc s \<Longrightarrow> well_ended acc [Inl e]"
  unfolding well_ended_def by (intro exI [of _ "[]"] exI [of _ "[Inl e]"] exI [of _ acc]) (auto simp: native_ok_def)

lemma step_ok_not_Done: "step_ok acc t False fs s \<Longrightarrow> Done \<notin> set fs"
  unfolding step_ok_def by (metis append_butlast_last_id in_set_conv_decomp set_ConsD set_append Un_iff empty_iff list.set(1))

lemma well_ended_step:
  assumes "step_ok acc t False fs s" "\<And>acc'. native_ok acc' s \<Longrightarrow> well_ended acc' items"
  shows "well_ended acc (map Inr fs @ items)"
proof -
  obtain acc' where acc': "client_tools fs acc = Some acc'" "native_ok acc' s" using assms(1) by (auto simp: step_ok_def)
  obtain gs tail acc'' where gs: "items = map Inr gs @ tail" "Done \<notin> set (butlast gs)"
      "tail = [] \<and> gs \<noteq> [] \<and> last gs = Done \<or> (\<exists>e. tail = [Inl e])" "client_tools gs acc' = Some acc''"
      "length acc'' \<le> MAX_TOOL_CALLS"
    using assms(2) [OF acc'(2)] unfolding well_ended_def by blast
  then show ?thesis
    unfolding well_ended_def using step_ok_not_Done [OF assms(1)] acc'(1)
    by (intro exI [of _ "fs @ gs"] exI [of _ tail] exI [of _ acc''])
      (auto simp: client_tools_append butlast_append dest: in_set_butlastD)
qed

lemma well_ended_last:
  assumes "step_ok acc t True fs s" "items = [] \<or> (\<exists>e. items = [Inl e])"
  shows "well_ended acc (map Inr fs @ items)"
proof -
  obtain acc' where "client_tools fs acc = Some acc'" "native_ok acc' s" using assms(1) by (auto simp: step_ok_def)
  then show ?thesis
    unfolding well_ended_def using assms by (intro exI [of _ fs] exI [of _ items] exI [of _ acc']) (auto simp: step_ok_def native_ok_def)
qed

lemma translated_items_ended:
  "native_ok acc s \<Longrightarrow> \<not> ns_terminal s \<Longrightarrow> well_ended acc (translated_items env us s)"
proof (induction env us s arbitrary: acc rule: translated_items.induct)
  case (1 env s)
  obtain r s' where r: "native_finish (pe_from_str env) (pe_to_string env) s = (r, s')" by fastforce
  show ?case
  proof (cases r)
    case (Inr fs)
    then obtain t where "step_ok acc t True fs s'" using native_finish_ok 1 r by blast
    then show ?thesis using well_ended_last [of acc t fs s' "[]"] r Inr by simp
  qed (use 1 r well_ended_error in auto)
next
  case (3 env chunk rest s)
  obtain r s' where r: "native_push (pe_from_str env) (pe_to_string env) chunk s = (r, s')" by fastforce
  show ?case
  proof (cases r)
    case (Inr fs)
    then obtain t where t: "step_ok acc t (ns_terminal s') fs s'" using native_push_ok 3(2,3) r by blast
    show ?thesis
    proof (cases "ns_terminal s'")
      case True
      then show ?thesis using well_ended_last t translated_items_terminal [OF True] r Inr by simp
    next
      case False
      then show ?thesis using well_ended_step [OF _ 3(1)] t r Inr by simp
    qed
  qed (use 3 r well_ended_error in auto)
qed (simp add: well_ended_error)

lemma native_default_ok: "native_ok [] native_default" "\<not> ns_terminal native_default"
  by (simp_all add: native_ok_def native_default_def MAX_TOOL_CALLS_def)

lemma translated_items_events:
  assumes "push_all (ns_decoder s) chunks = (Inr es, d)" "Sse.finish d = (Inr es', d')"
    and "translate_events (pe_from_str env) (pe_to_string env) (es @ es') s = (Inr fs, s')" "ns_terminal s'"
  shows "translated_items env (map Inr chunks) s = map Inr fs"
  using assms
proof (induction chunks arbitrary: s es fs s')
  case Nil
  then show ?case
    by (auto simp: native_finish_def translate_events_decoder with_decoder_def)
next
  case (Cons c cs)
  then obtain es1 d1 es2 where d1: "Sse.push (ns_decoder s) c = (Inr es1, d1)" "push_all d1 cs = (Inr es2, d)"
    and es: "es = es1 @ es2"
    by (auto split: prod.splits sum.splits)
  obtain fs1 s1 fs2 s2 where f: "translate_events (pe_from_str env) (pe_to_string env) es1 s = (Inr fs1, s1)"
    "translate_events (pe_from_str env) (pe_to_string env) (es2 @ es') s1 = (Inr fs2, s2)" "fs = fs1 @ fs2" "s' = s2"
    using Cons.prems(3) unfolding es append_assoc translate_events_append [of _ _ es1] by (auto split: prod.splits sum.splits)
  have "translated_items env (map Inr cs) (s1\<lparr>ns_decoder := d1\<rparr>) = map Inr fs2"
    using Cons.prems d1 f by (intro Cons.IH [of "s1\<lparr>ns_decoder := d1\<rparr>" es2 _ "s2\<lparr>ns_decoder := d1\<rparr>"]) (auto simp: translate_events_decoder with_decoder_def)
  then show ?case using d1 f by (simp add: native_push_def translate_events_decoder with_decoder_def)
qed

lemma openai_prepare_cases:
  assumes "openai_prepare env model body = Inr (u, cred, m)"
  shows "plain_origin u \<and> names_model (JObject (ix_insert (lit ''stream'') v m)) model \<and> names_model (JObject m) model \<and>
    pe_resolve env (cm_api_key_env model) = Inr cred \<and> (cm_api_key_env model \<noteq> None \<longrightarrow> cred \<noteq> None)"
  using assms
  by (auto simp: openai_prepare_def openai_endpoint_parse_def names_model_def jget_def map_of_ix_insert
      dest!: endpoint_parse_origin split: sum.splits option.splits if_splits)

lemma anthropic_prepare_cases:
  assumes "anthropic_prepare env model body streaming = Inr (u, key, v)"
  shows "plain_origin u \<and> names_model v model \<and> pe_resolve env (cm_api_key_env model) = Inr (Some key) \<and>
    cm_provider model = Anthropic"
  using assms
  by (auto simp: anthropic_prepare_def anthropic_endpoint_parse_def names_model_def
      dest!: endpoint_parse_origin anthropic_request_model split: sum.splits option.splits if_splits)

lemma openai_send_request:
  assumes "fst (openai_send env limit model body) = Some rq" "cm_provider model = OpenAiCompatible"
  shows "plain_origin (rq_url rq) \<and> names_model (rq_body rq) model \<and>
    (cm_api_key_env model \<noteq> None \<longrightarrow> carries_key env model (rq_headers rq))"
proof -
  obtain u cred m where p: "openai_prepare env model body = Inr (u, cred, m)"
    and rq: "openai_request env u (JObject m) cred ''application/json'' = Inr rq"
    using assms(1)
    by (auto simp: openai_send_def provider_result_def post_request_sent split: sum.splits prod.splits)
  show ?thesis
    using openai_prepare_cases [OF p] openai_request_cases [OF rq] assms(2) by (auto simp: carries_key_def simp del: lit_Cons)
qed

lemma anthropic_send_request:
  assumes "fst (anthropic_send env limit model body) = Some rq"
  shows "plain_origin (rq_url rq) \<and> names_model (rq_body rq) model \<and> carries_key env model (rq_headers rq)"
proof -
  obtain u key v where p: "anthropic_prepare env model body False = Inr (u, key, v)"
    and rq: "anthropic_request env u v key ''application/json'' = Inr rq"
    using assms
    by (auto simp: anthropic_send_def provider_result_def post_request_sent split: sum.splits prod.splits)
  show ?thesis
    using anthropic_prepare_cases [OF p] anthropic_request_cases [OF rq] by (auto simp: carries_key_def simp del: lit_Cons)
qed

text \<open>C21. What the gateway puts on the wire for one attempt. A request goes out only for an HTTP provider,
  to an http or https origin without user information, query or fragment; its body names the provider's
  model; and when the model is configured with a key, or is an Anthropic model, the resolved key is in the
  header that provider reads.\<close>

theorem request_on_the_wire:
  assumes "fst (provider_send env limit timeout model body) = Some rq"
  shows "(url_scheme (rq_url rq) = lit ''http'' \<or> url_scheme (rq_url rq) = lit ''https'') \<and> url_username (rq_url rq) = [] \<and>
    url_password (rq_url rq) = None \<and> url_query (rq_url rq) = None \<and> url_fragment (rq_url rq) = None \<and>
    names_model (rq_body rq) model \<and> (cm_provider model = OpenAiCompatible \<or> cm_provider model = Anthropic) \<and>
    (cm_api_key_env model \<noteq> None \<or> cm_provider model = Anthropic \<longrightarrow> carries_key env model (rq_headers rq))"
  using assms openai_send_request [of env limit model body rq] anthropic_send_request [of env limit model body rq]
  by (auto simp: provider_send_def plain_origin_def split: provider_kind.splits simp del: lit_Cons)

definition sample_url :: url where
  "sample_url = \<lparr>url_scheme = lit ''https'', url_host = Some (lit ''h''), url_username = [], url_password = None,
     url_query = None, url_fragment = None\<rparr>"

definition sample_provider_env :: provider_env where
  "sample_provider_env =
     \<lparr>pe_parse_url = (\<lambda>_. Some sample_url), pe_header_ok = (\<lambda>_. True), pe_resolve = (\<lambda>_. Inr (Some (lit ''k''))),
      pe_propagation = [], pe_post = (\<lambda>_. None), pe_from_slice = (\<lambda>_. None), pe_from_str = (\<lambda>_. None),
      pe_to_string = (\<lambda>_. None), pe_request_id = [], pe_availability = (\<lambda>_. Inr Available),
      pe_generate = (\<lambda>_. Inl XUnavailable), pe_task_joined = True, pe_chat = (\<lambda>_. None)\<rparr>"

definition keyed_model :: configured_model where
  "keyed_model = \<lparr>cm_name = lit ''m'', cm_endpoint = lit ''e'', cm_provider_model = lit ''p'', cm_provider = OpenAiCompatible,
     cm_tier = None, cm_api_key_env = Some (lit ''K''), cm_key_ready = True, cm_base_key_ready = True,
     cm_cost_per_1k = None, cm_fallbacks = [], cm_context_window = None, cm_deployments = [],
     cm_deployment_selection = selection_policy_default, cm_deployment_id = None\<rparr>"

definition sample_wire :: http_request where
  "sample_wire = \<lparr>rq_url = sample_url,
     rq_headers = [(lit ''accept'', lit ''application/json''), (lit ''authorization'', lit ''Bearer k'')],
     rq_body = JObject [(lit ''model'', JString (lit ''p''))]\<rparr>"

lemma sample_wire_sent: "fst (provider_send sample_provider_env 9 9 keyed_model (JObject [])) = Some sample_wire"
  by (simp add: provider_send_def keyed_model_def openai_send_def openai_prepare_def openai_endpoint_parse_def
      endpoint_parse_def sample_provider_env_def trim_def is_whitespace_def plain_origin_def sample_url_def
      provider_result_def post_request_def openai_request_def bearer_header_def trace_headers_def sample_wire_def
      List.map_filter_simps)

theorem request_on_the_wire_witness:
  "url_username (rq_url sample_wire) = [] \<and> carries_key sample_provider_env keyed_model (rq_headers sample_wire)"
  using request_on_the_wire [OF sample_wire_sent] by (simp add: keyed_model_def)

lemma bounded_body_bound: "bounded_body limit r = Inr b \<Longrightarrow> length b \<le> limit"
  by (auto simp: bounded_body_def split: if_splits dest: collect_body_bound)

lemma read_buffered_bound: "read_buffered limit h = Inr r \<Longrightarrow> length (br_body r) \<le> limit"
  using bounded_body_bound by (fastforce simp: read_buffered_def and_then_Inr)

lemma post_request_result: "snd (post_request env request k) = Inr x \<Longrightarrow> \<exists>h. k h = Inr x"
  by (auto simp: post_request_def split: sum.splits option.splits)

lemma openai_send_bound: "snd (openai_send env limit model body) = Inr r \<Longrightarrow> length (br_body r) \<le> limit"
  by (auto simp: openai_send_def provider_result_def dest!: post_request_result read_buffered_bound split: sum.splits prod.splits)

lemma codex_send_bound: "codex_send env model body = Inr r \<Longrightarrow> length (br_body r) \<le> CODEX_MAX_RESPONSE_BYTES"
  by (auto simp: codex_send_def and_then_Inr Let_def split: if_splits)

text \<open>The bodies the gateway buffers are bounded. Whatever length a provider announces and however it
  cuts its answer, an OpenAI-compatible body is at most the configured bound and a body from the local
  Codex service at most its own.\<close>

theorem buffered_body_bounded:
  assumes "snd (provider_send env limit timeout model body) = Inr r"
    and "cm_provider model = OpenAiCompatible \<or> cm_provider model = CodexAppServer"
  shows "length (br_body r) \<le> (if cm_provider model = OpenAiCompatible then limit else CODEX_MAX_RESPONSE_BYTES)"
  using assms
  by (auto simp: provider_send_def openai_send_bound codex_send_bound)

definition answering_env :: provider_env where
  "answering_env = sample_provider_env\<lparr>pe_post := (\<lambda>_. Some \<lparr>rs_status = 200, rs_content_type = None,
     rs_content_length = None, rs_chunks = [Some [1, 2], Some [3]]\<rparr>)\<rparr>"

theorem buffered_body_bounded_witness:
  "snd (provider_send answering_env 3 9 keyed_model (JObject [])) =
     Inr \<lparr>br_status = 200, br_content_type = lit ''application/json'', br_body = [1, 2, 3]\<rparr> \<and>
   length (br_body \<lparr>br_status = 200, br_content_type = lit ''application/json'', br_body = [1, 2, 3]\<rparr>) \<le> 3"
proof -
  let ?r = "\<lparr>br_status = 200, br_content_type = lit ''application/json'', br_body = [1, 2, 3]\<rparr>"
  have r: "snd (provider_send answering_env 3 9 keyed_model (JObject [])) = Inr ?r"
    by (simp add: provider_send_def keyed_model_def openai_send_def openai_prepare_def openai_endpoint_parse_def
        endpoint_parse_def answering_env_def sample_provider_env_def trim_def is_whitespace_def plain_origin_def sample_url_def
        provider_result_def post_request_def openai_request_def bearer_header_def trace_headers_def read_buffered_def
        bounded_body_def checked_add_def u64_max_def content_type_or_def List.map_filter_simps)
  have p: "cm_provider keyed_model = OpenAiCompatible" by (simp add: keyed_model_def)
  show ?thesis using r buffered_body_bounded [OF r disjI1, OF p] p by simp
qed


text \<open>The translated stream does not depend on how the transport cut the bytes, and keeps the text. When
  the bytes decode to events that translate to a complete message, the client receives exactly the frames
  of those events, and their text is the text of the provider's deltas in order.\<close>

theorem anthropic_stream_text:
  assumes "push_all sse_default chunks = (Inr es, d)" and "Sse.finish d = (Inr es', d')"
    and "translate_events (pe_from_str env) (pe_to_string env) (es @ es') native_default = (Inr fs, s)" and "ns_terminal s"
  shows "translated_items env (map Inr chunks) native_default = map Inr fs \<and>
    concat (map frame_text fs) = message_text (pe_from_str env) (es @ es')"
proof -
  have "ns_decoder native_default = sse_default" by (simp add: native_default_def)
  then show ?thesis
    using translated_items_events [of native_default chunks] assms translate_events_ok [OF native_default_ok assms(3)]
    by (simp add: step_ok_def)
qed

definition delta_events :: "sse_event list" where
  "delta_events = map (\<lambda>c. \<lparr>ev_event = lit ''message'', ev_data = [c], ev_id = None\<rparr>) [115, 100, 101, 120]"

text \<open>Four one-letter payloads: a text block opens, says hi, closes, and the message stops.\<close>

definition delta_payload :: "str \<Rightarrow> json option" where
  "delta_payload s =
     (if s = [115] then Some (obj [(''type'', jstr ''content_block_start''), (''index'', json_u64 0),
        (''content_block'', obj [(''type'', jstr ''text'')])])
      else if s = [100] then Some (obj [(''type'', jstr ''content_block_delta''), (''index'', json_u64 0),
        (''delta'', obj [(''type'', jstr ''text_delta''), (''text'', jstr ''hi'')])])
      else if s = [101] then Some (obj [(''type'', jstr ''content_block_stop''), (''index'', json_u64 0)])
      else Some (obj [(''type'', jstr ''message_stop'')]))"

definition delta_env :: provider_env where
  "delta_env = sample_provider_env\<lparr>pe_from_str := delta_payload, pe_to_string := (\<lambda>_. Some [])\<rparr>"

definition delta_chunks :: "bytes list" where
  "delta_chunks = [lit ''data: s'' @ [10, 10] @ lit ''dat'', lit ''a: d'' @ [10, 10], lit ''data: e'' @ [10, 10] @ lit ''data: x'' @ [10, 10]]"

lemma delta_decoded: "push_all sse_default delta_chunks = (Inr delta_events, sse_default)"
  unfolding fragments_whole
  by (simp add: delta_chunks_def delta_events_def push_def sse_default_def DEFAULT_MAX_LINE_BYTES_def DEFAULT_MAX_EVENT_BYTES_def
      process_line_def dispatch_def strip_cr_def split_field_def sat_add_def u64_max_def)

lemma delta_finished: "Sse.finish sse_default = (Inr [], sse_default)"
  by (simp add: Sse.finish_def sse_default_def dispatch_def)

definition delta_frames :: "frame list" where
  "delta_frames = [Data (chunk_json native_default (obj [(''content'', jstr ''hi'')]) JNull []) [],
     Data (chunk_json native_default (JObject []) (jstr ''stop'') []) [], Done]"

lemma delta_translated:
  "translate_events delta_payload (\<lambda>_. Some []) delta_events native_default = (Inr delta_frames, native_default\<lparr>ns_terminal := True\<rparr>)"
  by (simp add: delta_events_def translate_event_def delta_payload_def event_kind_def jget_def str_or_def on_block_start_def
      on_block_delta_def on_block_stop_def on_message_stop_def payload_index_def payload_object_def member_str_def member_def
      native_default_def reply_def delta_frame_def openai_sse_frame_def ok_or_def shift_remove_def delta_frames_def chunk_json_def jstr_def)

theorem anthropic_stream_text_witness:
  "translated_items delta_env (map Inr delta_chunks) native_default = map Inr delta_frames \<and>
   concat (map frame_text delta_frames) = lit ''hi''"
proof -
  have env: "pe_from_str delta_env = delta_payload" "pe_to_string delta_env = (\<lambda>_. Some [])" by (simp_all add: delta_env_def)
  have "message_text delta_payload delta_events = lit ''hi''"
    by (simp add: delta_events_def delta_payload_def event_kind_def closing_def event_text_def jget_def str_or_def
        payload_object_def member_str_def member_def)
  then show ?thesis
    using anthropic_stream_text [OF delta_decoded delta_finished, of delta_env delta_frames "native_default\<lparr>ns_terminal := True\<rparr>"]
      delta_translated by (simp add: env)
qed

end
