(* ===== verification/Messages_Stream.thy ===== *)
theory Messages_Stream
  imports Anthropic_Messages Utf8
begin

text \<open>
  The incremental translation of an OpenAI event stream into the Messages event stream a client of
  \<open>/v1/messages\<close> reads: \<open>MessagesStreamTranslator\<close> of \<open>wayfinder-providers/src/anthropic.rs\<close> and the relay
  of \<open>wayfinder-gateway/src/lib.rs\<close> that drives it. Output frames are a datatype; \<open>render_frame\<close> gives their
  text. \<open>from_str\<close> and \<open>quoted\<close> are the JSON library.
\<close>

section \<open>Frames\<close>

datatype msg_frame =
    MessageStart str str u64
  | TextStart nat
  | TextDelta nat str
  | ToolStart nat str str
  | ToolDelta nat str
  | BlockStop nat
  | MessageDelta str u64
  | MessageStop
  | ErrorFrame str str

definition sse_frame :: "string \<Rightarrow> str \<Rightarrow> bytes" where
  "sse_frame event data = into_bytes (lit ''event: '' @ lit event @ [10] @ lit ''data: '' @ data @ [10, 10])"

fun render_frame :: "(str \<Rightarrow> str) \<Rightarrow> msg_frame \<Rightarrow> bytes" where
  "render_frame quoted (MessageStart message_id model input_tokens) =
     sse_frame ''message_start''
       (lit ''{\"type\":\"message_start\",\"message\":{\"id\":'' @ quoted message_id @
        lit '',\"type\":\"message\",\"role\":\"assistant\",\"model\":'' @ quoted model @
        lit '',\"content\":[],\"stop_reason\":null,\"stop_sequence\":null,\"usage\":{\"input_tokens\":'' @ dec_digits input_tokens @
        lit '',\"output_tokens\":0}}}'')"
| "render_frame quoted (TextStart index) =
     sse_frame ''content_block_start''
       (lit ''{\"type\":\"content_block_start\",\"index\":'' @ dec_digits index @
        lit '',\"content_block\":{\"type\":\"text\",\"text\":\"\"}}'')"
| "render_frame quoted (TextDelta index t) =
     sse_frame ''content_block_delta''
       (lit ''{\"type\":\"content_block_delta\",\"index\":'' @ dec_digits index @
        lit '',\"delta\":{\"type\":\"text_delta\",\"text\":'' @ quoted t @ lit ''}}'')"
| "render_frame quoted (ToolStart index i name) =
     sse_frame ''content_block_start''
       (lit ''{\"type\":\"content_block_start\",\"index\":'' @ dec_digits index @
        lit '',\"content_block\":{\"type\":\"tool_use\",\"id\":'' @ quoted i @ lit '',\"name\":'' @ quoted name @ lit '',\"input\":{}}}'')"
| "render_frame quoted (ToolDelta index arguments) =
     sse_frame ''content_block_delta''
       (lit ''{\"type\":\"content_block_delta\",\"index\":'' @ dec_digits index @
        lit '',\"delta\":{\"type\":\"input_json_delta\",\"partial_json\":'' @ quoted arguments @ lit ''}}'')"
| "render_frame quoted (BlockStop index) =
     sse_frame ''content_block_stop'' (lit ''{\"type\":\"content_block_stop\",\"index\":'' @ dec_digits index @ lit ''}'')"
| "render_frame quoted (MessageDelta reason output_tokens) =
     sse_frame ''message_delta''
       (lit ''{\"type\":\"message_delta\",\"delta\":{\"stop_reason\":'' @ quoted reason @
        lit '',\"stop_sequence\":null},\"usage\":{\"output_tokens\":'' @ dec_digits output_tokens @ lit ''}}'')"
| "render_frame quoted MessageStop = sse_frame ''message_stop'' (lit ''{\"type\":\"message_stop\"}'')"
| "render_frame quoted (ErrorFrame error_type message) =
     sse_frame ''error''
       (lit ''{\"type\":\"error\",\"error\":{\"type\":'' @ quoted error_type @ lit '',\"message\":'' @ quoted message @ lit ''}}'')"

section \<open>State\<close>

definition DEFAULT_MAX_STREAM_TOOL_CALLS :: nat where
  "DEFAULT_MAX_STREAM_TOOL_CALLS = 128"

definition DEFAULT_MAX_STREAM_TOOL_BYTES :: nat where
  "DEFAULT_MAX_STREAM_TOOL_BYTES = 4 * 1024 * 1024"

record stream_limits =
  sl_max_line_bytes :: nat
  sl_max_event_bytes :: nat
  sl_max_tool_calls :: nat
  sl_max_tool_bytes :: nat

definition default_limits :: stream_limits where
  "default_limits =
     \<lparr>sl_max_line_bytes = DEFAULT_MAX_LINE_BYTES, sl_max_event_bytes = DEFAULT_MAX_EVENT_BYTES,
      sl_max_tool_calls = DEFAULT_MAX_STREAM_TOOL_CALLS, sl_max_tool_bytes = DEFAULT_MAX_STREAM_TOOL_BYTES\<rparr>"

datatype msg_stream_error =
    StreamLimits
  | StreamDecode sse_decode_error
  | TooManyToolCalls nat
  | ToolDataTooLarge nat

record buffered_tool =
  bc_id :: "str option"
  bc_name :: str
  bc_arguments :: str

definition buffered_tool_default :: buffered_tool where
  "buffered_tool_default = \<lparr>bc_id = None, bc_name = [], bc_arguments = []\<rparr>"

record messages_stream =
  ms_decoder :: sse_decoder
  ms_limits :: stream_limits
  ms_model :: str
  ms_message_id :: str
  ms_input_tokens :: u64
  ms_output_tokens :: u64
  ms_usage_seen :: bool
  ms_completion_chars :: u64
  ms_finish_reason :: "str option"
  ms_next_index :: nat
  ms_current_text :: "nat option"
  ms_tool_positions :: "(u64 \<times> nat) list"
  ms_tools :: "buffered_tool list"
  ms_buffered_tool_bytes :: nat
  ms_started :: bool
  ms_terminal :: bool

definition ms_make :: "sse_decoder \<Rightarrow> stream_limits \<Rightarrow> str \<Rightarrow> str \<Rightarrow> u64 \<Rightarrow> messages_stream" where
  "ms_make decoder limits model message_id input_tokens =
     \<lparr>ms_decoder = decoder, ms_limits = limits, ms_model = model, ms_message_id = message_id, ms_input_tokens = input_tokens,
      ms_output_tokens = 0, ms_usage_seen = False, ms_completion_chars = 0, ms_finish_reason = None, ms_next_index = 0,
      ms_current_text = None, ms_tool_positions = [], ms_tools = [], ms_buffered_tool_bytes = 0, ms_started = False,
      ms_terminal = False\<rparr>"

definition ms_new :: "str \<Rightarrow> str \<Rightarrow> u64 \<Rightarrow> messages_stream" where
  "ms_new model message_id input_tokens = ms_make sse_default default_limits model message_id input_tokens"

definition ms_with_limits ::
  "str \<Rightarrow> str \<Rightarrow> u64 \<Rightarrow> stream_limits \<Rightarrow> (msg_stream_error, messages_stream) result" where
  "ms_with_limits model message_id input_tokens limits =
     (if sl_max_line_bytes limits = 0 \<or> sl_max_event_bytes limits = 0 \<or> sl_max_tool_calls limits = 0 \<or> sl_max_tool_bytes limits = 0
      then Inl StreamLimits
      else case sse_new (sl_max_line_bytes limits) (sl_max_event_bytes limits) of
             Inl e \<Rightarrow> Inl (StreamDecode e)
           | Inr decoder \<Rightarrow> Inr (ms_make decoder limits model message_id input_tokens))"

definition ms_start :: "messages_stream \<Rightarrow> msg_frame list \<times> messages_stream" where
  "ms_start s =
     (if ms_started s then ([], s)
      else ([MessageStart (ms_message_id s) (ms_model s) (ms_input_tokens s)], s\<lparr>ms_started := True\<rparr>))"

section \<open>Payloads\<close>

definition stream_stop_reason :: "str option \<Rightarrow> str" where
  "stream_stop_reason reason =
     (if reason = Some (lit ''length'') then lit ''max_tokens''
      else if reason = Some (lit ''tool_calls'') \<or> reason = Some (lit ''function_call'') then lit ''tool_use''
      else lit ''end_turn'')"

definition KNOWN_ERROR_TYPES :: "str list" where
  "KNOWN_ERROR_TYPES =
     map lit [''invalid_request_error'', ''authentication_error'', ''permission_error'', ''not_found_error'',
              ''request_too_large'', ''rate_limit_error'', ''overloaded_error'', ''api_error'']"

definition stream_error :: "str \<Rightarrow> json \<Rightarrow> str \<Rightarrow> (str \<times> str) option" where
  "stream_error event_type payload raw =
     (let nested = jget payload (lit ''error'') in
      if nested = None \<and> event_type \<noteq> lit ''error'' \<and>
         Option.bind (jget payload (lit ''type'')) as_str \<noteq> Some (lit ''error'')
      then None
      else
        let detail = (case nested of None \<Rightarrow> payload | Some d \<Rightarrow> d);
            source_type = (case Option.bind (jget detail (lit ''type'')) as_str of None \<Rightarrow> lit ''api_error'' | Some t \<Rightarrow> t)
        in Some
             (if source_type \<in> set KNOWN_ERROR_TYPES then source_type else lit ''api_error'',
              case Option.bind (jget detail (lit ''message'')) as_str of
                Some m \<Rightarrow> m
              | None \<Rightarrow>
                  (case as_str detail of
                     Some m \<Rightarrow> m
                   | None \<Rightarrow> (case Option.bind (jget payload (lit ''message'')) as_str of Some m \<Rightarrow> m | None \<Rightarrow> raw))))"

definition open_text :: "messages_stream \<Rightarrow> nat \<times> msg_frame list \<times> messages_stream" where
  "open_text s =
     (case ms_current_text s of
        Some index \<Rightarrow> (index, [], s)
      | None \<Rightarrow>
          let index = ms_next_index s in
          (index, [TextStart index], s\<lparr>ms_next_index := sat_add (ms_next_index s) 1, ms_current_text := Some index\<rparr>))"

definition replace_buffered_bytes ::
  "nat \<Rightarrow> nat \<Rightarrow> messages_stream \<Rightarrow> (msg_stream_error, unit) result \<times> messages_stream" where
  "replace_buffered_bytes old_len new_len s =
     (let candidate = sat_add (sat_sub (ms_buffered_tool_bytes s) old_len) new_len in
      if sl_max_tool_bytes (ms_limits s) < candidate then (Inl (ToolDataTooLarge (sl_max_tool_bytes (ms_limits s))), s)
      else (Inr (), s\<lparr>ms_buffered_tool_bytes := candidate\<rparr>))"

definition add_buffered_bytes :: "nat \<Rightarrow> messages_stream \<Rightarrow> (msg_stream_error, unit) result \<times> messages_stream" where
  "add_buffered_bytes amount s =
     (let candidate = sat_add (ms_buffered_tool_bytes s) amount in
      if sl_max_tool_bytes (ms_limits s) < candidate then (Inl (ToolDataTooLarge (sl_max_tool_bytes (ms_limits s))), s)
      else (Inr (), s\<lparr>ms_buffered_tool_bytes := candidate\<rparr>))"

text \<open>Steps in sequence: the first error ends them, in the state it left.\<close>

definition and_run ::
  "('e, 'a) result \<times> 's \<Rightarrow> ('a \<Rightarrow> 's \<Rightarrow> ('e, 'b) result \<times> 's) \<Rightarrow> ('e, 'b) result \<times> 's" where
  "and_run r k = (case r of (Inl e, s) \<Rightarrow> (Inl e, s) | (Inr x, s) \<Rightarrow> k x s)"

definition tool_position :: "u64 \<Rightarrow> messages_stream \<Rightarrow> (msg_stream_error, nat) result \<times> messages_stream" where
  "tool_position upstream_index s =
     (case map_of (ms_tool_positions s) upstream_index of
        Some position \<Rightarrow> (Inr position, s)
      | None \<Rightarrow>
          if sl_max_tool_calls (ms_limits s) \<le> length (ms_tools s)
          then (Inl (TooManyToolCalls (sl_max_tool_calls (ms_limits s))), s)
          else
            let position = length (ms_tools s) in
            (Inr position, s\<lparr>ms_tools := ms_tools s @ [buffered_tool_default],
                             ms_tool_positions := bt_insert upstream_index position (ms_tool_positions s)\<rparr>))"

definition update_tool :: "nat \<Rightarrow> (buffered_tool \<Rightarrow> buffered_tool) \<Rightarrow> messages_stream \<Rightarrow> messages_stream" where
  "update_tool position f s = s\<lparr>ms_tools := (ms_tools s)[position := f (ms_tools s ! position)]\<rparr>"

text \<open>A non-empty string of a member, if there is one.\<close>

definition some_text :: "str option \<Rightarrow> str option" where
  "some_text v = Option.bind v (\<lambda>s. if s = [] then None else Some s)"

definition take_id :: "str option \<Rightarrow> nat \<Rightarrow> messages_stream \<Rightarrow> (msg_stream_error, unit) result \<times> messages_stream" where
  "take_id v position s =
     (case some_text v of
        None \<Rightarrow> (Inr (), s)
      | Some i \<Rightarrow>
          and_run (replace_buffered_bytes (case bc_id (ms_tools s ! position) of None \<Rightarrow> 0 | Some j \<Rightarrow> str_len j) (str_len i) s)
            (\<lambda>_ s. (Inr (), update_tool position (\<lambda>t. t\<lparr>bc_id := Some i\<rparr>) s)))"

definition take_name :: "str option \<Rightarrow> nat \<Rightarrow> messages_stream \<Rightarrow> (msg_stream_error, unit) result \<times> messages_stream" where
  "take_name v position s =
     (case some_text v of
        None \<Rightarrow> (Inr (), s)
      | Some n \<Rightarrow>
          and_run (replace_buffered_bytes (str_len (bc_name (ms_tools s ! position))) (str_len n) s)
            (\<lambda>_ s. (Inr (), update_tool position (\<lambda>t. t\<lparr>bc_name := n\<rparr>) s)))"

definition take_arguments :: "str option \<Rightarrow> nat \<Rightarrow> messages_stream \<Rightarrow> (msg_stream_error, unit) result \<times> messages_stream" where
  "take_arguments v position s =
     (case some_text v of
        None \<Rightarrow> (Inr (), s)
      | Some a \<Rightarrow>
          and_run (add_buffered_bytes (str_len a) s)
            (\<lambda>_ s. (Inr (), (update_tool position (\<lambda>t. t\<lparr>bc_arguments := bc_arguments t @ a\<rparr>) s)
                             \<lparr>ms_completion_chars := sat_add (ms_completion_chars s) (length a)\<rparr>)))"

definition feed_tool_call :: "(str \<times> json) list \<Rightarrow> messages_stream \<Rightarrow> (msg_stream_error, unit) result \<times> messages_stream" where
  "feed_tool_call call s =
     (let func = Option.bind (member call ''function'') as_object in
      and_run (tool_position (case Option.bind (member call ''index'') as_u64 of None \<Rightarrow> 0 | Some i \<Rightarrow> i) s) (\<lambda>position s.
      and_run (take_id (member_str call ''id'') position s) (\<lambda>_ s.
      and_run (take_name (Option.bind func (\<lambda>f. member_str f ''name'')) position s) (\<lambda>_ s.
      take_arguments (Option.bind func (\<lambda>f. member_str f ''arguments'')) position s))))"

fun feed_tool_calls :: "(str \<times> json) list list \<Rightarrow> messages_stream \<Rightarrow> (msg_stream_error, unit) result \<times> messages_stream" where
  "feed_tool_calls [] s = (Inr (), s)"
| "feed_tool_calls (c # cs) s = and_run (feed_tool_call c s) (\<lambda>_. feed_tool_calls cs)"

definition take_text :: "str option \<Rightarrow> messages_stream \<Rightarrow> msg_frame list \<times> messages_stream" where
  "take_text v s =
     (case some_text v of
        None \<Rightarrow> ([], s)
      | Some t \<Rightarrow>
          (case open_text s of
             (index, fs, s') \<Rightarrow>
               (fs @ [TextDelta index t], s'\<lparr>ms_completion_chars := sat_add (ms_completion_chars s') (length t)\<rparr>)))"

definition feed_choice :: "(str \<times> json) list \<Rightarrow> messages_stream \<Rightarrow> (msg_stream_error, msg_frame list) result \<times> messages_stream" where
  "feed_choice choice s =
     (let reason = some_text (member_str choice ''finish_reason'');
          keep_reason = (\<lambda>s. case reason of None \<Rightarrow> s | Some r \<Rightarrow> s\<lparr>ms_finish_reason := Some r\<rparr>) in
      case Option.bind (member choice ''delta'') as_object of
        None \<Rightarrow> (Inr [], keep_reason s)
      | Some delta \<Rightarrow>
          (case take_text (member_str delta ''content'') s of
             (fs, s') \<Rightarrow>
               and_run (feed_tool_calls (case Option.bind (member delta ''tool_calls'') as_array of
                          None \<Rightarrow> [] | Some cs \<Rightarrow> List.map_filter as_object cs) s')
                 (\<lambda>_ s''. (Inr fs, keep_reason s''))))"

fun feed_choices ::
  "(str \<times> json) list list \<Rightarrow> messages_stream \<Rightarrow> (msg_stream_error, msg_frame list) result \<times> messages_stream" where
  "feed_choices [] s = (Inr [], s)"
| "feed_choices (c # cs) s =
     and_run (feed_choice c s) (\<lambda>fs s'. and_run (feed_choices cs s') (\<lambda>gs s''. (Inr (fs @ gs), s'')))"

definition take_usage :: "(str \<times> json) list \<Rightarrow> messages_stream \<Rightarrow> messages_stream" where
  "take_usage payload s =
     (case Option.bind (member payload ''usage'') as_object of
        None \<Rightarrow> s
      | Some usage \<Rightarrow>
          let s' = (case Option.bind (member usage ''completion_tokens'') as_u64 of
                      None \<Rightarrow> s | Some n \<Rightarrow> s\<lparr>ms_output_tokens := n, ms_usage_seen := True\<rparr>)
          in case Option.bind (member usage ''prompt_tokens'') as_u64 of
               None \<Rightarrow> s' | Some n \<Rightarrow> s'\<lparr>ms_input_tokens := n\<rparr>)"

definition payload_choices :: "(str \<times> json) list \<Rightarrow> (str \<times> json) list list" where
  "payload_choices payload =
     (case Option.bind (member payload ''choices'') as_array of None \<Rightarrow> [] | Some cs \<Rightarrow> List.map_filter as_object cs)"

definition feed_payload :: "json \<Rightarrow> messages_stream \<Rightarrow> (msg_stream_error, msg_frame list) result \<times> messages_stream" where
  "feed_payload v s =
     (case as_object v of None \<Rightarrow> (Inr [], s) | Some payload \<Rightarrow> feed_choices (payload_choices payload) (take_usage payload s))"

section \<open>The end of the message\<close>

definition clear_buffered_tools :: "messages_stream \<Rightarrow> messages_stream" where
  "clear_buffered_tools s = s\<lparr>ms_tool_positions := [], ms_tools := [], ms_buffered_tool_bytes := 0\<rparr>"

fun tool_frames :: "buffered_tool list \<Rightarrow> nat \<Rightarrow> msg_frame list \<times> nat" where
  "tool_frames [] index = ([], index)"
| "tool_frames (t # ts) index =
     (case tool_frames ts (sat_add index 1) of
        (fs, next_index) \<Rightarrow>
          ([ToolStart index (case bc_id t of None \<Rightarrow> lit ''toolu_'' @ dec_digits index | Some i \<Rightarrow> i) (bc_name t)] @
           (if bc_arguments t = [] then [] else [ToolDelta index (bc_arguments t)]) @ [BlockStop index] @ fs, next_index))"

definition final_output_tokens :: "messages_stream \<Rightarrow> u64" where
  "final_output_tokens s =
     (if ms_usage_seen s then ms_output_tokens s
      else if ms_completion_chars s = 0 then 0 else max (ms_completion_chars s div 4) 1)"

definition finish_message :: "messages_stream \<Rightarrow> msg_frame list \<times> messages_stream" where
  "finish_message s =
     (if ms_terminal s then ([], s)
      else
        case tool_frames (ms_tools s) (ms_next_index s) of
          (tools, next_index) \<Rightarrow>
            ((case ms_current_text s of None \<Rightarrow> [] | Some index \<Rightarrow> [BlockStop index]) @ tools @
             (if next_index = 0 then [TextStart 0, BlockStop 0] else []) @
             [MessageDelta (stream_stop_reason (ms_finish_reason s)) (final_output_tokens s), MessageStop],
             clear_buffered_tools (s\<lparr>ms_current_text := None, ms_next_index := next_index, ms_terminal := True\<rparr>)))"

definition finish_error :: "str \<Rightarrow> str \<Rightarrow> messages_stream \<Rightarrow> msg_frame list \<times> messages_stream" where
  "finish_error error_type message s =
     (if ms_terminal s then ([], s)
      else ([ErrorFrame error_type message], clear_buffered_tools (s\<lparr>ms_terminal := True, ms_current_text := None\<rparr>)))"

fun process_events ::
  "(str \<Rightarrow> json option) \<Rightarrow> sse_event list \<Rightarrow> messages_stream \<Rightarrow> (msg_stream_error, msg_frame list) result \<times> messages_stream" where
  "process_events from_str [] s = (Inr [], s)"
| "process_events from_str (e # es) s =
     (if ms_terminal s then (Inr [], s)
      else
        let data = trim (decode_utf8 (ev_data e)) in
        if data = lit ''[DONE]'' then (case finish_message s of (fs, s') \<Rightarrow> (Inr fs, s'))
        else case from_str data of
               None \<Rightarrow>
                 (case (if ev_event e = lit ''error'' then finish_error (lit ''api_error'') data s else ([], s)) of
                    (fs, s') \<Rightarrow> and_run (process_events from_str es s') (\<lambda>gs s''. (Inr (fs @ gs), s'')))
             | Some payload \<Rightarrow>
                 (case stream_error (decode_utf8 (ev_event e)) payload data of
                    Some (error_type, message) \<Rightarrow> (case finish_error error_type message s of (fs, s') \<Rightarrow> (Inr fs, s'))
                  | None \<Rightarrow>
                      and_run (feed_payload payload s) (\<lambda>fs s'.
                        and_run (process_events from_str es s') (\<lambda>gs s''. (Inr (fs @ gs), s'')))))"

section \<open>The transport\<close>

definition ms_push ::
  "(str \<Rightarrow> json option) \<Rightarrow> bytes \<Rightarrow> messages_stream \<Rightarrow> (msg_stream_error, msg_frame list) result \<times> messages_stream" where
  "ms_push from_str chunk s0 =
     (case ms_start s0 of
        (out, s) \<Rightarrow>
          if ms_terminal s then (Inr out, s)
          else case Sse.push (ms_decoder s) chunk of
                 (Inl e, d) \<Rightarrow> (Inl (StreamDecode e), s\<lparr>ms_decoder := d\<rparr>)
               | (Inr es, d) \<Rightarrow> and_run (process_events from_str es (s\<lparr>ms_decoder := d\<rparr>)) (\<lambda>fs s'. (Inr (out @ fs), s')))"

definition ms_finish ::
  "(str \<Rightarrow> json option) \<Rightarrow> messages_stream \<Rightarrow> (msg_stream_error, msg_frame list) result \<times> messages_stream" where
  "ms_finish from_str s0 =
     (case ms_start s0 of
        (out, s) \<Rightarrow>
          if ms_terminal s then (Inr out, s)
          else case Sse.finish (ms_decoder s) of
                 (Inl e, d) \<Rightarrow> (Inl (StreamDecode e), s\<lparr>ms_decoder := d\<rparr>)
               | (Inr es, d) \<Rightarrow>
                   and_run (process_events from_str es (s\<lparr>ms_decoder := d\<rparr>)) (\<lambda>fs s'.
                     if ms_terminal s' then (Inr (out @ fs), s')
                     else (case finish_message s' of (gs, s'') \<Rightarrow> (Inr (out @ fs @ gs), s''))))"

fun push_fragments ::
  "(str \<Rightarrow> json option) \<Rightarrow> bytes list \<Rightarrow> messages_stream \<Rightarrow> (msg_stream_error, msg_frame list) result \<times> messages_stream" where
  "push_fragments from_str [] s = (Inr [], s)"
| "push_fragments from_str (c # cs) s =
     and_run (ms_push from_str c s) (\<lambda>fs s'.
       if ms_terminal s' then (Inr fs, s')
       else and_run (push_fragments from_str cs s') (\<lambda>gs s''. (Inr (fs @ gs), s'')))"

definition translate_openai_sse_fragments ::
  "(str \<Rightarrow> json option) \<Rightarrow> bytes list \<Rightarrow> str \<Rightarrow> str \<Rightarrow> u64 \<Rightarrow> (msg_stream_error, msg_frame list) result" where
  "translate_openai_sse_fragments from_str fragments model message_id input_tokens =
     (case ms_start (ms_new model message_id input_tokens) of
        (out, s) \<Rightarrow>
          fst (and_run (push_fragments from_str fragments s) (\<lambda>fs s'.
                and_run (ms_finish from_str s') (\<lambda>gs s''. (Inr (out @ fs @ gs), s'')))))"

section \<open>The relay\<close>

fun sse_error_text :: "sse_decode_error \<Rightarrow> str" where
  "sse_error_text (LineTooLarge limit) = lit ''SSE line exceeds '' @ dec_digits limit @ lit '' bytes''"
| "sse_error_text (EventTooLarge limit) = lit ''SSE event exceeds '' @ dec_digits limit @ lit '' data bytes''"
| "sse_error_text InvalidUtf8 = lit ''SSE field is not valid UTF-8''"
| "sse_error_text InvalidLimits = lit ''SSE limits must be positive''"

fun stream_error_text :: "msg_stream_error \<Rightarrow> str" where
  "stream_error_text StreamLimits = lit ''Anthropic stream limits must be positive''"
| "stream_error_text (StreamDecode e) = sse_error_text e"
| "stream_error_text (TooManyToolCalls limit) = lit ''Anthropic stream exceeds '' @ dec_digits limit @ lit '' buffered tool calls''"
| "stream_error_text (ToolDataTooLarge limit) = lit ''Anthropic stream exceeds '' @ dec_digits limit @ lit '' buffered tool bytes''"

text \<open>The frame for a failure of the relay itself: an API error, as \<open>anthropic_error\<close> words status 500.\<close>

definition anthropic_stream_error_frame :: "str \<Rightarrow> msg_frame" where
  "anthropic_stream_error_frame message = ErrorFrame (lit ''api_error'') message"

fun relay_frames :: "(str \<Rightarrow> json option) \<Rightarrow> (str, bytes) result list \<Rightarrow> messages_stream \<Rightarrow> msg_frame list" where
  "relay_frames from_str [] s =
     (case fst (ms_finish from_str s) of
        Inl e \<Rightarrow> [anthropic_stream_error_frame (stream_error_text e)] | Inr fs \<Rightarrow> fs)"
| "relay_frames from_str (Inl e # _) s = [anthropic_stream_error_frame e]"
| "relay_frames from_str (Inr chunk # rest) s =
     (case ms_push from_str chunk s of
        (Inl e, _) \<Rightarrow> [anthropic_stream_error_frame (stream_error_text e)]
      | (Inr fs, s') \<Rightarrow> fs @ relay_frames from_str rest s')"

definition anthropic_relay :: "(str \<Rightarrow> json option) \<Rightarrow> (str, bytes) result list \<Rightarrow> str \<Rightarrow> str \<Rightarrow> str \<Rightarrow> msg_frame list" where
  "anthropic_relay from_str upstream model_echo message_id prompt_text =
     (case ms_start (ms_new model_echo message_id (if prompt_text = [] then 0 else max (length prompt_text div 4) 1)) of
        (out, s) \<Rightarrow> out @ relay_frames from_str upstream s)"

section \<open>The Messages protocol\<close>

text \<open>A client of the protocol: a start, numbered blocks one at a time, at least one of them, the final delta and
  the stop; or an error in place of the rest.\<close>

datatype phase = PStart | PIdle nat | PText nat | PTool nat | PDelta | PEnd

fun vstep :: "phase \<Rightarrow> msg_frame \<Rightarrow> phase option" where
  "vstep PStart (MessageStart _ _ _) = Some (PIdle 0)"
| "vstep (PIdle n) (TextStart k) = (if k = n then Some (PText n) else None)"
| "vstep (PIdle n) (ToolStart k _ _) = (if k = n then Some (PTool n) else None)"
| "vstep (PText n) (TextDelta k _) = (if k = n then Some (PText n) else None)"
| "vstep (PText n) (BlockStop k) = (if k = n then Some (PIdle (n + 1)) else None)"
| "vstep (PTool n) (ToolDelta k _) = (if k = n then Some (PTool n) else None)"
| "vstep (PTool n) (BlockStop k) = (if k = n then Some (PIdle (n + 1)) else None)"
| "vstep (PIdle n) (MessageDelta _ _) = (if 0 < n then Some PDelta else None)"
| "vstep PDelta MessageStop = Some PEnd"
| "vstep (PIdle n) (ErrorFrame _ _) = Some PEnd"
| "vstep (PText n) (ErrorFrame _ _) = Some PEnd"
| "vstep _ _ = None"

primrec phases :: "phase \<Rightarrow> msg_frame list \<Rightarrow> phase option" where
  "phases p [] = Some p"
| "phases p (f # fs) = Option.bind (vstep p f) (\<lambda>q. phases q fs)"

lemma phases_append: "phases p (fs @ gs) = Option.bind (phases p fs) (\<lambda>q. phases q gs)"
  by (induction fs arbitrary: p) (simp_all split: Option.bind_splits)

fun delta_text :: "msg_frame \<Rightarrow> str" where
  "delta_text (TextDelta _ t) = t"
| "delta_text _ = []"

definition tool_bytes :: "buffered_tool \<Rightarrow> nat" where
  "tool_bytes t = (case bc_id t of None \<Rightarrow> 0 | Some i \<Rightarrow> str_len i) + str_len (bc_name t) + str_len (bc_arguments t)"

definition tools_ok :: "messages_stream \<Rightarrow> bool" where
  "tools_ok s \<longleftrightarrow>
     (\<forall>(k, p) \<in> set (ms_tool_positions s). p < length (ms_tools s)) \<and>
     ms_buffered_tool_bytes s = sum_list (map tool_bytes (ms_tools s)) \<and>
     ms_buffered_tool_bytes s \<le> sl_max_tool_bytes (ms_limits s) \<and>
     length (ms_tools s) \<le> sl_max_tool_calls (ms_limits s) \<and> sl_max_tool_bytes (ms_limits s) < u64_max"

text \<open>What tool calls leave alone.\<close>

definition same_frame :: "messages_stream \<Rightarrow> messages_stream \<Rightarrow> bool" where
  "same_frame s s' \<longleftrightarrow>
     ms_limits s' = ms_limits s \<and> ms_next_index s' = ms_next_index s \<and> ms_current_text s' = ms_current_text s \<and>
     ms_started s' = ms_started s \<and> ms_terminal s' = ms_terminal s \<and> ms_decoder s' = ms_decoder s"

lemma same_frame_trans: "same_frame s s' \<Longrightarrow> same_frame s' s'' \<Longrightarrow> same_frame s s''"
  by (simp add: same_frame_def)

lemma same_frame_refl [simp]: "same_frame s s"
  by (simp add: same_frame_def)

lemma and_run_Inr: "and_run r k = (Inr y, s') \<longleftrightarrow> (\<exists>x s. r = (Inr x, s) \<and> k x s = (Inr y, s'))"
  by (cases r) (auto simp: and_run_def split: sum.splits)

lemma tool_position_ok:
  assumes "tools_ok s" "tool_position k s = (Inr p, s')"
  shows "tools_ok s' \<and> same_frame s s' \<and> p < length (ms_tools s')"
proof (cases "map_of (ms_tool_positions s) k")
  case None
  then have s': "s' = s\<lparr>ms_tools := ms_tools s @ [buffered_tool_default],
      ms_tool_positions := bt_insert k (length (ms_tools s)) (ms_tool_positions s)\<rparr>" "p = length (ms_tools s)"
    "length (ms_tools s) < sl_max_tool_calls (ms_limits s)"
    using assms(2) by (auto simp: tool_position_def Let_def split: if_splits)
  have "tool_bytes buffered_tool_default = 0" by (simp add: tool_bytes_def buffered_tool_default_def str_len_def)
  then show ?thesis
    using assms(1) s' set_bt_insert [of k "length (ms_tools s)" "ms_tool_positions s"]
    by (fastforce simp: tools_ok_def same_frame_def)
next
  case (Some q)
  then show ?thesis
    using assms map_of_SomeD [OF Some] by (auto simp: tool_position_def tools_ok_def)
qed

text \<open>A change of one tool's bytes that the counter follows.\<close>

lemma update_tool_ok:
  assumes "tools_ok s" "p < length (ms_tools s)" "new \<le> sl_max_tool_bytes (ms_limits s)"
    "new + tool_bytes (ms_tools s ! p) = ms_buffered_tool_bytes s + tool_bytes (f (ms_tools s ! p))"
  shows "tools_ok (update_tool p f (s\<lparr>ms_buffered_tool_bytes := new\<rparr>))"
proof -
  have "new = sum_list (map tool_bytes ((ms_tools s)[p := f (ms_tools s ! p)]))"
    using assms(1,4) sum_list_update_nat [OF assms(2), of tool_bytes "f (ms_tools s ! p)"] by (simp add: tools_ok_def)
  then show ?thesis using assms(1,3) by (auto simp: tools_ok_def update_tool_def)
qed

lemma tool_bytes_le: "tools_ok s \<Longrightarrow> p < length (ms_tools s) \<Longrightarrow> tool_bytes (ms_tools s ! p) \<le> ms_buffered_tool_bytes s"
  by (simp add: tools_ok_def member_le_sum_list)

lemma replace_buffered_Inr:
  assumes "tools_ok s" "old \<le> ms_buffered_tool_bytes s" "replace_buffered_bytes old new s = (Inr u, s')"
  shows "s' = s\<lparr>ms_buffered_tool_bytes := ms_buffered_tool_bytes s - old + new\<rparr> \<and>
    ms_buffered_tool_bytes s - old + new \<le> sl_max_tool_bytes (ms_limits s)"
  using assms
  by (auto simp: replace_buffered_bytes_def Let_def sat_add_def sat_sub_def tools_ok_def split: if_splits)

lemma add_buffered_Inr:
  assumes "tools_ok s" "add_buffered_bytes n s = (Inr u, s')"
  shows "s' = s\<lparr>ms_buffered_tool_bytes := ms_buffered_tool_bytes s + n\<rparr> \<and>
    ms_buffered_tool_bytes s + n \<le> sl_max_tool_bytes (ms_limits s)"
  using assms by (auto simp: add_buffered_bytes_def Let_def sat_add_def tools_ok_def split: if_splits)

lemma take_id_ok:
  assumes "tools_ok s" "p < length (ms_tools s)" "take_id v p s = (Inr u, s')"
  shows "tools_ok s' \<and> same_frame s s' \<and> p < length (ms_tools s')"
proof (cases "some_text v")
  case (Some i)
  let ?t = "ms_tools s ! p" and ?old = "case bc_id (ms_tools s ! p) of None \<Rightarrow> 0 | Some j \<Rightarrow> str_len j"
  obtain w s1 where r: "replace_buffered_bytes ?old (str_len i) s = (Inr w, s1)"
    and s': "s' = update_tool p (\<lambda>t. t\<lparr>bc_id := Some i\<rparr>) s1"
    using assms(3) Some by (auto simp: take_id_def and_run_Inr)
  have old: "?old \<le> tool_bytes ?t" by (simp add: tool_bytes_def)
  then have le: "?old \<le> ms_buffered_tool_bytes s" using tool_bytes_le [OF assms(1,2)] by linarith
  note s1 = replace_buffered_Inr [OF assms(1) le r]
  have "ms_buffered_tool_bytes s - ?old + str_len i + tool_bytes ?t = ms_buffered_tool_bytes s + tool_bytes (?t\<lparr>bc_id := Some i\<rparr>)"
    using le by (simp add: tool_bytes_def)
  then show ?thesis
    using update_tool_ok [OF assms(1,2), of _ "\<lambda>t. t\<lparr>bc_id := Some i\<rparr>"] s1 assms(2) unfolding s'
    by (auto simp: same_frame_def update_tool_def)
qed (use assms in \<open>auto simp: take_id_def\<close>)

lemma take_name_ok:
  assumes "tools_ok s" "p < length (ms_tools s)" "take_name v p s = (Inr u, s')"
  shows "tools_ok s' \<and> same_frame s s' \<and> p < length (ms_tools s')"
proof (cases "some_text v")
  case (Some n)
  let ?t = "ms_tools s ! p" and ?old = "str_len (bc_name (ms_tools s ! p))"
  obtain w s1 where r: "replace_buffered_bytes ?old (str_len n) s = (Inr w, s1)"
    and s': "s' = update_tool p (\<lambda>t. t\<lparr>bc_name := n\<rparr>) s1"
    using assms(3) Some by (auto simp: take_name_def and_run_Inr)
  have "?old \<le> tool_bytes ?t" by (simp add: tool_bytes_def)
  then have le: "?old \<le> ms_buffered_tool_bytes s" using tool_bytes_le [OF assms(1,2)] by linarith
  note s1 = replace_buffered_Inr [OF assms(1) le r]
  have "ms_buffered_tool_bytes s - ?old + str_len n + tool_bytes ?t = ms_buffered_tool_bytes s + tool_bytes (?t\<lparr>bc_name := n\<rparr>)"
    using le by (simp add: tool_bytes_def)
  then show ?thesis
    using update_tool_ok [OF assms(1,2), of _ "\<lambda>t. t\<lparr>bc_name := n\<rparr>"] s1 assms(2) unfolding s'
    by (auto simp: same_frame_def update_tool_def)
qed (use assms in \<open>auto simp: take_name_def\<close>)

lemma take_arguments_ok:
  assumes "tools_ok s" "p < length (ms_tools s)" "take_arguments v p s = (Inr u, s')"
  shows "tools_ok s' \<and> same_frame s s'"
proof (cases "some_text v")
  case (Some a)
  obtain w s1 where r: "add_buffered_bytes (str_len a) s = (Inr w, s1)"
    and s': "s' = (update_tool p (\<lambda>t. t\<lparr>bc_arguments := bc_arguments t @ a\<rparr>) s1)
      \<lparr>ms_completion_chars := sat_add (ms_completion_chars s1) (length a)\<rparr>"
    using assms(3) Some by (auto simp: take_arguments_def and_run_Inr)
  note s1 = add_buffered_Inr [OF assms(1) r]
  have "tool_bytes (t\<lparr>bc_arguments := bc_arguments t @ a\<rparr>) = tool_bytes t + str_len a" for t
    by (simp add: tool_bytes_def str_len_def)
  then have "tools_ok (update_tool p (\<lambda>t. t\<lparr>bc_arguments := bc_arguments t @ a\<rparr>) s1)"
    using update_tool_ok [OF assms(1,2), of "ms_buffered_tool_bytes s + str_len a" "\<lambda>t. t\<lparr>bc_arguments := bc_arguments t @ a\<rparr>"] s1
    by simp
  then show ?thesis using s1 unfolding s' by (simp add: tools_ok_def same_frame_def update_tool_def)
qed (use assms in \<open>auto simp: take_arguments_def\<close>)

lemma feed_tool_call_ok:
  assumes "tools_ok s" "feed_tool_call call s = (Inr u, s')"
  shows "tools_ok s' \<and> same_frame s s'"
proof -
  obtain p s1 w2 s2 w3 s3 where f: "tool_position (case Option.bind (member call ''index'') as_u64 of None \<Rightarrow> 0 | Some i \<Rightarrow> i) s = (Inr p, s1)"
    "take_id (member_str call ''id'') p s1 = (Inr w2, s2)"
    "take_name (Option.bind (Option.bind (member call ''function'') as_object) (\<lambda>f. member_str f ''name'')) p s2 = (Inr w3, s3)"
    "take_arguments (Option.bind (Option.bind (member call ''function'') as_object) (\<lambda>f. member_str f ''arguments'')) p s3 = (Inr u, s')"
    using assms(2) by (auto simp: feed_tool_call_def Let_def and_run_Inr)
  note 1 = tool_position_ok [OF assms(1) f(1)]
  note 2 = take_id_ok [OF conjunct1 [OF 1] conjunct2 [OF conjunct2 [OF 1]] f(2)]
  note 3 = take_name_ok [OF conjunct1 [OF 2] conjunct2 [OF conjunct2 [OF 2]] f(3)]
  note 4 = take_arguments_ok [OF conjunct1 [OF 3] conjunct2 [OF conjunct2 [OF 3]] f(4)]
  show ?thesis using 1 2 3 4 by (simp add: same_frame_def)
qed

lemma feed_tool_calls_ok: "tools_ok s \<Longrightarrow> feed_tool_calls cs s = (Inr u, s') \<Longrightarrow> tools_ok s' \<and> same_frame s s'"
proof (induction cs arbitrary: s)
  case (Cons c cs)
  then obtain w s1 where "feed_tool_call c s = (Inr w, s1)" "feed_tool_calls cs s1 = (Inr u, s')" by (auto simp: and_run_Inr)
  with Cons show ?case using feed_tool_call_ok [of s c w s1] same_frame_trans [of s s1 s'] by blast
qed auto

section \<open>Frames in order\<close>

definition index_ok :: "messages_stream \<Rightarrow> bool" where
  "index_ok s \<longleftrightarrow> ms_current_text s = None \<and> ms_next_index s = 0 \<or> ms_current_text s = Some 0 \<and> ms_next_index s = 1"

definition phase_of :: "messages_stream \<Rightarrow> phase" where
  "phase_of s =
     (if ms_terminal s then PEnd else case ms_current_text s of None \<Rightarrow> PIdle (ms_next_index s) | Some i \<Rightarrow> PText i)"

definition live :: "messages_stream \<Rightarrow> bool" where
  "live s \<longleftrightarrow> ms_started s \<and> index_ok s \<and> tools_ok s \<and> sl_max_tool_calls (ms_limits s) + 1 < u64_max"

text \<open>A step: the text its frames carry, the phases they take a client through, and what it keeps.\<close>

definition good :: "str \<Rightarrow> messages_stream \<Rightarrow> msg_frame list \<Rightarrow> messages_stream \<Rightarrow> bool" where
  "good t s fs s' \<longleftrightarrow>
     concat (map delta_text fs) = t \<and> phases (phase_of s) fs = Some (phase_of s') \<and> ms_started s' \<and>
     (ms_terminal s' \<and> ms_tools s' = [] \<or> live s') \<and> ms_decoder s' = ms_decoder s \<and> ms_limits s' = ms_limits s"

lemma good_append: "good t s fs s' \<Longrightarrow> good t' s' gs s'' \<Longrightarrow> good (t @ t') s (fs @ gs) s''"
  by (simp add: good_def phases_append)

lemma good_same: "live s \<Longrightarrow> tools_ok s' \<Longrightarrow> same_frame s s' \<Longrightarrow> good [] s [] s'"
  by (auto simp: good_def phase_of_def same_frame_def live_def index_ok_def)

definition option_text :: "str option \<Rightarrow> str" where
  "option_text v = (case v of None \<Rightarrow> [] | Some t \<Rightarrow> t)"

lemma take_text_ok:
  assumes "live s" "\<not> ms_terminal s" "take_text v s = (fs, s')"
  shows "good (option_text v) s fs s' \<and> live s' \<and> \<not> ms_terminal s'"
  using assms
  by (cases v)
    (auto simp: take_text_def some_text_def open_text_def good_def option_text_def live_def index_ok_def phase_of_def tools_ok_def
      sat_add_def u64_max_def Let_def split: if_splits option.splits)

definition choice_text :: "(str \<times> json) list \<Rightarrow> str" where
  "choice_text choice =
     option_text (Option.bind (Option.bind (member choice ''delta'') as_object) (\<lambda>d. member_str d ''content''))"

lemma live_same: "live s \<Longrightarrow> tools_ok s' \<Longrightarrow> same_frame s s' \<Longrightarrow> live s'"
  by (simp add: live_def index_ok_def same_frame_def)

lemma feed_choice_ok:
  assumes "live s" "\<not> ms_terminal s" "feed_choice choice s = (Inr fs, s')"
  shows "good (choice_text choice) s fs s' \<and> live s' \<and> \<not> ms_terminal s'"
proof -
  define keep where
    "keep = (\<lambda>s :: messages_stream. case some_text (member_str choice ''finish_reason'') of None \<Rightarrow> s | Some r \<Rightarrow> s\<lparr>ms_finish_reason := Some r\<rparr>)"
  have keep: "same_frame s1 (keep s1)" "tools_ok (keep s1) = tools_ok s1" for s1
    by (auto simp: keep_def same_frame_def tools_ok_def split: option.splits)
  show ?thesis
  proof (cases "Option.bind (member choice ''delta'') as_object")
    case None
    then have "fs = []" "s' = keep s" using assms(3) by (simp_all add: feed_choice_def keep_def)
    moreover have "tools_ok s" using assms(1) by (simp add: live_def)
    ultimately show ?thesis
      using None keep [of s] good_same [of s s'] live_same [of s s'] assms by (auto simp: choice_text_def option_text_def same_frame_def)
  next
    case (Some delta)
    obtain gs s1 where t: "take_text (member_str delta ''content'') s = (gs, s1)" by fastforce
    obtain w s2 where calls: "feed_tool_calls (case Option.bind (member delta ''tool_calls'') as_array of
        None \<Rightarrow> [] | Some cs \<Rightarrow> List.map_filter as_object cs) s1 = (Inr w, s2)" and out: "fs = gs" "s' = keep s2"
      using assms(3) Some t by (auto simp: feed_choice_def keep_def and_run_Inr)
    note 1 = take_text_ok [OF assms(1,2) t]
    then have "tools_ok s1" by (simp add: live_def)
    note 2 = feed_tool_calls_ok [OF this calls]
    then have "tools_ok s'" "same_frame s1 s'" using keep [of s2] same_frame_trans [of s1 s2 s'] out by simp_all
    then have "good ([] :: str) s1 [] s'" "live s'" "\<not> ms_terminal s'"
      using good_same live_same 1 by (auto simp: same_frame_def)
    then show ?thesis using good_append [of _ s gs s1] 1 out Some by (fastforce simp: choice_text_def)
  qed
qed

lemma feed_choices_ok:
  assumes "live s" "\<not> ms_terminal s" "feed_choices cs s = (Inr fs, s')"
  shows "good (concat (map choice_text cs)) s fs s' \<and> live s' \<and> \<not> ms_terminal s'"
  using assms
proof (induction cs arbitrary: s fs)
  case (Cons c cs)
  then obtain gs s1 hs where "feed_choice c s = (Inr gs, s1)" "feed_choices cs s1 = (Inr hs, s')" "fs = gs @ hs"
    by (auto simp: and_run_Inr)
  with Cons.IH [of s1 hs] feed_choice_ok [OF Cons.prems(1,2), of c gs s1] show ?case
    by (auto intro: good_append)
qed (simp add: good_same live_def good_def)

definition payload_text :: "json \<Rightarrow> str" where
  "payload_text v = (case as_object v of None \<Rightarrow> [] | Some payload \<Rightarrow> concat (map choice_text (payload_choices payload)))"

lemma take_usage_same: "same_frame s (take_usage payload s) \<and> tools_ok (take_usage payload s) = tools_ok s"
  by (auto simp: take_usage_def same_frame_def tools_ok_def Let_def split: option.splits)

lemma feed_payload_ok:
  assumes "live s" "\<not> ms_terminal s" "feed_payload v s = (Inr fs, s')"
  shows "good (payload_text v) s fs s' \<and> live s' \<and> \<not> ms_terminal s'"
proof (cases "as_object v")
  case None
  then show ?thesis using assms by (simp add: feed_payload_def payload_text_def good_def live_def)
next
  case (Some payload)
  let ?s = "take_usage payload s"
  have "feed_choices (payload_choices payload) ?s = (Inr fs, s')" using assms(3) Some by (simp add: feed_payload_def)
  moreover have "live ?s" "\<not> ms_terminal ?s" "phase_of ?s = phase_of s" "ms_decoder ?s = ms_decoder s"
    "ms_limits ?s = ms_limits s"
    using take_usage_same [of s payload] live_same [of s ?s] assms by (auto simp: same_frame_def phase_of_def live_def split: option.splits)
  ultimately show ?thesis using feed_choices_ok [of ?s] Some by (simp add: payload_text_def good_def)
qed

lemma tool_frames_ok:
  "n + length ts \<le> u64_max \<Longrightarrow>
    phases (PIdle n) (fst (tool_frames ts n)) = Some (PIdle (n + length ts)) \<and> snd (tool_frames ts n) = n + length ts \<and>
    concat (map delta_text (fst (tool_frames ts n))) = []"
proof (induction ts arbitrary: n)
  case (Cons t ts)
  have n: "sat_add n (Suc 0) = Suc n" using Cons.prems by (simp add: sat_add_def)
  have "Suc n + length ts \<le> u64_max" using Cons.prems by simp
  moreover obtain fs m where "tool_frames ts (Suc n) = (fs, m)" by fastforce
  ultimately show ?case using Cons.IH [of "Suc n"] by (simp add: n)
qed simp

lemma finish_message_ok:
  assumes "live s" "\<not> ms_terminal s" "finish_message s = (fs, s')"
  shows "good [] s fs s' \<and> ms_terminal s'"
proof -
  have n: "ms_next_index s + length (ms_tools s) \<le> u64_max"
    using assms(1) by (auto simp: live_def index_ok_def tools_ok_def)
  obtain tools next_index where t: "tool_frames (ms_tools s) (ms_next_index s) = (tools, next_index)" by fastforce
  have p: "phases (PIdle (ms_next_index s)) tools = Some (PIdle next_index)" "concat (map delta_text tools) = []"
    using tool_frames_ok [OF n] t by simp_all
  have "ms_current_text s = None \<and> ms_next_index s = 0 \<or> ms_current_text s = Some 0 \<and> ms_next_index s = 1"
    "ms_started s" using assms(1) by (auto simp: live_def index_ok_def)
  then show ?thesis
    using assms(2,3) t p
    by (auto simp: finish_message_def good_def phases_append phase_of_def clear_buffered_tools_def)
qed

lemma finish_error_ok:
  assumes "live s" "\<not> ms_terminal s" "finish_error error_type message s = (fs, s')"
  shows "good [] s fs s' \<and> ms_terminal s'"
  using assms
  by (auto simp: finish_error_def good_def live_def phase_of_def clear_buffered_tools_def split: option.splits)

section \<open>Text\<close>

definition event_data :: "sse_event \<Rightarrow> str" where
  "event_data e = trim (decode_utf8 (ev_data e))"

definition closes :: "(str \<Rightarrow> json option) \<Rightarrow> sse_event \<Rightarrow> bool" where
  "closes from_str e \<longleftrightarrow>
     event_data e = lit ''[DONE]'' \<or>
     (case from_str (event_data e) of
        None \<Rightarrow> ev_event e = lit ''error''
      | Some payload \<Rightarrow> stream_error (decode_utf8 (ev_event e)) payload (event_data e) \<noteq> None)"

definition event_content :: "(str \<Rightarrow> json option) \<Rightarrow> sse_event \<Rightarrow> str" where
  "event_content from_str e = (case from_str (event_data e) of None \<Rightarrow> [] | Some payload \<Rightarrow> payload_text payload)"

text \<open>The text of the upstream's choices up to the end of its stream.\<close>

fun openai_text :: "(str \<Rightarrow> json option) \<Rightarrow> sse_event list \<Rightarrow> str" where
  "openai_text from_str [] = []"
| "openai_text from_str (e # es) =
     (if closes from_str e then [] else event_content from_str e @ openai_text from_str es)"

lemma openai_text_append:
  "openai_text from_str (es @ es') =
    openai_text from_str es @ (if list_ex (closes from_str) es then [] else openai_text from_str es')"
  by (induction es) auto

lemma process_events_terminal: "ms_terminal s \<Longrightarrow> process_events from_str es s = (Inr [], s)"
  by (cases es) auto

lemma process_events_ok:
  assumes "live s" "\<not> ms_terminal s" "process_events from_str es s = (Inr fs, s')"
  shows "good (openai_text from_str es) s fs s' \<and> ms_terminal s' = list_ex (closes from_str) es"
  using assms
proof (induction es arbitrary: s fs)
  case Nil
  then show ?case by (simp add: good_def live_def)
next
  case (Cons e es)
  have data: "trim (decode_utf8 (ev_data e)) = event_data e" by (simp add: event_data_def)
  consider (final) "event_data e = lit ''[DONE]''" "finish_message s = (fs, s')"
    | (junk) "event_data e \<noteq> lit ''[DONE]''" "from_str (event_data e) = None" "ev_event e \<noteq> lit ''error''"
        "process_events from_str es s = (Inr fs, s')"
    | (err) gs s1 hs where "event_data e \<noteq> lit ''[DONE]''" "from_str (event_data e) = None" "ev_event e = lit ''error''"
        "finish_error (lit ''api_error'') (event_data e) s = (gs, s1)" "process_events from_str es s1 = (Inr hs, s')" "fs = gs @ hs"
    | (fail) payload a b where "from_str (event_data e) = Some payload"
        "stream_error (decode_utf8 (ev_event e)) payload (event_data e) = Some (a, b)" "finish_error a b s = (fs, s')"
    | (feed) payload gs s1 hs where "event_data e \<noteq> lit ''[DONE]''" "from_str (event_data e) = Some payload"
        "stream_error (decode_utf8 (ev_event e)) payload (event_data e) = None"
        "feed_payload payload s = (Inr gs, s1)" "process_events from_str es s1 = (Inr hs, s')" "fs = gs @ hs"
    using Cons.prems
    by (auto simp: data Let_def and_run_Inr split: if_splits option.splits prod.splits simp del: lit_Cons)
  then show ?case
  proof cases
    case final
    then show ?thesis using finish_message_ok [OF Cons.prems(1,2)] by (simp add: closes_def del: lit_Cons)
  next
    case junk
    then show ?thesis using Cons.IH [OF Cons.prems(1,2)] by (simp add: closes_def event_content_def del: lit_Cons)
  next
    case err
    then show ?thesis
      using finish_error_ok [OF Cons.prems(1,2) err(4)] process_events_terminal [of s1 from_str es]
      by (simp add: closes_def del: lit_Cons)
  next
    case fail
    then show ?thesis using finish_error_ok [OF Cons.prems(1,2)] by (simp add: closes_def del: lit_Cons)
  next
    case feed
    then show ?thesis
      using feed_payload_ok [OF Cons.prems(1,2) feed(4)] Cons.IH [of s1 hs]
      by (auto simp: closes_def event_content_def intro: good_append simp del: lit_Cons)
  qed
qed

lemma live_decoder [simp]: "live (s\<lparr>ms_decoder := d\<rparr>) = live s" "phase_of (s\<lparr>ms_decoder := d\<rparr>) = phase_of s"
  by (simp_all add: live_def index_ok_def tools_ok_def phase_of_def split: option.split)

lemma started_push: "live s \<Longrightarrow> ms_start s = ([], s)"
  by (simp add: ms_start_def live_def)

lemma ms_push_ok:
  assumes "live s" "\<not> ms_terminal s" "ms_push from_str chunk s = (Inr fs, s')"
  obtains es d where "Sse.push (ms_decoder s) chunk = (Inr es, d)" "good (openai_text from_str es) (s\<lparr>ms_decoder := d\<rparr>) fs s'"
    "ms_terminal s' = list_ex (closes from_str) es"
proof -
  obtain es d where "Sse.push (ms_decoder s) chunk = (Inr es, d)"
    "process_events from_str es (s\<lparr>ms_decoder := d\<rparr>) = (Inr fs, s')"
    using assms by (auto simp: ms_push_def started_push and_run_Inr split: prod.splits sum.splits)
  then show ?thesis using that process_events_ok [of "s\<lparr>ms_decoder := d\<rparr>" from_str es fs s'] assms(1,2) by simp
qed

lemma ms_finish_ok:
  assumes "live s" "\<not> ms_terminal s" "ms_finish from_str s = (Inr fs, s')"
  obtains es d where "Sse.finish (ms_decoder s) = (Inr es, d)" "good (openai_text from_str es) (s\<lparr>ms_decoder := d\<rparr>) fs s'"
    "ms_terminal s'"
proof -
  obtain es d gs s1 where d: "Sse.finish (ms_decoder s) = (Inr es, d)"
    and p: "process_events from_str es (s\<lparr>ms_decoder := d\<rparr>) = (Inr gs, s1)"
    and q: "if ms_terminal s1 then fs = gs \<and> s' = s1 else (\<exists>hs. finish_message s1 = (hs, s') \<and> fs = gs @ hs)"
  proof -
    obtain es d where d: "Sse.finish (ms_decoder s) = (Inr es, d)"
      using assms by (auto simp: ms_finish_def started_push split: prod.splits sum.splits)
    have "and_run (process_events from_str es (s\<lparr>ms_decoder := d\<rparr>)) (\<lambda>fs s'.
        if ms_terminal s' then (Inr fs, s') else (case finish_message s' of (gs, s'') \<Rightarrow> (Inr (fs @ gs), s''))) = (Inr fs, s')"
      using assms d by (simp add: ms_finish_def started_push cong: if_cong)
    then obtain gs s1 where "process_events from_str es (s\<lparr>ms_decoder := d\<rparr>) = (Inr gs, s1)"
      "(if ms_terminal s1 then (Inr gs, s1) else (case finish_message s1 of (hs, s2) \<Rightarrow> (Inr (gs @ hs), s2))) = (Inr fs :: (msg_stream_error, _) result, s')"
      unfolding and_run_Inr by blast
    then show ?thesis using that [OF d] by (auto split: if_splits prod.splits)
  qed
  have 1: "good (openai_text from_str es) (s\<lparr>ms_decoder := d\<rparr>) gs s1" using process_events_ok [OF _ _ p] assms(1,2) by simp
  then have "ms_terminal s1 \<or> live s1" by (auto simp: good_def)
  then have "good (openai_text from_str es) (s\<lparr>ms_decoder := d\<rparr>) fs s' \<and> ms_terminal s'"
    using q 1 finish_message_ok [of s1] good_append [OF 1, of "[]"] by (auto split: if_splits)
  then show ?thesis using that d by blast
qed

lemma relay_terminal:
  "ms_terminal s \<Longrightarrow> ms_started s \<Longrightarrow>
    relay_frames from_str us s = [] \<or> (\<exists>m. relay_frames from_str us s = [ErrorFrame (lit ''api_error'') m])"
  by (induction from_str us s rule: relay_frames.induct)
    (auto simp: ms_finish_def ms_push_def ms_start_def anthropic_stream_error_frame_def)

text \<open>A complete Messages stream, then nothing or one more error.\<close>

definition complete_stream :: "phase \<Rightarrow> msg_frame list \<Rightarrow> bool" where
  "complete_stream p out \<longleftrightarrow>
     (\<exists>fs tail. out = fs @ tail \<and> phases p fs = Some PEnd \<and> (tail = [] \<or> (\<exists>m. tail = [ErrorFrame (lit ''api_error'') m])))"

lemma complete_error: "live s \<Longrightarrow> \<not> ms_terminal s \<Longrightarrow> complete_stream (phase_of s) [anthropic_stream_error_frame m]"
  unfolding complete_stream_def
  by (intro exI [of _ "[anthropic_stream_error_frame m]"] exI [of _ "[]"])
    (auto simp: phase_of_def anthropic_stream_error_frame_def split: option.splits)

lemma complete_terminal: "out = [] \<or> (\<exists>m. out = [ErrorFrame (lit ''api_error'') m]) \<Longrightarrow> complete_stream PEnd out"
  unfolding complete_stream_def by (intro exI [of _ "[]"] exI [of _ out]) simp

lemma complete_append: "phases p fs = Some q \<Longrightarrow> complete_stream q out \<Longrightarrow> complete_stream p (fs @ out)"
  unfolding complete_stream_def by (metis append.assoc bind.bind_lunit phases_append)

lemma relay_complete:
  "live s \<Longrightarrow> \<not> ms_terminal s \<Longrightarrow> complete_stream (phase_of s) (relay_frames from_str us s)"
proof (induction from_str us s rule: relay_frames.induct)
  case (1 from_str s)
  obtain r s' where r: "ms_finish from_str s = (r, s')" by fastforce
  show ?case
  proof (cases r)
    case (Inr fs)
    then obtain t d where "good t (s\<lparr>ms_decoder := d\<rparr>) fs s'" "ms_terminal s'" using ms_finish_ok [OF 1] r by metis
    moreover from this have "phase_of s' = PEnd" by (simp add: phase_of_def)
    ultimately have "phases (phase_of s) fs = Some PEnd" by (simp add: good_def)
    then show ?thesis using r Inr unfolding complete_stream_def by auto
  qed (use 1 r complete_error in simp)
next
  case (3 from_str chunk rest s)
  obtain r s' where r: "ms_push from_str chunk s = (r, s')" by fastforce
  show ?case
  proof (cases r)
    case (Inr fs)
    then obtain t d where t: "good t (s\<lparr>ms_decoder := d\<rparr>) fs s'" using ms_push_ok [OF 3(2,3)] r by metis
    then have p: "phases (phase_of s) fs = Some (phase_of s')" by (simp add: good_def)
    show ?thesis
    proof (cases "ms_terminal s'")
      case True
      then have "complete_stream (phase_of s') (relay_frames from_str rest s')"
        using relay_terminal [of s' from_str rest] t complete_terminal by (auto simp: good_def phase_of_def)
      then show ?thesis using complete_append [OF p] r Inr by simp
    next
      case False
      then have "live s'" using t by (simp add: good_def)
      then show ?thesis using complete_append [OF p] 3(1) [OF _ _ \<open>live s'\<close> False] r Inr by simp
    qed
  qed (use 3 r complete_error in simp)
qed (simp add: complete_error)

lemma live_new: "ms_start (ms_new model i n) = ([MessageStart i model n], (ms_new model i n)\<lparr>ms_started := True\<rparr>)"
  "live ((ms_new model i n)\<lparr>ms_started := True\<rparr>)" "\<not> ms_terminal ((ms_new model i n)\<lparr>ms_started := True\<rparr>)"
  "phase_of ((ms_new model i n)\<lparr>ms_started := True\<rparr>) = PIdle 0"
  by (simp_all add: ms_start_def ms_new_def ms_make_def live_def index_ok_def tools_ok_def default_limits_def u64_max_def
      DEFAULT_MAX_STREAM_TOOL_BYTES_def DEFAULT_MAX_STREAM_TOOL_CALLS_def phase_of_def)

text \<open>C27. What a client of the Messages endpoint reads is always a complete Messages stream. For any bytes, any
  fragmentation and any failure of the upstream: one message start, blocks numbered from 0 that open, take
  deltas of their own kind and close one after the other, at least one block, the final delta and the
  stop, or an error in place of the rest; then nothing more, except the error of an upstream that breaks
  after its own end.\<close>

theorem messages_stream_complete: "complete_stream PStart (anthropic_relay from_str upstream model message_id prompt)"
proof -
  let ?n = "if prompt = [] then 0 else max (length prompt div 4) 1"
  have "phases PStart [MessageStart message_id model ?n] = Some (PIdle 0)" by simp
  moreover have "complete_stream (PIdle 0) (relay_frames from_str upstream ((ms_new model message_id ?n)\<lparr>ms_started := True\<rparr>))"
    using relay_complete [OF live_new(2,3)] live_new(4) by metis
  ultimately show ?thesis
    unfolding anthropic_relay_def live_new(1) prod.case by (rule complete_append)
qed

text \<open>The text of a whole stream, or of its beginning when it ends in an error of the relay.\<close>

definition text_relayed :: "str \<Rightarrow> msg_frame list \<Rightarrow> bool" where
  "text_relayed t out \<longleftrightarrow>
     concat (map delta_text out) = t \<or>
     prefix (concat (map delta_text out)) t \<and> out \<noteq> [] \<and> (\<exists>m. last out = ErrorFrame (lit ''api_error'') m)"

lemma text_relayed_append:
  "concat (map delta_text fs) = t \<Longrightarrow> text_relayed t' out \<Longrightarrow> text_relayed (t @ t') (fs @ out)"
  by (auto simp: text_relayed_def)

lemma text_relayed_error: "text_relayed t [anthropic_stream_error_frame m]"
  by (simp add: text_relayed_def anthropic_stream_error_frame_def)

lemma relay_terminal_chunks: "ms_terminal s \<Longrightarrow> ms_started s \<Longrightarrow> relay_frames from_str (map Inr chunks) s = []"
  by (induction chunks) (auto simp: ms_finish_def ms_push_def ms_start_def)

lemma relay_text:
  assumes "live s" "\<not> ms_terminal s" "push_all (ms_decoder s) chunks = (Inr es, d)" "Sse.finish d = (Inr es', d')"
  shows "text_relayed (openai_text from_str (es @ es')) (relay_frames from_str (map Inr chunks) s)"
  using assms
proof (induction chunks arbitrary: s es)
  case Nil
  obtain r s' where r: "ms_finish from_str s = (r, s')" by fastforce
  show ?case
  proof (cases r)
    case (Inr fs)
    then obtain es1 d1 where "Sse.finish (ms_decoder s) = (Inr es1, d1)" "good (openai_text from_str es1) (s\<lparr>ms_decoder := d1\<rparr>) fs s'"
      using ms_finish_ok [OF Nil(1,2)] r by metis
    then show ?thesis using Nil r Inr by (simp add: text_relayed_def good_def)
  qed (use r text_relayed_error in simp)
next
  case (Cons c cs)
  obtain es1 d1 es2 where d1: "Sse.push (ms_decoder s) c = (Inr es1, d1)" "push_all d1 cs = (Inr es2, d)" "es = es1 @ es2"
    using Cons.prems(3) by (auto split: prod.splits sum.splits)
  obtain r s' where r: "ms_push from_str c s = (r, s')" by fastforce
  show ?case
  proof (cases r)
    case (Inr fs)
    then have g: "good (openai_text from_str es1) (s\<lparr>ms_decoder := d1\<rparr>) fs s'" "ms_terminal s' = list_ex (closes from_str) es1"
      using ms_push_ok [OF Cons.prems(1,2)] r d1(1) by (metis Inr_inject Pair_inject)+
    then have t: "concat (map delta_text fs) = openai_text from_str es1" "ms_decoder s' = d1" "ms_started s'"
      by (simp_all add: good_def)
    show ?thesis
    proof (cases "ms_terminal s'")
      case True
      then show ?thesis
        using r Inr g(2) t d1(3) relay_terminal_chunks [OF True t(3)]
        by (simp add: openai_text_append text_relayed_def)
    next
      case False
      then have "live s'" using g(1) by (simp add: good_def)
      from Cons.IH [OF this False] have "text_relayed (openai_text from_str (es2 @ es')) (relay_frames from_str (map Inr cs) s')"
        using d1(2) t(2) Cons.prems(4) by simp
      then show ?thesis
        using text_relayed_append [OF t(1)] r Inr d1(3) False g(2) by (simp add: openai_text_append)
    qed
  qed (use r text_relayed_error in simp)
qed

text \<open>C28. The text a Messages client reads is the upstream's text. However the transport cuts the bytes, the text
  deltas of the relayed stream put together are the contents of the upstream's choices up to the end of
  its stream, in order; only a stream that ends in a relay error may carry a beginning of that text.\<close>

theorem messages_stream_text:
  assumes "push_all sse_default chunks = (Inr es, d)" and "Sse.finish d = (Inr es', d')"
  shows "text_relayed (openai_text from_str (es @ es')) (anthropic_relay from_str (map Inr chunks) model message_id prompt)"
proof -
  let ?n = "if prompt = [] then 0 else max (length prompt div 4) 1"
  have "ms_decoder ((ms_new model message_id ?n)\<lparr>ms_started := True\<rparr>) = sse_default" by (simp add: ms_new_def ms_make_def)
  then have "text_relayed (openai_text from_str (es @ es'))
      (relay_frames from_str (map Inr chunks) ((ms_new model message_id ?n)\<lparr>ms_started := True\<rparr>))"
    using relay_text [OF live_new(2,3)] assms by metis
  then have "text_relayed ([] @ openai_text from_str (es @ es')) ([MessageStart message_id model ?n] @
      relay_frames from_str (map Inr chunks) ((ms_new model message_id ?n)\<lparr>ms_started := True\<rparr>))"
    by (intro text_relayed_append) simp_all
  then show ?thesis unfolding anthropic_relay_def live_new(1) by simp
qed

definition sample_upstream :: "bytes list" where
  "sample_upstream = [lit ''data: a'' @ [10, 10] @ lit ''data: [DO'', lit ''NE]'' @ [10, 10]]"

definition sample_payload :: "str \<Rightarrow> json option" where
  "sample_payload s =
     (if s = lit ''a'' then Some (obj [(''choices'', JArray [obj [(''delta'', obj [(''content'', jstr ''hi'')])]])]) else None)"

definition sample_upstream_events :: "sse_event list" where
  "sample_upstream_events = map (\<lambda>t. \<lparr>ev_event = lit ''message'', ev_data = lit t, ev_id = None\<rparr>) [''a'', ''[DONE]'']"

lemma sample_upstream_decoded: "push_all sse_default sample_upstream = (Inr sample_upstream_events, sse_default)"
  unfolding fragments_whole
  by (simp add: sample_upstream_def sample_upstream_events_def push_def sse_default_def DEFAULT_MAX_LINE_BYTES_def
      DEFAULT_MAX_EVENT_BYTES_def process_line_def dispatch_def strip_cr_def split_field_def sat_add_def u64_max_def)

lemma sample_upstream_finished: "Sse.finish sse_default = (Inr [], sse_default)"
  by (simp add: Sse.finish_def sse_default_def dispatch_def)

theorem messages_stream_text_witness:
  "text_relayed (lit ''hi'') (anthropic_relay sample_payload (map Inr sample_upstream) [] [] [])"
proof -
  have "openai_text sample_payload (sample_upstream_events @ []) = lit ''hi''"
    by (simp add: sample_upstream_events_def closes_def event_data_def trim_def is_whitespace_def sample_payload_def stream_error_def
        jget_def event_content_def payload_text_def payload_choices_def member_def choice_text_def option_text_def member_str_def
        List.map_filter_simps)
  then show ?thesis
    using messages_stream_text [OF sample_upstream_decoded sample_upstream_finished, of sample_payload "[]" "[]" "[]"] by simp
qed

lemma push_fragments_ok:
  assumes "live s" "\<not> ms_terminal s" "push_fragments from_str chunks s = (Inr fs, s')"
  shows "(ms_tools s' = [] \<or> live s') \<and> ms_limits s' = ms_limits s"
  using assms
proof (induction chunks arbitrary: s fs)
  case (Cons c cs)
  obtain gs s1 where p: "ms_push from_str c s = (Inr gs, s1)"
    "(if ms_terminal s1 then (Inr gs, s1)
      else and_run (push_fragments from_str cs s1) (\<lambda>gs' s''. (Inr (gs @ gs'), s''))) = (Inr fs, s')"
    using Cons.prems(3) unfolding push_fragments.simps and_run_Inr by blast
  obtain t d where "good t (s\<lparr>ms_decoder := d\<rparr>) gs s1" using ms_push_ok [OF Cons.prems(1,2) p(1)] by metis
  then have g: "ms_terminal s1 \<and> ms_tools s1 = [] \<or> live s1" "ms_limits s1 = ms_limits s" by (auto simp: good_def)
  show ?case
  proof (cases "ms_terminal s1")
    case False
    then obtain hs where "push_fragments from_str cs s1 = (Inr hs, s')" using p(2) by (auto simp: and_run_Inr)
    then show ?thesis using Cons.IH [of s1 hs] g False by auto
  qed (use p(2) g in auto)
qed simp

text \<open>The memory a stream can make the gateway keep. However many fragments an upstream sends, the tool calls
  that wait for the end of the message are at most 128, and their ids, names and arguments together at
  most four mebibytes; the counter the translator decides on is exactly that sum.\<close>

theorem messages_stream_memory:
  assumes "push_fragments from_str chunks (snd (ms_start (ms_new model message_id input_tokens))) = (Inr fs, s)"
  shows "length (ms_tools s) \<le> 128 \<and> sum_list (map tool_bytes (ms_tools s)) \<le> 4 * 1024 * 1024 \<and>
    (ms_tools s \<noteq> [] \<longrightarrow> ms_buffered_tool_bytes s = sum_list (map tool_bytes (ms_tools s)))"
proof -
  have "(ms_tools s = [] \<or> live s) \<and> ms_limits s = default_limits"
    using push_fragments_ok [OF live_new(2,3) assms [unfolded live_new(1) snd_conv]] by (simp add: ms_new_def ms_make_def)
  then show ?thesis
    by (auto simp: live_def tools_ok_def default_limits_def DEFAULT_MAX_STREAM_TOOL_CALLS_def DEFAULT_MAX_STREAM_TOOL_BYTES_def)
qed

theorem messages_stream_memory_witness:
  "\<exists>fs s. push_fragments sample_payload [[100]] (snd (ms_start (ms_new [] [] 0))) = (Inr fs, s) \<and> length (ms_tools s) \<le> 128"
proof -
  have "\<exists>fs s. push_fragments sample_payload [[100]] (snd (ms_start (ms_new [] [] 0))) = (Inr fs, s)"
    by (simp add: ms_start_def ms_new_def ms_make_def ms_push_def push_def sse_default_def DEFAULT_MAX_LINE_BYTES_def and_run_def)
  then obtain fs s where "push_fragments sample_payload [[100]] (snd (ms_start (ms_new [] [] 0))) = (Inr fs, s)" by blast
  then show ?thesis using messages_stream_memory by blast
qed

end
