(* ===== verification/Stream_Delivery.thy ===== *)
theory Stream_Delivery
  imports Provider_Delivery Recent
begin

text \<open>
  Streamed chat delivery: \<open>streaming_chat_response\<close> of \<open>wayfinder-gateway/src/lib.rs\<close>, which looks for a
  deployment that opens a stream. The environment is that of \<open>Delivery\<close> with the call that opens a stream;
  receipts are written through it as well. The relay of an opened stream is the subject of \<open>Stream_Relay\<close>.
\<close>

section \<open>Environment\<close>

datatype receipt_update =
    ReceiptDelivery str execution_boundary recent_outcome "nat option" "str option"
  | ReceiptOutcome recent_outcome "nat option" "str option"

record 'w stream_world =
  sw_env :: "'w delivery_env"
  sw_open :: "configured_model \<Rightarrow> delivery_state \<times> 'w \<Rightarrow> (f64 \<times> (delivery_error, delivery_stream) result) \<times> delivery_state \<times> 'w"
  sw_receipt :: "str \<Rightarrow> receipt_update \<Rightarrow> delivery_state \<times> 'w \<Rightarrow> delivery_state \<times> 'w"
  sw_header_ok :: "str \<Rightarrow> bool"

datatype stream_problem =
    NotEstablished
  | TargetMissing str
  | TargetIneligible str
  | TargetPriced str
  | CredentialMissing str
  | StreamStatus nat
  | StreamFailed delivery_error

text \<open>The last error text and the status and type it is reported with.\<close>

type_synonym last_failure = "stream_problem \<times> nat \<times> str"

definition stream_failure_affects_reliability :: "delivery_error \<Rightarrow> bool" where
  "stream_failure_affects_reliability e \<longleftrightarrow>
     e \<notin> CodexFailed ` {CodexAuthenticationRequired, CodexModelUnavailable, CodexBusy, CodexUsageLimitReached, CodexInvalidRequest,
                         CodexInterrupted}"

section \<open>Opening a stream at one target\<close>

datatype open_outcome = Opened delivery_stream | Refused f64 delivery_stream | Broken delivery_error | Tired

fun open_loop ::
  "'w stream_world \<Rightarrow> configured_model \<Rightarrow> nat \<Rightarrow> f64 list \<Rightarrow> last_failure \<Rightarrow> delivery_state \<times> 'w \<Rightarrow>
   open_outcome \<times> last_failure \<times> delivery_state \<times> 'w" where
  "open_loop w target remaining delays lst s =
     (case sw_open w target s of
        ((elapsed, Inr r), s1) \<Rightarrow>
          if status_success (ds_status r) then (Opened r, lst, s1)
          else if is_retryable (Some (ds_status r)) then
            (let s2 = observe_deployment (sw_env w) (delivery_id target) (observation_failure (Some elapsed) (Some (ds_status r))) s1;
                 lst' = (StreamStatus (ds_status r), snd lst)
             in case remaining of
                  0 \<Rightarrow> (Tired, lst', s2)
                | Suc n \<Rightarrow> open_loop w target n (tl delays) lst'
                             (case delays of [] \<Rightarrow> s2 | d # _ \<Rightarrow> sleep_retry (sw_env w) d s2))
          else (Refused elapsed r, lst, s1)
      | ((elapsed, Inl e), s1) \<Rightarrow>
          (let s2 = observe_deployment (sw_env w) (delivery_id target) (observation_failure (Some elapsed) None) s1;
               lst' = (StreamFailed e, fatal_delivery_status e)
           in if e \<noteq> ProviderFailed PTransport then (Broken e, lst', s2)
              else case remaining of
                  0 \<Rightarrow> (Tired, lst', s2)
                | Suc n \<Rightarrow> open_loop w target n (tl delays) lst'
                             (case delays of [] \<Rightarrow> s2 | d # _ \<Rightarrow> sleep_retry (sw_env w) d s2)))"

declare open_loop.simps [simp del]

record established =
  ed_served_by :: str
  ed_served_by_id :: str
  ed_boundary :: execution_boundary
  ed_reason :: str
  ed_stream :: delivery_stream
  ed_attempt :: combined_attempt

datatype stream_result =
    StreamingNotReady
  | StreamRejected nat str stream_problem
  | StreamPassed delivery_stream str
  | StreamStateError reliability_error
  | StreamMisconfigured str
  | StreamEstablished established bool

text \<open>Dropping the leases of an attempt: the local one as any dropped lease, the fleet-wide one as failed.\<close>

definition drop_combined :: "'w delivery_env \<Rightarrow> str \<Rightarrow> combined_attempt \<Rightarrow> delivery_state \<times> 'w \<Rightarrow> delivery_state \<times> 'w" where
  "drop_combined env probe a s =
     (let s' = with_policy (drop_attempt (dl_policy (fst s)) (env_now env s) (fst a)) s
      in if snd a then env_health_complete env (fst (fst a)) probe False s' else s')"

definition drop_established :: "'w delivery_env \<Rightarrow> str \<Rightarrow> established option \<Rightarrow> delivery_state \<times> 'w \<Rightarrow> delivery_state \<times> 'w" where
  "drop_established env probe est s = (case est of None \<Rightarrow> s | Some e \<Rightarrow> drop_combined env probe (ed_attempt e) s)"

text \<open>A target ends the search with a response, or hands on what is established so far.\<close>

datatype stream_step = Stop stream_result | Go last_failure "established option"

definition stream_target ::
  "delivery_gateway \<Rightarrow> 'w stream_world \<Rightarrow> str \<Rightarrow> str \<Rightarrow> str \<Rightarrow> configured_model \<Rightarrow> last_failure \<Rightarrow> established option \<Rightarrow>
   delivery_state \<times> 'w \<Rightarrow> stream_step \<times> delivery_state \<times> 'w" where
  "stream_target gw w request_id target_name reason target lst est s =
     (let target_id = delivery_id target; env = sw_env w;
          boundary = model_execution_boundary (gw_loopback gw) (gw_local_network gw) target;
          stop = (\<lambda>r s. (Stop r, drop_established env request_id est s)) in
      if cm_deployment_id target \<noteq> None \<and> \<not> cm_key_ready target
      then (Go (CredentialMissing target_id, snd lst) est, s)
      else
        case begin_reliability_attempt env target_id request_id s of
          (Inl e, s1) \<Rightarrow> stop (StreamStateError e) s1
        | (Inr None, s1) \<Rightarrow> (Go lst est, s1)
        | (Inr (Some a), s1) \<Rightarrow>
            (case open_loop w target (gw_retries gw)
                    (retry_delays_with (gw_retries gw) RETRY_BASE_SECONDS RETRY_CAP_SECONDS (env_jitter env s1)) lst s1 of
               (Opened r, lst', s2) \<Rightarrow>
                 (Go lst' (Some \<lparr>ed_served_by = target_name, ed_served_by_id = target_id, ed_boundary = boundary,
                                 ed_reason = reason, ed_stream = r, ed_attempt = a\<rparr>),
                  drop_established env request_id est s2)
             | (Refused elapsed r, lst', s2) \<Rightarrow>
                 (let s3 = sw_receipt w request_id (ReceiptDelivery target_name boundary RFailed (Some (ds_status r))
                             (Some (lit ''wayfinder_router_upstream_error''))) s2;
                      s4 = observe_deployment env target_id (observation_failure (Some elapsed) (Some (ds_status r))) s3 in
                  case complete_combined env request_id a (\<not> is_auth_failure (Some (ds_status r))) s4 of
                    (Inl e, s5) \<Rightarrow> stop (StreamStateError e) s5
                  | (Inr _, s5) \<Rightarrow>
                      stop (if sw_header_ok w target_name then StreamPassed r target_name else StreamMisconfigured target_name) s5)
             | (Broken e, lst', s2) \<Rightarrow>
                 (let rejected = StreamRejected (fst (snd lst')) (snd (snd lst')) (fst lst') in
                  if stream_failure_affects_reliability e then
                    (case complete_combined env request_id a False s2 of
                       (Inl e, s3) \<Rightarrow> stop (StreamStateError e) s3
                     | (Inr _, s3) \<Rightarrow> stop rejected s3)
                  else stop rejected (release_combined env request_id a s2))
             | (Tired, lst', s2) \<Rightarrow>
                 (case complete_combined env request_id a False s2 of
                    (Inl e, s3) \<Rightarrow> stop (StreamStateError e) s3
                  | (Inr _, s3) \<Rightarrow> (Go lst' est, s3))))"

text \<open>The targets of an alias, one after the other. A target that opened a stream does not end the walk.\<close>

fun stream_targets ::
  "delivery_gateway \<Rightarrow> 'w stream_world \<Rightarrow> str \<Rightarrow> str \<Rightarrow> str \<Rightarrow> configured_model list \<Rightarrow> last_failure \<Rightarrow> established option \<Rightarrow>
   delivery_state \<times> 'w \<Rightarrow> stream_step \<times> delivery_state \<times> 'w" where
  "stream_targets gw w request_id target_name reason [] lst est s = (Go lst est, s)"
| "stream_targets gw w request_id target_name reason (target # targets) lst est s =
     (case stream_target gw w request_id target_name reason target lst est s of
        (Stop r, s') \<Rightarrow> (Stop r, s')
      | (Go lst' est', s') \<Rightarrow> stream_targets gw w request_id target_name reason targets lst' est' s')"

section \<open>The plan\<close>

definition stream_alias ::
  "delivery_gateway \<Rightarrow> 'w stream_world \<Rightarrow> routing_request \<Rightarrow> str \<Rightarrow> bool \<Rightarrow> u64 \<Rightarrow> str \<Rightarrow> last_failure \<Rightarrow>
   delivery_state \<times> 'w \<Rightarrow> stream_step \<times> delivery_state \<times> 'w" where
  "stream_alias gw w request request_id offline prompt_estimate alias lst s =
     (case take_candidates gw alias s of
        (configured, s1) \<Rightarrow>
          if configured = [] then (Go (TargetMissing alias, snd lst) None, s1)
          else
            let eligible = eligible_deployment_targets (gw_loopback gw) (gw_local_network gw) configured request offline prompt_estimate
            in if eligible = [] then (Go (TargetIneligible alias, snd lst) None, s1)
               else
                 let selection = select_deployments (selection_policy_of (gw_models gw) alias) (env_signal_now (sw_env w) s1)
                                   (dl_signals (fst s1)) eligible
                 in if sl_targets selection = [] then (Go (TargetPriced alias, snd lst) None, s1)
                    else stream_targets gw w request_id alias (sl_reason selection) (sl_targets selection) lst None s1)"

fun stream_plan ::
  "delivery_gateway \<Rightarrow> 'w stream_world \<Rightarrow> routing_request \<Rightarrow> str \<Rightarrow> bool \<Rightarrow> u64 \<Rightarrow> str list \<Rightarrow> last_failure \<Rightarrow>
   delivery_state \<times> 'w \<Rightarrow> stream_step \<times> delivery_state \<times> 'w" where
  "stream_plan gw w request request_id offline prompt_estimate [] lst s = (Go lst None, s)"
| "stream_plan gw w request request_id offline prompt_estimate (alias # plan) lst s =
     (case stream_alias gw w request request_id offline prompt_estimate alias lst s of
        (Stop r, s') \<Rightarrow> (Stop r, s')
      | (Go lst' (Some e), s') \<Rightarrow> (Go lst' (Some e), s')
      | (Go lst' None, s') \<Rightarrow> stream_plan gw w request request_id offline prompt_estimate plan lst' s')"

definition streaming_chat_response ::
  "delivery_gateway \<Rightarrow> 'w stream_world \<Rightarrow> bool \<Rightarrow> str list \<Rightarrow> str \<Rightarrow> bool \<Rightarrow> routing_request \<Rightarrow> u64 \<Rightarrow> str \<Rightarrow>
   delivery_state \<times> 'w \<Rightarrow> stream_result \<times> delivery_state \<times> 'w" where
  "streaming_chat_response gw w ready plan chosen offline request prompt_estimate request_id s =
     (if \<not> ready then (StreamingNotReady, s)
      else
        case stream_plan gw w request request_id offline prompt_estimate plan
               (NotEstablished, 502, lit ''wayfinder_router_upstream_error'') s of
          (Stop r, s') \<Rightarrow> (r, s')
        | (Go lst None, s') \<Rightarrow>
            (StreamRejected (fst (snd lst)) (snd (snd lst)) (fst lst),
             sw_receipt w request_id (ReceiptOutcome RFailed None (Some (snd (snd lst)))) s')
        | (Go lst (Some e), s') \<Rightarrow>
            (let s'' = sw_receipt w request_id (ReceiptDelivery (ed_served_by e) (ed_boundary e) RStreaming (Some 200) None) s' in
             if \<not> sw_header_ok w (ed_served_by e) \<or> \<not> sw_header_ok w (ed_served_by_id e) \<or> \<not> sw_header_ok w (ed_reason e)
             then (StreamMisconfigured (ed_served_by e), drop_combined (sw_env w) request_id (ed_attempt e) s'')
             else (StreamEstablished e (ed_served_by e \<noteq> chosen \<and> \<not> offline), s'')))"

section \<open>Whom a streamed delivery calls\<close>

declare split_paired_All [simp del] split_paired_Ex [simp del]

text \<open>
  \<open>sent\<close> reads off the world the targets that were called, as for buffered deliveries; opening a stream
  is a call and writing a receipt is none.
\<close>

definition records_opens :: "'w stream_world \<Rightarrow> ('w \<Rightarrow> configured_model list) \<Rightarrow> bool" where
  "records_opens w sent \<longleftrightarrow>
     records_sends (sw_env w) sent \<and>
     (\<forall>t s. sent (snd (snd (sw_open w t s))) = sent (snd s) @ [t]) \<and>
     (\<forall>rid u s. sent (snd (sw_receipt w rid u s)) = sent (snd s))"

lemma records_opensD:
  assumes "records_opens w sent"
  shows "records_sends (sw_env w) sent"
    and "sw_open w t s = (r, s') \<Longrightarrow> sent (snd s') = sent (snd s) @ [t]"
    and "sent (snd (sw_receipt w rid u s)) = sent (snd s)"
proof -
  show "sw_open w t s = (r, s') \<Longrightarrow> sent (snd s') = sent (snd s) @ [t]"
    using assms by (simp add: records_opens_def) (metis snd_conv)
qed (use assms in \<open>simp_all add: records_opens_def\<close>)

lemma drop_combined_sends:
  assumes "records_sends env sent"
  shows "sent (snd (drop_combined env pr a s)) = sent (snd s)"
  using assms by (auto simp: drop_combined_def Let_def records_sendsD records_sends_steps)

lemma drop_established_sends:
  "records_sends env sent \<Longrightarrow> sent (snd (drop_established env pr est s)) = sent (snd s)"
  by (auto simp: drop_established_def drop_combined_sends split: option.splits)

lemma open_loop_opened:
  "open_loop w target remaining delays lst s = (Opened r, lst', s') \<Longrightarrow> status_success (ds_status r)"
proof (induction remaining arbitrary: delays lst s)
  case 0
  then show ?case
    by (subst (asm) open_loop.simps) (auto simp: Let_def split: prod.splits sum.splits if_splits)
next
  case (Suc n)
  from Suc.prems Suc.IH show ?case
    by (subst (asm) open_loop.simps) (auto simp: Let_def split: prod.splits sum.splits if_splits)
qed

lemma open_loop_sends:
  assumes rec: "records_opens w sent" and "open_loop w target remaining delays lst s = (r, lst', s')"
  shows "\<exists>k. 0 < k \<and> k \<le> Suc remaining \<and> sent (snd s') = sent (snd s) @ replicate k target"
  using assms(2)
proof (induction remaining arbitrary: delays lst s)
  case 0
  obtain el r1 s1 where call: "sw_open w target s = ((el, r1), s1)" by (metis prod.exhaust)
  note s1 = records_opensD(2) [OF rec call]
  then have "sent (snd s') = sent (snd s) @ [target]"
    using 0 call
    by (subst (asm) open_loop.simps)
      (auto simp: records_sends_steps [OF records_opensD(1) [OF rec]] Let_def split: sum.splits if_splits)
  then show ?case by (intro exI [of _ 1]) simp
next
  case (Suc n)
  obtain el r1 s1 where call: "sw_open w target s = ((el, r1), s1)" by (metis prod.exhaust)
  note s1 = records_opensD(2) [OF rec call]
  show ?case
  proof (cases "\<exists>delays lst s2. open_loop w target n delays lst s2 = (r, lst', s') \<and> sent (snd s2) = sent (snd s1)")
    case True
    then obtain k where "0 < k" "k \<le> Suc n" "sent (snd s') = sent (snd s1) @ replicate k target"
      using Suc.IH by metis
    then show ?thesis using s1 by (intro exI [of _ "Suc k"]) (simp add: replicate_app_Cons_same)
  next
    case False
    then have stop: "open_loop w target n delays lst s2 = (r, lst', s') \<Longrightarrow> sent (snd s2) \<noteq> sent (snd s1)" for delays lst s2
      by blast
    have "sent (snd s') = sent (snd s1)"
      using Suc.prems call
      by (subst (asm) open_loop.simps)
        (auto simp: records_sends_steps [OF records_opensD(1) [OF rec]] Let_def split: sum.splits if_splits list.splits dest!: stop)
    then show ?thesis using s1 by (intro exI [of _ 1]) simp
  qed
qed

text \<open>What is established by a target: its identity and boundary, with a stream that answered with a success.\<close>

definition established_at :: "delivery_gateway \<Rightarrow> str \<Rightarrow> configured_model \<Rightarrow> established \<Rightarrow> bool" where
  "established_at gw alias t e \<longleftrightarrow>
     ed_served_by e = alias \<and> ed_served_by_id e = delivery_id t \<and>
     ed_boundary e = model_execution_boundary (gw_loopback gw) (gw_local_network gw) t \<and> status_success (ds_status (ed_stream e))"

text \<open>A target whose attempt was granted, by the outcome of its calls.\<close>

definition finish_target ::
  "delivery_gateway \<Rightarrow> 'w stream_world \<Rightarrow> str \<Rightarrow> str \<Rightarrow> str \<Rightarrow> configured_model \<Rightarrow> established option \<Rightarrow> combined_attempt \<Rightarrow>
   open_outcome \<Rightarrow> last_failure \<Rightarrow> delivery_state \<times> 'w \<Rightarrow> stream_step \<times> delivery_state \<times> 'w" where
  "finish_target gw w rid alias reason t est a oc lst s =
     (let env = sw_env w; boundary = model_execution_boundary (gw_loopback gw) (gw_local_network gw) t;
          stop = (\<lambda>r s. (Stop r, drop_established env rid est s));
          finish = (\<lambda>ok k s. case complete_combined env rid a ok s of
              (Inl e, s') \<Rightarrow> stop (StreamStateError e) s' | (Inr _, s') \<Rightarrow> k s') in
      case oc of
        Opened r \<Rightarrow>
          (Go lst (Some \<lparr>ed_served_by = alias, ed_served_by_id = delivery_id t, ed_boundary = boundary, ed_reason = reason,
                         ed_stream = r, ed_attempt = a\<rparr>), drop_established env rid est s)
      | Refused elapsed r \<Rightarrow>
          finish (\<not> is_auth_failure (Some (ds_status r)))
            (stop (if sw_header_ok w alias then StreamPassed r alias else StreamMisconfigured alias))
            (observe_deployment env (delivery_id t) (observation_failure (Some elapsed) (Some (ds_status r)))
              (sw_receipt w rid (ReceiptDelivery alias boundary RFailed (Some (ds_status r))
                (Some (lit ''wayfinder_router_upstream_error''))) s))
      | Broken e \<Rightarrow>
          (if stream_failure_affects_reliability e
           then finish False (stop (StreamRejected (fst (snd lst)) (snd (snd lst)) (fst lst))) s
           else stop (StreamRejected (fst (snd lst)) (snd (snd lst)) (fst lst)) (release_combined env rid a s))
      | Tired \<Rightarrow> finish False (\<lambda>s'. (Go lst est, s')) s)"

definition target_loop ::
  "delivery_gateway \<Rightarrow> 'w stream_world \<Rightarrow> configured_model \<Rightarrow> last_failure \<Rightarrow> delivery_state \<times> 'w \<Rightarrow>
   open_outcome \<times> last_failure \<times> delivery_state \<times> 'w" where
  "target_loop gw w t lst s =
     open_loop w t (gw_retries gw)
       (retry_delays_with (gw_retries gw) RETRY_BASE_SECONDS RETRY_CAP_SECONDS (env_jitter (sw_env w) s)) lst s"

lemma stream_target_eq:
  "stream_target gw w rid alias reason t lst est s =
     (if cm_deployment_id t \<noteq> None \<and> \<not> cm_key_ready t then (Go (CredentialMissing (delivery_id t), snd lst) est, s)
      else case begin_reliability_attempt (sw_env w) (delivery_id t) rid s of
          (Inl e, s1) \<Rightarrow> (Stop (StreamStateError e), drop_established (sw_env w) rid est s1)
        | (Inr None, s1) \<Rightarrow> (Go lst est, s1)
        | (Inr (Some a), s1) \<Rightarrow>
            (case target_loop gw w t lst s1 of (oc, lst', s2) \<Rightarrow> finish_target gw w rid alias reason t est a oc lst' s2))"
  unfolding stream_target_def finish_target_def target_loop_def Let_def
  by (simp split: prod.splits sum.splits option.splits open_outcome.splits)

lemma finish_target_sends:
  assumes rec: "records_opens w sent" and opened: "\<And>r. oc = Opened r \<Longrightarrow> status_success (ds_status r)"
    and run: "finish_target gw w rid alias reason t est a oc lst s = (r, s')"
  shows "sent (snd s') = sent (snd s)"
    and "\<forall>lst' est'. r = Go lst' est' \<longrightarrow> est' = est \<or> (\<exists>e. est' = Some e \<and> established_at gw alias t e)"
    and "\<forall>e b. r \<noteq> Stop (StreamEstablished e b)"
proof -
  note env = records_opensD(1) [OF rec]
  note same = records_sends_steps [OF env] drop_established_sends [OF env] records_opensD(3) [OF rec]
  have c: "complete_combined (sw_env w) rid a ok x = (y, z) \<Longrightarrow> sent (snd z) = sent (snd x)" for ok x y z
    using same(6) by (metis snd_conv)
  show "sent (snd s') = sent (snd s)"
    using run by (cases oc)
      (auto simp: finish_target_def Let_def same split: prod.splits sum.splits if_splits dest!: c)
  show "\<forall>lst' est'. r = Go lst' est' \<longrightarrow> est' = est \<or> (\<exists>e. est' = Some e \<and> established_at gw alias t e)"
    using run opened by (cases oc) (auto simp: finish_target_def Let_def established_at_def split: prod.splits sum.splits if_splits)
  show "\<forall>e b. r \<noteq> Stop (StreamEstablished e b)"
    using run by (cases oc) (auto simp: finish_target_def Let_def split: prod.splits sum.splits if_splits)
qed

lemma stream_target_sends:
  assumes rec: "records_opens w sent"
    and run: "stream_target gw w rid alias reason t lst est s = (r, s')"
  shows "\<exists>k \<le> Suc (gw_retries gw). sent (snd s') = sent (snd s) @ replicate k t \<and>
    (\<forall>lst' est'. r = Go lst' est' \<longrightarrow> est' = est \<or> (0 < k \<and> (\<exists>e. est' = Some e \<and> established_at gw alias t e))) \<and>
    (\<forall>e b. r \<noteq> Stop (StreamEstablished e b))"
proof (cases "cm_deployment_id t \<noteq> None \<and> \<not> cm_key_ready t")
  case True
  then show ?thesis using run by (intro exI [of _ 0]) (auto simp: stream_target_eq)
next
  case False
  note env = records_opensD(1) [OF rec]
  obtain b s1 where begin_run: "begin_reliability_attempt (sw_env w) (delivery_id t) rid s = (b, s1)" by (meson surj_pair)
  then have s1: "sent (snd s1) = sent (snd s)" using begin_attempt_sends [OF env] by (metis snd_conv)
  show ?thesis
  proof (cases "\<exists>a. b = Inr (Some a)")
    case True
    then obtain a where a: "b = Inr (Some a)" by blast
    obtain oc lst' s2 where loop: "target_loop gw w t lst s1 = (oc, lst', s2)" by (metis prod.exhaust)
    obtain k where k: "0 < k" "k \<le> Suc (gw_retries gw)" "sent (snd s2) = sent (snd s) @ replicate k t"
      using open_loop_sends [OF rec loop [unfolded target_loop_def]] s1 by auto
    have "finish_target gw w rid alias reason t est a oc lst' s2 = (r, s')"
      using run False begin_run a loop by (auto simp: stream_target_eq)
    moreover have "oc = Opened x \<Longrightarrow> status_success (ds_status x)" for x
      using open_loop_opened loop [unfolded target_loop_def] by blast
    ultimately show ?thesis
      using finish_target_sends [OF rec, of oc] k by (intro exI [of _ k]) simp
  next
    case none: False
    then show ?thesis
      using run False begin_run s1
      by (intro exI [of _ 0]) (auto simp: stream_target_eq drop_established_sends [OF env] split: sum.splits option.splits)
  qed
qed

lemma stream_targets_sends:
  assumes rec: "records_opens w sent"
    and run: "stream_targets gw w rid alias reason ts lst est s = (r, s')"
  shows "\<exists>cs. sent (snd s') = sent (snd s) @ cs \<and> set cs \<subseteq> set ts \<and> length cs \<le> Suc (gw_retries gw) * length ts \<and>
    (\<forall>lst' est'. r = Go lst' est' \<longrightarrow> est' = est \<or> (\<exists>e t. est' = Some e \<and> t \<in> set cs \<and> established_at gw alias t e)) \<and>
    (\<forall>e b. r \<noteq> Stop (StreamEstablished e b))"
  using run
proof (induction ts arbitrary: lst est s)
  case (Cons t ts)
  obtain r1 s1 where one: "stream_target gw w rid alias reason t lst est s = (r1, s1)" by (meson surj_pair)
  obtain k where k: "k \<le> Suc (gw_retries gw)" "sent (snd s1) = sent (snd s) @ replicate k t"
    "\<forall>lst' est'. r1 = Go lst' est' \<longrightarrow> est' = est \<or> (0 < k \<and> (\<exists>e. est' = Some e \<and> established_at gw alias t e))"
    "\<forall>e b. r1 \<noteq> Stop (StreamEstablished e b)"
    using stream_target_sends [OF rec one] by blast
  show ?case
  proof (cases r1)
    case (Stop x)
    then show ?thesis using Cons.prems one k by (intro exI [of _ "replicate k t"]) auto
  next
    case (Go lst1 est1)
    then obtain cs where cs: "sent (snd s') = sent (snd s1) @ cs" "set cs \<subseteq> set ts" "length cs \<le> Suc (gw_retries gw) * length ts"
      "\<forall>lst' est'. r = Go lst' est' \<longrightarrow> est' = est1 \<or> (\<exists>e t. est' = Some e \<and> t \<in> set cs \<and> established_at gw alias t e)"
      "\<forall>e b. r \<noteq> Stop (StreamEstablished e b)"
      using Cons.IH [of lst1 est1 s1] Cons.prems one by auto
    have "\<forall>lst' est'. r = Go lst' est' \<longrightarrow>
        est' = est \<or> (\<exists>e u. est' = Some e \<and> u \<in> set (replicate k t @ cs) \<and> established_at gw alias u e)"
      using cs(4) k(3) Go by (metis UnCI gr_implies_not0 in_set_replicate set_append)
    then show ?thesis
      using k cs by (intro exI [of _ "replicate k t @ cs"]) auto
  qed
qed auto

text \<open>The branches of an alias, with the candidates, the eligible and the selected targets named.\<close>

lemma stream_alias_run:
  assumes "deployment_candidates (gw_models gw) alias (dl_cursors (fst s)) = (ms, cursors)"
  shows "stream_alias gw w request rid offline est alias lst s =
    (let s1 = ((fst s)\<lparr>dl_cursors := cursors\<rparr>, snd s);
         eligible = eligible_deployment_targets (gw_loopback gw) (gw_local_network gw) ms request offline est;
         selection = select_deployments (selection_policy_of (gw_models gw) alias) (env_signal_now (sw_env w) s1)
           (dl_signals (fst s1)) eligible
     in if ms = [] then (Go (TargetMissing alias, snd lst) None, s1)
        else if eligible = [] then (Go (TargetIneligible alias, snd lst) None, s1)
        else if sl_targets selection = [] then (Go (TargetPriced alias, snd lst) None, s1)
        else stream_targets gw w rid alias (sl_reason selection) (sl_targets selection) lst None s1)"
  using assms by (simp add: stream_alias_def take_candidates_def Let_def)

lemmas stream_alias_branches = stream_alias_run [unfolded Let_def]

lemma stream_alias_cases:
  assumes "stream_alias gw w request rid offline est alias lst s = (r, s')"
  obtains (none) lst' where "r = Go lst' None" "snd s' = snd s" "dl_policy (fst s') = dl_policy (fst s)"
  | (run) reason ts s1 where "stream_targets gw w rid alias reason ts lst None s1 = (r, s')"
      "ts \<noteq> []" "snd s1 = snd s" "dl_policy (fst s1) = dl_policy (fst s)"
      "\<forall>t\<in>set ts. deliverable gw request offline est alias t" "length ts \<le> pool_size gw alias"
proof -
  obtain ms cursors where cand: "deployment_candidates (gw_models gw) alias (dl_cursors (fst s)) = (ms, cursors)"
    by fastforce
  define s1 where "s1 = ((fst s)\<lparr>dl_cursors := cursors\<rparr>, snd s)"
  define eligible where "eligible = eligible_deployment_targets (gw_loopback gw) (gw_local_network gw) ms request offline est"
  define selection where "selection = select_deployments (selection_policy_of (gw_models gw) alias) (env_signal_now (sw_env w) s1)
    (dl_signals (fst s1)) eligible"
  note branches = stream_alias_branches [OF cand, of w request rid offline est lst,
      folded s1_def, folded eligible_def, folded selection_def]
  have safe: "\<forall>t\<in>set (sl_targets selection). deliverable gw request offline est alias t"
    using selected_targets_are_safe [of _ _ _ _ _ _ "gw_models gw" "alias" "dl_cursors (fst s)"] cand
    unfolding selection_def eligible_def by (auto simp: deliverable_def)
  have "length eligible \<le> length ms" by (simp add: eligible_def eligible_deployment_targets_def)
  also have "length ms = pool_size gw alias"
    using length_deployment_candidates [of "gw_models gw" "alias" "dl_cursors (fst s)"] cand by (simp add: pool_size_def)
  finally have size: "length (sl_targets selection) \<le> pool_size gw alias"
    using length_selected [of "selection_policy_of (gw_models gw) alias" "env_signal_now (sw_env w) s1" "dl_signals (fst s1)" eligible]
    unfolding selection_def by linarith
  have s1: "snd s1 = snd s" "dl_policy (fst s1) = dl_policy (fst s)" by (simp_all add: s1_def)
  show thesis
  proof (cases "ms = [] \<or> eligible = [] \<or> sl_targets selection = []")
    case True
    then obtain p where "stream_alias gw w request rid offline est alias lst s = (Go (p, snd lst) None, s1)"
      using branches by (cases "ms = []"; cases "eligible = []") auto
    then show thesis using assms s1 by (intro none [of "(p, snd lst)"]) auto
  next
    case False
    then have "stream_targets gw w rid alias (sl_reason selection) (sl_targets selection) lst None s1 = (r, s')"
      using assms branches by simp
    then show thesis using False s1 safe size by (intro run [of "sl_reason selection" "sl_targets selection" s1]) simp_all
  qed
qed

lemma stream_plan_sends:
  assumes rec: "records_opens w sent"
    and "stream_plan gw w request rid offline est plan lst s = (r, s')"
  shows "\<exists>cs. sent (snd s') = sent (snd s) @ cs \<and>
    (\<forall>t\<in>set cs. \<exists>alias\<in>set plan. deliverable gw request offline est alias t) \<and>
    length cs \<le> Suc (gw_retries gw) * sum_list (map (pool_size gw) plan) \<and>
    (\<forall>lst' e. r = Go lst' (Some e) \<longrightarrow> (\<exists>t\<in>set cs. \<exists>alias\<in>set plan. established_at gw alias t e)) \<and>
    (\<forall>e b. r \<noteq> Stop (StreamEstablished e b))"
  using assms(2)
proof (induction plan arbitrary: lst s)
  case (Cons a plan)
  obtain r1 s1 where one: "stream_alias gw w request rid offline est a lst s = (r1, s1)" by (meson surj_pair)
  have "\<exists>cs. sent (snd s1) = sent (snd s) @ cs \<and> (\<forall>t\<in>set cs. deliverable gw request offline est a t) \<and>
      length cs \<le> Suc (gw_retries gw) * pool_size gw a \<and>
      (\<forall>lst' e. r1 = Go lst' (Some e) \<longrightarrow> (\<exists>t\<in>set cs. established_at gw a t e)) \<and> (\<forall>e b. r1 \<noteq> Stop (StreamEstablished e b))"
    using one
  proof (cases rule: stream_alias_cases)
    case (run reason ts s2)
    obtain cs where cs: "sent (snd s1) = sent (snd s2) @ cs" "set cs \<subseteq> set ts" "length cs \<le> Suc (gw_retries gw) * length ts"
      "\<forall>lst' e. r1 = Go lst' (Some e) \<longrightarrow> (\<exists>t\<in>set cs. established_at gw a t e)" "\<forall>e b. r1 \<noteq> Stop (StreamEstablished e b)"
      using stream_targets_sends [OF rec run(1)] by (metis option.distinct(1) option.inject)
    moreover have "length cs \<le> Suc (gw_retries gw) * pool_size gw a" using cs(3) mult_le_mono2 [OF run(6)] le_trans by blast
    ultimately show ?thesis using run by (intro exI [of _ cs]) (auto simp del: mult_Suc)
  qed auto
  then obtain ts1 where ts1: "sent (snd s1) = sent (snd s) @ ts1" "\<forall>t\<in>set ts1. deliverable gw request offline est a t"
    "length ts1 \<le> Suc (gw_retries gw) * pool_size gw a"
    "\<forall>lst' e. r1 = Go lst' (Some e) \<longrightarrow> (\<exists>t\<in>set ts1. established_at gw a t e)" "\<forall>e b. r1 \<noteq> Stop (StreamEstablished e b)"
    by blast
  show ?case
  proof (cases "\<exists>lst'. r1 = Go lst' None")
    case True
    then obtain lst1 where lst1: "r1 = Go lst1 None" by blast
    then have "stream_plan gw w request rid offline est plan lst1 s1 = (r, s')" using Cons.prems one by simp
    from Cons.IH [OF this] obtain cs where cs: "sent (snd s') = sent (snd s1) @ cs"
      "\<forall>t\<in>set cs. \<exists>alias\<in>set plan. deliverable gw request offline est alias t"
      "length cs \<le> Suc (gw_retries gw) * sum_list (map (pool_size gw) plan)"
      "\<forall>lst' e. r = Go lst' (Some e) \<longrightarrow> (\<exists>t\<in>set cs. \<exists>alias\<in>set plan. established_at gw alias t e)"
      "\<forall>e b. r \<noteq> Stop (StreamEstablished e b)"
      by blast
    have "\<exists>t\<in>set (ts1 @ cs). \<exists>alias\<in>set (a # plan). established_at gw alias t e" if "r = Go lst' (Some e)" for lst' e
      using cs(4) that by fastforce
    then show ?thesis
      using ts1 cs by (intro exI [of _ "ts1 @ cs"]) (auto simp: add_mult_distrib2)
  next
    case False
    then have "r = r1" "s' = s1" using Cons.prems one by (auto split: stream_step.splits option.splits)
    then show ?thesis using ts1 by (intro exI [of _ ts1]) (auto simp: add_mult_distrib2 add_increasing2)
  qed
qed auto


section \<open>Every deployment is called\<close>

text \<open>A world without a fleet-wide breaker in which every stream opens, and no circuit is opened meanwhile.\<close>

definition streams_open :: "'w stream_world \<Rightarrow> bool" where
  "streams_open w \<longleftrightarrow>
     (\<forall>t s. \<exists>elapsed r s'. sw_open w t s = ((elapsed, Inr r), s') \<and> status_success (ds_status r) \<and>
        (circuit_closed s \<longrightarrow> circuit_closed s')) \<and>
     (\<forall>s. validated_now (env_now (sw_env w) s) = Inr (env_now (sw_env w) s)) \<and> env_health_begin (sw_env w) = None"

definition plain_attempt :: "established option \<Rightarrow> bool" where
  "plain_attempt est = (case est of None \<Rightarrow> True | Some e \<Rightarrow> snd (fst (ed_attempt e)) = Closed \<and> \<not> snd (ed_attempt e))"

lemma drop_plain: "plain_attempt est \<Longrightarrow> drop_established env pr est s = s"
  by (auto simp: drop_established_def drop_combined_def plain_attempt_def drop_attempt_def with_policy_def split: option.splits)

lemma stream_target_opens:
  assumes rec: "records_opens w sent" and "streams_open w" "cm_key_ready t" "circuit_closed s" "plain_attempt est"
  shows "\<exists>lst' e s'. stream_target gw w rid alias reason t lst est s = (Go lst' (Some e), s') \<and>
    sent (snd s') = sent (snd s) @ [t] \<and> established_at gw alias t e \<and> circuit_closed s' \<and> plain_attempt (Some e)"
proof -
  have a: "begin_reliability_attempt (sw_env w) (delivery_id t) rid s = (Inr (Some ((delivery_id t, Closed), False)), s)"
    using assms(2,4)
    by (simp add: begin_reliability_attempt_def streams_open_def begin_local_def begin_attempt_def begin_at_def
        circuit_closed_def with_policy_def)
  obtain el x s2 where call: "sw_open w t s = ((el, Inr x), s2)" and ok: "status_success (ds_status x)" "circuit_closed s2"
    using assms(2,4) unfolding streams_open_def by metis
  have loop: "target_loop gw w t lst s = (Opened x, lst, s2)"
    unfolding target_loop_def by (subst open_loop.simps) (simp add: call ok)
  show ?thesis
    using a loop ok records_opensD(2) [OF rec call] assms(3)
    by (simp add: stream_target_eq finish_target_def Let_def established_at_def drop_plain [OF assms(5)])
      (simp add: plain_attempt_def)
qed

lemma stream_targets_all:
  assumes rec: "records_opens w sent" and "streams_open w" "\<forall>t\<in>set ts. cm_key_ready t" "ts \<noteq> []" "circuit_closed s"
    "plain_attempt est"
  shows "\<exists>lst' e s'. stream_targets gw w rid alias reason ts lst est s = (Go lst' (Some e), s') \<and>
    sent (snd s') = sent (snd s) @ ts \<and> established_at gw alias (last ts) e"
  using assms(3-6)
proof (induction ts arbitrary: lst est s)
  case (Cons t ts)
  obtain lst1 e1 s1 where one: "stream_target gw w rid alias reason t lst est s = (Go lst1 (Some e1), s1)"
    "sent (snd s1) = sent (snd s) @ [t]" "established_at gw alias t e1" "circuit_closed s1" "plain_attempt (Some e1)"
    using stream_target_opens [OF rec assms(2) _ Cons.prems(3,4)] Cons.prems(1) by (metis list.set_intros(1))
  show ?case
  proof (cases "ts = []")
    case True
    then show ?thesis using one by simp
  next
    case False
    then show ?thesis using one Cons.IH [of s1 "Some e1" lst1] Cons.prems(1) by simp
  qed
qed simp

lemma stream_alias_all:
  assumes "records_opens w sent" "streams_open w" "circuit_closed s" "take_candidates gw alias s = (ms, s1)"
    and "ts = sl_targets (select_deployments (selection_policy_of (gw_models gw) alias) (env_signal_now (sw_env w) s1)
           (dl_signals (fst s1)) (eligible_deployment_targets (gw_loopback gw) (gw_local_network gw) ms request offline est))"
    and "ts \<noteq> []"
  shows "\<exists>lst' e s'. stream_alias gw w request rid offline est alias lst s = (Go lst' (Some e), s') \<and>
    sent (snd s') = sent (snd s) @ ts \<and> established_at gw alias (last ts) e"
proof -
  obtain cursors where cand: "deployment_candidates (gw_models gw) alias (dl_cursors (fst s)) = (ms, cursors)"
    and s1: "s1 = ((fst s)\<lparr>dl_cursors := cursors\<rparr>, snd s)"
    using assms(4) by (auto simp: take_candidates_def split: prod.splits)
  define eligible where "eligible = eligible_deployment_targets (gw_loopback gw) (gw_local_network gw) ms request offline est"
  define selection where "selection = select_deployments (selection_policy_of (gw_models gw) alias) (env_signal_now (sw_env w) s1)
    (dl_signals (fst s1)) eligible"
  note branches = stream_alias_branches [OF cand, of w request rid offline est lst,
      folded s1, folded eligible_def, folded selection_def]
  have ts: "ts = sl_targets selection" using assms(5) by (simp add: selection_def eligible_def)
  have "eligible \<noteq> []" using assms(6) length_selected ts unfolding selection_def by (metis le_zero_eq length_0_conv)
  moreover have "ms \<noteq> []" using calculation by (auto simp: eligible_def eligible_deployment_targets_def)
  ultimately have run: "stream_alias gw w request rid offline est alias lst s =
      stream_targets gw w rid alias (sl_reason selection) ts lst None s1"
    using branches assms(6) ts by simp
  have ready: "\<forall>t\<in>set ts. cm_key_ready t"
    using selected_targets_are_safe [of _ _ _ _ _ _ "gw_models gw" "alias" "dl_cursors (fst s)"] cand assms(5) by auto
  have "circuit_closed s1" "plain_attempt None" using assms(3) s1 by (simp_all add: circuit_closed_def plain_attempt_def)
  then show ?thesis
    using stream_targets_all [OF assms(1,2) ready assms(6), of s1 None gw rid "alias" "sl_reason selection" lst] run s1 by simp
qed

text \<open>
  C23. A deployment that opened a stream does not end the walk over the deployments of its alias: when no
  circuit is open and every deployment opens, the request is sent to every deployment that
  is selected for the alias, in the order of the selection, and the client is given the stream of the
  last one. The streams opened before it are dropped.
\<close>

theorem stream_goes_to_every_deployment:
  assumes "records_opens w sent" "streams_open w" "circuit_closed s" "\<And>h. sw_header_ok w h"
    and "take_candidates gw alias s = (ms, s1)"
    and "ts = sl_targets (select_deployments (selection_policy_of (gw_models gw) alias) (env_signal_now (sw_env w) s1)
           (dl_signals (fst s1)) (eligible_deployment_targets (gw_loopback gw) (gw_local_network gw) ms request offline est))"
    and "ts \<noteq> []"
  shows "\<exists>e b s'. streaming_chat_response gw w True (alias # plan) chosen offline request est rid s = (StreamEstablished e b, s') \<and>
    sent (snd s') = sent (snd s) @ ts \<and> established_at gw alias (last ts) e"
proof -
  obtain lst' e s2 where "stream_alias gw w request rid offline est alias (NotEstablished, 502, lit ''wayfinder_router_upstream_error'') s =
      (Go lst' (Some e), s2)" "sent (snd s2) = sent (snd s) @ ts" "established_at gw alias (last ts) e"
    using stream_alias_all [OF assms(1-3,5-7)] by blast
  then show ?thesis
    by (simp add: streaming_chat_response_def assms(4) Let_def records_opensD(3) [OF assms(1)] del: lit_Cons)
qed

section \<open>Leases of a streamed delivery\<close>

definition respects_opens :: "'w stream_world \<Rightarrow> ('w \<Rightarrow> lease list) \<Rightarrow> bool" where
  "respects_opens w others \<longleftrightarrow>
     respects_leases (sw_env w) others \<and>
     (\<forall>mine s t. leases_ok others mine s \<longrightarrow> leases_ok others mine (snd (sw_open w t s))) \<and>
     (\<forall>mine s rid u. leases_ok others mine s \<longrightarrow> leases_ok others mine (sw_receipt w rid u s))"

lemma respects_opensD:
  assumes "respects_opens w others"
  shows "respects_leases (sw_env w) others"
    and "leases_ok others mine s \<Longrightarrow> leases_ok others mine (snd (sw_open w t s))"
    and "leases_ok others mine s \<Longrightarrow> leases_ok others mine (sw_receipt w rid u s)"
  using assms by (simp_all add: respects_opens_def)

text \<open>A lease that is held for later is one of the others.\<close>

lemma leases_ok_held: "leases_ok (\<lambda>w. ls @ others w) mine s = leases_ok others (mine @ ls) s"
  by (simp add: leases_ok_def)

lemma respects_held: "respects_leases env others \<Longrightarrow> respects_leases env (\<lambda>w. ls @ others w)"
  by (auto simp: respects_leases_def leases_ok_held)

lemma respects_opens_held: "respects_opens w others \<Longrightarrow> respects_opens w (\<lambda>w. ls @ others w)"
  by (auto simp: respects_opens_def leases_ok_held respects_held)

lemma drop_combined_leases:
  assumes "respects_leases env others" "leases_ok others (mine @ fst a # ls) s"
  shows "leases_ok others (mine @ ls) (drop_combined env pr a s)"
proof -
  let ?p = "drop_attempt (dl_policy (fst s)) (env_now env s) (fst a)"
  have "lease_step (dl_policy (fst s), mine @ fst a # ls @ others (snd s)) (?p, mine @ ls @ others (snd s))"
    by (rule lease_step.Drop [OF respects_leasesD(1) [OF assms(1)]]) simp
  then have "leases_ok others (mine @ ls) (with_policy ?p s)"
    using lease_step_inv assms(2) [unfolded leases_ok_def] by (auto simp: leases_ok_with_policy)
  then show ?thesis by (simp add: drop_combined_def Let_def respects_leasesD(5) [OF assms(1)])
qed

definition est_leases :: "established option \<Rightarrow> lease list" where
  "est_leases est = (case est of None \<Rightarrow> [] | Some e \<Rightarrow> [fst (ed_attempt e)])"

lemma drop_established_leases:
  assumes "respects_leases env others" "leases_ok others (mine @ est_leases est) s"
  shows "leases_ok others mine (drop_established env pr est s)"
  using assms drop_combined_leases [OF assms(1), where ls = "[]"]
  by (auto simp: drop_established_def est_leases_def split: option.splits)

lemma open_loop_leases:
  assumes "respects_opens w others" "leases_ok others mine s"
  shows "leases_ok others mine (snd (snd (open_loop w target remaining delays lst s)))"
  using assms(2)
proof (induction remaining arbitrary: delays lst s)
  case 0
  then show ?case
    using respects_opensD(2) [OF assms(1) 0, of target]
    by (subst open_loop.simps) (auto simp: leases_ok_observe Let_def split: prod.splits sum.splits)
next
  case (Suc n)
  have sleep: "leases_ok others mine x \<Longrightarrow> leases_ok others mine (sleep_retry (sw_env w) d x)" for d x
    by (auto simp: sleep_retry_def intro: respects_leasesD(3) [OF respects_opensD(1) [OF assms(1)]] split: option.splits)
  show ?case
    using respects_opensD(2) [OF assms(1) Suc.prems, of target]
    by (subst open_loop.simps)
      (auto simp: leases_ok_observe Let_def split: prod.splits sum.splits list.splits intro!: Suc.IH sleep)
qed

definition step_leases :: "stream_step \<Rightarrow> lease list" where
  "step_leases r = (case r of Stop _ \<Rightarrow> [] | Go _ est \<Rightarrow> est_leases est)"

lemma finish_target_leases:
  assumes "respects_opens w others" "leases_ok others (fst a # est_leases est) s"
  shows "leases_ok others (step_leases (fst (finish_target gw w rid alias reason t est a oc lst s)))
    (snd (finish_target gw w rid alias reason t est a oc lst s))"
proof -
  note env = respects_opensD(1) [OF assms(1)]
  let ?held = "\<lambda>w. est_leases est @ others w"
  note held = respects_held [OF env, of "est_leases est"]
  have dropped: "leases_ok others (est_leases est) x \<Longrightarrow> leases_ok others [] (drop_established (sw_env w) rid est x)" for x
    using drop_established_leases [OF env, of "[]"] by simp
  have complete: "fst (complete_combined (sw_env w) rid a ok x) = Inr ()"
      "leases_ok others (est_leases est) (snd (complete_combined (sw_env w) rid a ok x))"
    if "leases_ok others (fst a # est_leases est) x" for ok x
    using complete_combined_leases [OF held, of a x rid ok] that by (simp_all add: leases_ok_held)
  have completed: "\<exists>y. complete_combined (sw_env w) rid a ok x = (Inr (), y) \<and> leases_ok others (est_leases est) y"
    if "leases_ok others (fst a # est_leases est) x" for ok x
    using complete [OF that, of ok] by (metis prod.collapse)
  have released: "leases_ok others (est_leases est) (release_combined (sw_env w) rid a s)"
    using release_combined_leases [OF held, of a s rid] assms(2) by (simp add: leases_ok_held)
  show ?thesis
  proof (cases oc)
    case (Opened r)
    then show ?thesis
      using drop_established_leases [OF env, of "[fst a]" est s rid] assms(2)
      by (simp add: finish_target_def Let_def step_leases_def est_leases_def [of "Some _"])
  next
    case (Refused elapsed r)
    let ?s = "observe_deployment (sw_env w) (delivery_id t) (observation_failure (Some elapsed) (Some (ds_status r)))
      (sw_receipt w rid (ReceiptDelivery alias (model_execution_boundary (gw_loopback gw) (gw_local_network gw) t) RFailed
        (Some (ds_status r)) (Some (lit ''wayfinder_router_upstream_error''))) s)"
    have "leases_ok others (fst a # est_leases est) ?s"
      using respects_opensD(3) [OF assms(1,2)] by (simp add: leases_ok_observe)
    from completed [OF this, of "\<not> is_auth_failure (Some (ds_status r))"] obtain y where
      "complete_combined (sw_env w) rid a (\<not> is_auth_failure (Some (ds_status r))) ?s = (Inr (), y)"
      "leases_ok others (est_leases est) y" by blast
    then show ?thesis using dropped Refused by (simp add: finish_target_def Let_def step_leases_def)
  next
    case (Broken e)
    then show ?thesis
      using completed [OF assms(2), of False] released dropped by (auto simp: finish_target_def Let_def step_leases_def)
  next
    case Tired
    then show ?thesis
      using completed [OF assms(2), of False] by (auto simp: finish_target_def Let_def step_leases_def)
  qed
qed

lemma stream_target_leases:
  assumes "respects_opens w others" "leases_ok others (est_leases est) s"
    and run: "stream_target gw w rid alias reason t lst est s = (r, s')"
  shows "leases_ok others (step_leases r) s'"
proof (cases "cm_deployment_id t \<noteq> None \<and> \<not> cm_key_ready t")
  case True
  then show ?thesis using run assms(2) by (auto simp: stream_target_eq step_leases_def)
next
  case False
  note env = respects_opensD(1) [OF assms(1)]
  note held = respects_held [OF env, of "est_leases est"]
  obtain b s1 where begin_run: "begin_reliability_attempt (sw_env w) (delivery_id t) rid s = (b, s1)" by (meson surj_pair)
  have s1: "leases_ok others ((case b of Inr (Some a) \<Rightarrow> [fst a] | _ \<Rightarrow> []) @ est_leases est) s1"
    using begin_attempt_leases [OF held _ begin_run] assms(2) by (simp add: leases_ok_held)
  show ?thesis
  proof (cases "\<exists>a. b = Inr (Some a)")
    case True
    then obtain a where a: "b = Inr (Some a)" by blast
    obtain oc lst' s2 where loop: "target_loop gw w t lst s1 = (oc, lst', s2)" by (metis prod.exhaust)
    have "leases_ok others (fst a # est_leases est) s2"
      using open_loop_leases [OF assms(1)] s1 a loop unfolding target_loop_def
      by (metis append_Cons append_Nil option.case(2) snd_conv sum.case(2))
    from finish_target_leases [OF assms(1) this, of gw rid "alias" reason t oc lst']
    have "leases_ok others (step_leases (fst (stream_target gw w rid alias reason t lst est s)))
        (snd (stream_target gw w rid alias reason t lst est s))"
      using False begin_run a loop by (auto simp: stream_target_eq)
    then show ?thesis using run by simp
  next
    case none: False
    then show ?thesis
      using run False begin_run s1 drop_established_leases [OF env, of "[]" est s1 rid]
      by (auto simp: stream_target_eq step_leases_def split: sum.splits option.splits)
  qed
qed

lemma stream_targets_leases:
  assumes "respects_opens w others" "leases_ok others (est_leases est) s"
    and "stream_targets gw w rid alias reason ts lst est s = (r, s')"
  shows "leases_ok others (step_leases r) s'"
  using assms(2,3)
proof (induction ts arbitrary: lst est s)
  case (Cons t ts)
  obtain r1 s1 where one: "stream_target gw w rid alias reason t lst est s = (r1, s1)" by (meson surj_pair)
  note s1 = stream_target_leases [OF assms(1) Cons.prems(1) one]
  then show ?case
    using one Cons.prems(2) Cons.IH by (cases r1) (auto simp: step_leases_def)
qed (auto simp: step_leases_def)

lemma stream_plan_leases:
  assumes "respects_opens w others" "leases_ok others [] s"
    and "stream_plan gw w request rid offline est plan lst s = (r, s')"
  shows "leases_ok others (step_leases r) s'"
  using assms(2,3)
proof (induction plan arbitrary: lst s)
  case (Cons a plan)
  obtain r1 s1 where one: "stream_alias gw w request rid offline est a lst s = (r1, s1)" by (meson surj_pair)
  have s1: "leases_ok others (step_leases r1) s1"
    using one
  proof (cases rule: stream_alias_cases)
    case (none lst')
    then show ?thesis using Cons.prems(1) by (simp add: step_leases_def est_leases_def leases_ok_def)
  next
    case (run reason ts s2)
    then show ?thesis
      using stream_targets_leases [OF assms(1) _ run(1)] Cons.prems(1) by (simp add: est_leases_def leases_ok_def)
  qed
  show ?case
  proof (cases "\<exists>lst'. r1 = Go lst' None")
    case True
    then obtain lst1 where lst1: "r1 = Go lst1 None" by blast
    then have "stream_plan gw w request rid offline est plan lst1 s1 = (r, s')" using Cons.prems one by simp
    from Cons.IH [OF _ this] show ?thesis using s1 lst1 by (simp add: step_leases_def est_leases_def)
  next
    case False
    then have "r = r1" "s' = s1" using Cons.prems one by (auto split: stream_step.splits option.splits)
    then show ?thesis using s1 by simp
  qed
qed (auto simp: step_leases_def est_leases_def)

text \<open>Only the end of the walk establishes a stream; no branch that stops it does.\<close>

lemma stream_target_result: "fst (stream_target gw w rid alias reason t lst est s) \<noteq> Stop (StreamEstablished e b)"
  unfolding stream_target_eq finish_target_def Let_def
  by (simp split: prod.splits sum.splits option.splits open_outcome.splits)

lemma stream_targets_result: "fst (stream_targets gw w rid alias reason ts lst est s) \<noteq> Stop (StreamEstablished e b)"
proof (induction ts arbitrary: lst est s)
  case (Cons t ts)
  then show ?case
    using stream_target_result [of gw w rid "alias" reason t lst est s e b]
    by (auto split: prod.splits stream_step.splits)
qed simp

lemma stream_plan_result:
  "stream_plan gw w request rid offline est plan lst s = (Stop x, s') \<Longrightarrow> x \<noteq> StreamEstablished e b"
proof (induction plan arbitrary: lst s)
  case (Cons a plan)
  obtain r1 s1 where one: "stream_alias gw w request rid offline est a lst s = (r1, s1)" by (meson surj_pair)
  then have "r1 \<noteq> Stop (StreamEstablished e b)"
  proof (cases rule: stream_alias_cases)
    case (run reason ts s2)
    then show ?thesis using stream_targets_result by (metis fst_conv)
  qed simp
  then show ?case using one Cons by (auto split: stream_step.splits option.splits)
qed simp

text \<open>
  A streamed delivery keeps at most one lease: when it has found a stream, the circuits are owed exactly
  the lease of the attempt that opened it, and in every other case none. Every other attempt, also one
  whose stream was opened and dropped again, has been completed or given back.
\<close>

lemma stream_keeps_lease:
  assumes "respects_opens w others" "leases_ok others [] s"
    and "streaming_chat_response gw w ready plan chosen offline request est rid s = (r, s')"
  shows "leases_ok others (case r of StreamEstablished e b \<Rightarrow> [fst (ed_attempt e)] | _ \<Rightarrow> []) s'"
proof (cases ready)
  case True
  obtain r1 s1 where run: "stream_plan gw w request rid offline est plan (NotEstablished, 502, lit ''wayfinder_router_upstream_error'') s = (r1, s1)"
    by (meson surj_pair)
  note s1 = stream_plan_leases [OF assms(1,2) run]
  note receipt = respects_opensD(3) [OF assms(1)]
  show ?thesis
  proof (cases r1)
    case (Stop x)
    have "x \<noteq> StreamEstablished e b" for e b using stream_plan_result run Stop by metis
    then show ?thesis
      using assms(3) run True Stop s1 by (auto simp: streaming_chat_response_def step_leases_def split: stream_result.splits)
  next
    case (Go lst est')
    show ?thesis
    proof (cases est')
      case None
      then show ?thesis
        using assms(3) run True Go s1 by (auto simp: streaming_chat_response_def step_leases_def est_leases_def intro: receipt)
    next
      case (Some e)
      have held: "leases_ok others [fst (ed_attempt e)]
          (sw_receipt w rid (ReceiptDelivery (ed_served_by e) (ed_boundary e) RStreaming (Some 200) None) s1)"
        using s1 Go Some by (intro receipt) (simp add: step_leases_def est_leases_def)
      then show ?thesis
        using assms(3) run True Go Some
          drop_combined_leases [OF respects_opensD(1) [OF assms(1)], of "[]" "ed_attempt e" "[]", simplified, OF held]
        by (auto simp: streaming_chat_response_def Let_def split: if_splits)
    qed
  qed
qed (use assms in \<open>auto simp: streaming_chat_response_def\<close>)

section \<open>A sample stream\<close>

text \<open>A pool of two deployments that both open their streams; the world is the list of calls.\<close>

definition pool_gateway :: delivery_gateway where
  "pool_gateway = sample_gateway\<lparr>gw_models := [sample_pool]\<rparr>"

definition pool_world :: "configured_model list stream_world" where
  "pool_world = \<lparr>sw_env = sample_env,
     sw_open = (\<lambda>t s. ((Fin 1, Inr \<lparr>ds_status = 200, ds_content_type = lit ''text/event-stream'', ds_items = []\<rparr>), fst s, snd s @ [t])),
     sw_receipt = (\<lambda>rid u s. s), sw_header_ok = (\<lambda>h. True)\<rparr>"

definition pool_targets :: "configured_model list" where
  "pool_targets = map (for_deployment sample_pool) (deployment_targets sample_pool)"

definition pool_run :: "stream_result \<times> delivery_state \<times> configured_model list" where
  "pool_run = streaming_chat_response pool_gateway pool_world True [[109]] [109] True sample_request 10 [114] sample_delivery"

lemma pool_records: "records_opens pool_world (\<lambda>w. w)"
  using sample_records by (simp add: records_opens_def pool_world_def)

lemma pool_respects: "respects_opens pool_world (\<lambda>w. [])"
  using sample_respects by (simp add: respects_opens_def pool_world_def leases_ok_def)

lemma slot_target_pool: "slot_target 0 (map cd_weight (deployment_targets sample_pool)) 0 = 0"
  by (simp add: deployment_targets_def deployment_new_def)

lemma pool_selected:
  obtains s1 where "take_candidates pool_gateway [109] sample_delivery = (pool_targets, s1)"
    and "sl_targets (select_deployments (selection_policy_of (gw_models pool_gateway) [109]) (env_signal_now (sw_env pool_world) s1)
           (dl_signals (fst s1)) (eligible_deployment_targets (gw_loopback pool_gateway) (gw_local_network pool_gateway) pool_targets
              sample_request True 10)) = pool_targets"
proof -
  have found: "find_model [109] [sample_pool] = Some sample_pool"
    by (simp add: find_model_def sample_pool_def with_deployments_def model_new_def Let_def)
  have "length (deployment_targets sample_pool) = 2"
    by (simp add: deployment_targets_def sample_pool_def with_deployments_def model_new_def)
  then have "fst (deployment_candidates [sample_pool] [109] []) = pool_targets"
    using found
    by (simp add: deployment_candidates_def Let_def pool_targets_def numeral_2_eq_2 slot_target_pool)
       (simp add: deployment_targets_def sample_pool_def with_deployments_def model_new_def)
  then have cand: "take_candidates pool_gateway [109] sample_delivery =
      (pool_targets, (fst sample_delivery)\<lparr>dl_cursors := snd (deployment_candidates [sample_pool] [109] [])\<rparr>, [])"
    by (simp add: take_candidates_def pool_gateway_def sample_delivery_def split: prod.splits) (metis fst_conv snd_conv)
  have "\<forall>t\<in>set pool_targets. target_eligible (gw_loopback pool_gateway) (gw_local_network pool_gateway) sample_request True 10 t"
    by (simp add: pool_targets_def pool_gateway_def sample_gateway_def sample_pool_def with_deployments_def
        model_new_def deployment_targets_def deployment_new_def for_deployment_def target_eligible_def is_eligible_def assess_model_def
        assess_destination_def destination_of_def model_execution_boundary_def model_is_proven_local_def model_capabilities_def
        sample_request_def precheck_ok_def)
  then have "eligible_deployment_targets (gw_loopback pool_gateway) (gw_local_network pool_gateway) pool_targets sample_request True 10 =
      pool_targets"
    by (simp add: eligible_deployment_targets_def)
  moreover have "selection_policy_of (gw_models pool_gateway) [109] = selection_policy_default"
    using found by (simp add: selection_policy_of_def pool_gateway_def sample_pool_def with_deployments_def model_new_def)
  moreover have "sl_targets (select_deployments selection_policy_default c st pool_targets) = pool_targets" for c st
    by (simp add: select_deployments_def selection_policy_default_def apply_price_ceiling_def)
  ultimately show thesis using cand that by simp
qed

lemma pool_opens: "streams_open pool_world"
  by (simp add: streams_open_def pool_world_def sample_env_def validated_now_def status_success_def circuit_closed_def)

lemma pool_closed: "circuit_closed sample_delivery"
  by (simp add: circuit_closed_def sample_delivery_def breaker_default_def breaker_new_def)

lemma pool_start: "snd sample_delivery = []"
  by (simp add: sample_delivery_def)

lemma pool_nonempty: "pool_targets \<noteq> []"
  by (simp add: pool_targets_def deployment_targets_def)

lemma pool_run_established: "\<exists>e b s'. pool_run = (StreamEstablished e b, s', pool_targets)"
proof -
  obtain s1 where s1: "take_candidates pool_gateway [109] sample_delivery = (pool_targets, s1)"
    and "sl_targets (select_deployments (selection_policy_of (gw_models pool_gateway) [109]) (env_signal_now (sw_env pool_world) s1)
           (dl_signals (fst s1)) (eligible_deployment_targets (gw_loopback pool_gateway) (gw_local_network pool_gateway) pool_targets
              sample_request True 10)) = pool_targets"
    by (rule pool_selected)
  from stream_alias_all [OF pool_records pool_opens pool_closed s1 this(2) [symmetric] pool_nonempty]
  obtain lst' e s2 where "stream_alias pool_gateway pool_world sample_request [114] True 10 [109]
      (NotEstablished, 502, lit ''wayfinder_router_upstream_error'') sample_delivery = (Go lst' (Some e), s2)" "snd s2 = pool_targets"
    using pool_start by (metis append_Nil)
  then show ?thesis
    by (simp add: pool_run_def streaming_chat_response_def Let_def pool_world_def del: lit_Cons) (metis prod.collapse)
qed

theorem stream_goes_to_every_deployment_witness:
  "\<exists>e b s'. pool_run = (StreamEstablished e b, s', pool_targets) \<and> length pool_targets = 2 \<and>
     established_at pool_gateway [109] (last pool_targets) e"
proof -
  have two: "length pool_targets = 2"
    by (simp add: pool_targets_def deployment_targets_def sample_pool_def with_deployments_def model_new_def)
  have header: "\<And>h. sw_header_ok pool_world h" by (simp add: pool_world_def)
  obtain s1 where "take_candidates pool_gateway [109] sample_delivery = (pool_targets, s1)"
    and "sl_targets (select_deployments (selection_policy_of (gw_models pool_gateway) [109]) (env_signal_now (sw_env pool_world) s1)
           (dl_signals (fst s1)) (eligible_deployment_targets (gw_loopback pool_gateway) (gw_local_network pool_gateway) pool_targets
              sample_request True 10)) = pool_targets"
    by (rule pool_selected)
  from stream_goes_to_every_deployment [OF pool_records pool_opens pool_closed header this(1) this(2) [symmetric]
      pool_nonempty, of "[]" "[109]" "[114]"]
  show ?thesis using two pool_start unfolding pool_run_def by (metis append_Nil prod.collapse)
qed


end
