(* ===== verification/Stream_Relay.thy ===== *)
theory Stream_Relay
  imports Stream_Delivery Messages_Stream
begin

text \<open>
  The relay of an opened stream to the client, of \<open>wayfinder-gateway/src/lib.rs\<close>: the body that
  \<open>streaming_chat_response\<close> builds, with \<open>observe_stream_events\<close>, \<open>finish_stream_success\<close>,
  \<open>stream_failure_chunk\<close> and the destructor of \<open>StreamRelayContext\<close>. The client pulls the body chunk by
  chunk and may go away after any of them.
\<close>

section \<open>Texts of errors\<close>

fun provider_error_text :: "provider_error \<Rightarrow> str" where
  "provider_error_text PInvalidEndpoint =
     lit ''provider endpoint must be an absolute HTTP(S) URL without userinfo, query, or fragment''"
| "provider_error_text PInvalidClientConfig = lit ''provider timeouts and response bound must be positive''"
| "provider_error_text PInvalidCredential = lit ''provider credential cannot be represented as an HTTP header''"
| "provider_error_text PClientBuild = lit ''provider HTTP client could not be constructed''"
| "provider_error_text PTransport = lit ''provider transport failed''"
| "provider_error_text (PResponseTooLarge limit) = lit ''provider response exceeds '' @ dec_digits limit @ lit '' bytes''"

fun apple_error_text :: "apple_delivery_error \<Rightarrow> str" where
  "apple_error_text AppleUnsupported = lit ''Apple Foundation Models are unsupported on this platform''"
| "apple_error_text AppleNotReady = lit ''Apple Foundation Models are not ready''"
| "apple_error_text AppleUnavailable = lit ''Apple Foundation Models are unavailable''"
| "apple_error_text AppleInvalidRequest = lit ''request is unsupported by Apple Foundation Models''"
| "apple_error_text AppleInvalidResponse = lit ''Apple Foundation Models returned an invalid response''"

fun anthropic_error_text :: "anthropic_delivery_error \<Rightarrow> str" where
  "anthropic_error_text AnthropicInvalidRequest = lit ''request is unsupported by the Anthropic provider''"
| "anthropic_error_text AnthropicInvalidResponse = lit ''Anthropic returned an invalid response''"

fun codex_error_text :: "codex_delivery_error \<Rightarrow> str" where
  "codex_error_text CodexUnavailable = lit ''ChatGPT account delivery is unavailable''"
| "codex_error_text CodexAuthenticationRequired = lit ''ChatGPT sign-in is required''"
| "codex_error_text CodexModelUnavailable = lit ''the selected ChatGPT model is unavailable''"
| "codex_error_text CodexBusy = lit ''the ChatGPT account provider is already serving another turn''"
| "codex_error_text CodexUsageLimitReached = lit ''the ChatGPT account usage limit has been reached''"
| "codex_error_text CodexInvalidRequest = lit ''request is unsupported by the ChatGPT account provider''"
| "codex_error_text CodexInvalidResponse = lit ''the ChatGPT account provider returned an invalid response''"
| "codex_error_text CodexTurnFailed = lit ''the ChatGPT account provider failed the generation turn''"
| "codex_error_text CodexInterrupted = lit ''the ChatGPT account provider interrupted the generation turn''"

fun delivery_error_text :: "delivery_error \<Rightarrow> str" where
  "delivery_error_text InvalidEndpoint = lit ''configured provider endpoint is invalid or unsafe''"
| "delivery_error_text CredentialUnavailable = lit ''configured provider credential is unavailable''"
| "delivery_error_text (ProviderFailed e) = provider_error_text e"
| "delivery_error_text (AppleFailed e) = apple_error_text e"
| "delivery_error_text (AnthropicFailed e) = anthropic_error_text e"
| "delivery_error_text (CodexFailed e) = codex_error_text e"

definition stream_failure_type :: "delivery_error \<Rightarrow> str" where
  "stream_failure_type e =
     (case e of
        CodexFailed c \<Rightarrow>
          (case c of
             CodexUnavailable \<Rightarrow> lit ''wayfinder_router_not_ready''
           | CodexAuthenticationRequired \<Rightarrow> lit ''wayfinder_router_not_ready''
           | CodexModelUnavailable \<Rightarrow> lit ''wayfinder_router_not_ready''
           | CodexInvalidRequest \<Rightarrow> lit ''wayfinder_router_unsupported_request''
           | CodexBusy \<Rightarrow> lit ''wayfinder_router_busy''
           | CodexTurnFailed \<Rightarrow> lit ''wayfinder_router_turn_failed''
           | CodexInterrupted \<Rightarrow> lit ''wayfinder_router_interrupted''
           | CodexUsageLimitReached \<Rightarrow> lit ''wayfinder_router_usage_limited''
           | _ \<Rightarrow> lit ''wayfinder_router_upstream_error'')
      | _ \<Rightarrow> lit ''wayfinder_router_upstream_error'')"

section \<open>Relay context\<close>

text \<open>
  The environment of a relay: the clock since the attempt started, the JSON reader and writer, what runs
  while the next chunk is awaited, the accounting of a finished stream (the route, the request and the
  number of characters of the completion, with the reservations and the canary's guard of the request)
  and the release of the reservations and the guard when they are dropped without being accounted.
\<close>

record 'w relay_world =
  rw_world :: "'w stream_world"
  rw_elapsed :: "delivery_state \<times> 'w \<Rightarrow> f64"
  rw_from_str :: "str \<Rightarrow> json option"
  rw_to_string :: "json \<Rightarrow> str option"
  rw_pull :: "delivery_state \<times> 'w \<Rightarrow> delivery_state \<times> 'w"
  rw_account :: "str \<Rightarrow> str \<Rightarrow> u64 \<Rightarrow> delivery_state \<times> 'w \<Rightarrow> delivery_state \<times> 'w"
  rw_release :: "str \<Rightarrow> delivery_state \<times> 'w \<Rightarrow> delivery_state \<times> 'w"

record relay_context =
  rc_target_name :: str
  rc_target_id :: str
  rc_request_id :: str
  rc_decoder :: sse_decoder
  rc_completion_chars :: u64
  rc_ttft :: "f64 option"
  rc_signal_recorded :: bool
  rc_initial_event :: "bytes option"
  rc_attempt :: "combined_attempt option"
  rc_guards :: bool

definition relay_new :: "established \<Rightarrow> str \<Rightarrow> bytes option \<Rightarrow> relay_context" where
  "relay_new e request_id initial_event =
     \<lparr>rc_target_name = ed_served_by e, rc_target_id = ed_served_by_id e, rc_request_id = request_id, rc_decoder = sse_default,
      rc_completion_chars = 0, rc_ttft = None, rc_signal_recorded = False, rc_initial_event = initial_event,
      rc_attempt = Some (ed_attempt e), rc_guards = True\<rparr>"

section \<open>Observing the events\<close>

definition choice_content :: "json \<Rightarrow> str option" where
  "choice_content choice =
     Option.bind (Option.bind (jget choice (lit ''delta'')) as_object)
       (\<lambda>delta. Option.bind (map_of delta (lit ''content'')) as_str)"

definition event_contents :: "(str \<Rightarrow> json option) \<Rightarrow> sse_event \<Rightarrow> str list" where
  "event_contents from_str e =
     (if trim (decode_utf8 (ev_data e)) = lit ''[DONE]'' then []
      else case Option.bind (from_str (decode_utf8 (ev_data e))) (\<lambda>v. Option.bind (jget v (lit ''choices'')) as_array) of
             None \<Rightarrow> []
           | Some choices \<Rightarrow> List.map_filter choice_content choices)"

fun observe_contents :: "f64 \<Rightarrow> str list \<Rightarrow> u64 \<times> f64 option \<Rightarrow> u64 \<times> f64 option" where
  "observe_contents elapsed [] acc = acc"
| "observe_contents elapsed (content # rest) (chars, ttft) =
     observe_contents elapsed rest
       (sat_add chars (length content), if content \<noteq> [] \<and> ttft = None then Some elapsed else ttft)"

fun observe_stream_events :: "(str \<Rightarrow> json option) \<Rightarrow> f64 \<Rightarrow> sse_event list \<Rightarrow> u64 \<times> f64 option \<Rightarrow> u64 \<times> f64 option" where
  "observe_stream_events from_str elapsed [] acc = acc"
| "observe_stream_events from_str elapsed (e # es) acc =
     observe_stream_events from_str elapsed es (observe_contents elapsed (event_contents from_str e) acc)"

definition observe_events :: "'w relay_world \<Rightarrow> sse_event list \<Rightarrow> relay_context \<Rightarrow> delivery_state \<times> 'w \<Rightarrow> relay_context" where
  "observe_events w es ctx s =
     (case observe_stream_events (rw_from_str w) (rw_elapsed w s) es (rc_completion_chars ctx, rc_ttft ctx) of
        (chars, ttft) \<Rightarrow> ctx\<lparr>rc_completion_chars := chars, rc_ttft := ttft\<rparr>)"

section \<open>The end of a stream\<close>

definition finish_stream_success :: "'w relay_world \<Rightarrow> relay_context \<Rightarrow> delivery_state \<times> 'w \<Rightarrow> relay_context \<times> delivery_state \<times> 'w" where
  "finish_stream_success w ctx s =
     (let env = sw_env (rw_world w); elapsed = rw_elapsed w s;
          throughput = (if 0 < rc_completion_chars ctx \<and> Fin 0 < elapsed
                        then Some (f64_of_nat (rc_completion_chars ctx) div elapsed) else None);
          s1 = observe_deployment env (rc_target_id ctx) (observation_success elapsed (rc_ttft ctx) throughput) s;
          s2 = (case rc_attempt ctx of None \<Rightarrow> s1 | Some a \<Rightarrow> snd (complete_combined env (rc_request_id ctx) a True s1));
          s3 = rw_account w (rc_target_name ctx) (rc_request_id ctx) (rc_completion_chars ctx) s2
      in (ctx\<lparr>rc_signal_recorded := True, rc_attempt := None, rc_guards := False\<rparr>,
          sw_receipt (rw_world w) (rc_request_id ctx) (ReceiptOutcome RSucceeded (Some 200) None) s3))"

definition failure_bytes :: "'w relay_world \<Rightarrow> str \<Rightarrow> str \<Rightarrow> bytes" where
  "failure_bytes w message error_type =
     lit ''data: '' @
     (case rw_to_string w (obj [(''error'', obj [(''message'', JString message), (''type'', JString error_type)])]) of
        None \<Rightarrow> lit ''{\"error\":{\"message\":\"upstream error\",\"type\":\"wayfinder_router_upstream_error\"}}''
      | Some t \<Rightarrow> into_bytes t) @ [10, 10] @ lit ''data: [DONE]'' @ [10, 10]"

definition stream_failure_chunk ::
  "'w relay_world \<Rightarrow> str \<Rightarrow> str \<Rightarrow> bool \<Rightarrow> relay_context \<Rightarrow> delivery_state \<times> 'w \<Rightarrow> bytes \<times> relay_context \<times> delivery_state \<times> 'w" where
  "stream_failure_chunk w message error_type affects_reliability ctx s =
     (let env = sw_env (rw_world w); rid = rc_request_id ctx;
          s1 = sw_receipt (rw_world w) rid (ReceiptOutcome RFailed None (Some error_type)) s;
          s2 = (if rc_signal_recorded ctx then s1
                else observe_deployment env (rc_target_id ctx) (observation_failure (Some (rw_elapsed w s1)) None) s1);
          s3 = (case rc_attempt ctx of
                  None \<Rightarrow> s2
                | Some a \<Rightarrow> if affects_reliability then snd (complete_combined env rid a False s2) else release_combined env rid a s2)
      in (failure_bytes w message error_type, ctx\<lparr>rc_signal_recorded := True, rc_attempt := None\<rparr>, s3))"

text \<open>Dropping the context: its destructor, then its fields.\<close>

definition drop_context :: "'w relay_world \<Rightarrow> relay_context \<Rightarrow> delivery_state \<times> 'w \<Rightarrow> delivery_state \<times> 'w" where
  "drop_context w ctx s =
     (let rid = rc_request_id ctx;
          s1 = (if rc_signal_recorded ctx then s
                else sw_receipt (rw_world w) rid (ReceiptOutcome RCancelled None (Some (lit ''wayfinder_router_cancelled''))) s);
          s2 = (case rc_attempt ctx of None \<Rightarrow> s1 | Some a \<Rightarrow> drop_combined (sw_env (rw_world w)) rid a s1)
      in if rc_guards ctx then rw_release w rid s2 else s2)"

section \<open>The body\<close>

type_synonym upstream = "(delivery_error, bytes) result list"

definition fail_stream ::
  "'w relay_world \<Rightarrow> str \<Rightarrow> str \<Rightarrow> bool \<Rightarrow> relay_context \<Rightarrow> delivery_state \<times> 'w \<Rightarrow>
   (bytes \<times> (relay_context \<times> upstream) option) option \<times> delivery_state \<times> 'w" where
  "fail_stream w message error_type affects ctx s =
     (case stream_failure_chunk w message error_type affects ctx s of
        (chunk, ctx', s') \<Rightarrow> (Some (chunk, None), drop_context w ctx' s'))"

text \<open>One pull of the client: a chunk and what is left to relay, or the end of the body.\<close>

definition relay_next ::
  "'w relay_world \<Rightarrow> relay_context \<Rightarrow> upstream \<Rightarrow> delivery_state \<times> 'w \<Rightarrow>
   (bytes \<times> (relay_context \<times> upstream) option) option \<times> delivery_state \<times> 'w" where
  "relay_next w ctx up s =
     (case rc_initial_event ctx of
        Some event \<Rightarrow> (Some (event, Some (ctx\<lparr>rc_initial_event := None\<rparr>, up)), s)
      | None \<Rightarrow>
          (let s1 = rw_pull w s in
           case up of
             Inr chunk # rest \<Rightarrow>
               (case Sse.push (rc_decoder ctx) chunk of
                  (Inr es, d) \<Rightarrow> (Some (chunk, Some (observe_events w es (ctx\<lparr>rc_decoder := d\<rparr>) s1, rest)), s1)
                | (Inl e, d) \<Rightarrow>
                    fail_stream w (sse_error_text e) (lit ''wayfinder_router_upstream_error'') True (ctx\<lparr>rc_decoder := d\<rparr>) s1)
           | Inl e # _ \<Rightarrow>
               fail_stream w (delivery_error_text e) (stream_failure_type e) (stream_failure_affects_reliability e) ctx s1
           | [] \<Rightarrow>
               (case Sse.finish (rc_decoder ctx) of
                  (Inr es, d) \<Rightarrow>
                    (case finish_stream_success w (observe_events w es (ctx\<lparr>rc_decoder := d\<rparr>) s1) s1 of
                       (ctx', s2) \<Rightarrow> (None, drop_context w ctx' s2))
                | (Inl e, d) \<Rightarrow>
                    fail_stream w (sse_error_text e) (lit ''wayfinder_router_upstream_error'') True (ctx\<lparr>rc_decoder := d\<rparr>) s1)))"

text \<open>A client that pulls at most \<open>n\<close> chunks and then goes away.\<close>

fun relay_run ::
  "'w relay_world \<Rightarrow> nat \<Rightarrow> (relay_context \<times> upstream) option \<Rightarrow> delivery_state \<times> 'w \<Rightarrow> bytes list \<times> delivery_state \<times> 'w" where
  "relay_run w n None s = ([], s)"
| "relay_run w 0 (Some (ctx, up)) s = ([], drop_context w ctx s)"
| "relay_run w (Suc n) (Some (ctx, up)) s =
     (case relay_next w ctx up s of
        (None, s') \<Rightarrow> ([], s')
      | (Some (chunk, rest), s') \<Rightarrow> (case relay_run w n rest s' of (chunks, s'') \<Rightarrow> (chunk # chunks, s'')))"

section \<open>What the client receives\<close>

text \<open>The chunks of the body in terms of the upstream alone.\<close>

definition broken_bytes :: "'w relay_world \<Rightarrow> sse_decode_error \<Rightarrow> bytes" where
  "broken_bytes w e = failure_bytes w (sse_error_text e) (lit ''wayfinder_router_upstream_error'')"

fun relayed :: "'w relay_world \<Rightarrow> sse_decoder \<Rightarrow> upstream \<Rightarrow> bytes list" where
  "relayed w d [] = (case fst (Sse.finish d) of Inl e \<Rightarrow> [broken_bytes w e] | Inr _ \<Rightarrow> [])"
| "relayed w d (Inl e # up) = [failure_bytes w (delivery_error_text e) (stream_failure_type e)]"
| "relayed w d (Inr chunk # up) =
     (case Sse.push d chunk of (Inl e, _) \<Rightarrow> [broken_bytes w e] | (Inr _, d') \<Rightarrow> chunk # relayed w d' up)"

text \<open>Whether the upstream ends without an error.\<close>

fun upstream_ends :: "sse_decoder \<Rightarrow> upstream \<Rightarrow> bool" where
  "upstream_ends d [] = (case fst (Sse.finish d) of Inl _ \<Rightarrow> False | Inr _ \<Rightarrow> True)"
| "upstream_ends d (Inl _ # up) = False"
| "upstream_ends d (Inr chunk # up) = (case Sse.push d chunk of (Inl _, _) \<Rightarrow> False | (Inr _, d') \<Rightarrow> upstream_ends d' up)"

definition body_chunks :: "'w relay_world \<Rightarrow> relay_context \<Rightarrow> upstream \<Rightarrow> bytes list" where
  "body_chunks w ctx up = (case rc_initial_event ctx of None \<Rightarrow> [] | Some e \<Rightarrow> [e]) @ relayed w (rc_decoder ctx) up"

lemma observe_events_keeps:
  "rc_initial_event (observe_events w es ctx s) = rc_initial_event ctx"
  "rc_decoder (observe_events w es ctx s) = rc_decoder ctx"
  "rc_attempt (observe_events w es ctx s) = rc_attempt ctx"
  "rc_signal_recorded (observe_events w es ctx s) = rc_signal_recorded ctx"
  "rc_request_id (observe_events w es ctx s) = rc_request_id ctx"
  "rc_target_name (observe_events w es ctx s) = rc_target_name ctx"
  "rc_guards (observe_events w es ctx s) = rc_guards ctx"
  by (simp_all add: observe_events_def split: prod.splits)

lemma fail_stream_chunk: "fst (fail_stream w message ty affects ctx s) = Some (failure_bytes w message ty, None)"
  by (simp add: fail_stream_def stream_failure_chunk_def Let_def)

text \<open>A pull that fails the stream: the chunk in place of the failed one, and the end of the relay.\<close>

definition fails_with ::
  "'w relay_world \<Rightarrow> relay_context \<Rightarrow> upstream \<Rightarrow> delivery_state \<times> 'w \<Rightarrow> str \<Rightarrow> str \<Rightarrow> bool \<Rightarrow> sse_decoder \<Rightarrow> bool" where
  "fails_with w ctx up s message ty affects d \<longleftrightarrow>
     relayed w (rc_decoder ctx) up = [failure_bytes w message ty] \<and> \<not> upstream_ends (rc_decoder ctx) up \<and>
     (rc_initial_event ctx = None \<longrightarrow> relay_next w ctx up s = fail_stream w message ty affects (ctx\<lparr>rc_decoder := d\<rparr>) (rw_pull w s))"

text \<open>What is next of the upstream: a failure, a chunk or the end.\<close>

lemma upstream_next:
  obtains (failure) message ty affects d where "fails_with w ctx up s message ty affects d"
  | (chunk) chunk rest es d where "up = Inr chunk # rest" "Sse.push (rc_decoder ctx) chunk = (Inr es, d)"
  | (ended) es d where "up = []" "Sse.finish (rc_decoder ctx) = (Inr es, d)"
proof (cases up)
  case Nil
  obtain x d where x: "Sse.finish (rc_decoder ctx) = (x, d)" by (meson surj_pair)
  show thesis
  proof (cases x)
    case (Inl e)
    show thesis
      by (rule failure [of "sse_error_text e" "lit ''wayfinder_router_upstream_error''" True d])
        (use Inl Nil x in \<open>simp add: fails_with_def broken_bytes_def relay_next_def Let_def\<close>)
  next
    case (Inr es)
    then show thesis using Nil x ended by simp
  qed
next
  case (Cons y rest)
  show thesis
  proof (cases y)
    case (Inl e)
    show thesis
      by (rule failure [of "delivery_error_text e" "stream_failure_type e" "stream_failure_affects_reliability e" "rc_decoder ctx"])
        (use Inl Cons in \<open>simp add: fails_with_def relay_next_def Let_def\<close>)
  next
    case (Inr c)
    obtain x d where x: "Sse.push (rc_decoder ctx) c = (x, d)" by (meson surj_pair)
    show thesis
    proof (cases x)
      case (Inl e)
      show thesis
        by (rule failure [of "sse_error_text e" "lit ''wayfinder_router_upstream_error''" True d])
          (use Inl Inr Cons x in \<open>simp add: fails_with_def broken_bytes_def relay_next_def Let_def\<close>)
    next
      case (Inr es)
      then show thesis using \<open>y = Inr c\<close> Cons x chunk by simp
    qed
  qed
qed

text \<open>The four ways a pull goes: the routing event, a chunk, a failure and the end.\<close>

lemma relay_next_cases:
  assumes "relay_next w ctx up s = (r, s')"
  obtains (initial) event where "rc_initial_event ctx = Some event" "r = Some (event, Some (ctx\<lparr>rc_initial_event := None\<rparr>, up))" "s' = s"
  | (chunk) chunk rest es d where "rc_initial_event ctx = None" "up = Inr chunk # rest" "Sse.push (rc_decoder ctx) chunk = (Inr es, d)"
      "r = Some (chunk, Some (observe_events w es (ctx\<lparr>rc_decoder := d\<rparr>) s', rest))" "s' = rw_pull w s"
  | (failure) message ty affects d where "rc_initial_event ctx = None" "relayed w (rc_decoder ctx) up = [failure_bytes w message ty]"
      "\<not> upstream_ends (rc_decoder ctx) up" "r = Some (failure_bytes w message ty, None)"
      "s' = snd (fail_stream w message ty affects (ctx\<lparr>rc_decoder := d\<rparr>) (rw_pull w s))"
  | (ended) es d where "rc_initial_event ctx = None" "up = []" "Sse.finish (rc_decoder ctx) = (Inr es, d)" "r = None"
      "s' = (case finish_stream_success w (observe_events w es (ctx\<lparr>rc_decoder := d\<rparr>) (rw_pull w s)) (rw_pull w s) of
               (ctx', s2) \<Rightarrow> drop_context w ctx' s2)"
proof (cases "rc_initial_event ctx")
  case (Some e)
  then show thesis using assms initial by (simp add: relay_next_def)
next
  case None
  show thesis
  proof (cases rule: upstream_next [of w ctx up s])
    case broke: (failure message ty affects d)
    then have "fail_stream w message ty affects (ctx\<lparr>rc_decoder := d\<rparr>) (rw_pull w s) = (r, s')"
      using assms None by (simp add: fails_with_def)
    then have "r = Some (failure_bytes w message ty, None)"
      "s' = snd (fail_stream w message ty affects (ctx\<lparr>rc_decoder := d\<rparr>) (rw_pull w s))"
      using fail_stream_chunk by (metis fst_conv, simp)
    then show thesis using broke None failure by (simp add: fails_with_def)
  next
    case more: (chunk c rest es d)
    then show thesis using assms None by (intro chunk [OF None]) (auto simp: relay_next_def Let_def)
  next
    case over: (ended es d)
    then show thesis using assms None by (intro ended [OF None, of es d]) (auto simp: relay_next_def Let_def split: prod.splits)
  qed
qed

text \<open>A pull gives the next chunk of the body and leaves the rest.\<close>

lemma relay_next_chunks:
  assumes "relay_next w ctx up s = (r, s')"
  shows "body_chunks w ctx up =
    (case r of None \<Rightarrow> [] | Some (chunk, None) \<Rightarrow> [chunk] | Some (chunk, Some (ctx', up')) \<Rightarrow> chunk # body_chunks w ctx' up')"
  using assms by (cases rule: relay_next_cases) (simp_all add: body_chunks_def observe_events_keeps)

text \<open>
  C24. The relay is verbatim: whatever the clocks, the providers and other requests do, a client that pulls
  \<open>n\<close> chunks receives the first \<open>n\<close> of this list: the routing event, if the request asked for one, then
  the upstream's own chunks as they came, and, if the upstream breaks off or its events cannot be
  decoded, one final chunk that tells so in place of the chunk that failed.
\<close>

theorem relay_is_verbatim:
  "fst (relay_run w n (Some (ctx, up)) s) =
     take n ((case rc_initial_event ctx of None \<Rightarrow> [] | Some e \<Rightarrow> [e]) @ relayed w (rc_decoder ctx) up)"
proof -
  have "fst (relay_run w n phase s) = take n (case phase of None \<Rightarrow> [] | Some (ctx, up) \<Rightarrow> body_chunks w ctx up)" for phase
  proof (induction w n phase s rule: relay_run.induct)
    case (3 w n ctx up s)
    show ?case
      using "3.IH" relay_next_chunks [of w ctx up s] by (cases "relay_next w ctx up s") (auto split: option.splits prod.splits)
  qed simp_all
  from this [of "Some (ctx, up)"] show ?thesis by (simp add: body_chunks_def)
qed

section \<open>The lease of the attempt\<close>

declare split_paired_All [simp del] split_paired_Ex [simp del]

definition respects_relay :: "'w relay_world \<Rightarrow> ('w \<Rightarrow> lease list) \<Rightarrow> bool" where
  "respects_relay w others \<longleftrightarrow>
     respects_opens (rw_world w) others \<and>
     (\<forall>mine s. leases_ok others mine s \<longrightarrow> leases_ok others mine (rw_pull w s)) \<and>
     (\<forall>mine s route rid chars. leases_ok others mine s \<longrightarrow> leases_ok others mine (rw_account w route rid chars s)) \<and>
     (\<forall>mine s rid. leases_ok others mine s \<longrightarrow> leases_ok others mine (rw_release w rid s))"

lemma respects_relayD:
  assumes "respects_relay w others"
  shows "respects_leases (sw_env (rw_world w)) others"
    and "leases_ok others mine s \<Longrightarrow> leases_ok others mine (sw_receipt (rw_world w) rid u s)"
    and "leases_ok others mine s \<Longrightarrow> leases_ok others mine (rw_pull w s)"
    and "leases_ok others mine s \<Longrightarrow> leases_ok others mine (rw_account w route rid chars s)"
    and "leases_ok others mine s \<Longrightarrow> leases_ok others mine (rw_release w rid s)"
  using assms by (auto simp: respects_relay_def dest: respects_opensD)

definition context_leases :: "relay_context \<Rightarrow> lease list" where
  "context_leases ctx = (case rc_attempt ctx of None \<Rightarrow> [] | Some a \<Rightarrow> [fst a])"

lemma drop_context_leases:
  assumes "respects_relay w others" "leases_ok others (context_leases ctx) s"
  shows "leases_ok others [] (drop_context w ctx s)"
proof -
  note D = respects_relayD [OF assms(1)]
  define s1 where "s1 = (if rc_signal_recorded ctx then s
    else sw_receipt (rw_world w) (rc_request_id ctx) (ReceiptOutcome RCancelled None (Some (lit ''wayfinder_router_cancelled''))) s)"
  have "leases_ok others (context_leases ctx) s1" using assms(2) D(2) by (simp add: s1_def)
  then have "leases_ok others [] (case rc_attempt ctx of None \<Rightarrow> s1 | Some a \<Rightarrow> drop_combined (sw_env (rw_world w)) (rc_request_id ctx) a s1)"
    using drop_combined_leases [OF D(1), of "[]" _ "[]" s1] by (auto simp: context_leases_def split: option.splits)
  then show ?thesis unfolding drop_context_def Let_def s1_def [symmetric] by (simp add: D(5))
qed

lemma fail_stream_leases:
  assumes "respects_relay w others" "leases_ok others (context_leases ctx) s"
  shows "leases_ok others [] (snd (fail_stream w message ty affects ctx s))"
proof -
  note D = respects_relayD [OF assms(1)]
  obtain c ctx' s' where run: "stream_failure_chunk w message ty affects ctx s = (c, ctx', s')" by (metis prod.exhaust)
  let ?s1 = "sw_receipt (rw_world w) (rc_request_id ctx) (ReceiptOutcome RFailed None (Some ty)) s"
  have "leases_ok others (context_leases ctx) ?s1" using assms(2) D(2) by blast
  then have "leases_ok others [] s' \<and> context_leases ctx' = []"
    using run
    by (auto simp: stream_failure_chunk_def Let_def context_leases_def leases_ok_observe split: option.splits if_splits
        intro!: complete_combined_leases(1) [OF D(1)] release_combined_leases [OF D(1)])
  then show ?thesis using drop_context_leases [OF assms(1)] run by (simp add: fail_stream_def)
qed

lemma finish_success_leases:
  assumes "respects_relay w others" "leases_ok others (context_leases ctx) s" "finish_stream_success w ctx s = (ctx', s')"
  shows "leases_ok others [] s'" "context_leases ctx' = []"
proof -
  note D = respects_relayD [OF assms(1)]
  have "leases_ok others [] (case rc_attempt ctx of
        None \<Rightarrow> observe_deployment (sw_env (rw_world w)) (rc_target_id ctx) ob s
      | Some a \<Rightarrow> snd (complete_combined (sw_env (rw_world w)) (rc_request_id ctx) a True
          (observe_deployment (sw_env (rw_world w)) (rc_target_id ctx) ob s)))" for ob
    using assms(2)
    by (auto simp: context_leases_def leases_ok_observe split: option.splits intro!: complete_combined_leases(1) [OF D(1)])
  then show "leases_ok others [] s'"
    using assms(3) unfolding finish_stream_success_def Let_def by (auto intro!: D(2,4) simp del: lit_Cons)
  show "context_leases ctx' = []" using assms(3) by (auto simp: finish_stream_success_def Let_def context_leases_def)
qed

lemma relay_next_leases:
  assumes "respects_relay w others" "leases_ok others (context_leases ctx) s" "relay_next w ctx up s = (r, s')"
  shows "leases_ok others (case r of Some (_, Some (ctx', _)) \<Rightarrow> context_leases ctx' | _ \<Rightarrow> []) s'"
  using assms(3)
proof (cases rule: relay_next_cases)
  case (initial event)
  then show ?thesis using assms(2) by (simp add: context_leases_def)
next
  case (chunk chunk rest es d)
  then show ?thesis
    using respects_relayD(3) [OF assms(1,2)] by (simp add: context_leases_def observe_events_keeps)
next
  case (failure message ty affects d)
  have "leases_ok others (context_leases (ctx\<lparr>rc_decoder := d\<rparr>)) (rw_pull w s)"
    using respects_relayD(3) [OF assms(1,2)] by (simp add: context_leases_def)
  then show ?thesis using fail_stream_leases [OF assms(1)] failure by simp
next
  case (ended es d)
  let ?ctx = "observe_events w es (ctx\<lparr>rc_decoder := d\<rparr>) (rw_pull w s)"
  obtain ctx' s2 where fin: "finish_stream_success w ?ctx (rw_pull w s) = (ctx', s2)" by (meson surj_pair)
  have "leases_ok others (context_leases ?ctx) (rw_pull w s)"
    using respects_relayD(3) [OF assms(1,2)] by (simp add: context_leases_def observe_events_keeps)
  then show ?thesis
    using finish_success_leases [OF assms(1) _ fin] drop_context_leases [OF assms(1)] ended fin by simp
qed

lemma relay_run_leases:
  assumes "respects_relay w others" "leases_ok others (case phase of None \<Rightarrow> [] | Some (ctx, _) \<Rightarrow> context_leases ctx) s"
  shows "leases_ok others [] (snd (relay_run w n phase s))"
  using assms
proof (induction w n phase s rule: relay_run.induct)
  case (2 w ctx up s)
  then show ?case using drop_context_leases by simp
next
  case (3 w n ctx up s)
  then show ?case
    using relay_next_leases [OF "3.prems"(1), of ctx s up] by (cases "relay_next w ctx up s") (auto split: option.splits prod.splits)
qed simp


section \<open>How a stream is settled\<close>

text \<open>The characters of the text that the events of the upstream carry.\<close>

definition content_length :: "(str \<Rightarrow> json option) \<Rightarrow> sse_event list \<Rightarrow> nat" where
  "content_length from_str es = sum_list (map length (concat (map (event_contents from_str) es)))"

fun upstream_length :: "(str \<Rightarrow> json option) \<Rightarrow> sse_decoder \<Rightarrow> upstream \<Rightarrow> nat" where
  "upstream_length from_str d [] = (case fst (Sse.finish d) of Inl _ \<Rightarrow> 0 | Inr es \<Rightarrow> content_length from_str es)"
| "upstream_length from_str d (Inl _ # up) = 0"
| "upstream_length from_str d (Inr chunk # up) =
     (case Sse.push d chunk of (Inl _, _) \<Rightarrow> 0 | (Inr es, d') \<Rightarrow> content_length from_str es + upstream_length from_str d' up)"

lemma observe_contents_chars:
  "c \<le> u64_max \<Longrightarrow> fst (observe_contents elapsed cs (c, t)) = min (c + sum_list (map length cs)) u64_max"
proof (induction cs arbitrary: c t)
  case (Cons a cs)
  then show ?case using Cons.IH [of "sat_add c (length a)"] by (simp add: sat_add_def)
qed simp

lemma observe_stream_events_chars:
  "fst acc \<le> u64_max \<Longrightarrow> fst (observe_stream_events from_str elapsed es acc) = min (fst acc + content_length from_str es) u64_max"
proof (induction es arbitrary: acc)
  case (Cons e es)
  obtain c t where acc: "acc = (c, t)" by fastforce
  let ?cs = "event_contents from_str e"
  have "fst (observe_contents elapsed ?cs (c, t)) = min (c + sum_list (map length ?cs)) u64_max"
    using Cons.prems acc by (simp add: observe_contents_chars)
  then show ?case using Cons.IH [of "observe_contents elapsed ?cs (c, t)"] acc by (simp add: content_length_def)
qed (simp add: content_length_def)

lemma observe_events_chars:
  "rc_completion_chars ctx \<le> u64_max \<Longrightarrow>
   rc_completion_chars (observe_events w es ctx s) = min (rc_completion_chars ctx + content_length (rw_from_str w) es) u64_max"
  using observe_stream_events_chars [of "(rc_completion_chars ctx, rc_ttft ctx)" "rw_from_str w" "rw_elapsed w s" es]
  by (auto simp: observe_events_def split: prod.splits)

text \<open>
  \<open>receipts\<close> and \<open>accounts\<close> read off the world the updates of the receipt of this request and the streams
  that were accounted for it.
\<close>

definition records_relay ::
  "'w relay_world \<Rightarrow> ('w \<Rightarrow> receipt_update list) \<Rightarrow> ('w \<Rightarrow> (str \<times> str \<times> u64) list) \<Rightarrow> bool" where
  "records_relay w receipts accounts \<longleftrightarrow>
     (\<forall>rid u s. receipts (snd (sw_receipt (rw_world w) rid u s)) = receipts (snd s) @ [u] \<and>
        accounts (snd (sw_receipt (rw_world w) rid u s)) = accounts (snd s)) \<and>
     (\<forall>route rid c s. receipts (snd (rw_account w route rid c s)) = receipts (snd s) \<and>
        accounts (snd (rw_account w route rid c s)) = accounts (snd s) @ [(route, rid, c)]) \<and>
     (\<forall>s. receipts (snd (rw_pull w s)) = receipts (snd s) \<and> accounts (snd (rw_pull w s)) = accounts (snd s)) \<and>
     (\<forall>rid s. receipts (snd (rw_release w rid s)) = receipts (snd s) \<and> accounts (snd (rw_release w rid s)) = accounts (snd s)) \<and>
     (\<forall>t p ok s. receipts (snd (env_health_complete (sw_env (rw_world w)) t p ok s)) = receipts (snd s) \<and>
        accounts (snd (env_health_complete (sw_env (rw_world w)) t p ok s)) = accounts (snd s)) \<and>
     (\<forall>t p s. receipts (snd (env_health_release (sw_env (rw_world w)) t p s)) = receipts (snd s) \<and>
        accounts (snd (env_health_release (sw_env (rw_world w)) t p s)) = accounts (snd s))"

definition books :: "('w \<Rightarrow> receipt_update list) \<Rightarrow> ('w \<Rightarrow> (str \<times> str \<times> u64) list) \<Rightarrow> delivery_state \<times> 'w \<Rightarrow>
    receipt_update list \<times> (str \<times> str \<times> u64) list" where
  "books receipts accounts s = (receipts (snd s), accounts (snd s))"

lemma records_relay_steps:
  assumes "records_relay w receipts accounts"
  shows "books receipts accounts (sw_receipt (rw_world w) rid u s) = (receipts (snd s) @ [u], accounts (snd s))"
    and "books receipts accounts (rw_account w route rid c s) = (receipts (snd s), accounts (snd s) @ [(route, rid, c)])"
    and "books receipts accounts (rw_pull w s) = books receipts accounts s"
    and "books receipts accounts (rw_release w rid s) = books receipts accounts s"
    and "books receipts accounts (observe_deployment env i ob s) = books receipts accounts s"
    and "books receipts accounts (snd (complete_combined (sw_env (rw_world w)) rid a ok s)) = books receipts accounts s"
    and "books receipts accounts (release_combined (sw_env (rw_world w)) rid a s) = books receipts accounts s"
    and "books receipts accounts (drop_combined (sw_env (rw_world w)) rid a s) = books receipts accounts s"
  using assms
  by (auto simp: books_def records_relay_def observe_deployment_def complete_combined_def release_combined_def drop_combined_def
      release_shared_def with_policy_def Let_def split: prod.splits)

lemma drop_context_books:
  assumes "records_relay w receipts accounts"
  shows "books receipts accounts (drop_context w ctx s) =
    (receipts (snd s) @ (if rc_signal_recorded ctx then [] else [ReceiptOutcome RCancelled None (Some (lit ''wayfinder_router_cancelled''))]),
     accounts (snd s))"
  unfolding drop_context_def Let_def
  by (cases "rc_attempt ctx") (simp_all add: records_relay_steps [OF assms] del: lit_Cons, simp_all add: books_def)

lemma fail_stream_books:
  assumes "records_relay w receipts accounts"
  shows "books receipts accounts (snd (fail_stream w message ty affects ctx s)) =
    (receipts (snd s) @ [ReceiptOutcome RFailed None (Some ty)], accounts (snd s))"
proof -
  obtain c ctx' s' where run: "stream_failure_chunk w message ty affects ctx s = (c, ctx', s')" by (metis prod.exhaust)
  have "rc_signal_recorded ctx'" using run by (auto simp: stream_failure_chunk_def Let_def)
  moreover have "books receipts accounts s' = (receipts (snd s) @ [ReceiptOutcome RFailed None (Some ty)], accounts (snd s))"
    using run by (auto simp: stream_failure_chunk_def Let_def records_relay_steps [OF assms] split: option.splits)
  ultimately show ?thesis using run by (simp add: fail_stream_def drop_context_books [OF assms]) (simp add: books_def)
qed

lemma finish_success_books:
  assumes "records_relay w receipts accounts"
  shows "books receipts accounts (case finish_stream_success w ctx s of (ctx', s') \<Rightarrow> drop_context w ctx' s') =
    (receipts (snd s) @ [ReceiptOutcome RSucceeded (Some 200) None],
     accounts (snd s) @ [(rc_target_name ctx, rc_request_id ctx, rc_completion_chars ctx)])"
proof -
  obtain ctx' s' where run: "finish_stream_success w ctx s = (ctx', s')" by (meson surj_pair)
  have "rc_signal_recorded ctx'" using run by (auto simp: finish_stream_success_def Let_def)
  moreover have "books receipts accounts s' = (receipts (snd s) @ [ReceiptOutcome RSucceeded (Some 200) None],
      accounts (snd s) @ [(rc_target_name ctx, rc_request_id ctx, rc_completion_chars ctx)])"
    using run assms
    by (auto simp: finish_stream_success_def Let_def books_def records_relay_def complete_combined_def observe_deployment_def
        with_policy_def split: option.splits prod.splits)
  ultimately show ?thesis using run by (simp add: drop_context_books [OF assms]) (simp add: books_def)
qed

text \<open>The books after a client has pulled \<open>n\<close> chunks of a stream.\<close>

definition settled ::
  "'w relay_world \<Rightarrow> nat \<Rightarrow> relay_context \<Rightarrow> upstream \<Rightarrow> receipt_update list \<times> (str \<times> str \<times> u64) list \<Rightarrow>
   receipt_update list \<times> (str \<times> str \<times> u64) list \<Rightarrow> bool" where
  "settled w n ctx up before after =
     (let chunks = length (body_chunks w ctx up) in
      if upstream_ends (rc_decoder ctx) up \<and> chunks < n
      then after = (fst before @ [ReceiptOutcome RSucceeded (Some 200) None],
             snd before @ [(rc_target_name ctx, rc_request_id ctx,
               min (rc_completion_chars ctx + upstream_length (rw_from_str w) (rc_decoder ctx) up) u64_max)])
      else \<exists>ty. after = (fst before @ [ReceiptOutcome (if \<not> upstream_ends (rc_decoder ctx) up \<and> chunks \<le> n then RFailed else RCancelled)
             None (Some ty)], snd before))"

lemma broken_is_told: "\<not> upstream_ends d up \<Longrightarrow> relayed w d up \<noteq> []"
  by (induction d up rule: upstream_ends.induct) (auto split: sum.splits prod.splits)

lemma settled_Suc:
  assumes "settled w n ctx' up' before after" "body_chunks w ctx up = c # body_chunks w ctx' up'"
    and "upstream_ends (rc_decoder ctx) up = upstream_ends (rc_decoder ctx') up'"
    and "rc_target_name ctx' = rc_target_name ctx" "rc_request_id ctx' = rc_request_id ctx"
    and "min (rc_completion_chars ctx + upstream_length (rw_from_str w) (rc_decoder ctx) up) u64_max =
         min (rc_completion_chars ctx' + upstream_length (rw_from_str w) (rc_decoder ctx') up') u64_max"
  shows "settled w (Suc n) ctx up before after"
  using assms by (simp add: settled_def Let_def)

lemma relay_run_Suc:
  "relay_next w ctx up s = (Some (c, phase), s') \<Longrightarrow> snd (relay_run w (Suc n) (Some (ctx, up)) s) = snd (relay_run w n phase s')"
  by (simp split: prod.splits)

lemma relay_run_settled:
  assumes "records_relay w receipts accounts" "\<not> rc_signal_recorded ctx" "rc_completion_chars ctx \<le> u64_max"
  shows "settled w n ctx up (books receipts accounts s) (books receipts accounts (snd (relay_run w n (Some (ctx, up)) s)))"
  using assms(2,3)
proof (induction n arbitrary: ctx up s)
  case 0
  show ?case
    using 0 broken_is_told [of "rc_decoder ctx" up w] drop_context_books [OF assms(1), of ctx s, unfolded books_def]
    by (auto simp: settled_def Let_def body_chunks_def books_def simp del: lit_Cons)
next
  case (Suc n)
  obtain r s' where step: "relay_next w ctx up s = (r, s')" by (meson surj_pair)
  then show ?case
  proof (cases rule: relay_next_cases)
    case (initial event)
    have "settled w n (ctx\<lparr>rc_initial_event := None\<rparr>) up (books receipts accounts s)
        (books receipts accounts (snd (relay_run w n (Some (ctx\<lparr>rc_initial_event := None\<rparr>, up)) s)))"
      by (rule Suc.IH) (use Suc.prems in simp_all)
    then show ?thesis
      using relay_run_Suc [OF step [unfolded initial(2,3)]] relay_next_chunks [OF step] initial
      by (intro settled_Suc [where c = event and ctx' = "ctx\<lparr>rc_initial_event := None\<rparr>" and up' = up]) simp_all
  next
    case (chunk chunk rest es d)
    let ?ctx = "observe_events w es (ctx\<lparr>rc_decoder := d\<rparr>) s'"
    have c: "rc_completion_chars ?ctx = min (rc_completion_chars ctx + content_length (rw_from_str w) es) u64_max"
      using observe_events_chars [of "ctx\<lparr>rc_decoder := d\<rparr>" w es s'] Suc.prems(2) by simp
    have total: "min (rc_completion_chars ctx + upstream_length (rw_from_str w) (rc_decoder ctx) up) u64_max =
        min (rc_completion_chars ?ctx + upstream_length (rw_from_str w) d rest) u64_max"
      using chunk(2,3) c by (auto simp: min_def)
    have "settled w n ?ctx rest (books receipts accounts s') (books receipts accounts (snd (relay_run w n (Some (?ctx, rest)) s')))"
      by (rule Suc.IH) (use Suc.prems c in \<open>simp_all add: observe_events_keeps\<close>)
    moreover have "books receipts accounts s' = books receipts accounts s" using chunk by (simp add: records_relay_steps [OF assms(1)])
    moreover have "body_chunks w ctx up = chunk # body_chunks w ?ctx rest" using relay_next_chunks [OF step] chunk by simp
    moreover have "snd (relay_run w (Suc n) (Some (ctx, up)) s) = snd (relay_run w n (Some (?ctx, rest)) s')"
      using relay_run_Suc step chunk(4) by blast
    ultimately show ?thesis
      using chunk total by (intro settled_Suc [where c = chunk and ctx' = ?ctx and up' = rest]) (simp_all add: observe_events_keeps)
  next
    case (failure message ty affects d)
    then show ?thesis
      using step fail_stream_books [OF assms(1), of message ty affects "ctx\<lparr>rc_decoder := d\<rparr>" "rw_pull w s"]
        records_relay_steps(3) [OF assms(1), of s]
      by (simp add: settled_def Let_def body_chunks_def books_def)
  next
    case (ended es d)
    let ?ctx = "observe_events w es (ctx\<lparr>rc_decoder := d\<rparr>) (rw_pull w s)"
    have c: "rc_completion_chars ?ctx = min (rc_completion_chars ctx + content_length (rw_from_str w) es) u64_max"
      using observe_events_chars [of "ctx\<lparr>rc_decoder := d\<rparr>" w es "rw_pull w s"] Suc.prems(2) by simp
    show ?thesis
      using ended step finish_success_books [OF assms(1), of ?ctx "rw_pull w s"] records_relay_steps(3) [OF assms(1), of s] c
      by (simp add: settled_def Let_def body_chunks_def books_def observe_events_keeps)
  qed
qed

lemma healthy_stream:
  assumes "push_all d cs = (Inr es, d')" "fst (Sse.finish d') = Inr es'"
  shows "upstream_ends d (map Inr cs)" "relayed w d (map Inr cs) = cs"
    "upstream_length from_str d (map Inr cs) = content_length from_str (es @ es')"
  using assms
proof (induction cs arbitrary: d es)
  case (Cons c cs)
  {
    case 1
    then show ?case using Cons.IH(1) by (auto split: prod.splits sum.splits)
  next
    case 2
    then show ?case using Cons.IH(2) by (auto split: prod.splits sum.splits)
  next
    case 3
    then show ?case using Cons.IH(3) by (auto simp: content_length_def split: prod.splits sum.splits)
  }
qed auto

text \<open>
  C26. A streamed request is settled exactly once, whenever the client stops pulling. Its receipt is closed by
  one update: with success if and only if the upstream ended without an error and the client pulled past
  its last chunk, with failure if and only if the client received the final error chunk, and as cancelled
  otherwise. Only a success is accounted, once, under the alias that served it, with the number of
  characters that the events of the whole stream carry.
\<close>

theorem stream_settled_once:
  assumes "records_relay w receipts accounts"
    and "relay_run w n (Some (relay_new e rid event, up)) s = (chunks, s')"
  shows "\<exists>oc st ty. receipts (snd s') = receipts (snd s) @ [ReceiptOutcome oc st ty] \<and>
    (oc = RSucceeded \<longleftrightarrow> upstream_ends sse_default up \<and> length (body_chunks w (relay_new e rid event) up) < n) \<and>
    (oc = RFailed \<longleftrightarrow> \<not> upstream_ends sse_default up \<and> length (body_chunks w (relay_new e rid event) up) \<le> n) \<and>
    oc \<in> {RSucceeded, RFailed, RCancelled} \<and>
    accounts (snd s') = accounts (snd s) @
      (if oc = RSucceeded then [(ed_served_by e, rid, min (upstream_length (rw_from_str w) sse_default up) u64_max)] else [])"
proof -
  let ?ctx = "relay_new e rid event"
  have ctx: "rc_decoder ?ctx = sse_default" "rc_completion_chars ?ctx = 0" "\<not> rc_signal_recorded ?ctx"
    "rc_target_name ?ctx = ed_served_by e" "rc_request_id ?ctx = rid"
    by (simp_all add: relay_new_def)
  have "settled w n ?ctx up (books receipts accounts s) (books receipts accounts s')"
    using relay_run_settled [OF assms(1), of ?ctx n up s] assms(2) ctx by simp
  then have after: "settled w n ?ctx up (receipts (snd s), accounts (snd s)) (receipts (snd s'), accounts (snd s'))"
    by (simp add: books_def)
  show ?thesis
  proof (cases "upstream_ends sse_default up \<and> length (body_chunks w ?ctx up) < n")
    case True
    then show ?thesis using after by (intro exI [of _ RSucceeded]) (auto simp: settled_def Let_def ctx)
  next
    case False
    then show ?thesis
      using after
      by (intro exI [of _ "if \<not> upstream_ends sse_default up \<and> length (body_chunks w ?ctx up) \<le> n then RFailed else RCancelled"])
        (auto simp: settled_def Let_def ctx)
  qed
qed

section \<open>A sample relay\<close>

text \<open>The world is the list of calls of the search, with the receipts and the accounts of the request.\<close>

type_synonym relay_log = "receipt_update list \<times> (str \<times> str \<times> u64) list"

definition log_env :: "relay_log delivery_env" where
  "log_env = \<lparr>env_send = (\<lambda>t s. ((Fin 1, Inl InvalidEndpoint), s)),
     env_sleep = (\<lambda>n s. s), env_now = (\<lambda>s. Fin 0), env_signal_now = (\<lambda>s. Fin 0), env_jitter = (\<lambda>s n. Fin 0),
     env_health_begin = None, env_health_complete = (\<lambda>t p ok s. s), env_health_release = (\<lambda>t p s. s)\<rparr>"

definition log_world :: "relay_log relay_world" where
  "log_world = \<lparr>rw_world = \<lparr>sw_env = log_env,
       sw_open = (\<lambda>t s. ((Fin 1, Inr \<lparr>ds_status = 200, ds_content_type = lit ''text/event-stream'', ds_items = map Inr sample_upstream\<rparr>), s)),
       sw_receipt = (\<lambda>rid u s. (fst s, fst (snd s) @ [u], snd (snd s))), sw_header_ok = (\<lambda>h. True)\<rparr>,
     rw_elapsed = (\<lambda>s. Fin 1), rw_from_str = sample_payload, rw_to_string = (\<lambda>v. None), rw_pull = (\<lambda>s. s),
     rw_account = (\<lambda>route rid c s. (fst s, fst (snd s), snd (snd s) @ [(route, rid, c)])), rw_release = (\<lambda>rid s. s)\<rparr>"

definition log_start :: "delivery_state \<times> relay_log" where
  "log_start = (fst sample_delivery, [], [])"

definition log_established :: established where
  "log_established = \<lparr>ed_served_by = [109], ed_served_by_id = [109], ed_boundary = OnDevice, ed_reason = lit ''weighted'',
     ed_stream = \<lparr>ds_status = 200, ds_content_type = lit ''text/event-stream'', ds_items = map Inr sample_upstream\<rparr>,
     ed_attempt = (([109], Closed), False)\<rparr>"

lemma log_records: "records_relay log_world fst snd"
  by (simp add: records_relay_def log_world_def log_env_def)

lemma sample_upstream_healthy:
  "upstream_ends sse_default (map Inr sample_upstream)" "relayed w sse_default (map Inr sample_upstream) = sample_upstream"
  "upstream_length from_str sse_default (map Inr sample_upstream) = content_length from_str sample_upstream_events"
  using healthy_stream [OF sample_upstream_decoded, of "[]"] by (simp_all add: sample_upstream_finished)

definition log_run :: "bytes list \<times> delivery_state \<times> relay_log" where
  "log_run = relay_run log_world 3 (Some (relay_new log_established [114] None, map Inr sample_upstream)) log_start"

theorem stream_settled_once_witness:
  "\<exists>st ty. snd (snd log_run) = ([ReceiptOutcome RSucceeded st ty], [([109], [114], 2)])"
proof -
  have "content_length sample_payload sample_upstream_events = 2"
    by (simp add: content_length_def sample_upstream_events_def event_contents_def trim_def is_whitespace_def sample_payload_def jget_def
        choice_content_def List.map_filter_simps)
  moreover have "length (body_chunks log_world (relay_new log_established [114] None) (map Inr sample_upstream)) = 2"
  proof -
    have "body_chunks log_world (relay_new log_established [114] None) (map Inr sample_upstream) = sample_upstream"
      using sample_upstream_healthy(2) by (simp add: body_chunks_def relay_new_def)
    then show ?thesis by (simp add: sample_upstream_def)
  qed
  moreover obtain s' chunks where run: "relay_run log_world 3 (Some (relay_new log_established [114] None, map Inr sample_upstream)) log_start =
      (chunks, s')"
    by (metis prod.exhaust)
  moreover have "rw_from_str log_world = sample_payload" by (simp add: log_world_def)
  moreover have "ed_served_by log_established = [109]" by (simp add: log_established_def)
  ultimately show ?thesis
    using stream_settled_once [OF log_records run] sample_upstream_healthy
    by (auto simp: log_run_def log_start_def u64_max_def prod_eq_iff)
qed

lemma log_respects: "respects_relay log_world (\<lambda>w. [])"
  by (auto simp: respects_relay_def respects_opens_def respects_leases_def log_world_def log_env_def leases_ok_def validated_now_def)

text \<open>The search of the sample finds the stream of the only target.\<close>

lemma log_target:
  "\<exists>e. stream_target sample_gateway (rw_world log_world) [114] [109] reason sample_model lst None log_start = (Go lst (Some e), log_start)"
proof -
  have "\<exists>x. target_loop sample_gateway (rw_world log_world) sample_model lst log_start = (Opened x, lst, log_start)"
    unfolding target_loop_def by (subst open_loop.simps) (simp add: log_world_def status_success_def)
  then obtain x where loop: "target_loop sample_gateway (rw_world log_world) sample_model lst log_start = (Opened x, lst, log_start)"
    by blast
  have "begin_reliability_attempt (sw_env (rw_world log_world)) (delivery_id sample_model) [114] log_start =
      (Inr (Some ((delivery_id sample_model, Closed), False)), log_start)"
    by (simp add: begin_reliability_attempt_def begin_local_def begin_attempt_def validated_now_def begin_at_def log_world_def log_env_def
        log_start_def sample_delivery_def with_policy_def breaker_default_def breaker_new_def)
  moreover have "cm_deployment_id sample_model = None" by (simp add: sample_model_def model_new_def)
  ultimately show ?thesis by (simp add: stream_target_eq loop finish_target_def Let_def drop_established_def)
qed

lemma log_alias:
  "\<exists>e. stream_alias sample_gateway (rw_world log_world) sample_request [114] True 10 [109] lst log_start = (Go lst (Some e), log_start)"
proof -
  have cand: "take_candidates sample_gateway [109] log_start = ([sample_model], log_start)"
    using sample_candidates by (auto simp: take_candidates_def log_start_def split: prod.splits dest: arg_cong [of _ _ fst])
  have "dl_signals (fst log_start) = []" by (simp add: log_start_def sample_delivery_def)
  then have "stream_alias sample_gateway (rw_world log_world) sample_request [114] True 10 [109] lst log_start =
      stream_targets sample_gateway (rw_world log_world) [114] [109]
        (sl_reason (select_deployments selection_policy_default (env_signal_now (sw_env (rw_world log_world)) log_start) [] [sample_model]))
        [sample_model] lst None log_start"
    by (simp add: stream_alias_def cand sample_target_eligible eligible_deployment_targets_def sample_policy sample_selected Let_def
        del: stream_targets.simps)
  then show ?thesis
    using log_target [of "sl_reason (select_deployments selection_policy_default (env_signal_now (sw_env (rw_world log_world)) log_start) []
      [sample_model])" lst] by auto
qed

lemma log_established_run:
  "\<exists>e b s'. streaming_chat_response sample_gateway (rw_world log_world) True [[109]] [109] True sample_request 10 [114] log_start =
     (StreamEstablished e b, s')"
proof -
  have "sw_header_ok (rw_world log_world) h" for h by (simp add: log_world_def)
  moreover obtain e where
    "stream_alias sample_gateway (rw_world log_world) sample_request [114] True 10 [109]
       (NotEstablished, 502, lit ''wayfinder_router_upstream_error'') log_start =
     (Go (NotEstablished, 502, lit ''wayfinder_router_upstream_error'') (Some e), log_start)" using log_alias by blast
  ultimately show ?thesis by (simp add: streaming_chat_response_def Let_def del: lit_Cons) blast
qed


end
