(* ===== verification/Spec2Isabelle.thy ===== *)
theory Spec2Isabelle
  imports Route_Plan Response_Cache Budget Sse Canary Calibration Reload Modalities Outcome_Policy Decision_Policy Delivery Control_Plane Operator_Auth Admission Provider_Delivery Messages_Stream Stream_Relay
begin

text \<open>
  Wayfinder Router is a gateway that scores a prompt without calling a model, chooses a tier of models
  from the score, and delivers the request to a provider under the operator's limits. This library
  models the deterministic parts of the Rust workspace (\<open>src/rust/crates\<close>) and proves what they promise.

  \<^bold>\<open>How the parts interact.\<close> A request passes the access policy (\<open>Access\<close>, \<open>Shared_Access\<close>: virtual keys,
  rate limits, token reservations) and the budgets (\<open>Budget\<close>, over the spend kept by \<open>Ledger\<close>); the
  modality boundary (\<open>Modalities\<close>) refuses bodies that are not text; the decision policy
  (\<open>Decision_Policy\<close>) picks the text to score and applies pins, directives, tuning and the sticky tier; the
  routing core (\<open>Text_Features\<close>, \<open>Scoring\<close>, \<open>Contracts\<close>, \<open>Route_Plan\<close>) scores it and plans the
  destinations; a canary rollout (\<open>Canary\<close>) may replace the route; deployments (\<open>Deployments\<close>) and the
  circuit breaker (\<open>Breaker\<close>) order the concrete targets and \<open>Delivery\<close> walks them, each attempt through
  the provider's client (\<open>Provider_Delivery\<close>), while \<open>Stream_Delivery\<close> looks for a stream and
  \<open>Stream_Relay\<close> passes it on; a Messages provider is spoken to in its own format
  (\<open>Anthropic_Native\<close>, \<open>Native_Stream\<close>), and a Messages client answered in its own (\<open>Anthropic_Messages\<close>,
  \<open>Messages_Stream\<close>); the response cache (\<open>Response_Cache\<close>) may answer
  instead; streamed answers are decoded by \<open>Sse\<close>; costs go to \<open>Pricing\<close> and \<open>Ledger\<close>; a receipt goes to
  \<open>Recent\<close>, from which \<open>Outcome_Policy\<close> proposes thresholds and \<open>Calibration\<close> learns them offline.
  Configuration is replaced through \<open>Reload\<close>, and policies are activated and rolled back by \<open>Control_Plane\<close>.

  \<^bold>\<open>Theories and sources.\<close>
    \<^item> \<open>Prelude\<close>: saturating and checked \<open>u64\<close> arithmetic, strings as lists of code points, the
      insertion-ordered and the key-ordered map with the interface \<open>keyed_store\<close>.
    \<^item> \<open>Binary64\<close>: IEEE binary64 with round-to-nearest-even as a datatype (exact rationals, signed zero,
      infinities, one NaN), its comparisons, total order and monotonicity lemmas. Every \<open>f64\<close> of the program
      is one of these values and every operation rounds.
    \<^item> \<open>Contracts\<close>, \<open>Text_Features\<close>, \<open>Scoring\<close>, \<open>Score_Bounds\<close>, \<open>Route_Plan\<close>, \<open>Calibration\<close>:
      \<open>wayfinder-runtime-contracts/src/lib.rs\<close>, \<open>wayfinder-routing-core/src/lib.rs\<close> and \<open>calibration.rs\<close>. Shown:
      eligibility is exactly the conjunction of its checks; Python-compatible rounding is decimal rounding;
      scores lie in the unit interval despite rounding errors; the chosen tier is the highest whose cut the
      score reaches; the classifier predicts an arg max; a plan is the ordered list of eligible
      destinations of the recommended tier and never leaves the privacy boundary; calibration returns a cut
      no candidate beats by more than its tolerance.
    \<^item> \<open>Breaker\<close>: \<open>wayfinder-providers/src/reliability.rs\<close> and \<open>wayfinder-gateway/src/reliability.rs\<close>, with
      the leases of attempts and their behaviour on drop as a step relation. Interface \<open>probe_gate\<close>.
    \<^item> \<open>Rate_Limit\<close>, \<open>State_Backend\<close>, \<open>Access\<close>, \<open>Shared_Access\<close>, \<open>Canary\<close>: \<open>rate_limit.rs\<close>, \<open>state.rs\<close>
      (memory backend), \<open>auth.rs\<close>, \<open>access.rs\<close>, \<open>canary.rs\<close> and the canary handlers of \<open>lib.rs\<close>. A backend is a
      record of operations, as the source's trait object is. Interfaces \<open>window_counter\<close>, \<open>undoable_scopes\<close>
      and its extension \<open>reservation_backend\<close>, \<open>stopping_backend\<close>, interpreted on the limiter, the local
      limiters, the memory backend. Shown: no window admits more than its limit; a reservation over several
      scopes is all or nothing; a tripped rollout stays stopped; an outcome is counted once.
    \<^item> \<open>Json\<close>, \<open>Response_Cache\<close>, \<open>Modalities\<close>, \<open>Decision_Policy\<close>: \<open>cache.rs\<close>, \<open>modalities.rs\<close>,
      \<open>decision_policy.rs\<close> over serde values.
    \<^item> \<open>Pricing\<close>, \<open>Ledger\<close>, \<open>Budget\<close>: \<open>wayfinder-service/src/pricing.rs\<close> and \<open>budget.rs\<close>.
    \<^item> \<open>Deployments\<close>, \<open>Sorting\<close>: \<open>deployment_selection.rs\<close> and the pool functions of the gateway's \<open>lib.rs\<close>.
    \<^item> \<open>Delivery\<close>: \<open>deliver_with_reliability\<close> of the gateway's \<open>lib.rs\<close> with its leases and observations, in an
      environment that may change the shared state at every await. Shown: content is sent only to targets
      inside the request's boundaries; the number of calls is bounded; every lease is returned; and when
      providers answer and the pre-flight check passed, so does the delivery.
    \<^item> \<open>Stream_Delivery\<close>, \<open>Stream_Relay\<close>: \<open>streaming_chat_response\<close> of the gateway's \<open>lib.rs\<close> and the relay it
      returns, up to a client that goes away after any chunk. Shown: content is sent only to targets inside
      the request's boundaries, but to every selected deployment of the alias that served it; the client
      reads the upstream's chunks verbatim; every lease is returned; the request is settled exactly once.
    \<^item> \<open>Control_Plane\<close>: \<open>control_plane.rs\<close>. Shown: a validated policy resolves every request; in every
      reachable state a rollback finds its snapshot; nothing changes without an audit record; and
      the snapshot a rollback restores from is never dropped.
    \<^item> \<open>Operator_Auth\<close>: \<open>operator_auth.rs\<close>. Shown: a request that passes the operator routes carries a
      proven identity; the key endpoint is not flooded. \<open>Admission\<close>: \<open>admission.rs\<close>. Shown: in every
      interleaving the two limits hold and no permit is lost.
    \<^item> \<open>Anthropic_Messages\<close>, \<open>Messages_Stream\<close>: \<open>wayfinder-providers/src/anthropic.rs\<close> and the relay of
      \<open>lib.rs\<close>. Shown: whatever the upstream sends, a client reads a complete Messages stream with the
      upstream's text, and the memory a stream can hold is bounded.
    \<^item> \<open>Anthropic_Native\<close>, \<open>Native_Stream\<close>: \<open>anthropic_native.rs\<close>. Shown: the turns of a translated request
      alternate and keep every block; an answer translated there and back keeps its content.
    \<^item> \<open>Provider_Delivery\<close>: \<open>openai_compat.rs\<close>, the client of \<open>anthropic_native.rs\<close> and the deliveries of
      \<open>delivery.rs\<close>. Shown: what is put on the wire goes to a plain origin with the configured key and
      model; bodies are bounded; a translated stream ends exactly once and keeps its text however the
      transport cuts it.
    \<^item> \<open>Sse\<close>, \<open>Utf8\<close>: \<open>wayfinder-providers/src/sse.rs\<close> and the text of its events. \<open>Reload\<close>: \<open>reload.rs\<close>. \<open>Recent\<close>: \<open>recent.rs\<close>.
      \<open>Outcome_Policy\<close>: \<open>outcome_policy.rs\<close>.

  \<^bold>\<open>Conventions.\<close> A struct is a record, an enum a datatype, \<open>Result\<close> a sum with the error on the left, a
  method with \<open>&mut self\<close> or a mutex a function that returns the new state; a critical section is one step,
  so an interleaving of requests is a sequence of steps. Loops are structural recursions or folds;
  no fuel is used. The texts of error messages are reduced to the data they carry.

  \<^bold>\<open>Parameters.\<close> Code outside the repository is an argument: the compiled regular expressions
  (\<open>patterns\<close>), SHA-256 (\<open>digest\<close>), the JSON library (\<open>to_string\<close>, \<open>from_str\<close>), the HTTP transport, URL parsing, Unicode lower-casing, the URL classifiers, clocks
  and the Redis backend. Hypotheses on them are stated where they are used and instantiated in the
  witness.

  \<^bold>\<open>Not modelled.\<close> HTTP routing, the accounting of a finished request and the worker threads behind the streams of
  the two local services (\<open>lib.rs\<close> and \<open>delivery.rs\<close> in part, \<open>server.rs\<close>): network I/O and channels. The Redis backend: Lua scripts run by a server. Metrics, traces, audit files,
  command line, service units, FFI and XPC bridges: I/O and platform glue. TOML
  loading: a parser library; the records the components read are modelled with them.
\<close>

end
